(* ===== verification/Prelude.thy ===== *)
theory Prelude
  imports Main "HOL-Library.Word"
begin

text \<open>
  Shared vocabulary of the development: the machine integer types, the error names of the
  program, checked \<open>usize\<close> arithmetic, copies into byte buffers, intrusive singly linked
  chains threaded through index tables, and the contract of a slot allocator that every
  index table of the program satisfies.
\<close>

unbundle bit_operations_syntax

named_theorems pool_simps \<open>field and size facts of the pool operations\<close>
named_theorems chain_intros \<open>introduction and frame rules of intrusive chains\<close>

type_synonym u8 = "8 word"
type_synonym u16 = "16 word"
type_synonym u24 = "24 word"
type_synonym u32 = "32 word"
type_synonym u64 = "64 word"
type_synonym i32 = int
type_synonym fd_t = int

section \<open>Errors\<close>

text \<open>
  The error sets of the source, one datatype per layer (\<open>wire.DecodeError\<close> with
  \<open>EncodeError\<close>, \<open>pool.Error\<close>, \<open>ancillary.Error\<close> with \<open>tx.Error\<close>, \<open>connection.Error\<close>
  with the completion and reactor errors, the object errors, \<open>shm.StoreError\<close>), and their
  union. Errors of the system calls a file passes through (\<open>MMapError\<close>, \<open>MRemapError\<close>)
  are one constructor each.
\<close>

datatype wire_error =
    NullSender | InvalidSize | UnalignedSize | UnexpectedEnd | LengthOverflow
  | InvalidString | TrailingArguments | MessageTooLarge

datatype pool_error =
    OutOfMemory | InvalidConfig | CapacityOverflow | Exhausted | StaleLease

datatype tx_error =
    MalformedControl | DescriptorBudgetExceeded | ControlBufferTooSmall | Overflow | Empty
  | EmptyMessage | ByteBudgetExceeded | SendAlreadyActive | NoSendActive | InvalidCompletion
  | ReservationActive | ReservationOverflow

datatype conn_error =
    Closing | ProtocolErrorPending | NoProtocolError | CancelAlreadyActive | CancelNotActive
  | ReceiveAlreadyActive | ReceiveNotActive | StaleCompletion | UnexpectedCompletion | IoFailure
  | UnknownOperation | SlotOutOfRange | SlotInactive | WrongGeneration | SlotSpaceExhausted

datatype object_error =
    InvalidObjectVersion | UnknownOpcode | UnsupportedVersion | InvalidId | DuplicateId | Full
  | UnknownObject | DestroyedObject | InvalidTransition | InvalidLocalId | InvalidPeerId
  | StaleHandle | InvalidClientId | InvalidServerId

datatype shm_error =
    InvalidPoolSize | PoolTooLarge | InvalidResize | InvalidDimensions | InvalidStride
  | OutOfBounds | SizeOverflow | StalePool | StaleBuffer | StalePin | ResourceDestroyed
  | ResizePending | UnsafeAccess | DestinationTooSmall | CopyFailed | ShortRead
  | SignalSetupFailed | AccessConflict | AccessActive | InvalidBacking | MMapError | MRemapError

datatype zerror =
    EWire wire_error | EPool pool_error | ETx tx_error | EConn conn_error
  | EObj object_error | EShm shm_error | EUnreachable

text \<open>
  \<open>EUnreachable\<close> marks the branches the source declares \<open>unreachable\<close> (\<open>catch unreachable\<close>,
  \<open>.?\<close> on null): theorems show which operations never take them.
\<close>

type_synonym 'a result = "zerror + 'a"

text \<open>Running one fallible computation after another on results without state.\<close>

definition bind_result :: "'a result \<Rightarrow> ('a \<Rightarrow> 'b result) \<Rightarrow> 'b result" where
  "bind_result r f = (case r of Inl e \<Rightarrow> Inl e | Inr x \<Rightarrow> f x)"

lemma bind_result_simps [simp]:
  "bind_result (Inl e) f = Inl e"
  "bind_result (Inr x) f = f x"
  by (simp_all add: bind_result_def)

lemma bind_result_Inr_conv: "bind_result r f = Inr y \<longleftrightarrow> (\<exists>x. r = Inr x \<and> f x = Inr y)"
  by (cases r) auto

section \<open>Checked arithmetic on \<open>usize\<close>\<close>

text \<open>
  The modelled targets have a 64-bit \<open>usize\<close>. Sizes are natural numbers; where the source
  calls a checked operation of the standard library, so does the model.
\<close>

definition usize_limit :: nat where
  "usize_limit = 2 ^ 64"

definition checked_add :: "nat \<Rightarrow> nat \<Rightarrow> nat option" where
  "checked_add a b = (if a + b < usize_limit then Some (a + b) else None)"

definition checked_mul :: "nat \<Rightarrow> nat \<Rightarrow> nat option" where
  "checked_mul a b = (if a * b < usize_limit then Some (a * b) else None)"

definition div_ceil :: "nat \<Rightarrow> nat \<Rightarrow> nat" where
  "div_ceil a b = (a + b - 1) div b"

lemma checked_add_Some [simp]: "a + b < usize_limit \<Longrightarrow> checked_add a b = Some (a + b)"
  by (simp add: checked_add_def)

lemma checked_mul_Some [simp]: "a * b < usize_limit \<Longrightarrow> checked_mul a b = Some (a * b)"
  by (simp add: checked_mul_def)

lemma div_ceil_bounds:
  assumes "0 < b"
  shows "a \<le> div_ceil a b * b" and "div_ceil a b * b < a + b"
proof -
  define q where "q = (a + b - 1) div b"
  define r where "r = (a + b - 1) mod b"
  have eq: "q * b + r = a + b - 1" unfolding q_def r_def by (rule div_mult_mod_eq)
  have "r < b" using assms by (simp add: r_def)
  with eq assms show "a \<le> div_ceil a b * b" and "div_ceil a b * b < a + b"
    unfolding div_ceil_def q_def[symmetric] by linarith+
qed

lemma div_ceil_0 [simp]: "0 < b \<Longrightarrow> div_ceil 0 b = 0"
  by (simp add: div_ceil_def)

text \<open>\<open>max_u32\<close> is \<open>std.math.maxInt(u32)\<close>, the sentinel of most index tables.\<close>

definition max_u32 :: nat where
  "max_u32 = 2 ^ 32 - 1"

section \<open>Word bounds\<close>

lemma unat_u32_bound: "unat (w :: u32) < 2 ^ 32"
  using unsigned_less [of w, where 'a = nat] by simp

lemma unat_u16_bound: "unat (w :: u16) < 2 ^ 16"
  using unsigned_less [of w, where 'a = nat] by simp

lemma unat_of_nat_u32 [simp]: "n < 2 ^ 32 \<Longrightarrow> unat (of_nat n :: u32) = n"
  by (simp add: unat_of_nat)

section \<open>Generations\<close>

text \<open>Every table steps a slot's generation with this function; zero means never used.\<close>

definition wrap_generation :: "u32 \<Rightarrow> u32" where
  "wrap_generation current = (let next = current + 1 in if next = 0 then 1 else next)"

lemma wrap_generation_nonzero [simp]: "wrap_generation g \<noteq> 0"
  by (simp add: wrap_generation_def Let_def)

lemma wrap_generation_changes [simp]: "wrap_generation g \<noteq> g"
  by (cases "g = 1") (auto simp: wrap_generation_def Let_def)

section \<open>Copies into buffers\<close>

text \<open>\<open>@memcpy(dst[off..][0..src.len], src)\<close>; the source checks the range before it copies.\<close>

definition blit :: "'a list \<Rightarrow> nat \<Rightarrow> 'a list \<Rightarrow> 'a list" where
  "blit dst off src = take off dst @ src @ drop (off + length src) dst"

definition slice :: "'a list \<Rightarrow> nat \<Rightarrow> nat \<Rightarrow> 'a list" where
  "slice xs from until = drop from (take until xs)"

lemma length_blit [simp]: "off + length src \<le> length dst \<Longrightarrow> length (blit dst off src) = length dst"
  by (simp add: blit_def)

lemma take_blit [simp]: "n \<le> off \<Longrightarrow> off \<le> length dst \<Longrightarrow> take n (blit dst off src) = take n dst"
  by (simp add: blit_def min_def)

lemma take_blit_extend:
  "off \<le> length dst \<Longrightarrow> take (off + length src) (blit dst off src) = take off dst @ src"
  by (simp add: blit_def)

lemma blit_Nil [simp]: "blit dst off [] = dst"
  by (simp add: blit_def)

lemma length_slice [simp]: "until \<le> length xs \<Longrightarrow> length (slice xs from until) = until - from"
  by (simp add: slice_def)

lemma slice_0 [simp]: "slice xs 0 n = take n xs"
  by (simp add: slice_def)

lemma slice_append: "i \<le> j \<Longrightarrow> j \<le> k \<Longrightarrow> slice xs i j @ slice xs j k = slice xs i k"
  using take_add [of "j - i" "k - j" "drop i xs"]
  by (simp add: slice_def drop_take)

section \<open>Intrusive chains\<close>

text \<open>
  \<open>chain nxt e h xs\<close>: starting at index \<open>h\<close> and following \<open>nxt\<close> until the sentinel \<open>e\<close>
  visits exactly \<open>xs\<close>. Free lists, lease chains, bucket chains and ownership chains of the
  program are all of this form.
\<close>

fun chain :: "(nat \<Rightarrow> nat) \<Rightarrow> nat \<Rightarrow> nat \<Rightarrow> nat list \<Rightarrow> bool" where
  "chain nxt e h [] \<longleftrightarrow> h = e"
| "chain nxt e h (x # xs) \<longleftrightarrow> h = x \<and> x \<noteq> e \<and> chain nxt e (nxt x) xs"

lemma chain_end [simp]: "chain nxt e e xs \<longleftrightarrow> xs = []"
  by (cases xs) auto

lemma chain_cong [chain_intros]:
  "(\<And>x. x \<in> set xs \<Longrightarrow> nxt' x = nxt x) \<Longrightarrow> chain nxt' e h xs \<longleftrightarrow> chain nxt e h xs"
  by (induction xs arbitrary: h) auto

lemma chain_upd_other [simp]: "i \<notin> set xs \<Longrightarrow> chain (nxt(i := j)) e h xs \<longleftrightarrow> chain nxt e h xs"
  by (rule chain_cong) auto

lemma chain_unique: "chain nxt e h xs \<Longrightarrow> chain nxt e h ys \<Longrightarrow> xs = ys"
proof (induction xs arbitrary: h ys)
  case Nil
  then show ?case by simp
next
  case (Cons x xs)
  then show ?case by (cases ys) auto
qed

lemma chain_append:
  "chain nxt e h (xs @ ys) \<Longrightarrow> ys \<noteq> [] \<Longrightarrow> chain nxt e (hd ys) ys"
  by (induction xs arbitrary: h) (auto simp: neq_Nil_conv)

lemma chain_distinct: "chain nxt e h xs \<Longrightarrow> distinct xs"
proof (induction xs arbitrary: h)
  case Nil
  then show ?case by simp
next
  case (Cons x xs)
  have "x \<notin> set xs"
  proof
    assume "x \<in> set xs"
    then obtain as bs where xs: "xs = as @ x # bs" by (auto simp: in_set_conv_decomp)
    with Cons.prems have "chain nxt e x (x # bs)"
      using chain_append [of nxt e h "x # as" "x # bs"] by simp
    moreover from Cons.prems have "chain nxt e x (x # xs)" by simp
    ultimately have "x # bs = x # xs" by (rule chain_unique)
    with xs have "length bs = length (as @ x # bs)" by simp
    then show False by simp
  qed
  with Cons show ?case by auto
qed

section \<open>Free lists in index tables\<close>

text \<open>
  A table of \<open>n\<close> slots whose unused slots form an intrusive list from \<open>head\<close> through \<open>nxt\<close>,
  with \<open>act\<close> slots in use. The pools, the completion slots and the shared-memory store keep
  their free slots this way.
\<close>

definition free_table :: "nat \<Rightarrow> (nat \<Rightarrow> nat) \<Rightarrow> (nat \<Rightarrow> bool) \<Rightarrow> nat \<Rightarrow> nat \<Rightarrow> nat \<Rightarrow> bool" where
  "free_table e nxt used n head act \<longleftrightarrow>
     n \<le> e \<and> act = card {i. i < n \<and> used i} \<and>
     (\<exists>fl. chain nxt e head fl \<and> set fl = {i. i < n \<and> \<not> used i})"

lemma free_table_cong:
  assumes "\<And>i. i < n \<Longrightarrow> used' i = used i"
    and "\<And>i. i < n \<Longrightarrow> \<not> used i \<Longrightarrow> nxt' i = nxt i"
  shows "free_table e nxt' used' n head act \<longleftrightarrow> free_table e nxt used n head act"
proof -
  have sets: "{i. i < n \<and> used' i} = {i. i < n \<and> used i}"
    "{i. i < n \<and> \<not> used' i} = {i. i < n \<and> \<not> used i}"
    using assms(1) by auto
  have "chain nxt' e head fl \<longleftrightarrow> chain nxt e head fl" if "set fl = {i. i < n \<and> \<not> used i}" for fl
    using that assms(2) by (intro chain_cong) auto
  with sets show ?thesis unfolding free_table_def by auto
qed

lemma free_table_empty [simp]: "free_table e nxt used 0 head act \<longleftrightarrow> head = e \<and> act = 0"
  by (auto simp: free_table_def)

lemma free_table_active_le: "free_table e nxt used n head act \<Longrightarrow> act \<le> n \<and> n \<le> e"
proof -
  assume "free_table e nxt used n head act"
  moreover have "card {i. i < n \<and> used i} \<le> card {..<n}" by (rule card_mono) auto
  ultimately show ?thesis by (simp add: free_table_def)
qed

lemma free_table_head_end: "free_table e nxt used n head act \<Longrightarrow> head = e \<longleftrightarrow> act = n"
proof -
  assume ft: "free_table e nxt used n head act"
  then obtain fl where fl: "chain nxt e head fl" "set fl = {i. i < n \<and> \<not> used i}"
    by (auto simp: free_table_def)
  let ?U = "{i. i < n \<and> used i}" and ?F = "{i. i < n \<and> \<not> used i}"
  have "card (?U \<union> ?F) = card ?U + card ?F"
    by (rule card_Un_disjoint) auto
  moreover have "?U \<union> ?F = {..<n}" by auto
  ultimately have "n = act + card (set fl)" using ft fl(2) by (simp add: free_table_def)
  then have "act = n \<longleftrightarrow> set fl = {}" by (simp add: card_eq_0_iff)
  also have "\<dots> \<longleftrightarrow> head = e" using fl(1) by (cases fl) auto
  finally show ?thesis by simp
qed

lemma free_table_head:
  assumes "free_table e nxt used n head act" and "head \<noteq> e"
  shows "head < n" and "\<not> used head"
proof -
  from assms obtain fl where "chain nxt e head fl" "set fl = {i. i < n \<and> \<not> used i}"
    by (auto simp: free_table_def)
  with assms(2) have "head \<in> {i. i < n \<and> \<not> used i}" by (cases fl) auto
  then show "head < n" and "\<not> used head" by auto
qed

lemma free_table_pop:
  assumes ft: "free_table e nxt used n head act" and "head \<noteq> e"
    and used': "\<And>i. i < n \<Longrightarrow> used' i = (i = head \<or> used i)"
    and nxt': "\<And>i. i < n \<Longrightarrow> i \<noteq> head \<Longrightarrow> nxt' i = nxt i"
  shows "free_table e nxt' used' n (nxt head) (Suc act)"
proof -
  from ft obtain fl where fl: "chain nxt e head fl" "set fl = {i. i < n \<and> \<not> used i}"
    and act: "act = card {i. i < n \<and> used i}" and n: "n \<le> e"
    by (auto simp: free_table_def)
  from fl(1) assms(2) obtain rest where rest: "fl = head # rest" by (cases fl) auto
  from chain_distinct [OF fl(1)] rest have nin: "head \<notin> set rest" by simp
  have head: "head < n" "\<not> used head" by (rule free_table_head [OF ft assms(2)])+
  have set_rest: "set rest = {i. i < n \<and> \<not> used' i}" using fl(2) rest nin used' head by auto
  have "chain nxt e (nxt head) rest" using fl(1) rest by simp
  then have "chain nxt' e (nxt head) rest"
    using nin set_rest nxt' by (subst chain_cong) auto
  moreover have "{i. i < n \<and> used' i} = insert head {i. i < n \<and> used i}" using head used' by auto
  ultimately show ?thesis using set_rest head n act by (auto simp: free_table_def)
qed

lemma free_table_push:
  assumes ft: "free_table e nxt used n head act" and i: "i < n" "used i"
    and used': "\<And>j. j < n \<Longrightarrow> used' j = (j \<noteq> i \<and> used j)"
    and nxt': "\<And>j. j < n \<Longrightarrow> nxt' j = (if j = i then head else nxt j)"
  shows "free_table e nxt' used' n i (act - 1)"
proof -
  from ft obtain fl where fl: "chain nxt e head fl" "set fl = {i. i < n \<and> \<not> used i}"
    and act: "act = card {i. i < n \<and> used i}" and n: "n \<le> e"
    by (auto simp: free_table_def)
  from i fl have nin: "i \<notin> set fl" by auto
  have set_fl: "set (i # fl) = {j. j < n \<and> \<not> used' j}" using fl i used' by auto
  have "chain nxt' e head fl \<longleftrightarrow> chain nxt e head fl"
    using fl(2) nin nxt' by (intro chain_cong) auto
  then have "chain nxt' e i (i # fl)" using fl(1) nxt' i n by auto
  moreover have "{j. j < n \<and> used' j} = {j. j < n \<and> used j} - {i}" using used' by auto
  moreover from this have "card {j. j < n \<and> used' j} = act - 1" using act i by simp
  ultimately show ?thesis using set_fl n unfolding free_table_def by metis
qed

lemma free_table_grow:
  assumes ft: "free_table e nxt used n head act" and "n < e"
    and used': "\<not> used' n" "\<And>i. i < n \<Longrightarrow> used' i = used i"
    and nxt': "nxt' n = head" "\<And>i. i < n \<Longrightarrow> nxt' i = nxt i"
  shows "free_table e nxt' used' (Suc n) n act"
proof -
  from ft obtain fl where fl: "chain nxt e head fl" "set fl = {i. i < n \<and> \<not> used i}"
    and act: "act = card {i. i < n \<and> used i}"
    by (auto simp: free_table_def)
  have "chain nxt' e head fl \<longleftrightarrow> chain nxt e head fl"
    using fl(2) nxt' by (intro chain_cong) auto
  then have "chain nxt' e n (n # fl)" using fl(1) nxt' \<open>n < e\<close> by auto
  moreover have "set (n # fl) = {i. i < Suc n \<and> \<not> used' i}"
    using fl(2) used' by (auto simp: less_Suc_eq)
  moreover have "{i. i < Suc n \<and> used' i} = {i. i < n \<and> used i}"
    using used' by (auto simp: less_Suc_eq)
  ultimately show ?thesis
    using \<open>n < e\<close> act unfolding free_table_def Suc_le_eq by metis
qed

section \<open>The contract of a slot allocator\<close>

text \<open>
  Handles are what callers keep (tokens, leases, IDs). A provider hands out handles that are
  not live, keeps every other handle live, and refuses to release what is not live.
\<close>

locale slot_allocator =
  fixes invar :: "'s \<Rightarrow> bool"
    and live :: "'s \<Rightarrow> 'h set"
    and acquire :: "'a \<Rightarrow> 's \<Rightarrow> ('h \<times> 's) option"
    and release :: "'h \<Rightarrow> 's \<Rightarrow> 's option"
  assumes acquire_fresh: "invar s \<Longrightarrow> acquire a s = Some (h, s') \<Longrightarrow>
      invar s' \<and> h \<notin> live s \<and> live s' = insert h (live s)"
    and release_live: "invar s \<Longrightarrow> release h s = Some s' \<Longrightarrow>
      invar s' \<and> h \<in> live s \<and> live s' = live s - {h}"
    and release_total: "invar s \<Longrightarrow> h \<in> live s \<Longrightarrow> release h s \<noteq> None"
begin

lemma release_iff: "invar s \<Longrightarrow> release h s \<noteq> None \<longleftrightarrow> h \<in> live s"
  using release_live release_total by blast

lemma release_twice: "invar s \<Longrightarrow> release h s = Some s' \<Longrightarrow> release h s' = None"
  using release_live release_iff by blast

lemma acquire_release: "invar s \<Longrightarrow> acquire a s = Some (h, s1) \<Longrightarrow>
    \<exists>s2. release h s1 = Some s2 \<and> invar s2 \<and> live s2 = live s"
proof -
  assume "invar s" and "acquire a s = Some (h, s1)"
  then have s1: "invar s1" "h \<notin> live s" "live s1 = insert h (live s)"
    using acquire_fresh by blast+
  then obtain s2 where "release h s1 = Some s2" using release_total by blast
  with s1 release_live show ?thesis by fastforce
qed

text \<open>Acquiring for every request of a list: the handles are new and pairwise distinct.\<close>

fun acquire_all :: "'a list \<Rightarrow> 's \<Rightarrow> ('h list \<times> 's) option" where
  "acquire_all [] s = Some ([], s)"
| "acquire_all (a # as) s =
     (case acquire a s of
        None \<Rightarrow> None
      | Some (h, s1) \<Rightarrow>
          (case acquire_all as s1 of None \<Rightarrow> None | Some (hs, s2) \<Rightarrow> Some (h # hs, s2)))"

lemma acquire_all_fresh:
  "invar s \<Longrightarrow> acquire_all as s = Some (hs, s') \<Longrightarrow>
     invar s' \<and> distinct hs \<and> set hs \<inter> live s = {} \<and> live s' = live s \<union> set hs"
proof (induction as arbitrary: s hs s')
  case Nil
  then show ?case by simp
next
  case (Cons a as)
  then obtain h s1 hs1 where 1: "acquire a s = Some (h, s1)"
    and 2: "acquire_all as s1 = Some (hs1, s')" and hs: "hs = h # hs1"
    by (auto split: option.splits)
  from acquire_fresh [OF Cons.prems(1) 1]
  have s1: "invar s1" "h \<notin> live s" "live s1 = insert h (live s)" by auto
  from Cons.IH [OF s1(1) 2] s1 hs show ?case by auto
qed

end

section \<open>Chains of leases\<close>

text \<open>
  A list of leases that are all valid and whose table entries link each to the next, the last
  to the sentinel: what a queue over a shared pool owns.
\<close>

definition lease_chain ::
    "('l \<Rightarrow> bool) \<Rightarrow> ('l \<Rightarrow> nat) \<Rightarrow> (nat \<Rightarrow> nat) \<Rightarrow> nat \<Rightarrow> 'l list \<Rightarrow> bool" where
  "lease_chain V idx nxt e ls \<longleftrightarrow>
     (\<forall>l\<in>set ls. V l) \<and> (ls \<noteq> [] \<longrightarrow> chain nxt e (idx (hd ls)) (map idx ls))"

lemma lease_chain_Nil [simp]: "lease_chain V idx nxt e []"
  by (simp add: lease_chain_def)

lemma lease_chain_single [simp]:
  "lease_chain V idx nxt e [l] \<longleftrightarrow> V l \<and> idx l \<noteq> e \<and> nxt (idx l) = e"
  by (auto simp: lease_chain_def)

lemma lease_chain_Cons [simp]:
  "lease_chain V idx nxt e (l # m # ls) \<longleftrightarrow>
     V l \<and> idx l \<noteq> e \<and> nxt (idx l) = idx m \<and> lease_chain V idx nxt e (m # ls)"
  by (auto simp: lease_chain_def)

lemma lease_chain_tl: "lease_chain V idx nxt e (l # ls) \<Longrightarrow> lease_chain V idx nxt e ls"
  by (cases ls) auto

lemma lease_chain_valid: "lease_chain V idx nxt e ls \<Longrightarrow> l \<in> set ls \<Longrightarrow> V l"
  by (simp add: lease_chain_def)

lemma lease_chain_distinct: "lease_chain V idx nxt e ls \<Longrightarrow> distinct (map idx ls)"
  by (cases "ls = []") (auto simp: lease_chain_def dest: chain_distinct)

lemma lease_chain_cong:
  assumes "\<And>l. l \<in> set ls \<Longrightarrow> V l \<Longrightarrow> V' l \<and> nxt' (idx l) = nxt (idx l)"
    and "lease_chain V idx nxt e ls"
  shows "lease_chain V' idx nxt' e ls"
proof -
  from assms have "\<forall>l\<in>set ls. V' l \<and> nxt' (idx l) = nxt (idx l)" by (auto simp: lease_chain_def)
  moreover from this have "chain nxt' e h (map idx ls) = chain nxt e h (map idx ls)" for h
    by (intro chain_cong) auto
  ultimately show ?thesis using assms(2) by (auto simp: lease_chain_def)
qed

lemma lease_chain_last:
  "lease_chain V idx nxt e ls \<Longrightarrow> ls \<noteq> [] \<Longrightarrow> nxt (idx (last ls)) = e"
proof (induction ls)
  case (Cons l ls)
  then show ?case by (cases ls) auto
qed simp

lemma lease_chain_snoc:
  assumes "lease_chain V idx nxt e ls" and "ls \<noteq> []"
    and "\<And>l. l \<in> set ls \<Longrightarrow> V' l"
    and "\<And>l. l \<in> set (butlast ls) \<Longrightarrow> nxt' (idx l) = nxt (idx l)"
    and "nxt' (idx (last ls)) = idx m" and "lease_chain V' idx nxt' e [m]"
  shows "lease_chain V' idx nxt' e (ls @ [m])"
  using assms
proof (induction ls)
  case (Cons l ls)
  then show ?case by (cases ls) auto
qed simp

lemma lease_chain_append:
  assumes "lease_chain V idx nxt e xs" and "lease_chain V' idx nxt' e ys"
    and "xs \<noteq> []" and "ys \<noteq> []"
    and "\<And>l. l \<in> set xs \<Longrightarrow> V' l"
    and "\<And>l. l \<in> set (butlast xs) \<Longrightarrow> nxt' (idx l) = nxt (idx l)"
    and "nxt' (idx (last xs)) = idx (hd ys)"
  shows "lease_chain V' idx nxt' e (xs @ ys)"
  using assms
proof (induction xs)
  case (Cons l xs)
  then show ?case by (cases xs; cases ys) auto
qed simp

text \<open>
  The contract queues rely on: what acquiring, linking and releasing in a shared pool do to
  the leases and chains somebody else holds. Steps are relations because every operation can
  also fail, in which case it is no step.
\<close>

locale lease_pool =
  fixes invar :: "'s \<Rightarrow> bool"
    and valid :: "'s \<Rightarrow> 'l \<Rightarrow> bool"
    and idx :: "'l \<Rightarrow> nat"
    and succ :: "'s \<Rightarrow> nat \<Rightarrow> nat"
    and contents :: "'s \<Rightarrow> 'l \<Rightarrow> 'v"
    and sentinel :: nat
    and acquired :: "'s \<Rightarrow> 'l \<Rightarrow> 's \<Rightarrow> bool"
    and linked :: "'s \<Rightarrow> 'l \<Rightarrow> 'l \<Rightarrow> 's \<Rightarrow> bool"
    and released :: "'s \<Rightarrow> 'l \<Rightarrow> 's \<Rightarrow> bool"
  assumes valid_unique: "valid s l \<Longrightarrow> valid s m \<Longrightarrow> idx l = idx m \<Longrightarrow> l = m"
    and acquired_new: "invar s \<Longrightarrow> acquired s l s' \<Longrightarrow>
      invar s' \<and> valid s' l \<and> idx l \<noteq> sentinel \<and> succ s' (idx l) = sentinel"
    and acquired_fresh: "invar s \<Longrightarrow> acquired s l s' \<Longrightarrow> valid s m \<Longrightarrow> idx m \<noteq> idx l"
    and acquired_frame: "invar s \<Longrightarrow> acquired s l s' \<Longrightarrow> valid s m \<Longrightarrow>
      valid s' m \<and> succ s' (idx m) = succ s (idx m) \<and> contents s' m = contents s m"
    and linked_succ: "invar s \<Longrightarrow> linked s l k s' \<Longrightarrow>
      invar s' \<and> valid s l \<and> valid s k \<and> succ s' (idx l) = idx k"
    and linked_frame: "invar s \<Longrightarrow> linked s l k s' \<Longrightarrow> valid s m \<Longrightarrow>
      valid s' m \<and> contents s' m = contents s m \<and>
      (idx m \<noteq> idx l \<longrightarrow> succ s' (idx m) = succ s (idx m))"
    and released_frame: "invar s \<Longrightarrow> released s l s' \<Longrightarrow>
      invar s' \<and> valid s l \<and> (\<forall>m. valid s m \<longrightarrow> idx m \<noteq> idx l \<longrightarrow>
        valid s' m \<and> succ s' (idx m) = succ s (idx m) \<and> contents s' m = contents s m)"
begin

lemma chain_acquired:
  assumes "invar s" and "acquired s l s'"
    and "lease_chain (valid s) idx (succ s) sentinel ls"
  shows "lease_chain (valid s') idx (succ s') sentinel ls" and "idx l \<notin> idx ` set ls"
    and "map (contents s') ls = map (contents s) ls"
proof -
  note frame = acquired_frame [OF assms(1,2) lease_chain_valid [OF assms(3)]]
  show "lease_chain (valid s') idx (succ s') sentinel ls"
    using frame by (intro lease_chain_cong [OF _ assms(3)]) blast
  show "idx l \<notin> idx ` set ls"
    using acquired_fresh [OF assms(1,2) lease_chain_valid [OF assms(3)]] by (metis imageE)
  show "map (contents s') ls = map (contents s) ls"
    using frame by simp
qed

lemma chain_linked_other:
  assumes "invar s" and "linked s l k s'"
    and "lease_chain (valid s) idx (succ s) sentinel ls" and "idx l \<notin> idx ` set ls"
  shows "lease_chain (valid s') idx (succ s') sentinel ls"
  using assms linked_frame by (intro lease_chain_cong [OF _ assms(3)]) (metis imageI)

lemma chain_linked_snoc:
  assumes inv: "invar s" and link: "linked s (last ls) k s'"
    and xs: "lease_chain (valid s) idx (succ s) sentinel ls" "ls \<noteq> []"
    and ys: "lease_chain (valid s) idx (succ s) sentinel ks" "ks \<noteq> []" "hd ks = k"
    and disj: "idx ` set ls \<inter> idx ` set ks = {}"
  shows "lease_chain (valid s') idx (succ s') sentinel (ls @ ks)"
proof (rule lease_chain_append [OF xs(1) _ xs(2) ys(2)])
  have "idx (last ls) \<in> idx ` set ls" using xs(2) by simp
  with disj have last: "idx (last ls) \<notin> idx ` set ks" by blast
  show "lease_chain (valid s') idx (succ s') sentinel ks"
    by (rule chain_linked_other [OF inv link ys(1) last])
  show "valid s' l" if "l \<in> set ls" for l
    using linked_frame [OF inv link] lease_chain_valid [OF xs(1) that] by blast
  show "succ s' (idx l) = succ s (idx l)" if l: "l \<in> set (butlast ls)" for l
  proof -
    from xs(2) have "ls = butlast ls @ [last ls]" by simp
    with lease_chain_distinct [OF xs(1)] have "distinct (map idx (butlast ls @ [last ls]))" by metis
    then have "idx (last ls) \<notin> idx ` set (butlast ls)" by simp
    with l have "idx l \<noteq> idx (last ls)" by (metis imageI)
    moreover have "valid s l" using lease_chain_valid [OF xs(1) in_set_butlastD [OF l]] .
    ultimately show ?thesis using linked_frame [OF inv link] by blast
  qed
  show "succ s' (idx (last ls)) = idx (hd ks)" using linked_succ [OF inv link] ys(3) by simp
qed

lemma chain_released:
  assumes "invar s" and "released s l s'"
    and "lease_chain (valid s) idx (succ s) sentinel ls" and "idx l \<notin> idx ` set ls"
  shows "lease_chain (valid s') idx (succ s') sentinel ls"
    and "map (contents s') ls = map (contents s) ls"
proof -
  have *: "valid s' m \<and> succ s' (idx m) = succ s (idx m) \<and> contents s' m = contents s m"
    if "m \<in> set ls" for m
    using that assms released_frame lease_chain_valid by (metis imageI)
  then show "lease_chain (valid s') idx (succ s') sentinel ls"
    by (intro lease_chain_cong [OF _ assms(3)]) blast
  from * show "map (contents s') ls = map (contents s) ls" by simp
qed

lemma chain_pop:
  assumes "invar s" and "released s l s'"
    and "lease_chain (valid s) idx (succ s) sentinel (l # ls)"
  shows "lease_chain (valid s') idx (succ s') sentinel ls"
    and "map (contents s') ls = map (contents s) ls"
proof -
  from lease_chain_distinct [OF assms(3)] have "idx l \<notin> idx ` set ls" by simp
  then show "lease_chain (valid s') idx (succ s') sentinel ls"
    and "map (contents s') ls = map (contents s) ls"
    using chain_released [OF assms(1,2) lease_chain_tl [OF assms(3)]] by blast+
qed

end

end
