(* ===== verification/Wire.thy ===== *)
theory Wire
  imports Prelude
begin

text \<open>
  Wayland wire framing and argument decoding (\<open>src/src/wire.zig\<close>): the header codec, the
  complete-message decoder and the argument cursor that generated decoders read from. The
  byte order is that of the build target, a parameter here.
\<close>

section \<open>Native byte order\<close>

datatype endian = Little | Big

text \<open>\<open>readU32\<close> takes a pointer to exactly four bytes; other lengths do not occur.\<close>

fun read_le :: "u8 list \<Rightarrow> u32" where
  "read_le [a, b, c, d] =
     ucast a OR push_bit 8 (ucast b) OR push_bit 16 (ucast c) OR push_bit 24 (ucast d)"
| "read_le _ = 0"

definition readU32 :: "endian \<Rightarrow> u8 list \<Rightarrow> u32" where
  "readU32 en bs = (case en of Little \<Rightarrow> read_le bs | Big \<Rightarrow> read_le (rev bs))"

definition write_le :: "u32 \<Rightarrow> u8 list" where
  "write_le v = [ucast v, ucast (drop_bit 8 v), ucast (drop_bit 16 v), ucast (drop_bit 24 v)]"

definition writeU32 :: "endian \<Rightarrow> u32 \<Rightarrow> u8 list" where
  "writeU32 en v = (case en of Little \<Rightarrow> write_le v | Big \<Rightarrow> rev (write_le v))"

lemma length_writeU32 [simp]: "length (writeU32 en v) = 4"
  by (cases en) (simp_all add: writeU32_def write_le_def)

lemma read_write_le: "read_le (write_le v) = v"
proof (rule bit_word_eqI)
  fix n
  assume "n < LENGTH(32)"
  then show "bit (read_le (write_le v)) n = bit v n"
    by (cases "n < 16"; cases "n < 24") (auto simp: write_le_def bit_simps not_less)
qed

lemma write_read_le: "write_le (read_le [a, b, c, d]) = [a, b, c, d]"
  by (simp add: write_le_def)
     (intro conjI; rule bit_word_eqI; auto simp: bit_simps dest: bit_imp_le_length)

lemma readU32_writeU32 [simp]: "readU32 en (writeU32 en v) = v"
  by (cases en) (simp_all add: readU32_def writeU32_def read_write_le)

lemma writeU32_readU32 [simp]: "writeU32 en (readU32 en [a, b, c, d]) = [a, b, c, d]"
proof (cases en)
  case Little
  then show ?thesis by (simp only: readU32_def writeU32_def endian.case write_read_le)
next
  case Big
  have "write_le (read_le [d, c, b, a]) = [d, c, b, a]" by (rule write_read_le)
  with Big show ?thesis
    by (simp only: readU32_def writeU32_def endian.case rev.simps append.simps)
qed

lemma length4_cases:
  assumes "length bs = 4"
  obtains a b c d where "bs = [a, b, c, d]"
  using assms by (auto simp: eval_nat_numeral length_Suc_conv)

lemma writeU32_readU32_list: "length bs = 4 \<Longrightarrow> writeU32 en (readU32 en bs) = bs"
  by (erule length4_cases) (simp only: writeU32_readU32)

section \<open>Headers\<close>

definition header_len :: nat where
  "header_len = 8"

definition max_message_len :: nat where
  "max_message_len = 65535"

record header =
  object_id :: u32
  opcode :: u16
  msg_size :: u16

text \<open>\<open>Header.decode\<close>: no header until eight bytes are there, then three checks in order.\<close>

definition header_decode :: "endian \<Rightarrow> u8 list \<Rightarrow> header option result" where
  "header_decode en bytes =
     (if length bytes < header_len then Inr None
      else let oid = readU32 en (take 4 bytes);
               word = readU32 en (slice bytes 4 8);
               sz = (ucast (drop_bit 16 word) :: u16)
           in if oid = 0 then Inl (EWire NullSender)
              else if unat sz < header_len then Inl (EWire InvalidSize)
              else if unat sz mod 4 \<noteq> 0 then Inl (EWire UnalignedSize)
              else Inr (Some \<lparr>object_id = oid, opcode = ucast word, msg_size = sz\<rparr>))"

definition header_word :: "header \<Rightarrow> u32" where
  "header_word h = push_bit 16 (ucast (msg_size h)) OR ucast (opcode h)"

definition header_encode :: "endian \<Rightarrow> header \<Rightarrow> u8 list result" where
  "header_encode en h =
     (if object_id h = 0 then Inl (EWire NullSender)
      else if unat (msg_size h) < header_len then Inl (EWire InvalidSize)
      else if unat (msg_size h) mod 4 \<noteq> 0 then Inl (EWire UnalignedSize)
      else Inr (writeU32 en (object_id h) @ writeU32 en (header_word h)))"

text \<open>The three checks both directions share.\<close>

definition header_ok :: "header \<Rightarrow> bool" where
  "header_ok h \<longleftrightarrow> object_id h \<noteq> 0 \<and> header_len \<le> unat (msg_size h) \<and> unat (msg_size h) mod 4 = 0"

lemma header_word_opcode [simp]: "ucast (header_word h) = opcode h"
  unfolding header_word_def by (rule bit_word_eqI) (auto simp: bit_simps)

lemma header_word_size [simp]: "ucast (drop_bit 16 (header_word h)) = msg_size h"
  unfolding header_word_def
  by (rule bit_word_eqI) (auto simp: bit_simps dest: bit_imp_le_length)

lemma header_word_split:
  "push_bit 16 (ucast (ucast (drop_bit 16 w) :: u16)) OR ucast (ucast w :: u16) = (w :: u32)"
  by (rule bit_word_eqI) (auto simp: bit_simps)

lemma header_encode_ok: "(\<exists>bs. header_encode en h = Inr bs) \<longleftrightarrow> header_ok h"
  by (auto simp: header_encode_def header_ok_def)

lemma length_header_encode: "header_encode en h = Inr bs \<Longrightarrow> length bs = header_len"
  by (auto simp: header_encode_def header_len_def split: if_splits)

lemma header_decode_None_iff: "header_decode en bs = Inr None \<longleftrightarrow> length bs < header_len"
  by (auto simp: header_decode_def Let_def)

lemma header_decode_ok: "header_decode en bs = Inr (Some h) \<Longrightarrow> header_ok h \<and> header_len \<le> length bs"
  by (auto simp: header_decode_def header_ok_def Let_def split: if_splits)

lemma header_decode_take:
  "header_len \<le> length bs \<Longrightarrow> header_len \<le> n \<Longrightarrow> header_decode en (take n bs) = header_decode en bs"
  by (simp add: header_decode_def header_len_def slice_def min_def)

lemma header_decode_append:
  "header_len \<le> length bs \<Longrightarrow> header_decode en (bs @ ms) = header_decode en bs"
  by (simp add: header_decode_def header_len_def slice_def)

lemma header_decode_encode:
  assumes "header_encode en h = Inr bs"
  shows "header_decode en (bs @ rest) = Inr (Some h)"
proof -
  from assms have bs: "bs = writeU32 en (object_id h) @ writeU32 en (header_word h)"
    and ok: "header_ok h"
    by (auto simp: header_encode_def header_ok_def split: if_splits)
  have "take 4 (bs @ rest) = writeU32 en (object_id h)"
    "slice (bs @ rest) 4 8 = writeU32 en (header_word h)"
    by (simp_all add: bs slice_def)
  with ok show ?thesis
    by (simp add: header_decode_def header_ok_def bs header_len_def Let_def)
qed

lemma header_encode_decode:
  assumes "header_decode en bs = Inr (Some h)"
  shows "header_encode en h = Inr (take 8 bs)"
proof -
  let ?w = "readU32 en (slice bs 4 8)"
  from assms have len: "8 \<le> length bs"
    by (auto simp: header_decode_def header_len_def split: if_splits)
  from assms len have h: "h = \<lparr>object_id = readU32 en (take 4 bs), opcode = ucast ?w,
      msg_size = ucast (drop_bit 16 ?w)\<rparr>" and ok: "header_ok h"
    by (auto simp: header_decode_def header_ok_def Let_def split: if_splits)
  have "header_word h = ?w"
    by (simp add: h header_word_def header_word_split)
  moreover have "take 8 bs = take 4 bs @ slice bs 4 8"
    using slice_append [of 0 4 8 bs] by simp
  ultimately show ?thesis
    using ok len h by (simp add: header_encode_def header_ok_def writeU32_readU32_list not_less)
qed

section \<open>Messages\<close>

text \<open>A message borrows its payload from the buffer it was decoded from.\<close>

record message =
  msg_header :: header
  payload :: "u8 list"

definition message_decode :: "endian \<Rightarrow> u8 list \<Rightarrow> message option result" where
  "message_decode en bytes =
     (case header_decode en bytes of
        Inl e \<Rightarrow> Inl e
      | Inr None \<Rightarrow> Inr None
      | Inr (Some h) \<Rightarrow>
          if length bytes < unat (msg_size h) then Inr None
          else Inr (Some \<lparr>msg_header = h, payload = slice bytes header_len (unat (msg_size h))\<rparr>))"

text \<open>\<open>frame\<close>, the reference encoder the tests of the file build messages with.\<close>

definition frame :: "endian \<Rightarrow> u32 \<Rightarrow> u16 \<Rightarrow> u8 list \<Rightarrow> u8 list" where
  "frame en oid opc pl =
     (let sz = header_len + length pl
      in writeU32 en oid @ writeU32 en (push_bit 16 (of_nat sz) OR ucast opc) @ pl)"

lemma message_decode_length:
  "message_decode en bs = Inr (Some m) \<Longrightarrow>
     header_ok (msg_header m) \<and> unat (msg_size (msg_header m)) \<le> length bs \<and>
     length (payload m) = unat (msg_size (msg_header m)) - header_len"
  by (auto simp: message_decode_def dest: header_decode_ok split: sum.splits option.splits if_splits)

lemma message_decode_append:
  assumes "message_decode en bs = Inr (Some m)"
  shows "message_decode en (bs @ ms) = Inr (Some m)"
proof -
  from assms obtain h where h: "header_decode en bs = Inr (Some h)"
    and len: "unat (msg_size h) \<le> length bs"
    and m: "m = \<lparr>msg_header = h, payload = slice bs header_len (unat (msg_size h))\<rparr>"
    by (auto simp: message_decode_def split: sum.splits option.splits if_splits)
  from h have "header_decode en (bs @ ms) = Inr (Some h)"
    using header_decode_ok header_decode_append by metis
  with len m show ?thesis by (simp add: message_decode_def slice_def)
qed

lemma message_decode_error_append:
  assumes "message_decode en bs = Inl e"
  shows "message_decode en (bs @ ms) = Inl e"
proof -
  from assms have "header_decode en bs = Inl e"
    by (auto simp: message_decode_def split: sum.splits option.splits if_splits)
  moreover from this have "header_len \<le> length bs"
    by (auto simp: header_decode_def split: if_splits)
  ultimately show ?thesis by (simp add: message_decode_def header_decode_append)
qed

section \<open>Argument cursor\<close>

text \<open>
  \<open>Arguments\<close> holds the bytes not yet read. Every reader returns its result and the cursor
  it leaves, on errors as well: a reader that fails in its second \<open>take\<close> has consumed the
  length word.
\<close>

record arguments =
  remaining_bytes :: "u8 list"

definition message_arguments :: "message \<Rightarrow> arguments" where
  "message_arguments m = \<lparr>remaining_bytes = payload m\<rparr>"

definition remaining :: "arguments \<Rightarrow> nat" where
  "remaining a = length (remaining_bytes a)"

definition args_take :: "arguments \<Rightarrow> nat \<Rightarrow> u8 list result \<times> arguments" where
  "args_take a len =
     (if length (remaining_bytes a) < len then (Inl (EWire UnexpectedEnd), a)
      else (Inr (take len (remaining_bytes a)),
            a\<lparr>remaining_bytes := drop len (remaining_bytes a)\<rparr>))"

definition args_uint :: "endian \<Rightarrow> arguments \<Rightarrow> u32 result \<times> arguments" where
  "args_uint en a =
     (case args_take a 4 of
        (Inl e, a') \<Rightarrow> (Inl e, a')
      | (Inr bs, a') \<Rightarrow> (Inr (readU32 en bs), a'))"

definition args_int :: "endian \<Rightarrow> arguments \<Rightarrow> int result \<times> arguments" where
  "args_int en a =
     (case args_uint en a of
        (Inl e, a') \<Rightarrow> (Inl e, a')
      | (Inr w, a') \<Rightarrow> (Inr (sint w), a'))"

text \<open>\<open>padded & ~3\<close> on the length plus three: the next multiple of four.\<close>

definition round4 :: "nat \<Rightarrow> nat" where
  "round4 n = n div 4 * 4"

definition args_array :: "endian \<Rightarrow> arguments \<Rightarrow> u8 list result \<times> arguments" where
  "args_array en a =
     (case args_uint en a of
        (Inl e, a1) \<Rightarrow> (Inl e, a1)
      | (Inr w, a1) \<Rightarrow>
          (let len = unat w
           in case checked_add len 3 of
                None \<Rightarrow> (Inl (EWire LengthOverflow), a1)
              | Some padded \<Rightarrow>
                  (case args_take a1 (round4 padded) of
                     (Inl e, a2) \<Rightarrow> (Inl e, a2)
                   | (Inr bytes, a2) \<Rightarrow> (Inr (take len bytes), a2))))"

definition args_string :: "endian \<Rightarrow> arguments \<Rightarrow> u8 list option result \<times> arguments" where
  "args_string en a =
     (case args_uint en a of
        (Inl e, a1) \<Rightarrow> (Inl e, a1)
      | (Inr w, a1) \<Rightarrow>
          (let len = unat w
           in if len = 0 then (Inr None, a1)
              else case checked_add len 3 of
                None \<Rightarrow> (Inl (EWire LengthOverflow), a1)
              | Some padded \<Rightarrow>
                  (case args_take a1 (round4 padded) of
                     (Inl e, a2) \<Rightarrow> (Inl e, a2)
                   | (Inr bytes, a2) \<Rightarrow>
                       (let value = take len bytes; string_bytes = take (len - 1) value
                        in if value ! (len - 1) \<noteq> 0 \<or> 0 \<in> set string_bytes
                           then (Inl (EWire InvalidString), a2)
                           else (Inr (Some string_bytes), a2)))))"

definition args_finish :: "arguments \<Rightarrow> unit result" where
  "args_finish a =
     (if remaining_bytes a \<noteq> [] then Inl (EWire TrailingArguments) else Inr ())"

text \<open>The wire form of an argument: a length word, the bytes and padding up to a word boundary.\<close>

definition pad_len :: "nat \<Rightarrow> nat" where
  "pad_len n = round4 (n + 3) - n"

definition encode_array :: "endian \<Rightarrow> u8 list \<Rightarrow> u8 list \<Rightarrow> u8 list" where
  "encode_array en xs pad = writeU32 en (of_nat (length xs)) @ xs @ pad"

definition encode_string :: "endian \<Rightarrow> u8 list \<Rightarrow> u8 list \<Rightarrow> u8 list" where
  "encode_string en s pad = encode_array en (s @ [0]) pad"

lemma round4_ge: "n \<le> round4 (n + 3)"
  unfolding round4_def by presburger

lemma round4_pad [simp]: "n + pad_len n = round4 (n + 3)"
  using round4_ge [of n] by (simp add: pad_len_def)

lemma args_uint_write:
  "args_uint en \<lparr>remaining_bytes = writeU32 en w @ rest\<rparr> = (Inr w, \<lparr>remaining_bytes = rest\<rparr>)"
  by (simp add: args_uint_def args_take_def)

lemma args_take_append:
  "length xs = n \<Longrightarrow> args_take \<lparr>remaining_bytes = xs @ rest\<rparr> n = (Inr xs, \<lparr>remaining_bytes = rest\<rparr>)"
  by (simp add: args_take_def)

lemma length_fits: "unat (w :: u32) + 3 < usize_limit"
proof -
  have "unat w < 2 ^ 32" using unat_u32_bound [of w] by simp
  then show ?thesis by (simp add: usize_limit_def)
qed

lemma args_array_encode:
  assumes "length xs < 2 ^ 32" and "length pad = pad_len (length xs)"
  shows "args_array en \<lparr>remaining_bytes = encode_array en xs pad @ rest\<rparr> =
           (Inr xs, \<lparr>remaining_bytes = rest\<rparr>)"
proof -
  have len: "unat (of_nat (length xs) :: u32) = length xs"
    using assms(1) by simp
  have "args_take \<lparr>remaining_bytes = (xs @ pad) @ rest\<rparr> (round4 (length xs + 3)) =
          (Inr (xs @ pad), \<lparr>remaining_bytes = rest\<rparr>)"
    by (rule args_take_append) (simp add: assms(2))
  then show ?thesis
    using length_fits [of "of_nat (length xs)"]
    by (simp add: args_array_def encode_array_def args_uint_write len Let_def)
qed

lemma args_string_encode_any:
  assumes "length s + 1 < 2 ^ 32" and "length pad = pad_len (length s + 1)"
  shows "args_string en \<lparr>remaining_bytes = encode_string en s pad @ rest\<rparr> =
    (if 0 \<in> set s then Inl (EWire InvalidString) else Inr (Some s), \<lparr>remaining_bytes = rest\<rparr>)"
proof -
  have len: "unat (of_nat (length s + 1) :: u32) = length s + 1"
    using assms(1) by (rule unat_of_nat_u32)
  have "args_take \<lparr>remaining_bytes = (s @ [0] @ pad) @ rest\<rparr> (round4 (length s + 1 + 3)) =
          (Inr (s @ [0] @ pad), \<lparr>remaining_bytes = rest\<rparr>)"
    by (rule args_take_append) (use round4_pad [of "length s + 1"] assms(2) in \<open>simp add: add.commute del: round4_pad\<close>)
  moreover have "checked_add (length s + 1) 3 = Some (length s + 1 + 3)"
    using length_fits [of "of_nat (length s + 1)"] len by simp
  ultimately show ?thesis
    using len
    by (simp add: args_string_def encode_string_def encode_array_def args_uint_write Let_def nth_append)
qed

text \<open>A reader never leaves more bytes than it found, whatever it returns.\<close>

lemma args_take_shrinks: "args_take a n = (r, a') \<Longrightarrow> remaining a' \<le> remaining a"
  by (auto simp: args_take_def remaining_def split: if_splits)

lemma args_uint_shrinks: "args_uint en a = (r, a') \<Longrightarrow> remaining a' \<le> remaining a"
  by (auto simp: args_uint_def dest: args_take_shrinks split: prod.splits sum.splits)

lemma args_array_shrinks: "args_array en a = (r, a') \<Longrightarrow> remaining a' \<le> remaining a"
  by (auto simp: args_array_def Let_def dest!: args_uint_shrinks args_take_shrinks
      split: prod.splits sum.splits option.splits if_splits)

lemma args_string_shrinks: "args_string en a = (r, a') \<Longrightarrow> remaining a' \<le> remaining a"
  by (auto simp: args_string_def Let_def dest!: args_uint_shrinks args_take_shrinks
      split: prod.splits sum.splits option.splits if_splits)

text \<open>A string that is returned has no NUL in it and was followed by one.\<close>

lemma args_string_valid:
  assumes "args_string en a = (Inr (Some s), a')"
  shows "0 \<notin> set s" and "length s < 2 ^ 32"
proof -
  from assms obtain w bytes where
    s: "s = take (unat w - 1) (take (unat (w :: u32)) bytes)" and "0 \<notin> set s"
    by (auto simp: args_string_def Let_def split: prod.splits sum.splits option.splits if_splits)
  then show "0 \<notin> set s" by simp
  from s have "length s \<le> unat w" by simp
  then show "length s < 2 ^ 32" using unat_u32_bound [of w] by simp
qed

lemma args_length_never_overflows:
  "fst (args_string en a) \<noteq> Inl (EWire LengthOverflow)"
  "fst (args_array en a) \<noteq> Inl (EWire LengthOverflow)"
  by (auto simp: args_string_def args_array_def args_uint_def args_take_def Let_def length_fits
      split: prod.splits sum.splits option.splits if_splits)

section \<open>Properties\<close>

text \<open>C8: the header codec is exact. The eight bytes that \<open>Header.encode\<close> writes are the only
  eight bytes that \<open>Header.decode\<close> reads as that header, in both byte orders; what one refuses the
  other never produces.\<close>

theorem header_codec_exact:
  "header_encode en h = Inr bs \<longleftrightarrow> length bs = header_len \<and> header_decode en bs = Inr (Some h)"
proof
  assume e: "header_encode en h = Inr bs"
  then show "length bs = header_len \<and> header_decode en bs = Inr (Some h)"
    using length_header_encode header_decode_encode [OF e, of "[]"] by simp
next
  assume "length bs = header_len \<and> header_decode en bs = Inr (Some h)"
  then show "header_encode en h = Inr bs"
    using header_encode_decode [of en bs h] by (simp add: header_len_def)
qed

text \<open>C9: a string argument survives the wire: the reader returns the string that was
  encoded, whatever the padding bytes hold, and leaves the cursor at the argument after it. A
  string with an embedded zero, and only that, is refused.\<close>

theorem string_argument_roundtrip:
  assumes "length s + 1 < 2 ^ 32" and "length pad = pad_len (length s + 1)"
  shows "args_string en \<lparr>remaining_bytes = encode_string en s pad @ rest\<rparr> =
    (if 0 \<in> set s then Inl (EWire InvalidString) else Inr (Some s), \<lparr>remaining_bytes = rest\<rparr>)"
  using args_string_encode_any [OF assms] .

theorem string_argument_roundtrip_witness:
  "args_string Little \<lparr>remaining_bytes = encode_string Little [104, 105] [1] @ [9]\<rparr> =
    (Inr (Some [104, 105]), \<lparr>remaining_bytes = [9]\<rparr>)"
  using string_argument_roundtrip [of "[104, 105]" "[1]" Little "[9]"]
  by (simp add: pad_len_def round4_def)

end
