(* ===== verification/Completion.thy ===== *)
theory Completion
  imports Prelude
begin

text \<open>
  The identity carried in the 64-bit \<open>user_data\<close> of an io_uring completion
  (\<open>src/src/completion.zig\<close>): operation byte, 24-bit slot, 32-bit generation.
\<close>

datatype operation = Receive | Send | Cancel | Accept | Accept_Cancel

fun operation_byte :: "operation \<Rightarrow> u8" where
  "operation_byte Receive = 1"
| "operation_byte Send = 2"
| "operation_byte Cancel = 3"
| "operation_byte Accept = 4"
| "operation_byte Accept_Cancel = 5"

text \<open>\<open>std.enums.fromInt\<close> on the declared tags.\<close>

definition operation_from_byte :: "u8 \<Rightarrow> operation option" where
  "operation_from_byte b =
     (if b = 1 then Some Receive else if b = 2 then Some Send else if b = 3 then Some Cancel
      else if b = 4 then Some Accept else if b = 5 then Some Accept_Cancel else None)"

record token =
  tok_operation :: operation
  tok_slot :: u24
  tok_generation :: u32

definition token_encode :: "token \<Rightarrow> u64" where
  "token_encode t =
     ucast (operation_byte (tok_operation t)) OR push_bit 8 (ucast (tok_slot t))
       OR push_bit 32 (ucast (tok_generation t))"

definition token_decode :: "u64 \<Rightarrow> token result" where
  "token_decode v =
     (case operation_from_byte (ucast v) of
        None \<Rightarrow> Inl (EConn UnknownOperation)
      | Some oper \<Rightarrow> Inr \<lparr>tok_operation = oper, tok_slot = ucast (drop_bit 8 v),
                       tok_generation = ucast (drop_bit 32 v)\<rparr>)"

definition belongs_to :: "token \<Rightarrow> u24 \<Rightarrow> u32 \<Rightarrow> bool" where
  "belongs_to t slot generation \<longleftrightarrow> tok_slot t = slot \<and> tok_generation t = generation"

text \<open>\<open>nextGeneration\<close>: zero is reserved for never-initialised slots.\<close>

definition next_generation :: "u32 \<Rightarrow> u32" where
  "next_generation current = wrap_generation current"

lemma operation_from_byte_byte [simp]: "operation_from_byte (operation_byte x) = Some x"
  by (cases x) (simp_all add: operation_from_byte_def)

lemma operation_from_byte_Some: "operation_from_byte b = Some x \<Longrightarrow> operation_byte x = b"
  by (auto simp: operation_from_byte_def split: if_splits)

lemma token_fields:
  "ucast (token_encode t) = operation_byte (tok_operation t)"
  "ucast (drop_bit 8 (token_encode t)) = tok_slot t"
  "ucast (drop_bit 32 (token_encode t)) = tok_generation t"
  unfolding token_encode_def
  by (rule bit_word_eqI; auto simp: bit_simps dest: bit_imp_le_length)+

lemma token_word_split:
  "ucast (ucast v :: u8) OR push_bit 8 (ucast (ucast (drop_bit 8 v) :: u24))
     OR push_bit 32 (ucast (ucast (drop_bit 32 v) :: u32)) = (v :: u64)"
proof (rule bit_word_eqI)
  fix n
  assume "n < LENGTH(64)"
  then show "bit (ucast (ucast v :: u8) OR push_bit 8 (ucast (ucast (drop_bit 8 v) :: u24))
     OR push_bit 32 (ucast (ucast (drop_bit 32 v) :: u32)) :: u64) n = bit v n"
    by (cases "n < 8"; cases "n < 32") (auto simp: bit_simps not_less)
qed

lemma token_decode_encode [simp]: "token_decode (token_encode t) = Inr t"
  by (simp add: token_decode_def token_fields)

lemma token_encode_decode: "token_decode v = Inr t \<Longrightarrow> token_encode t = v"
  using token_word_split [of v]
  by (auto simp: token_decode_def token_encode_def dest!: operation_from_byte_Some
      split: option.splits)

lemma token_encode_inject: "token_encode t = token_encode u \<longleftrightarrow> t = u"
  by (metis token_decode_encode sum.inject(2))

text \<open>
  Generations of one slot: after \<open>k\<close> reuses, with \<open>k\<close> below the cycle length, the
  generation differs from the one a completion was tagged with.
\<close>

lemma next_generation_cycle_u32: "unat (next_generation g) = (if unat g = 2 ^ 32 - 1 then 1 else unat g + 1)"
proof (cases "g = 0xFFFFFFFF")
  case True
  then show ?thesis by (simp add: next_generation_def wrap_generation_def)
next
  case False
  then have ne: "unat g \<noteq> 2 ^ 32 - 1"
    using unsigned_word_eqI [of g "0xFFFFFFFF", where 'a = nat] by auto
  with unat_u32_bound [of g] have "unat (g + 1) = unat g + 1"
    by (simp add: unat_word_ariths)
  moreover have "g + 1 \<noteq> 0" using calculation by (metis Suc_eq_plus1 nat.distinct(1) unsigned_0)
  ultimately show ?thesis using ne by (simp add: next_generation_def wrap_generation_def)
qed

lemma next_generation_iterate:
  assumes "g \<noteq> 0"
  shows "unat ((next_generation ^^ k) g) = (unat g - 1 + k) mod (2 ^ 32 - 1) + 1"
proof (induction k)
  case 0
  have "0 < unat g" using assms by (simp add: unat_gt_0)
  then show ?case using unat_u32_bound [of g] by simp
next
  case (Suc k)
  let ?n = "(unat g - 1 + k) mod (2 ^ 32 - 1)"
  have "?n < 2 ^ 32 - 1" by simp
  then show ?case
    by (simp add: next_generation_cycle_u32 Suc mod_Suc)
qed

lemma stale_generation_differs:
  assumes "g \<noteq> 0" and "0 < k" and "k < 2 ^ 32 - 1"
  shows "(next_generation ^^ k) g \<noteq> g"
proof
  assume eq: "(next_generation ^^ k) g = g"
  let ?m = "2 ^ 32 - 1 :: nat"
  have "0 < unat g" using assms by (simp add: unat_gt_0)
  have "unat g = (unat g - 1 + k) mod ?m + 1"
    using next_generation_iterate [OF assms(1), of k] unfolding eq .
  then have "(unat g - 1 + k) mod ?m = unat g - 1" by linarith
  then have "(unat g - 1 + k) mod ?m = (unat g - 1) mod ?m"
    by (metis mod_mod_trivial)
  then have "?m dvd (unat g - 1 + k) - (unat g - 1)"
    by (subst mod_eq_dvd_iff_nat [symmetric]) simp_all
  then have "?m dvd k" by simp
  with assms(2,3) show False using dvd_imp_le by fastforce
qed

section \<open>Properties\<close>

text \<open>C10: \<open>Token.decode\<close> is the partial inverse of \<open>Token.encode\<close> on all 64-bit values: a value
  decodes to a token exactly when it is that token's encoding, so routing on \<open>user_data\<close> neither
  confuses two tokens nor accepts a value nobody encoded.\<close>

theorem token_codec_exact: "token_decode v = Inr t \<longleftrightarrow> token_encode t = v"
  using token_encode_decode [of v t] by auto

end
