(* ===== verification/Reactor.thy ===== *)
theory Reactor
  imports Completion
begin

text \<open>
  The slot directory that routes completions to connections (\<open>src/src/reactor.zig\<close>). A slot
  is active exactly when its link field holds the active sentinel; inactive slots form the
  free list. The allocator's answer to the one append an acquisition may need is a parameter.
\<close>

definition active_sentinel :: nat where
  "active_sentinel = max_u32"

definition free_end :: nat where
  "free_end = active_sentinel - 1"

definition max_slots :: nat where
  "max_slots = 2 ^ 24"

record slot =
  sl_generation :: u32
  sl_next_free :: nat

record slots =
  storage :: "slot list"
  slots_free_head :: nat
  slots_active_count :: nat

record acquired =
  acq_index :: nat
  acq_generation :: u32

record routed =
  rt_slot :: u24
  rt_operation :: operation

definition slots_empty :: slots where
  "slots_empty = \<lparr>storage = [], slots_free_head = free_end, slots_active_count = 0\<rparr>"

definition new_slot :: slot where
  "new_slot = \<lparr>sl_generation = 0, sl_next_free = free_end\<rparr>"

text \<open>\<open>Slots.get\<close>.\<close>

definition slot_get :: "slots \<Rightarrow> nat \<Rightarrow> slot option" where
  "slot_get s index = (if length (storage s) \<le> index then None else Some (storage s ! index))"

text \<open>The common tail of \<open>acquire\<close>: stamp the chosen slot and count it.\<close>

definition slots_activate :: "slots \<Rightarrow> nat \<Rightarrow> acquired \<times> slots" where
  "slots_activate s index =
     (let slot = storage s ! index; g = next_generation (sl_generation slot)
      in (\<lparr>acq_index = index, acq_generation = g\<rparr>,
          s\<lparr>storage := (storage s)[index := \<lparr>sl_generation = g, sl_next_free = active_sentinel\<rparr>],
            slots_active_count := slots_active_count s + 1\<rparr>))"

definition slots_acquire :: "bool \<Rightarrow> slots \<Rightarrow> acquired result \<times> slots" where
  "slots_acquire alloc_ok s =
     (if slots_free_head s = free_end then
        if 2 ^ 24 - 1 < length (storage s) then (Inl (EConn SlotSpaceExhausted), s)
        else if \<not> alloc_ok then (Inl (EPool OutOfMemory), s)
        else let appended = length (storage s);
                 (a, s') = slots_activate (s\<lparr>storage := storage s @ [new_slot]\<rparr>) appended
             in (Inr a, s')
      else let recycled = slots_free_head s;
               (a, s') = slots_activate
                 (s\<lparr>slots_free_head := sl_next_free (storage s ! recycled)\<rparr>) recycled
           in (Inr a, s'))"

definition slots_deactivate :: "slots \<Rightarrow> nat \<Rightarrow> u32 \<Rightarrow> unit result \<times> slots" where
  "slots_deactivate s index generation =
     (case slot_get s index of
        None \<Rightarrow> (Inl (EConn SlotOutOfRange), s)
      | Some slot \<Rightarrow>
          if sl_next_free slot \<noteq> active_sentinel then (Inl (EConn SlotInactive), s)
          else if sl_generation slot \<noteq> generation then (Inl (EConn WrongGeneration), s)
          else (Inr (), s\<lparr>storage := (storage s)[index := slot\<lparr>sl_next_free := slots_free_head s\<rparr>],
                       slots_free_head := index,
                       slots_active_count := slots_active_count s - 1\<rparr>))"

definition slots_token :: "slots \<Rightarrow> u24 \<Rightarrow> u32 \<Rightarrow> operation \<Rightarrow> u64 result" where
  "slots_token s index generation oper =
     (case slot_get s (unat index) of
        None \<Rightarrow> Inl (EConn SlotOutOfRange)
      | Some slot \<Rightarrow>
          if sl_next_free slot \<noteq> active_sentinel then Inl (EConn SlotInactive)
          else if sl_generation slot \<noteq> generation then Inl (EConn WrongGeneration)
          else Inr (token_encode \<lparr>tok_operation = oper, tok_slot = index,
                                  tok_generation = generation\<rparr>))"

definition slots_route_token :: "slots \<Rightarrow> token \<Rightarrow> routed option" where
  "slots_route_token s t =
     (case slot_get s (unat (tok_slot t)) of
        None \<Rightarrow> None
      | Some slot \<Rightarrow>
          if sl_next_free slot \<noteq> active_sentinel \<or> sl_generation slot \<noteq> tok_generation t
          then None
          else Some \<lparr>rt_slot = tok_slot t, rt_operation = tok_operation t\<rparr>)"

definition slots_route :: "slots \<Rightarrow> u64 \<Rightarrow> routed option" where
  "slots_route s user_data =
     (case token_decode user_data of Inl _ \<Rightarrow> None | Inr t \<Rightarrow> slots_route_token s t)"

section \<open>Invariant\<close>

definition slot_used :: "slots \<Rightarrow> nat \<Rightarrow> bool" where
  "slot_used s i \<longleftrightarrow> sl_next_free (storage s ! i) = active_sentinel"

definition slots_inv :: "slots \<Rightarrow> bool" where
  "slots_inv s \<longleftrightarrow>
     length (storage s) \<le> max_slots \<and>
     free_table free_end (\<lambda>i. sl_next_free (storage s ! i)) (slot_used s)
       (length (storage s)) (slots_free_head s) (slots_active_count s)"

text \<open>The handles whose completions are routed.\<close>

definition slots_live :: "slots \<Rightarrow> (nat \<times> u32) set" where
  "slots_live s = {(i, sl_generation (storage s ! i)) | i. i < length (storage s) \<and> slot_used s i}"

lemma sentinel_facts [simp]:
  "free_end < active_sentinel" "free_end \<noteq> active_sentinel" "active_sentinel \<noteq> free_end"
  "max_slots < free_end"
  by (simp_all add: free_end_def active_sentinel_def max_u32_def max_slots_def)

lemma slots_live_iff:
  "(i, g) \<in> slots_live s \<longleftrightarrow> i < length (storage s) \<and> slot_used s i \<and> sl_generation (storage s ! i) = g"
  by (auto simp: slots_live_def)

lemma slots_empty_inv: "slots_inv slots_empty"
  by (simp add: slots_inv_def slots_empty_def)

lemma slots_activate_fields:
  assumes "slots_activate s i = (a, s')" and "i < length (storage s)"
  shows "acq_index a = i" "acq_generation a = next_generation (sl_generation (storage s ! i))"
    "length (storage s') = length (storage s)" "slots_free_head s' = slots_free_head s"
    "slots_active_count s' = slots_active_count s + 1"
    "storage s' ! i = \<lparr>sl_generation = acq_generation a, sl_next_free = active_sentinel\<rparr>"
    "\<And>j. j \<noteq> i \<Longrightarrow> storage s' ! j = storage s ! j"
  using assms by (auto simp: slots_activate_def Let_def)

lemma slots_activate_live:
  assumes "slots_activate s i = (a, s')" and "i < length (storage s)" and "\<not> slot_used s i"
  shows "slots_live s' = insert (i, acq_generation a) (slots_live s)"
  using slots_activate_fields [OF assms(1,2)] assms(2,3)
  by (auto simp: slots_live_iff slot_used_def set_eq_iff split: if_splits; metis slot.simps)

text \<open>The free list behind an acquisition, for the recycled and for the appended slot.\<close>

lemma slots_acquire_cases:
  assumes "slots_acquire ok s = (Inr a, s')"
  obtains (append) "slots_free_head s = free_end" "length (storage s) < max_slots"
      "slots_activate (s\<lparr>storage := storage s @ [new_slot]\<rparr>) (length (storage s)) = (a, s')"
    | (recycle) "slots_free_head s \<noteq> free_end"
      "slots_activate (s\<lparr>slots_free_head := sl_next_free (storage s ! slots_free_head s)\<rparr>)
         (slots_free_head s) = (a, s')"
  using assms
  by (auto simp: slots_acquire_def Let_def max_slots_def split: if_splits prod.splits)

lemma slots_acquire_inv:
  assumes inv: "slots_inv s" and acq: "slots_acquire ok s = (Inr a, s')"
  shows "slots_inv s' \<and> slots_live s' = insert (acq_index a, acq_generation a) (slots_live s) \<and>
         (acq_index a, acq_generation a) \<notin> slots_live s"
  using acq
proof (cases rule: slots_acquire_cases)
  case append
  let ?n = "length (storage s)" and ?s = "s\<lparr>storage := storage s @ [new_slot]\<rparr>"
  note f = slots_activate_fields [OF append(3), simplified]
  have used: "slot_used ?s i = slot_used s i" if "i < ?n" for i
    using that by (simp add: slot_used_def nth_append)
  have unused: "\<not> slot_used ?s ?n" by (simp add: slot_used_def new_slot_def)
  from inv have ft: "free_table free_end (\<lambda>i. sl_next_free (storage s ! i)) (slot_used s) ?n
      (slots_free_head s) (slots_active_count s)" by (simp add: slots_inv_def)
  have "?n < free_end" using append(2) sentinel_facts(4) by linarith
  have 1: "free_table free_end (\<lambda>i. sl_next_free (storage ?s ! i)) (slot_used ?s) (Suc ?n)
      ?n (slots_active_count s)"
    using append(1)
    by (intro free_table_grow [OF ft \<open>?n < free_end\<close>])
       (simp_all add: used unused nth_append, simp add: new_slot_def)
  have used': "slot_used s' i = (i = ?n \<or> slot_used ?s i)" for i
    by (cases "i = ?n") (simp_all add: slot_used_def f(6,7))
  have 2: "free_table free_end (\<lambda>i. sl_next_free (storage s' ! i)) (slot_used s') (Suc ?n)
      (sl_next_free (storage ?s ! ?n)) (Suc (slots_active_count s))"
    using \<open>?n < free_end\<close> by (intro free_table_pop [OF 1]) (simp_all add: used' f(7))
  have inv': "slots_inv s'"
    using 2 f(3-5) append(1,2) by (simp add: slots_inv_def new_slot_def)
  have "slots_live ?s = slots_live s"
    using used unused by (auto simp: slots_live_iff nth_append less_Suc_eq)
  with slots_activate_live [OF append(3)] unused f(1)
  have live: "slots_live s' = insert (acq_index a, acq_generation a) (slots_live s)" by simp
  show ?thesis using inv' live f(1) by (auto simp: slots_live_iff)
next
  case recycle
  let ?h = "slots_free_head s" and ?n = "length (storage s)"
  let ?s = "s\<lparr>slots_free_head := sl_next_free (storage s ! ?h)\<rparr>"
  from inv have ft: "free_table free_end (\<lambda>i. sl_next_free (storage s ! i)) (slot_used s) ?n
      ?h (slots_active_count s)" by (simp add: slots_inv_def)
  note h = free_table_head [OF ft recycle(1)]
  note f = slots_activate_fields [OF recycle(2), simplified, OF h(1)]
  have used': "slot_used s' i = (i = ?h \<or> slot_used s i)" for i
    by (cases "i = ?h") (simp_all add: slot_used_def f(6,7))
  have "free_table free_end (\<lambda>i. sl_next_free (storage s' ! i)) (slot_used s') ?n
      (sl_next_free (storage s ! ?h)) (Suc (slots_active_count s))"
    by (intro free_table_pop [OF ft recycle(1)]) (simp_all add: used' f(7))
  then have inv': "slots_inv s'" using inv f(3-5) by (simp add: slots_inv_def)
  have "slots_live ?s = slots_live s" by (auto simp: slots_live_iff slot_used_def)
  moreover have "\<not> slot_used ?s ?h" using h(2) by (simp add: slot_used_def)
  ultimately have live: "slots_live s' = insert (acq_index a, acq_generation a) (slots_live s)"
    using slots_activate_live [OF recycle(2)] h(1) f(1) by simp
  show ?thesis using inv' live h f(1) by (auto simp: slots_live_iff)
qed

lemma slots_deactivate_inv:
  assumes inv: "slots_inv s" and rel: "slots_deactivate s i g = (Inr (), s')"
  shows "slots_inv s' \<and> (i, g) \<in> slots_live s \<and> slots_live s' = slots_live s - {(i, g)}"
proof -
  from rel have i: "i < length (storage s)" and used: "slot_used s i"
    and g: "sl_generation (storage s ! i) = g"
    and s': "s' = s\<lparr>storage := (storage s)[i := (storage s ! i)\<lparr>sl_next_free := slots_free_head s\<rparr>],
                   slots_free_head := i, slots_active_count := slots_active_count s - 1\<rparr>"
    by (auto simp: slots_deactivate_def slot_get_def slot_used_def split: option.splits if_splits)
  from inv have ft: "free_table free_end (\<lambda>i. sl_next_free (storage s ! i)) (slot_used s)
      (length (storage s)) (slots_free_head s) (slots_active_count s)" by (simp add: slots_inv_def)
  have head: "slots_free_head s \<noteq> active_sentinel"
  proof
    assume "slots_free_head s = active_sentinel"
    with free_table_head(1) [OF ft] inv show False
      by (simp add: slots_inv_def) (use sentinel_facts in linarith)
  qed
  have "free_table free_end (\<lambda>i. sl_next_free (storage s' ! i)) (slot_used s')
      (length (storage s)) i (slots_active_count s - 1)"
    using i head by (intro free_table_push [OF ft i used]) (auto simp: s' slot_used_def nth_list_update)
  then have "slots_inv s'" using inv by (simp add: slots_inv_def s')
  moreover have "slots_live s' = slots_live s - {(i, g)}"
    using i head g by (auto simp: slots_live_iff s' slot_used_def nth_list_update split: if_splits)
  ultimately show ?thesis using i used g by (auto simp: slots_live_iff)
qed

lemma slots_deactivate_live: "(i, g) \<in> slots_live s \<Longrightarrow> \<exists>s'. slots_deactivate s i g = (Inr (), s')"
  by (auto simp: slots_live_iff slots_deactivate_def slot_get_def slot_used_def)

section \<open>The directory is a slot allocator\<close>

definition slots_acquire_opt :: "bool \<Rightarrow> slots \<Rightarrow> ((nat \<times> u32) \<times> slots) option" where
  "slots_acquire_opt ok s =
     (case slots_acquire ok s of
        (Inl _, _) \<Rightarrow> None
      | (Inr a, s') \<Rightarrow> Some ((acq_index a, acq_generation a), s'))"

definition slots_release_opt :: "nat \<times> u32 \<Rightarrow> slots \<Rightarrow> slots option" where
  "slots_release_opt h s =
     (case slots_deactivate s (fst h) (snd h) of (Inl _, _) \<Rightarrow> None | (Inr _, s') \<Rightarrow> Some s')"

interpretation slot_dir: slot_allocator slots_inv slots_live slots_acquire_opt slots_release_opt
proof unfold_locales
  fix s a h s'
  assume "slots_inv s" and "slots_acquire_opt a s = Some (h, s')"
  then show "slots_inv s' \<and> h \<notin> slots_live s \<and> slots_live s' = insert h (slots_live s)"
    by (auto simp: slots_acquire_opt_def dest: slots_acquire_inv split: prod.splits sum.splits)
next
  fix s h s'
  assume "slots_inv s" and "slots_release_opt h s = Some s'"
  then show "slots_inv s' \<and> h \<in> slots_live s \<and> slots_live s' = slots_live s - {h}"
    by (cases h) (auto simp: slots_release_opt_def dest: slots_deactivate_inv split: prod.splits sum.splits)
next
  fix s h
  assume "slots_inv s" and "h \<in> slots_live s"
  then show "slots_release_opt h s \<noteq> None"
    using slots_deactivate_live [of "fst h" "snd h" s] by (auto simp: slots_release_opt_def)
qed

lemma slots_route_token_iff:
  "slots_route_token s t = Some r \<longleftrightarrow>
     (unat (tok_slot t), tok_generation t) \<in> slots_live s \<and>
     r = \<lparr>rt_slot = tok_slot t, rt_operation = tok_operation t\<rparr>"
  by (auto simp: slots_route_token_def slot_get_def slots_live_iff slot_used_def)

lemma slots_route_iff:
  "slots_route s v = Some r \<longleftrightarrow>
     (\<exists>t. token_encode t = v \<and> (unat (tok_slot t), tok_generation t) \<in> slots_live s \<and>
          r = \<lparr>rt_slot = tok_slot t, rt_operation = tok_operation t\<rparr>)"
  by (auto simp: slots_route_def slots_route_token_iff dest: token_encode_decode split: sum.splits)

lemma slots_token_iff:
  "slots_token s i g oper = Inr v \<longleftrightarrow>
     (unat i, g) \<in> slots_live s \<and>
     v = token_encode \<lparr>tok_operation = oper, tok_slot = i, tok_generation = g\<rparr>"
  by (auto simp: slots_token_def slot_get_def slots_live_iff slot_used_def split: if_splits)

section \<open>Stale completions\<close>

text \<open>The calls a reactor makes on its directory, one after the other.\<close>

datatype slot_call = Acquire_Slot bool | Deactivate_Slot nat u32

fun slots_call :: "slot_call \<Rightarrow> slots \<Rightarrow> slots" where
  "slots_call (Acquire_Slot ok) s = snd (slots_acquire ok s)"
| "slots_call (Deactivate_Slot i g) s = snd (slots_deactivate s i g)"

fun slots_run :: "slot_call list \<Rightarrow> slots \<Rightarrow> slots" where
  "slots_run [] s = s"
| "slots_run (c # cs) s = slots_run cs (slots_call c s)"

definition slot_gen :: "slots \<Rightarrow> nat \<Rightarrow> u32" where
  "slot_gen s i = sl_generation (storage s ! i)"

text \<open>
  \<open>aged s i g n\<close>: slot \<open>i\<close> has been acquired \<open>k \<le> n\<close> times since its generation was \<open>g\<close>, and
  is unused if it was not acquired at all.
\<close>

definition aged :: "slots \<Rightarrow> nat \<Rightarrow> u32 \<Rightarrow> nat \<Rightarrow> bool" where
  "aged s i g n \<longleftrightarrow> i < length (storage s) \<and>
     (\<exists>k \<le> n. slot_gen s i = (next_generation ^^ k) g \<and> (k = 0 \<longrightarrow> \<not> slot_used s i))"

lemma slots_acquire_slot:
  assumes inv: "slots_inv s" and acq: "slots_acquire ok s = (r, s')" and i: "i < length (storage s)"
  shows "i < length (storage s') \<and>
    (slot_gen s' i = slot_gen s i \<and> slot_used s' i = slot_used s i \<or>
     slot_gen s' i = next_generation (slot_gen s i))"
proof (cases r)
  case (Inl e)
  with acq have "s' = s" by (auto simp: slots_acquire_def Let_def split: if_splits prod.splits)
  with i show ?thesis by simp
next
  case (Inr a)
  show ?thesis
    using acq [unfolded Inr]
  proof (cases rule: slots_acquire_cases)
    case append
    with i show ?thesis
      by (auto simp: slots_activate_def slot_gen_def slot_used_def nth_append nth_list_update Let_def)
  next
    case recycle
    with i show ?thesis
      by (cases "i = slots_free_head s")
        (auto simp: slots_activate_def slot_gen_def slot_used_def Let_def)
  qed
qed

lemma slots_deactivate_slot:
  assumes inv: "slots_inv s" and rel: "slots_deactivate s j h = (r, s')"
    and i: "i < length (storage s)"
  shows "i < length (storage s') \<and> slot_gen s' i = slot_gen s i \<and> (slot_used s' i \<longrightarrow> slot_used s i)"
proof (cases r)
  case (Inl e)
  with rel have "s' = s" by (auto simp: slots_deactivate_def split: option.splits if_splits)
  with i show ?thesis by simp
next
  case (Inr u)
  with rel have "slots_deactivate s j h = (Inr (), s')" by simp
  from slots_deactivate_inv [OF inv this] have "slots_live s' \<subseteq> slots_live s" by auto
  moreover from rel Inr i have g: "i < length (storage s')" "slot_gen s' i = slot_gen s i"
    by (auto simp: slots_deactivate_def slot_get_def slot_gen_def nth_list_update split: if_splits)
  ultimately have "slot_used s' i \<longrightarrow> slot_used s i"
    using i by (auto simp: slots_live_iff slot_gen_def subset_iff)
  with g show ?thesis by blast
qed

lemma slots_call_inv: "slots_inv s \<Longrightarrow> slots_inv (slots_call c s)"
proof (cases c)
  case (Acquire_Slot ok)
  assume inv: "slots_inv s"
  obtain r s' where acq: "slots_acquire ok s = (r, s')" by fastforce
  show ?thesis
  proof (cases r)
    case (Inl e)
    with acq have "s' = s" by (auto simp: slots_acquire_def Let_def split: if_splits prod.splits)
    with inv acq Acquire_Slot show ?thesis by simp
  next
    case (Inr a)
    with slots_acquire_inv [of s ok a s'] inv acq Acquire_Slot show ?thesis by simp
  qed
next
  case (Deactivate_Slot i g)
  assume inv: "slots_inv s"
  obtain r s' where rel: "slots_deactivate s i g = (r, s')" by fastforce
  show ?thesis
  proof (cases r)
    case (Inl e)
    with rel have "s' = s" by (auto simp: slots_deactivate_def split: option.splits if_splits)
    with inv rel Deactivate_Slot show ?thesis by simp
  next
    case (Inr a)
    with slots_deactivate_inv [of s i g s'] inv rel Deactivate_Slot show ?thesis by simp
  qed
qed

lemma slots_call_aged: "slots_inv s \<Longrightarrow> aged s i g n \<Longrightarrow> aged (slots_call c s) i g (Suc n)"
proof -
  assume inv: "slots_inv s" and aged: "aged s i g n"
  then obtain k where i: "i < length (storage s)" and k: "k \<le> n" "slot_gen s i = (next_generation ^^ k) g"
    "k = 0 \<longrightarrow> \<not> slot_used s i" by (auto simp: aged_def)
  show ?thesis
  proof (cases c)
    case (Acquire_Slot ok)
    obtain r s' where acq: "slots_acquire ok s = (r, s')" by fastforce
    from slots_acquire_slot [OF inv acq i] show ?thesis
    proof (elim conjE disjE)
      assume "slot_gen s' i = next_generation (slot_gen s i)" "i < length (storage s')"
      with k acq Acquire_Slot show ?thesis
        by (auto simp: aged_def intro!: exI [of _ "Suc k"])
    next
      assume "slot_gen s' i = slot_gen s i" "slot_used s' i = slot_used s i" "i < length (storage s')"
      with k acq Acquire_Slot show ?thesis
        by (auto simp: aged_def intro!: exI [of _ k])
    qed
  next
    case (Deactivate_Slot j h)
    obtain r s' where "slots_deactivate s j h = (r, s')" by fastforce
    with slots_deactivate_slot [OF inv this i] k Deactivate_Slot show ?thesis
      by (auto simp: aged_def intro!: exI [of _ k])
  qed
qed

lemma slots_run_aged:
  "slots_inv s \<Longrightarrow> aged s i g n \<Longrightarrow> slots_inv (slots_run cs s) \<and> aged (slots_run cs s) i g (n + length cs)"
proof (induction cs arbitrary: s n)
  case Nil
  then show ?case by simp
next
  case (Cons c cs)
  from Cons.IH [OF slots_call_inv [OF Cons.prems(1)] slots_call_aged [OF Cons.prems]]
  show ?case by simp
qed

text \<open>Live slots never carry generation zero.\<close>

lemma aged_not_live:
  assumes "aged s i g n" and "g \<noteq> 0" and "n < 2 ^ 32 - 1"
  shows "(i, g) \<notin> slots_live s"
proof
  assume live: "(i, g) \<in> slots_live s"
  from assms(1) obtain k where k: "k \<le> n" "slot_gen s i = (next_generation ^^ k) g"
    "k = 0 \<longrightarrow> \<not> slot_used s i" by (auto simp: aged_def)
  from live have "slot_used s i" "slot_gen s i = g" by (auto simp: slots_live_iff slot_gen_def)
  with k stale_generation_differs [OF assms(2), of k] assms(3) show False by auto
qed

section \<open>Properties\<close>

text \<open>C5: a completion is routed exactly when its token belongs to a live slot. The token of a
  slot is issued only while the slot is live; once the slot is deactivated no completion carrying
  that token is routed, whatever the reactor acquires and releases afterwards, for the next
  \<open>2^32 - 2\<close> calls: reusing the index never revives an old completion before the generation
  counter has gone all the way round.\<close>

theorem stale_completions_never_routed:
  assumes "slots_inv s" and "slots_token s i g oper = Inr v" and "g \<noteq> 0"
    and "slots_deactivate s (unat i) g = (Inr (), s1)" and "length cs < 2 ^ 32 - 1"
  shows "slots_route s v = Some \<lparr>rt_slot = i, rt_operation = oper\<rparr> \<and>
    slots_route (slots_run cs s1) v = None"
proof -
  let ?t = "\<lparr>tok_operation = oper, tok_slot = i, tok_generation = g\<rparr>"
  from assms(2) have live: "(unat i, g) \<in> slots_live s" and v: "v = token_encode ?t"
    by (simp_all add: slots_token_iff)
  note rel = slots_deactivate_inv [OF assms(1,4)]
  have "unat i < length (storage s)" "slot_gen s (unat i) = g"
    using live by (auto simp: slots_live_iff slot_gen_def)
  with slots_deactivate_slot [OF assms(1,4)] rel have "aged s1 (unat i) g 0"
    by (auto simp: aged_def slots_live_iff slot_gen_def)
  with slots_run_aged [of s1 "unat i" g 0 cs] rel
  have "aged (slots_run cs s1) (unat i) g (length cs)" by simp
  from aged_not_live [OF this assms(3,5)]
  have "slots_route (slots_run cs s1) v = None"
    by (simp add: slots_route_def v slots_route_token_iff flip: not_Some_eq)
  with live v show ?thesis by (simp add: slots_route_def slots_route_token_iff)
qed

text \<open>A directory with its first slot live.\<close>

definition one_slot :: slots where
  "one_slot = \<lparr>storage = [\<lparr>sl_generation = 1, sl_next_free = active_sentinel\<rparr>],
     slots_free_head = free_end, slots_active_count = 1\<rparr>"

lemma one_slot_acquired: "slots_acquire True slots_empty = (Inr \<lparr>acq_index = 0, acq_generation = 1\<rparr>, one_slot)"
  by (simp add: slots_acquire_def slots_empty_def slots_activate_def one_slot_def new_slot_def
      next_generation_def wrap_generation_def)

theorem stale_completions_never_routed_witness:
  "slots_route (slots_run [Acquire_Slot True] (snd (slots_deactivate one_slot 0 1)))
     (token_encode \<lparr>tok_operation = Receive, tok_slot = 0, tok_generation = 1\<rparr>) = None"
proof -
  have inv: "slots_inv one_slot" using slots_acquire_inv [OF slots_empty_inv one_slot_acquired] by simp
  have tok: "slots_token one_slot 0 1 Receive =
      Inr (token_encode \<lparr>tok_operation = Receive, tok_slot = 0, tok_generation = 1\<rparr>)"
    by (simp add: slots_token_def slot_get_def one_slot_def)
  have rel: "slots_deactivate one_slot (unat (0 :: u24)) 1 = (Inr (), snd (slots_deactivate one_slot 0 1))"
    by (simp add: slots_deactivate_def slot_get_def one_slot_def)
  show ?thesis
    using stale_completions_never_routed [OF inv tok _ rel, of "[Acquire_Slot True]"] by simp
qed

end
