(* ===== verification/Pool.thy ===== *)
theory Pool
  imports Prelude
begin

text \<open>
  Reactor-wide storage (\<open>src/src/pool.zig\<close>): fixed-size byte blocks and descriptor entries,
  leased by index and generation. Nodes are allocated one at a time and never freed before
  teardown; unused nodes form an intrusive free list and leased nodes can be linked into
  chains.

  The allocator is a parameter of the operations that may grow a pool: it says, for the number
  of nodes the pool holds when it asks, whether the request is granted. A call may see any
  allocator, so every pattern of failures is covered.
\<close>

type_synonym allocator = "nat \<Rightarrow> bool"

text \<open>An allocator that never refuses.\<close>

definition generous :: "allocator \<Rightarrow> bool" where
  "generous alloc \<longleftrightarrow> (\<forall>n. alloc n)"

definition free_sentinel :: nat where
  "free_sentinel = max_u32"

text \<open>Fresh memory is undefined; the standard library fills it with this byte.\<close>

definition undefined_byte :: u8 where
  "undefined_byte = 0xAA"

section \<open>Byte blocks\<close>

text \<open>
  A lease carries the slice of its block: the address, abstracted to the position of the node
  that allocated it, and the length.
\<close>

record lease =
  ls_index :: nat
  ls_generation :: u32
  ls_ptr :: nat
  ls_len :: nat

record block_node =
  bn_ptr :: nat
  bn_bytes :: "u8 list"
  bn_free_next :: nat
  bn_chain_next :: nat
  bn_generation :: u32
  bn_in_use :: bool

record blocks =
  block_size :: nat
  block_nodes :: "block_node list"
  block_free_head :: nat
  block_active :: nat

definition blocks_capacity :: "blocks \<Rightarrow> nat" where
  "blocks_capacity b = length (block_nodes b)"

definition blocks_available :: "blocks \<Rightarrow> nat" where
  "blocks_available b = blocks_capacity b - block_active b"

definition blocks_grow :: "allocator \<Rightarrow> blocks \<Rightarrow> unit result \<times> blocks" where
  "blocks_grow alloc b =
     (if free_sentinel \<le> length (block_nodes b) then (Inl (EPool CapacityOverflow), b)
      else if \<not> alloc (length (block_nodes b)) then (Inl (EPool OutOfMemory), b)
      else let index = length (block_nodes b);
               node = \<lparr>bn_ptr = index, bn_bytes = replicate (block_size b) undefined_byte,
                       bn_free_next = block_free_head b, bn_chain_next = free_sentinel,
                       bn_generation = 0, bn_in_use = False\<rparr>
           in (Inr (), b\<lparr>block_nodes := block_nodes b @ [node], block_free_head := index\<rparr>))"

text \<open>\<open>while (blocks.available() < count) try blocks.grow()\<close>.\<close>

function blocks_grow_until :: "allocator \<Rightarrow> blocks \<Rightarrow> nat \<Rightarrow> unit result \<times> blocks" where
  "blocks_grow_until alloc b count =
     (if blocks_available b < count then
        (case blocks_grow alloc b of
           (Inl e, b') \<Rightarrow> (Inl e, b')
         | (Inr _, b') \<Rightarrow> blocks_grow_until alloc b' count)
      else (Inr (), b))"
  by pat_completeness auto
termination
  by (relation "measure (\<lambda>(alloc, b, count). (count + block_active b) - blocks_capacity b)")
     (auto simp: blocks_grow_def blocks_available_def blocks_capacity_def Let_def split: if_splits)

declare blocks_grow_until.simps [simp del]

definition blocks_ensure_available :: "allocator \<Rightarrow> blocks \<Rightarrow> nat \<Rightarrow> unit result \<times> blocks" where
  "blocks_ensure_available alloc b count =
     (if free_sentinel - block_active b < count then (Inl (EPool CapacityOverflow), b)
      else blocks_grow_until alloc b count)"

definition blocks_init :: "allocator \<Rightarrow> nat \<Rightarrow> nat \<Rightarrow> blocks result" where
  "blocks_init alloc bsize bcount =
     (if bsize = 0 \<or> bcount = 0 \<or> free_sentinel < bcount then Inl (EPool InvalidConfig)
      else if checked_mul bsize bcount = None then Inl (EPool CapacityOverflow)
      else case blocks_ensure_available alloc
             \<lparr>block_size = bsize, block_nodes = [], block_free_head = free_sentinel,
              block_active = 0\<rparr> bcount of
             (Inl e, _) \<Rightarrow> Inl e
           | (Inr _, b) \<Rightarrow> Inr b)"

definition blocks_acquire :: "allocator \<Rightarrow> blocks \<Rightarrow> lease result \<times> blocks" where
  "blocks_acquire alloc b =
     (case blocks_ensure_available alloc b 1 of
        (Inl e, b') \<Rightarrow> (Inl e, b')
      | (Inr _, b') \<Rightarrow>
          (let index = block_free_head b';
               node = block_nodes b' ! index;
               node' = node\<lparr>bn_generation := wrap_generation (bn_generation node),
                            bn_in_use := True, bn_chain_next := free_sentinel\<rparr>
           in (Inr \<lparr>ls_index = index, ls_generation = bn_generation node',
                    ls_ptr = bn_ptr node, ls_len = length (bn_bytes node)\<rparr>,
               b'\<lparr>block_nodes := (block_nodes b')[index := node'],
                  block_free_head := bn_free_next node,
                  block_active := block_active b' + 1\<rparr>)))"

text \<open>\<open>validate\<close>: the lease names a node in use, of its generation, with the same slice.\<close>

definition blocks_valid :: "blocks \<Rightarrow> lease \<Rightarrow> bool" where
  "blocks_valid b l \<longleftrightarrow>
     ls_index l < length (block_nodes b) \<and>
     (let node = block_nodes b ! ls_index l
      in bn_in_use node \<and> bn_generation node = ls_generation l \<and>
         ls_ptr l = bn_ptr node \<and> ls_len l = length (bn_bytes node))"

definition blocks_release :: "blocks \<Rightarrow> lease \<Rightarrow> unit result \<times> blocks" where
  "blocks_release b l =
     (if \<not> blocks_valid b l then (Inl (EPool StaleLease), b)
      else let node = block_nodes b ! ls_index l;
               node' = node\<lparr>bn_in_use := False, bn_chain_next := free_sentinel,
                            bn_free_next := block_free_head b\<rparr>
           in (Inr (), b\<lparr>block_nodes := (block_nodes b)[ls_index l := node'],
                         block_free_head := ls_index l,
                         block_active := block_active b - 1\<rparr>))"

definition blocks_link :: "blocks \<Rightarrow> lease \<Rightarrow> lease \<Rightarrow> unit result \<times> blocks" where
  "blocks_link b from to =
     (if \<not> blocks_valid b from then (Inl (EPool StaleLease), b)
      else if \<not> blocks_valid b to then (Inl (EPool StaleLease), b)
      else let node = block_nodes b ! ls_index from
           in if bn_chain_next node \<noteq> free_sentinel then (Inl (EPool InvalidConfig), b)
              else (Inr (), b\<lparr>block_nodes :=
                (block_nodes b)[ls_index from := node\<lparr>bn_chain_next := ls_index to\<rparr>]\<rparr>))"

definition blocks_next_lease :: "blocks \<Rightarrow> lease \<Rightarrow> lease option result" where
  "blocks_next_lease b l =
     (if \<not> blocks_valid b l then Inl (EPool StaleLease)
      else let index = bn_chain_next (block_nodes b ! ls_index l)
           in if index = free_sentinel then Inr None
              else let node = block_nodes b ! index
                   in if \<not> bn_in_use node then Inl (EPool StaleLease)
                      else Inr (Some \<lparr>ls_index = index, ls_generation = bn_generation node,
                                      ls_ptr = bn_ptr node, ls_len = length (bn_bytes node)\<rparr>))"

text \<open>Reads and writes through the slice of a lease.\<close>

definition lease_bytes :: "blocks \<Rightarrow> lease \<Rightarrow> u8 list" where
  "lease_bytes b l = bn_bytes (block_nodes b ! ls_ptr l)"

definition lease_write :: "blocks \<Rightarrow> lease \<Rightarrow> nat \<Rightarrow> u8 list \<Rightarrow> blocks" where
  "lease_write b l off src =
     (let node = block_nodes b ! ls_ptr l
      in b\<lparr>block_nodes := (block_nodes b)[ls_ptr l := node\<lparr>bn_bytes := blit (bn_bytes node) off src\<rparr>]\<rparr>)"

section \<open>Descriptor entries\<close>

record fd_lease =
  fl_index :: nat
  fl_generation :: u32
  fl_fd :: fd_t

record fd_node =
  fn_fd :: fd_t
  fn_free_next :: nat
  fn_chain_next :: nat
  fn_generation :: u32
  fn_in_use :: bool

record fds =
  fd_nodes :: "fd_node list"
  fd_free_head :: nat
  fd_active :: nat

definition fds_capacity :: "fds \<Rightarrow> nat" where
  "fds_capacity p = length (fd_nodes p)"

definition fds_available :: "fds \<Rightarrow> nat" where
  "fds_available p = fds_capacity p - fd_active p"

definition fds_grow :: "allocator \<Rightarrow> fds \<Rightarrow> unit result \<times> fds" where
  "fds_grow alloc p =
     (if free_sentinel \<le> length (fd_nodes p) then (Inl (EPool CapacityOverflow), p)
      else if \<not> alloc (length (fd_nodes p)) then (Inl (EPool OutOfMemory), p)
      else let index = length (fd_nodes p);
               node = \<lparr>fn_fd = -1, fn_free_next = fd_free_head p, fn_chain_next = free_sentinel,
                       fn_generation = 0, fn_in_use = False\<rparr>
           in (Inr (), p\<lparr>fd_nodes := fd_nodes p @ [node], fd_free_head := index\<rparr>))"

function fds_grow_until :: "allocator \<Rightarrow> fds \<Rightarrow> nat \<Rightarrow> unit result \<times> fds" where
  "fds_grow_until alloc p count =
     (if fds_available p < count then
        (case fds_grow alloc p of
           (Inl e, p') \<Rightarrow> (Inl e, p')
         | (Inr _, p') \<Rightarrow> fds_grow_until alloc p' count)
      else (Inr (), p))"
  by pat_completeness auto
termination
  by (relation "measure (\<lambda>(alloc, p, count). (count + fd_active p) - fds_capacity p)")
     (auto simp: fds_grow_def fds_available_def fds_capacity_def Let_def split: if_splits)

declare fds_grow_until.simps [simp del]

definition fds_ensure_available :: "allocator \<Rightarrow> fds \<Rightarrow> nat \<Rightarrow> unit result \<times> fds" where
  "fds_ensure_available alloc p count =
     (if free_sentinel - fd_active p < count then (Inl (EPool CapacityOverflow), p)
      else fds_grow_until alloc p count)"

definition fds_init :: "allocator \<Rightarrow> nat \<Rightarrow> fds result" where
  "fds_init alloc cap =
     (if cap = 0 \<or> free_sentinel < cap then Inl (EPool InvalidConfig)
      else case fds_ensure_available alloc
             \<lparr>fd_nodes = [], fd_free_head = free_sentinel, fd_active = 0\<rparr> cap of
             (Inl e, _) \<Rightarrow> Inl e
           | (Inr _, p) \<Rightarrow> Inr p)"

definition fds_acquire :: "allocator \<Rightarrow> fds \<Rightarrow> fd_t \<Rightarrow> fd_lease result \<times> fds" where
  "fds_acquire alloc p fd =
     (case fds_ensure_available alloc p 1 of
        (Inl e, p') \<Rightarrow> (Inl e, p')
      | (Inr _, p') \<Rightarrow>
          (let index = fd_free_head p';
               node = fd_nodes p' ! index;
               node' = node\<lparr>fn_generation := wrap_generation (fn_generation node), fn_fd := fd,
                            fn_chain_next := free_sentinel, fn_in_use := True\<rparr>
           in (Inr \<lparr>fl_index = index, fl_generation = fn_generation node', fl_fd = fd\<rparr>,
               p'\<lparr>fd_nodes := (fd_nodes p')[index := node'],
                  fd_free_head := fn_free_next node,
                  fd_active := fd_active p' + 1\<rparr>)))"

definition fds_valid :: "fds \<Rightarrow> fd_lease \<Rightarrow> bool" where
  "fds_valid p l \<longleftrightarrow>
     fl_index l < length (fd_nodes p) \<and>
     (let node = fd_nodes p ! fl_index l
      in fn_in_use node \<and> fn_generation node = fl_generation l \<and> fn_fd node = fl_fd l)"

definition fds_take :: "fds \<Rightarrow> fd_lease \<Rightarrow> fd_t result \<times> fds" where
  "fds_take p l =
     (if \<not> fds_valid p l then (Inl (EPool StaleLease), p)
      else let node = fd_nodes p ! fl_index l;
               node' = node\<lparr>fn_in_use := False, fn_chain_next := free_sentinel,
                            fn_free_next := fd_free_head p\<rparr>
           in (Inr (fl_fd l), p\<lparr>fd_nodes := (fd_nodes p)[fl_index l := node'],
                                fd_free_head := fl_index l,
                                fd_active := fd_active p - 1\<rparr>))"

definition fds_link :: "fds \<Rightarrow> fd_lease \<Rightarrow> fd_lease \<Rightarrow> unit result \<times> fds" where
  "fds_link p from to =
     (if \<not> fds_valid p from then (Inl (EPool StaleLease), p)
      else if \<not> fds_valid p to then (Inl (EPool StaleLease), p)
      else let node = fd_nodes p ! fl_index from
           in if fn_chain_next node \<noteq> free_sentinel then (Inl (EPool InvalidConfig), p)
              else (Inr (), p\<lparr>fd_nodes :=
                (fd_nodes p)[fl_index from := node\<lparr>fn_chain_next := fl_index to\<rparr>]\<rparr>))"

definition fds_next_lease :: "fds \<Rightarrow> fd_lease \<Rightarrow> fd_lease option result" where
  "fds_next_lease p l =
     (if \<not> fds_valid p l then Inl (EPool StaleLease)
      else let index = fn_chain_next (fd_nodes p ! fl_index l)
           in if index = free_sentinel then Inr None
              else let node = fd_nodes p ! index
                   in if \<not> fn_in_use node then Inl (EPool StaleLease)
                      else Inr (Some \<lparr>fl_index = index, fl_generation = fn_generation node,
                                      fl_fd = fn_fd node\<rparr>))"

section \<open>Invariant of the block pool\<close>

definition bnode_used :: "blocks \<Rightarrow> nat \<Rightarrow> bool" where
  "bnode_used b i \<longleftrightarrow> bn_in_use (block_nodes b ! i)"

definition bnode_free_next :: "blocks \<Rightarrow> nat \<Rightarrow> nat" where
  "bnode_free_next b i = bn_free_next (block_nodes b ! i)"

definition bnode_chain_next :: "blocks \<Rightarrow> nat \<Rightarrow> nat" where
  "bnode_chain_next b i = bn_chain_next (block_nodes b ! i)"

definition blocks_inv :: "blocks \<Rightarrow> bool" where
  "blocks_inv b \<longleftrightarrow>
     0 < block_size b \<and>
     free_table free_sentinel (bnode_free_next b) (bnode_used b)
       (length (block_nodes b)) (block_free_head b) (block_active b) \<and>
     (\<forall>i < length (block_nodes b).
        bn_ptr (block_nodes b ! i) = i \<and> length (bn_bytes (block_nodes b ! i)) = block_size b)"

lemmas bnode_defs = bnode_used_def bnode_free_next_def bnode_chain_next_def

lemma blocks_inv_table:
  "blocks_inv b \<Longrightarrow> free_table free_sentinel (bnode_free_next b) (bnode_used b)
     (length (block_nodes b)) (block_free_head b) (block_active b)"
  by (simp add: blocks_inv_def)

lemma blocks_inv_node:
  "blocks_inv b \<Longrightarrow> i < length (block_nodes b) \<Longrightarrow>
     bn_ptr (block_nodes b ! i) = i \<and> length (bn_bytes (block_nodes b ! i)) = block_size b"
  by (simp add: blocks_inv_def)

lemma blocks_active_le: "blocks_inv b \<Longrightarrow> block_active b \<le> blocks_capacity b \<and> blocks_capacity b \<le> free_sentinel"
  using free_table_active_le [OF blocks_inv_table] by (simp add: blocks_capacity_def)

text \<open>Growth appends nodes and touches nothing else.\<close>

definition blocks_extends :: "blocks \<Rightarrow> blocks \<Rightarrow> bool" where
  "blocks_extends b b' \<longleftrightarrow>
     length (block_nodes b) \<le> length (block_nodes b') \<and>
     (\<forall>i < length (block_nodes b). block_nodes b' ! i = block_nodes b ! i) \<and>
     (\<forall>i. length (block_nodes b) \<le> i \<and> i < length (block_nodes b') \<longrightarrow> \<not> bnode_used b' i) \<and>
     block_size b' = block_size b \<and> block_active b' = block_active b"

lemma blocks_extends_refl [simp]: "blocks_extends b b"
  by (auto simp: blocks_extends_def)

lemma blocks_extends_trans: "blocks_extends b c \<Longrightarrow> blocks_extends c d \<Longrightarrow> blocks_extends b d"
  by (auto simp: blocks_extends_def bnode_used_def) (metis not_le)

lemma blocks_grow_error: "blocks_grow alloc b = (Inl e, b') \<Longrightarrow> b' = b"
  by (auto simp: blocks_grow_def Let_def split: if_splits)

lemma blocks_grow_ok:
  assumes inv: "blocks_inv b" and grow: "blocks_grow alloc b = (Inr u, b')"
  shows "blocks_inv b' \<and> blocks_extends b b' \<and> blocks_capacity b' = blocks_capacity b + 1"
proof -
  let ?n = "length (block_nodes b)"
  let ?node = "\<lparr>bn_ptr = ?n, bn_bytes = replicate (block_size b) undefined_byte,
      bn_free_next = block_free_head b, bn_chain_next = free_sentinel,
      bn_generation = 0, bn_in_use = False\<rparr>"
  from grow have n: "?n < free_sentinel"
    and b': "b' = b\<lparr>block_nodes := block_nodes b @ [?node], block_free_head := ?n\<rparr>"
    by (auto simp: blocks_grow_def Let_def split: if_splits)
  have "free_table free_sentinel (bnode_free_next b') (bnode_used b') (Suc ?n) ?n (block_active b)"
    by (rule free_table_grow [OF blocks_inv_table [OF inv] n])
       (simp_all add: b' bnode_defs nth_append)
  then have "blocks_inv b'"
    using inv by (auto simp: blocks_inv_def b' nth_append less_Suc_eq)
  moreover have "blocks_extends b b'"
    by (auto simp: blocks_extends_def b' nth_append bnode_used_def)
  ultimately show ?thesis by (simp add: blocks_capacity_def b')
qed

lemma blocks_grow_until_inv:
  "blocks_grow_until alloc b count = (r, b') \<Longrightarrow> blocks_inv b \<Longrightarrow>
     blocks_inv b' \<and> blocks_extends b b' \<and> (r = Inr () \<longrightarrow> count \<le> blocks_available b')"
proof (induction alloc b count arbitrary: r b' rule: blocks_grow_until.induct)
  case (1 alloc b count)
  show ?case
  proof (cases "blocks_available b < count")
    case False
    with "1.prems" show ?thesis by (auto simp: blocks_grow_until.simps [of alloc b])
  next
    case True
    show ?thesis
    proof (cases "blocks_grow alloc b")
      case (Pair g b1)
      show ?thesis
      proof (cases g)
        case (Inl e)
        with True Pair "1.prems" show ?thesis
          by (auto simp: blocks_grow_until.simps [of alloc b] dest: blocks_grow_error)
      next
        case (Inr u)
        with True Pair "1.prems" have "blocks_grow_until alloc b1 count = (r, b')"
          by (simp add: blocks_grow_until.simps [of alloc b])
        moreover from Pair Inr "1.prems"(2) have "blocks_inv b1" "blocks_extends b b1"
          using blocks_grow_ok by blast+
        ultimately show ?thesis
          using "1.IH" [OF True Pair [symmetric] Inr] blocks_extends_trans by blast
      qed
    qed
  qed
qed

text \<open>Growing succeeds as long as the allocator does and the index space lasts.\<close>

lemma blocks_grow_until_total:
  assumes "blocks_inv b" and "generous alloc" and "block_active b + count \<le> free_sentinel"
  shows "\<exists>b'. blocks_grow_until alloc b count = (Inr (), b')"
  using assms
proof (induction alloc b count rule: blocks_grow_until.induct)
  case (1 alloc b count)
  show ?case
  proof (cases "blocks_available b < count")
    case False
    then show ?thesis by (auto simp: blocks_grow_until.simps [of alloc b])
  next
    case True
    with "1.prems" have "length (block_nodes b) < free_sentinel"
      using blocks_active_le [OF "1.prems"(1)] by (simp add: blocks_available_def blocks_capacity_def)
    with "1.prems"(2) obtain b1 where g: "blocks_grow alloc b = (Inr (), b1)"
      by (auto simp: blocks_grow_def generous_def Let_def)
    from blocks_grow_ok [OF "1.prems"(1) g]
    have b1: "blocks_inv b1" "block_active b1 = block_active b"
      by (auto simp: blocks_extends_def)
    have "\<exists>b'. blocks_grow_until alloc b1 count = (Inr (), b')"
      using "1.IH" [OF True g [symmetric] refl b1(1) "1.prems"(2)] "1.prems"(3) b1(2) by simp
    with True g show ?thesis by (simp add: blocks_grow_until.simps [of alloc b])
  qed
qed

lemma blocks_ensure_inv:
  "blocks_ensure_available alloc b count = (r, b') \<Longrightarrow> blocks_inv b \<Longrightarrow>
     blocks_inv b' \<and> blocks_extends b b' \<and> (r = Inr () \<longrightarrow> count \<le> blocks_available b')"
  by (auto simp: blocks_ensure_available_def dest: blocks_grow_until_inv split: if_splits)

lemma blocks_ensure_total:
  assumes "blocks_inv b" and "generous alloc" and "block_active b + count \<le> free_sentinel"
  shows "\<exists>b'. blocks_ensure_available alloc b count = (Inr (), b')"
  using blocks_grow_until_total [OF assms] assms(3)
  by (auto simp: blocks_ensure_available_def)

text \<open>With enough free nodes nothing is allocated: the call is the identity.\<close>

lemma blocks_ensure_free:
  assumes "blocks_inv b" and "count \<le> blocks_available b"
  shows "blocks_ensure_available alloc b count = (Inr (), b)"
proof -
  have "\<not> free_sentinel - block_active b < count"
    using assms blocks_active_le [OF assms(1)] unfolding blocks_available_def by linarith
  with assms(2) show ?thesis
    by (simp add: blocks_ensure_available_def blocks_grow_until.simps [of alloc b])
qed

lemma blocks_init_inv:
  assumes "blocks_init alloc bsize bcount = Inr b"
  shows "blocks_inv b \<and> block_size b = bsize \<and> block_active b = 0 \<and> bcount \<le> blocks_available b"
proof -
  let ?b0 = "\<lparr>block_size = bsize, block_nodes = [], block_free_head = free_sentinel, block_active = 0\<rparr>"
  from assms have "0 < bsize" and e: "blocks_ensure_available alloc ?b0 bcount = (Inr (), b)"
    by (auto simp: blocks_init_def split: if_splits prod.splits sum.splits)
  then have "blocks_inv ?b0" by (simp add: blocks_inv_def)
  from blocks_ensure_inv [OF e this] show ?thesis by (simp add: blocks_extends_def)
qed

section \<open>Leases of the block pool\<close>

lemma blocks_valid_index: "blocks_inv b \<Longrightarrow> blocks_valid b l \<Longrightarrow>
    ls_index l < length (block_nodes b) \<and> bnode_used b (ls_index l) \<and> ls_ptr l = ls_index l \<and>
    ls_len l = block_size b \<and> ls_index l \<noteq> free_sentinel"
  using blocks_active_le [of b] blocks_inv_node [of b "ls_index l"]
  by (auto simp: blocks_valid_def Let_def bnode_used_def blocks_capacity_def)

lemma blocks_valid_unique: "blocks_valid b l \<Longrightarrow> blocks_valid b m \<Longrightarrow> ls_index l = ls_index m \<Longrightarrow> l = m"
  by (cases l; cases m) (auto simp: blocks_valid_def Let_def)

lemma blocks_valid_extends: "blocks_extends b b' \<Longrightarrow> blocks_valid b l \<Longrightarrow> blocks_valid b' l"
  by (auto simp: blocks_extends_def blocks_valid_def)

lemma length_lease_bytes: "blocks_inv b \<Longrightarrow> blocks_valid b l \<Longrightarrow> length (lease_bytes b l) = block_size b"
  using blocks_valid_index [of b l] blocks_inv_node [of b "ls_index l"]
  by (simp add: lease_bytes_def)

text \<open>What acquiring a block does, for a pool that satisfies the invariant.\<close>

lemma blocks_acquire_ok:
  assumes inv: "blocks_inv b" and acq: "blocks_acquire alloc b = (Inr l, b')"
  obtains b1 where "blocks_inv b1" "blocks_extends b b1"
    "ls_index l < length (block_nodes b1)" "\<not> bnode_used b1 (ls_index l)"
    "blocks_inv b'" "blocks_valid b' l" "bnode_chain_next b' (ls_index l) = free_sentinel"
    "ls_generation l = wrap_generation (bn_generation (block_nodes b1 ! ls_index l))"
    "length (block_nodes b') = length (block_nodes b1)"
    "\<And>i. i \<noteq> ls_index l \<Longrightarrow> block_nodes b' ! i = block_nodes b1 ! i"
    "block_size b' = block_size b" "block_active b' = block_active b + 1"
proof -
  from acq obtain b1 where ens: "blocks_ensure_available alloc b 1 = (Inr (), b1)"
    by (auto simp: blocks_acquire_def split: prod.splits sum.splits)
  let ?i = "block_free_head b1"
  let ?node = "block_nodes b1 ! ?i"
  let ?node' = "?node\<lparr>bn_generation := wrap_generation (bn_generation ?node), bn_in_use := True,
      bn_chain_next := free_sentinel\<rparr>"
  from acq ens have l: "l = \<lparr>ls_index = ?i, ls_generation = bn_generation ?node',
      ls_ptr = bn_ptr ?node, ls_len = length (bn_bytes ?node)\<rparr>"
    and b': "b' = b1\<lparr>block_nodes := (block_nodes b1)[?i := ?node'],
      block_free_head := bn_free_next ?node, block_active := block_active b1 + 1\<rparr>"
    by (auto simp: blocks_acquire_def Let_def)
  from blocks_ensure_inv [OF ens inv] have b1: "blocks_inv b1" "blocks_extends b b1"
    "1 \<le> blocks_available b1" by auto
  note ft = blocks_inv_table [OF b1(1)]
  have head: "?i \<noteq> free_sentinel"
    using free_table_head_end [OF ft] b1(3) by (auto simp: blocks_available_def blocks_capacity_def)
  note h = free_table_head [OF ft head]
  have "free_table free_sentinel (bnode_free_next b') (bnode_used b') (length (block_nodes b1))
      (bnode_free_next b1 ?i) (Suc (block_active b1))"
    using h by (intro free_table_pop [OF ft head]) (auto simp: b' bnode_defs nth_list_update)
  then have inv': "blocks_inv b'"
    using b1(1) h(1) by (auto simp: blocks_inv_def b' bnode_defs nth_list_update)
  show ?thesis
    using that [OF b1(1,2)] h inv' b1(2)
    by (simp add: l b' blocks_valid_def bnode_defs blocks_extends_def Let_def)
qed

lemma blocks_acquire_new:
  assumes "blocks_inv b" and "blocks_acquire alloc b = (Inr l, b')"
  shows "blocks_inv b'" "blocks_valid b' l" "bnode_chain_next b' (ls_index l) = free_sentinel"
    "block_size b' = block_size b" "block_active b' = block_active b + 1"
  by (rule blocks_acquire_ok [OF assms], assumption)+

lemma blocks_acquire_total:
  assumes "blocks_inv b" and "generous alloc" and "block_active b + 1 \<le> free_sentinel"
  shows "\<exists>l b'. blocks_acquire alloc b = (Inr l, b')"
proof -
  obtain b1 where "blocks_ensure_available alloc b 1 = (Inr (), b1)"
    using blocks_ensure_total [OF assms] by blast
  then show ?thesis by (simp add: blocks_acquire_def Let_def)
qed

lemma blocks_release_ok:
  assumes inv: "blocks_inv b" and rel: "blocks_release b l = (Inr u, b')"
  shows "blocks_inv b' \<and> blocks_valid b l \<and> length (block_nodes b') = length (block_nodes b) \<and>
    (\<forall>i. i \<noteq> ls_index l \<longrightarrow> block_nodes b' ! i = block_nodes b ! i) \<and>
    \<not> bnode_used b' (ls_index l) \<and> block_size b' = block_size b \<and>
    block_active b' = block_active b - 1"
proof -
  let ?i = "ls_index l"
  from rel have v: "blocks_valid b l"
    and b': "b' = b\<lparr>block_nodes := (block_nodes b)[?i := (block_nodes b ! ?i)\<lparr>bn_in_use := False,
        bn_chain_next := free_sentinel, bn_free_next := block_free_head b\<rparr>],
      block_free_head := ?i, block_active := block_active b - 1\<rparr>"
    by (auto simp: blocks_release_def Let_def split: if_splits)
  note i = blocks_valid_index [OF inv v]
  have "free_table free_sentinel (bnode_free_next b') (bnode_used b') (length (block_nodes b))
      ?i (block_active b - 1)"
    using i by (intro free_table_push [OF blocks_inv_table [OF inv]])
      (auto simp: b' bnode_defs nth_list_update)
  then have "blocks_inv b'" using inv i by (auto simp: blocks_inv_def b' nth_list_update)
  then show ?thesis using v i by (simp add: b' bnode_used_def)
qed

lemma blocks_release_total: "blocks_valid b l \<Longrightarrow> \<exists>b'. blocks_release b l = (Inr (), b')"
  by (simp add: blocks_release_def Let_def)

lemma blocks_link_ok:
  assumes inv: "blocks_inv b" and link: "blocks_link b l k = (Inr u, b')"
  shows "blocks_inv b' \<and> blocks_valid b l \<and> blocks_valid b k \<and>
    bnode_chain_next b' (ls_index l) = ls_index k \<and>
    (\<forall>m. blocks_valid b m \<longrightarrow> blocks_valid b' m \<and> lease_bytes b' m = lease_bytes b m \<and>
       (ls_index m \<noteq> ls_index l \<longrightarrow> bnode_chain_next b' (ls_index m) = bnode_chain_next b (ls_index m)))"
proof -
  from link have v: "blocks_valid b l" "blocks_valid b k"
    and b': "b' = b\<lparr>block_nodes := (block_nodes b)[ls_index l :=
        (block_nodes b ! ls_index l)\<lparr>bn_chain_next := ls_index k\<rparr>]\<rparr>"
    by (auto simp: blocks_link_def Let_def split: if_splits)
  note i = blocks_valid_index [OF inv v(1)]
  have "free_table free_sentinel (bnode_free_next b') (bnode_used b') (length (block_nodes b))
      (block_free_head b) (block_active b)"
    using blocks_inv_table [OF inv] i
    by (subst free_table_cong) (auto simp: b' bnode_defs nth_list_update)
  then have "blocks_inv b'" using inv i by (auto simp: blocks_inv_def b' nth_list_update)
  then show ?thesis
    using v i
    by (auto simp: b' bnode_chain_next_def blocks_valid_def Let_def lease_bytes_def nth_list_update)
qed

lemma blocks_link_total:
  "blocks_valid b l \<Longrightarrow> blocks_valid b k \<Longrightarrow> bnode_chain_next b (ls_index l) = free_sentinel \<Longrightarrow>
     \<exists>b'. blocks_link b l k = (Inr (), b') \<and> block_size b' = block_size b \<and>
          block_active b' = block_active b \<and> blocks_capacity b' = blocks_capacity b"
  by (simp add: blocks_link_def Let_def bnode_chain_next_def blocks_capacity_def)

text \<open>Writing through a lease changes the bytes of that block only.\<close>

lemma lease_write_ok:
  assumes inv: "blocks_inv b" and v: "blocks_valid b l" and "off + length src \<le> block_size b"
  shows "blocks_inv (lease_write b l off src) \<and>
    lease_bytes (lease_write b l off src) l = blit (lease_bytes b l) off src \<and>
    (\<forall>m. blocks_valid b m \<longrightarrow> blocks_valid (lease_write b l off src) m \<and>
       bnode_chain_next (lease_write b l off src) (ls_index m) = bnode_chain_next b (ls_index m) \<and>
       (ls_index m \<noteq> ls_index l \<longrightarrow> lease_bytes (lease_write b l off src) m = lease_bytes b m)) \<and>
    block_size (lease_write b l off src) = block_size b \<and>
    block_active (lease_write b l off src) = block_active b \<and>
    blocks_capacity (lease_write b l off src) = blocks_capacity b"
proof -
  let ?b = "lease_write b l off src"
  note i = blocks_valid_index [OF inv v]
  note n = blocks_inv_node [OF inv conjunct1 [OF i]]
  have "free_table free_sentinel (bnode_free_next ?b) (bnode_used ?b) (length (block_nodes b))
      (block_free_head b) (block_active b)"
    using blocks_inv_table [OF inv] i
    by (subst free_table_cong) (auto simp: lease_write_def Let_def bnode_defs nth_list_update)
  then have "blocks_inv ?b"
    using inv i n assms(3) by (auto simp: blocks_inv_def lease_write_def Let_def nth_list_update)
  moreover have "blocks_valid ?b m" if "blocks_valid b m" for m
    using that i n assms(3)
    by (auto simp: blocks_valid_def lease_write_def Let_def nth_list_update)
  ultimately show ?thesis
    using i blocks_valid_index [OF inv]
    by (auto simp: lease_write_def Let_def bnode_chain_next_def lease_bytes_def nth_list_update
        blocks_capacity_def)
qed

section \<open>The block pool provides leases\<close>

definition blocks_acquired :: "blocks \<Rightarrow> lease \<Rightarrow> blocks \<Rightarrow> bool" where
  "blocks_acquired b l b' \<longleftrightarrow> (\<exists>alloc. blocks_acquire alloc b = (Inr l, b'))"

definition blocks_linked :: "blocks \<Rightarrow> lease \<Rightarrow> lease \<Rightarrow> blocks \<Rightarrow> bool" where
  "blocks_linked b l k b' \<longleftrightarrow> blocks_link b l k = (Inr (), b')"

definition blocks_released :: "blocks \<Rightarrow> lease \<Rightarrow> blocks \<Rightarrow> bool" where
  "blocks_released b l b' \<longleftrightarrow> blocks_release b l = (Inr (), b')"

lemma blocks_acquire_frame:
  assumes inv: "blocks_inv b" and acq: "blocks_acquire alloc b = (Inr l, b')"
    and v: "blocks_valid b m"
  shows "ls_index m \<noteq> ls_index l" "blocks_valid b' m"
    "bnode_chain_next b' (ls_index m) = bnode_chain_next b (ls_index m)"
    "lease_bytes b' m = lease_bytes b m"
proof -
  obtain b1 where b1: "blocks_extends b b1" "\<not> bnode_used b1 (ls_index l)"
    "length (block_nodes b') = length (block_nodes b1)"
    "\<And>i. i \<noteq> ls_index l \<Longrightarrow> block_nodes b' ! i = block_nodes b1 ! i"
    by (rule blocks_acquire_ok [OF inv acq], rule that) assumption+
  note m = blocks_valid_index [OF inv v]
  from b1(1) m have node: "block_nodes b1 ! ls_index m = block_nodes b ! ls_index m"
    and len: "length (block_nodes b) \<le> length (block_nodes b1)"
    by (auto simp: blocks_extends_def)
  with m b1(2) show ne: "ls_index m \<noteq> ls_index l" by (auto simp: bnode_used_def)
  show "blocks_valid b' m" "bnode_chain_next b' (ls_index m) = bnode_chain_next b (ls_index m)"
    "lease_bytes b' m = lease_bytes b m"
    using v m ne node len b1(3) b1(4) [OF ne]
    by (auto simp: blocks_valid_def bnode_chain_next_def lease_bytes_def)
qed

interpretation block_pool: lease_pool blocks_inv blocks_valid ls_index bnode_chain_next
  lease_bytes free_sentinel blocks_acquired blocks_linked blocks_released
proof unfold_locales
  fix s l m
  assume "blocks_valid s l" and "blocks_valid s m" and "ls_index l = ls_index m"
  then show "l = m" by (rule blocks_valid_unique)
next
  fix s l s'
  assume "blocks_inv s" and "blocks_acquired s l s'"
  then show "blocks_inv s' \<and> blocks_valid s' l \<and> ls_index l \<noteq> free_sentinel \<and>
      bnode_chain_next s' (ls_index l) = free_sentinel"
    unfolding blocks_acquired_def by (blast dest: blocks_acquire_new blocks_valid_index)
next
  fix s l s' m
  assume "blocks_inv s" and "blocks_acquired s l s'" and "blocks_valid s m"
  then show "ls_index m \<noteq> ls_index l"
    unfolding blocks_acquired_def by (blast dest: blocks_acquire_frame)
next
  fix s l s' m
  assume "blocks_inv s" and "blocks_acquired s l s'" and "blocks_valid s m"
  then show "blocks_valid s' m \<and> bnode_chain_next s' (ls_index m) = bnode_chain_next s (ls_index m) \<and>
      lease_bytes s' m = lease_bytes s m"
    unfolding blocks_acquired_def by (blast dest: blocks_acquire_frame)
next
  fix s l k s'
  assume "blocks_inv s" and "blocks_linked s l k s'"
  then show "blocks_inv s' \<and> blocks_valid s l \<and> blocks_valid s k \<and>
      bnode_chain_next s' (ls_index l) = ls_index k"
    unfolding blocks_linked_def by (blast dest: blocks_link_ok)
next
  fix s l k s' m
  assume "blocks_inv s" and "blocks_linked s l k s'" and "blocks_valid s m"
  then show "blocks_valid s' m \<and> lease_bytes s' m = lease_bytes s m \<and>
      (ls_index m \<noteq> ls_index l \<longrightarrow> bnode_chain_next s' (ls_index m) = bnode_chain_next s (ls_index m))"
    unfolding blocks_linked_def by (blast dest: blocks_link_ok)
next
  fix s l s'
  assume inv: "blocks_inv s" and "blocks_released s l s'"
  then have rel: "blocks_release s l = (Inr (), s')" by (simp add: blocks_released_def)
  note r = blocks_release_ok [OF inv rel]
  have "blocks_valid s' m \<and> bnode_chain_next s' (ls_index m) = bnode_chain_next s (ls_index m) \<and>
      lease_bytes s' m = lease_bytes s m" if "blocks_valid s m" "ls_index m \<noteq> ls_index l" for m
    using that r blocks_valid_index [OF inv that(1)]
    by (auto simp: blocks_valid_def bnode_chain_next_def lease_bytes_def)
  with r show "blocks_inv s' \<and> blocks_valid s l \<and> (\<forall>m. blocks_valid s m \<longrightarrow> ls_index m \<noteq> ls_index l \<longrightarrow>
      blocks_valid s' m \<and> bnode_chain_next s' (ls_index m) = bnode_chain_next s (ls_index m) \<and>
      lease_bytes s' m = lease_bytes s m)" by blast
qed

section \<open>Invariant of the descriptor pool\<close>

definition fnode_used :: "fds \<Rightarrow> nat \<Rightarrow> bool" where
  "fnode_used p i \<longleftrightarrow> fn_in_use (fd_nodes p ! i)"

definition fnode_free_next :: "fds \<Rightarrow> nat \<Rightarrow> nat" where
  "fnode_free_next p i = fn_free_next (fd_nodes p ! i)"

definition fnode_chain_next :: "fds \<Rightarrow> nat \<Rightarrow> nat" where
  "fnode_chain_next p i = fn_chain_next (fd_nodes p ! i)"

definition fds_inv :: "fds \<Rightarrow> bool" where
  "fds_inv p \<longleftrightarrow>
     free_table free_sentinel (fnode_free_next p) (fnode_used p)
       (length (fd_nodes p)) (fd_free_head p) (fd_active p)"

lemmas fnode_defs = fnode_used_def fnode_free_next_def fnode_chain_next_def

text \<open>The leases that validate, and the descriptors the pool owns through them.\<close>

definition fds_live :: "fds \<Rightarrow> fd_lease set" where
  "fds_live p = {l. fds_valid p l}"

lemma fds_active_le: "fds_inv p \<Longrightarrow> fd_active p \<le> fds_capacity p \<and> fds_capacity p \<le> free_sentinel"
  using free_table_active_le by (simp add: fds_inv_def fds_capacity_def)

definition fds_extends :: "fds \<Rightarrow> fds \<Rightarrow> bool" where
  "fds_extends p p' \<longleftrightarrow>
     length (fd_nodes p) \<le> length (fd_nodes p') \<and>
     (\<forall>i < length (fd_nodes p). fd_nodes p' ! i = fd_nodes p ! i) \<and>
     (\<forall>i. length (fd_nodes p) \<le> i \<and> i < length (fd_nodes p') \<longrightarrow> \<not> fnode_used p' i) \<and>
     fd_active p' = fd_active p"

lemma fds_extends_refl [simp]: "fds_extends p p"
  by (auto simp: fds_extends_def)

lemma fds_extends_trans: "fds_extends p q \<Longrightarrow> fds_extends q r \<Longrightarrow> fds_extends p r"
  by (auto simp: fds_extends_def fnode_used_def) (metis not_le)

lemma fds_grow_error: "fds_grow alloc p = (Inl e, p') \<Longrightarrow> p' = p"
  by (auto simp: fds_grow_def Let_def split: if_splits)

lemma fds_grow_ok:
  assumes inv: "fds_inv p" and grow: "fds_grow alloc p = (Inr u, p')"
  shows "fds_inv p' \<and> fds_extends p p' \<and> fds_capacity p' = fds_capacity p + 1"
proof -
  let ?n = "length (fd_nodes p)"
  let ?node = "\<lparr>fn_fd = -1, fn_free_next = fd_free_head p, fn_chain_next = free_sentinel,
      fn_generation = 0, fn_in_use = False\<rparr>"
  from grow have n: "?n < free_sentinel"
    and p': "p' = p\<lparr>fd_nodes := fd_nodes p @ [?node], fd_free_head := ?n\<rparr>"
    by (auto simp: fds_grow_def Let_def split: if_splits)
  from inv have "free_table free_sentinel (fnode_free_next p') (fnode_used p') (Suc ?n) ?n (fd_active p)"
    unfolding fds_inv_def
    by (rule free_table_grow [OF _ n]) (simp_all add: p' fnode_defs nth_append)
  then have "fds_inv p'" by (simp add: fds_inv_def p')
  moreover have "fds_extends p p'"
    by (auto simp: fds_extends_def p' nth_append fnode_used_def)
  ultimately show ?thesis by (simp add: fds_capacity_def p')
qed

lemma fds_grow_until_inv:
  "fds_grow_until alloc p count = (r, p') \<Longrightarrow> fds_inv p \<Longrightarrow>
     fds_inv p' \<and> fds_extends p p' \<and> (r = Inr () \<longrightarrow> count \<le> fds_available p')"
proof (induction alloc p count arbitrary: r p' rule: fds_grow_until.induct)
  case (1 alloc p count)
  show ?case
  proof (cases "fds_available p < count")
    case False
    with "1.prems" show ?thesis by (auto simp: fds_grow_until.simps [of alloc p])
  next
    case True
    show ?thesis
    proof (cases "fds_grow alloc p")
      case (Pair g p1)
      show ?thesis
      proof (cases g)
        case (Inl e)
        with True Pair "1.prems" show ?thesis
          by (auto simp: fds_grow_until.simps [of alloc p] dest: fds_grow_error)
      next
        case (Inr u)
        with True Pair "1.prems" have "fds_grow_until alloc p1 count = (r, p')"
          by (simp add: fds_grow_until.simps [of alloc p])
        moreover from Pair Inr "1.prems"(2) have "fds_inv p1" "fds_extends p p1"
          using fds_grow_ok by blast+
        ultimately show ?thesis
          using "1.IH" [OF True Pair [symmetric] Inr] fds_extends_trans by blast
      qed
    qed
  qed
qed

lemma fds_grow_until_total:
  assumes "fds_inv p" and "generous alloc" and "fd_active p + count \<le> free_sentinel"
  shows "\<exists>p'. fds_grow_until alloc p count = (Inr (), p')"
  using assms
proof (induction alloc p count rule: fds_grow_until.induct)
  case (1 alloc p count)
  show ?case
  proof (cases "fds_available p < count")
    case False
    then show ?thesis by (auto simp: fds_grow_until.simps [of alloc p])
  next
    case True
    with "1.prems" have "length (fd_nodes p) < free_sentinel"
      using fds_active_le [OF "1.prems"(1)] by (simp add: fds_available_def fds_capacity_def)
    with "1.prems"(2) obtain p1 where g: "fds_grow alloc p = (Inr (), p1)"
      by (auto simp: fds_grow_def generous_def Let_def)
    from fds_grow_ok [OF "1.prems"(1) g]
    have p1: "fds_inv p1" "fd_active p1 = fd_active p"
      by (auto simp: fds_extends_def)
    have "\<exists>p'. fds_grow_until alloc p1 count = (Inr (), p')"
      using "1.IH" [OF True g [symmetric] refl p1(1) "1.prems"(2)] "1.prems"(3) p1(2) by simp
    with True g show ?thesis by (simp add: fds_grow_until.simps [of alloc p])
  qed
qed

lemma fds_ensure_inv:
  "fds_ensure_available alloc p count = (r, p') \<Longrightarrow> fds_inv p \<Longrightarrow>
     fds_inv p' \<and> fds_extends p p' \<and> (r = Inr () \<longrightarrow> count \<le> fds_available p')"
  by (auto simp: fds_ensure_available_def dest: fds_grow_until_inv split: if_splits)

lemma fds_ensure_total:
  assumes "fds_inv p" and "generous alloc" and "fd_active p + count \<le> free_sentinel"
  shows "\<exists>p'. fds_ensure_available alloc p count = (Inr (), p')"
  using fds_grow_until_total [OF assms] assms(3)
  by (auto simp: fds_ensure_available_def)

lemma fds_ensure_free:
  assumes "fds_inv p" and "count \<le> fds_available p"
  shows "fds_ensure_available alloc p count = (Inr (), p)"
proof -
  have "\<not> free_sentinel - fd_active p < count"
    using assms fds_active_le [OF assms(1)] unfolding fds_available_def by linarith
  with assms(2) show ?thesis
    by (simp add: fds_ensure_available_def fds_grow_until.simps [of alloc p])
qed

lemma fds_init_inv:
  assumes "fds_init alloc cap = Inr p"
  shows "fds_inv p \<and> fds_live p = {} \<and> fd_active p = 0 \<and> cap \<le> fds_available p"
proof -
  let ?p0 = "\<lparr>fd_nodes = [], fd_free_head = free_sentinel, fd_active = 0\<rparr>"
  from assms have e: "fds_ensure_available alloc ?p0 cap = (Inr (), p)"
    by (auto simp: fds_init_def split: if_splits prod.splits sum.splits)
  have "fds_inv ?p0" by (simp add: fds_inv_def)
  from fds_ensure_inv [OF e this] show ?thesis
    by (auto simp: fds_extends_def fds_live_def fds_valid_def Let_def fnode_used_def)
qed

section \<open>Leases of the descriptor pool\<close>

lemma fds_valid_index: "fds_inv p \<Longrightarrow> fds_valid p l \<Longrightarrow>
    fl_index l < length (fd_nodes p) \<and> fnode_used p (fl_index l) \<and> fl_index l \<noteq> free_sentinel"
  using fds_active_le [of p] by (auto simp: fds_valid_def Let_def fnode_used_def fds_capacity_def)

lemma fds_valid_unique: "fds_valid p l \<Longrightarrow> fds_valid p m \<Longrightarrow> fl_index l = fl_index m \<Longrightarrow> l = m"
  by (cases l; cases m) (auto simp: fds_valid_def Let_def)

text \<open>Unused nodes of a grown pool validate nothing, so growth keeps the live leases.\<close>

lemma fds_live_extends: "fds_extends p p' \<Longrightarrow> fds_live p' = fds_live p"
  by (auto simp: fds_extends_def fds_live_def fds_valid_def fnode_used_def Let_def) (metis not_le)+

lemma fds_acquire_ok:
  assumes inv: "fds_inv p" and acq: "fds_acquire alloc p fd = (Inr l, p')"
  obtains p1 where "fds_inv p1" "fds_extends p p1"
    "fl_index l < length (fd_nodes p1)" "\<not> fnode_used p1 (fl_index l)"
    "fds_inv p'" "fds_valid p' l" "fnode_chain_next p' (fl_index l) = free_sentinel"
    "fl_fd l = fd" "length (fd_nodes p') = length (fd_nodes p1)"
    "\<And>i. i \<noteq> fl_index l \<Longrightarrow> fd_nodes p' ! i = fd_nodes p1 ! i"
    "fd_active p' = fd_active p + 1"
proof -
  from acq obtain p1 where ens: "fds_ensure_available alloc p 1 = (Inr (), p1)"
    by (auto simp: fds_acquire_def split: prod.splits sum.splits)
  let ?i = "fd_free_head p1"
  let ?node = "fd_nodes p1 ! ?i"
  let ?node' = "?node\<lparr>fn_generation := wrap_generation (fn_generation ?node), fn_fd := fd,
      fn_chain_next := free_sentinel, fn_in_use := True\<rparr>"
  from acq ens have l: "l = \<lparr>fl_index = ?i, fl_generation = fn_generation ?node', fl_fd = fd\<rparr>"
    and p': "p' = p1\<lparr>fd_nodes := (fd_nodes p1)[?i := ?node'],
      fd_free_head := fn_free_next ?node, fd_active := fd_active p1 + 1\<rparr>"
    by (auto simp: fds_acquire_def Let_def)
  from fds_ensure_inv [OF ens inv] have p1: "fds_inv p1" "fds_extends p p1"
    "1 \<le> fds_available p1" by auto
  note ft = p1(1) [unfolded fds_inv_def]
  have head: "?i \<noteq> free_sentinel"
    using free_table_head_end [OF ft] p1(3) by (auto simp: fds_available_def fds_capacity_def)
  note h = free_table_head [OF ft head]
  have "free_table free_sentinel (fnode_free_next p') (fnode_used p') (length (fd_nodes p1))
      (fnode_free_next p1 ?i) (Suc (fd_active p1))"
    using h by (intro free_table_pop [OF ft head]) (auto simp: p' fnode_defs nth_list_update)
  then have inv': "fds_inv p'"
    by (simp add: fds_inv_def p' fnode_free_next_def)
  show ?thesis
    using that [OF p1(1,2)] h inv' p1(2)
    by (simp add: l p' fds_valid_def fnode_defs fds_extends_def Let_def)
qed

lemma fds_acquire_new:
  assumes "fds_inv p" and "fds_acquire alloc p fd = (Inr l, p')"
  shows "fds_inv p'" "fds_valid p' l" "fnode_chain_next p' (fl_index l) = free_sentinel"
    "fl_fd l = fd" "fd_active p' = fd_active p + 1"
  by (rule fds_acquire_ok [OF assms], assumption)+

lemma fds_acquire_total:
  assumes "fds_inv p" and "generous alloc" and "fd_active p + 1 \<le> free_sentinel"
  shows "\<exists>l p'. fds_acquire alloc p fd = (Inr l, p')"
proof -
  obtain p1 where "fds_ensure_available alloc p 1 = (Inr (), p1)"
    using fds_ensure_total [OF assms] by blast
  then show ?thesis by (simp add: fds_acquire_def Let_def)
qed

lemma fds_acquire_frame:
  assumes inv: "fds_inv p" and acq: "fds_acquire alloc p fd = (Inr l, p')"
    and v: "fds_valid p m"
  shows "fl_index m \<noteq> fl_index l" "fds_valid p' m"
    "fnode_chain_next p' (fl_index m) = fnode_chain_next p (fl_index m)"
proof -
  obtain p1 where p1: "fds_extends p p1" "\<not> fnode_used p1 (fl_index l)"
    "length (fd_nodes p') = length (fd_nodes p1)"
    "\<And>i. i \<noteq> fl_index l \<Longrightarrow> fd_nodes p' ! i = fd_nodes p1 ! i"
    by (rule fds_acquire_ok [OF inv acq], rule that) assumption+
  note m = fds_valid_index [OF inv v]
  from p1(1) m have node: "fd_nodes p1 ! fl_index m = fd_nodes p ! fl_index m"
    and len: "length (fd_nodes p) \<le> length (fd_nodes p1)"
    by (auto simp: fds_extends_def)
  with m p1(2) show ne: "fl_index m \<noteq> fl_index l" by (auto simp: fnode_used_def)
  show "fds_valid p' m" "fnode_chain_next p' (fl_index m) = fnode_chain_next p (fl_index m)"
    using v m ne node len p1(3) p1(4) [OF ne]
    by (auto simp: fds_valid_def fnode_chain_next_def)
qed

lemma fds_acquire_live:
  assumes inv: "fds_inv p" and acq: "fds_acquire alloc p fd = (Inr l, p')"
  shows "fds_live p' = insert l (fds_live p)" and "l \<notin> fds_live p"
proof -
  obtain p1 where p1: "fds_extends p p1" "length (fd_nodes p') = length (fd_nodes p1)"
    "\<And>i. i \<noteq> fl_index l \<Longrightarrow> fd_nodes p' ! i = fd_nodes p1 ! i"
    by (rule fds_acquire_ok [OF inv acq], rule that) assumption+
  have "m = l \<or> m \<in> fds_live p" if "fds_valid p' m" for m
  proof (cases "fl_index m = fl_index l")
    case True
    with that fds_acquire_new(2) [OF inv acq] show ?thesis by (blast intro: fds_valid_unique)
  next
    case False
    with that p1(2,3) have "fds_valid p1 m" by (simp add: fds_valid_def)
    then show ?thesis using fds_live_extends [OF p1(1)] by (auto simp: fds_live_def)
  qed
  then show "fds_live p' = insert l (fds_live p)"
    using fds_acquire_frame(2) [OF inv acq] fds_acquire_new(2) [OF inv acq]
    by (auto simp: fds_live_def)
  show "l \<notin> fds_live p" using fds_acquire_frame(1) [OF inv acq] by (auto simp: fds_live_def)
qed

lemma fds_take_ok:
  assumes inv: "fds_inv p" and rel: "fds_take p l = (Inr fd, p')"
  shows "fds_inv p' \<and> fds_valid p l \<and> fd = fl_fd l \<and> length (fd_nodes p') = length (fd_nodes p) \<and>
    (\<forall>i. i \<noteq> fl_index l \<longrightarrow> fd_nodes p' ! i = fd_nodes p ! i) \<and>
    \<not> fnode_used p' (fl_index l) \<and> fd_active p' = fd_active p - 1"
proof -
  let ?i = "fl_index l"
  from rel have v: "fds_valid p l" and fd: "fd = fl_fd l"
    and p': "p' = p\<lparr>fd_nodes := (fd_nodes p)[?i := (fd_nodes p ! ?i)\<lparr>fn_in_use := False,
        fn_chain_next := free_sentinel, fn_free_next := fd_free_head p\<rparr>],
      fd_free_head := ?i, fd_active := fd_active p - 1\<rparr>"
    by (auto simp: fds_take_def Let_def split: if_splits)
  note i = fds_valid_index [OF inv v]
  have "free_table free_sentinel (fnode_free_next p') (fnode_used p') (length (fd_nodes p))
      ?i (fd_active p - 1)"
    using i by (intro free_table_push [OF inv [unfolded fds_inv_def]])
      (auto simp: p' fnode_defs nth_list_update)
  then have "fds_inv p'" by (simp add: fds_inv_def p')
  then show ?thesis using v i fd by (simp add: p' fnode_used_def)
qed

lemma fds_take_total: "fds_valid p l \<Longrightarrow> \<exists>p'. fds_take p l = (Inr (fl_fd l), p')"
  by (simp add: fds_take_def Let_def)

lemma fds_take_live:
  assumes inv: "fds_inv p" and rel: "fds_take p l = (Inr fd, p')"
  shows "fds_live p' = fds_live p - {l}"
proof -
  note r = fds_take_ok [OF inv rel]
  have "fds_valid p' m \<longleftrightarrow> fds_valid p m \<and> m \<noteq> l" for m
  proof (cases "fl_index m = fl_index l")
    case True
    with r have "\<not> fds_valid p' m" by (auto simp: fds_valid_def fnode_used_def Let_def)
    moreover have "fds_valid p m \<Longrightarrow> m = l" using True r fds_valid_unique by blast
    ultimately show ?thesis by blast
  next
    case False
    with r show ?thesis by (auto simp: fds_valid_def)
  qed
  then show ?thesis by (auto simp: fds_live_def)
qed

lemma fds_link_ok:
  assumes inv: "fds_inv p" and link: "fds_link p l k = (Inr u, p')"
  shows "fds_inv p' \<and> fds_valid p l \<and> fds_valid p k \<and>
    fnode_chain_next p' (fl_index l) = fl_index k \<and>
    (\<forall>m. fds_valid p' m \<longleftrightarrow> fds_valid p m) \<and> fd_active p' = fd_active p \<and>
    (\<forall>m. fl_index m \<noteq> fl_index l \<longrightarrow> fnode_chain_next p' (fl_index m) = fnode_chain_next p (fl_index m))"
proof -
  from link have v: "fds_valid p l" "fds_valid p k"
    and p': "p' = p\<lparr>fd_nodes := (fd_nodes p)[fl_index l :=
        (fd_nodes p ! fl_index l)\<lparr>fn_chain_next := fl_index k\<rparr>]\<rparr>"
    by (auto simp: fds_link_def Let_def split: if_splits)
  note i = fds_valid_index [OF inv v(1)]
  have "free_table free_sentinel (fnode_free_next p') (fnode_used p') (length (fd_nodes p))
      (fd_free_head p) (fd_active p)"
    using inv [unfolded fds_inv_def] i
    by (subst free_table_cong) (auto simp: p' fnode_defs nth_list_update)
  then have "fds_inv p'" by (simp add: fds_inv_def p')
  then show ?thesis
    using v i by (auto simp: p' fnode_chain_next_def fds_valid_def Let_def nth_list_update)
qed

lemma fds_link_total:
  "fds_valid p l \<Longrightarrow> fds_valid p k \<Longrightarrow> fnode_chain_next p (fl_index l) = free_sentinel \<Longrightarrow>
     \<exists>p'. fds_link p l k = (Inr (), p')"
  by (simp add: fds_link_def Let_def fnode_chain_next_def)

section \<open>The descriptor pool provides leases and allocates slots\<close>

definition fds_acquired :: "fds \<Rightarrow> fd_lease \<Rightarrow> fds \<Rightarrow> bool" where
  "fds_acquired p l p' \<longleftrightarrow> (\<exists>alloc fd. fds_acquire alloc p fd = (Inr l, p'))"

definition fds_linked :: "fds \<Rightarrow> fd_lease \<Rightarrow> fd_lease \<Rightarrow> fds \<Rightarrow> bool" where
  "fds_linked p l k p' \<longleftrightarrow> fds_link p l k = (Inr (), p')"

definition fds_released :: "fds \<Rightarrow> fd_lease \<Rightarrow> fds \<Rightarrow> bool" where
  "fds_released p l p' \<longleftrightarrow> (\<exists>fd. fds_take p l = (Inr fd, p'))"

interpretation fd_pool: lease_pool fds_inv fds_valid fl_index fnode_chain_next
  "\<lambda>p. fl_fd" free_sentinel fds_acquired fds_linked fds_released
proof unfold_locales
  fix s l m
  assume "fds_valid s l" and "fds_valid s m" and "fl_index l = fl_index m"
  then show "l = m" by (rule fds_valid_unique)
next
  fix s l s'
  assume "fds_inv s" and "fds_acquired s l s'"
  then show "fds_inv s' \<and> fds_valid s' l \<and> fl_index l \<noteq> free_sentinel \<and>
      fnode_chain_next s' (fl_index l) = free_sentinel"
    unfolding fds_acquired_def by (blast dest: fds_acquire_new fds_valid_index)
next
  fix s l s' m
  assume "fds_inv s" and "fds_acquired s l s'" and "fds_valid s m"
  then show "fl_index m \<noteq> fl_index l"
    unfolding fds_acquired_def by (blast dest: fds_acquire_frame)
next
  fix s l s' m
  assume "fds_inv s" and "fds_acquired s l s'" and "fds_valid s m"
  then show "fds_valid s' m \<and> fnode_chain_next s' (fl_index m) = fnode_chain_next s (fl_index m) \<and>
      fl_fd m = fl_fd m"
    unfolding fds_acquired_def by (blast dest: fds_acquire_frame)
next
  fix s l k s'
  assume "fds_inv s" and "fds_linked s l k s'"
  then show "fds_inv s' \<and> fds_valid s l \<and> fds_valid s k \<and>
      fnode_chain_next s' (fl_index l) = fl_index k"
    unfolding fds_linked_def by (blast dest: fds_link_ok)
next
  fix s l k s' m
  assume "fds_inv s" and "fds_linked s l k s'" and "fds_valid s m"
  then show "fds_valid s' m \<and> fl_fd m = fl_fd m \<and>
      (fl_index m \<noteq> fl_index l \<longrightarrow> fnode_chain_next s' (fl_index m) = fnode_chain_next s (fl_index m))"
    unfolding fds_linked_def by (blast dest: fds_link_ok)
next
  fix s l s'
  assume inv: "fds_inv s" and "fds_released s l s'"
  then obtain fd where rel: "fds_take s l = (Inr fd, s')" by (auto simp: fds_released_def)
  note r = fds_take_ok [OF inv rel]
  have "fds_valid s' m \<and> fnode_chain_next s' (fl_index m) = fnode_chain_next s (fl_index m)"
    if "fds_valid s m" "fl_index m \<noteq> fl_index l" for m
    using that r by (auto simp: fds_valid_def fnode_chain_next_def)
  with r show "fds_inv s' \<and> fds_valid s l \<and> (\<forall>m. fds_valid s m \<longrightarrow> fl_index m \<noteq> fl_index l \<longrightarrow>
      fds_valid s' m \<and> fnode_chain_next s' (fl_index m) = fnode_chain_next s (fl_index m) \<and>
      fl_fd m = fl_fd m)" by blast
qed

definition fds_acquire_opt :: "allocator \<times> fd_t \<Rightarrow> fds \<Rightarrow> (fd_lease \<times> fds) option" where
  "fds_acquire_opt a p =
     (case fds_acquire (fst a) p (snd a) of (Inl _, _) \<Rightarrow> None | (Inr l, p') \<Rightarrow> Some (l, p'))"

definition fds_take_opt :: "fd_lease \<Rightarrow> fds \<Rightarrow> fds option" where
  "fds_take_opt l p = (case fds_take p l of (Inl _, _) \<Rightarrow> None | (Inr _, p') \<Rightarrow> Some p')"

interpretation fd_slots: slot_allocator fds_inv fds_live fds_acquire_opt fds_take_opt
proof unfold_locales
  fix s a h s'
  assume "fds_inv s" and "fds_acquire_opt a s = Some (h, s')"
  then show "fds_inv s' \<and> h \<notin> fds_live s \<and> fds_live s' = insert h (fds_live s)"
    using fds_acquire_new(1) fds_acquire_live
    by (auto simp: fds_acquire_opt_def split: prod.splits sum.splits)
next
  fix s h s'
  assume "fds_inv s" and "fds_take_opt h s = Some s'"
  then show "fds_inv s' \<and> h \<in> fds_live s \<and> fds_live s' = fds_live s - {h}"
    using fds_take_ok fds_take_live
    by (auto simp: fds_take_opt_def fds_live_def split: prod.splits sum.splits)
next
  fix s h
  assume "fds_inv s" and "h \<in> fds_live s"
  then show "fds_take_opt h s \<noteq> None"
    using fds_take_total [of s h] by (auto simp: fds_take_opt_def fds_live_def)
qed

section \<open>Properties\<close>

text \<open>An empty pool of blocks of the given size, as \<open>init\<close> builds it before it grows.\<close>

definition empty_blocks :: "nat \<Rightarrow> blocks" where
  "empty_blocks bsize = \<lparr>block_size = bsize, block_nodes = [], block_free_head = free_sentinel,
     block_active = 0\<rparr>"

definition empty_fds :: fds where
  "empty_fds = \<lparr>fd_nodes = [], fd_free_head = free_sentinel, fd_active = 0\<rparr>"

lemma empty_blocks_inv [simp]: "0 < n \<Longrightarrow> blocks_inv (empty_blocks n)"
  by (simp add: empty_blocks_def blocks_inv_def)

lemma empty_fds_inv [simp]: "fds_inv empty_fds"
  by (simp add: empty_fds_def fds_inv_def)

lemma free_sentinel_pos [simp]: "0 < free_sentinel" "\<not> free_sentinel \<le> 0" "Suc 0 \<le> free_sentinel"
  by (simp_all add: free_sentinel_def max_u32_def)

text \<open>C6: two holders never share a block. While a lease \<open>m\<close> is out, acquiring a block hands
  out another index, and neither that nor releasing the new lease changes the bytes or the validity
  of \<open>m\<close>. The new lease can be released exactly once: the second release is refused as stale and
  changes nothing.\<close>

theorem block_leases_are_exclusive:
  assumes "blocks_inv b" and "blocks_valid b m" and "blocks_acquire alloc b = (Inr l, b1)"
  shows "ls_index l \<noteq> ls_index m \<and> blocks_valid b1 m \<and> lease_bytes b1 m = lease_bytes b m \<and>
    (\<exists>b2. blocks_release b1 l = (Inr (), b2) \<and> blocks_release b2 l = (Inl (EPool StaleLease), b2) \<and>
          blocks_inv b2 \<and> blocks_valid b2 m \<and> lease_bytes b2 m = lease_bytes b m)"
proof -
  note new = blocks_acquire_new [OF assms(1,3)]
  note frame = blocks_acquire_frame [OF assms(1,3,2)]
  obtain b2 where rel: "blocks_release b1 l = (Inr (), b2)" using blocks_release_total [OF new(2)] by blast
  note r = blocks_release_ok [OF new(1) rel]
  from r have "\<not> blocks_valid b2 l" by (auto simp: blocks_valid_def bnode_used_def Let_def)
  moreover have "blocks_released b1 l b2" using rel by (simp add: blocks_released_def)
  note block_pool.released_frame [OF new(1) this]
  ultimately show ?thesis using frame rel r by (auto simp: blocks_release_def [of b2])
qed

theorem block_leases_are_exclusive_witness:
  "\<exists>m b l b1. blocks_acquire (\<lambda>_. True) (empty_blocks 4) = (Inr m, b) \<and>
     blocks_acquire (\<lambda>_. True) b = (Inr l, b1) \<and> ls_index l \<noteq> ls_index m"
proof -
  have g: "generous (\<lambda>_. True)" by (simp add: generous_def)
  have i0: "blocks_inv (empty_blocks 4)" "block_active (empty_blocks 4) = 0"
    by (simp, simp add: empty_blocks_def)
  obtain m b where 1: "blocks_acquire (\<lambda>_. True) (empty_blocks 4) = (Inr m, b)"
    using blocks_acquire_total [OF i0(1) g] i0(2) by auto
  note new = blocks_acquire_new [OF i0(1) 1]
  obtain l b1 where 2: "blocks_acquire (\<lambda>_. True) b = (Inr l, b1)"
    using blocks_acquire_total [OF new(1) g] new(5) i0(2) by (auto simp: free_sentinel_def max_u32_def)
  show ?thesis using 1 2 block_leases_are_exclusive [OF new(1,2) 2] by blast
qed

text \<open>C7: the descriptor pool neither loses nor duplicates a descriptor. A lease that was acquired
  for \<open>fd\<close> is new, taking it returns \<open>fd\<close>, and a second take of the same lease is refused without a
  change; all the other leases are what they were before.\<close>

theorem descriptor_taken_once:
  assumes "fds_inv p" and "fds_acquire alloc p fd = (Inr l, p1)"
  shows "l \<notin> fds_live p \<and> (\<exists>p2. fds_take p1 l = (Inr fd, p2) \<and> fds_inv p2 \<and> fds_live p2 = fds_live p \<and>
    fds_take p2 l = (Inl (EPool StaleLease), p2))"
proof -
  note new = fds_acquire_new [OF assms] and live = fds_acquire_live [OF assms]
  obtain p2 where t: "fds_take p1 l = (Inr fd, p2)" using fds_take_total [OF new(2)] new(4) by auto
  have inv2: "fds_inv p2" and live2: "fds_live p2 = fds_live p"
    using fds_take_ok [OF new(1) t] fds_take_live [OF new(1) t] live by auto
  with live(2) have "\<not> fds_valid p2 l" by (auto simp: fds_live_def)
  with t inv2 live(2) live2 show ?thesis by (auto simp: fds_take_def [of p2])
qed

theorem descriptor_taken_once_witness:
  "\<exists>l p1 p2. fds_acquire (\<lambda>_. True) empty_fds 7 = (Inr l, p1) \<and> fds_take p1 l = (Inr 7, p2) \<and>
     fds_take p2 l = (Inl (EPool StaleLease), p2)"
proof -
  have g: "generous (\<lambda>_. True)" by (simp add: generous_def)
  obtain l p1 where 1: "fds_acquire (\<lambda>_. True) empty_fds 7 = (Inr l, p1)"
    using fds_acquire_total [OF empty_fds_inv g, of 7] by (auto simp: empty_fds_def)
  with descriptor_taken_once [OF empty_fds_inv 1] show ?thesis by blast
qed

end
