(* ===== verification/Stream.thy ===== *)
theory Stream
  imports Wire Pool
begin

text \<open>
  Incremental framing of a Unix byte stream (\<open>src/src/stream.zig\<close>). The framer returns
  complete messages straight from the receive buffer and copies only a fragment that spans
  buffers into scratch space: storage of the caller, the inline buffer of 64 bytes, or a block
  leased from the shared pool.
\<close>

definition inline_scratch_size :: nat where
  "inline_scratch_size = 64"

text \<open>What the slice \<open>scratch\<close> points to.\<close>

datatype scratch_ref = Caller_Scratch | Inline_Scratch | Lease_Scratch lease

record framer =
  fr_scratch :: scratch_ref
  fr_caller :: "u8 list"
  fr_inline :: "u8 list"
  fr_buffered :: nat
  fr_shared :: bool
  fr_lease :: "lease option"
  fr_release_before_next :: bool

definition framer_init :: "u8 list \<Rightarrow> framer" where
  "framer_init storage =
     \<lparr>fr_scratch = Caller_Scratch, fr_caller = storage,
      fr_inline = replicate inline_scratch_size undefined_byte, fr_buffered = 0,
      fr_shared = False, fr_lease = None, fr_release_before_next = False\<rparr>"

text \<open>\<open>initShared\<close>: the scratch slice starts empty and space is leased on demand.\<close>

definition framer_init_shared :: framer where
  "framer_init_shared = (framer_init [])\<lparr>fr_shared := True\<rparr>"

definition scratch_bytes :: "framer \<Rightarrow> blocks \<Rightarrow> u8 list" where
  "scratch_bytes f b =
     (case fr_scratch f of
        Caller_Scratch \<Rightarrow> fr_caller f
      | Inline_Scratch \<Rightarrow> fr_inline f
      | Lease_Scratch l \<Rightarrow> lease_bytes b l)"

text \<open>\<open>@memcpy(framer.scratch[off..][0..src.len], src)\<close>.\<close>

definition scratch_write :: "framer \<Rightarrow> blocks \<Rightarrow> nat \<Rightarrow> u8 list \<Rightarrow> framer \<times> blocks" where
  "scratch_write f b off src =
     (case fr_scratch f of
        Caller_Scratch \<Rightarrow> (f\<lparr>fr_caller := blit (fr_caller f) off src\<rparr>, b)
      | Inline_Scratch \<Rightarrow> (f\<lparr>fr_inline := blit (fr_inline f) off src\<rparr>, b)
      | Lease_Scratch l \<Rightarrow> (f, lease_write b l off src))"

definition framer_pending :: "framer \<Rightarrow> nat" where
  "framer_pending f = fr_buffered f"

text \<open>The bytes the framer holds back: the incomplete message at the head of the stream.\<close>

definition pending_bytes :: "framer \<Rightarrow> blocks \<Rightarrow> u8 list" where
  "pending_bytes f b = take (fr_buffered f) (scratch_bytes f b)"

definition framer_release_lease :: "framer \<Rightarrow> blocks \<Rightarrow> unit result \<times> framer \<times> blocks" where
  "framer_release_lease f b =
     (case fr_lease f of
        None \<Rightarrow> (Inr (), f, b)
      | Some l \<Rightarrow>
          (case blocks_release b l of
             (Inl _, b') \<Rightarrow> (Inl EUnreachable, f, b')
           | (Inr _, b') \<Rightarrow> (Inr (), f\<lparr>fr_lease := None, fr_scratch := Inline_Scratch\<rparr>, b')))"

definition framer_deinit :: "framer \<Rightarrow> blocks \<Rightarrow> unit result \<times> blocks" where
  "framer_deinit f b = (case framer_release_lease f b of (r, _, b') \<Rightarrow> (r, b'))"

definition framer_ensure_capacity ::
    "allocator \<Rightarrow> framer \<Rightarrow> blocks \<Rightarrow> nat \<Rightarrow> unit result \<times> framer \<times> blocks" where
  "framer_ensure_capacity alloc f b required =
     (if required \<le> length (scratch_bytes f b) then (Inr (), f, b)
      else if \<not> fr_shared f then (Inl (EWire MessageTooLarge), f, b)
      else if required \<le> inline_scratch_size \<and> fr_lease f = None
      then (Inr (), f\<lparr>fr_scratch := Inline_Scratch\<rparr>, b)
      else if fr_lease f \<noteq> None then (Inl (EWire MessageTooLarge), f, b)
      else case blocks_acquire alloc b of
             (Inl e, b1) \<Rightarrow> (Inl e, f, b1)
           | (Inr l, b1) \<Rightarrow>
               if ls_len l < required
               then (case blocks_release b1 l of
                       (Inl e, b2) \<Rightarrow> (Inl e, f, b2)
                     | (Inr _, b2) \<Rightarrow> (Inl (EWire MessageTooLarge), f, b2))
               else (Inr (), f\<lparr>fr_lease := Some l, fr_scratch := Lease_Scratch l\<rparr>,
                     lease_write b1 l 0 (take (fr_buffered f) (scratch_bytes f b1))))"

text \<open>
  \<open>next\<close> in the order of the source: give back the lease of the previous message; return a
  complete message from the input or set the fragment aside; complete the header; then the body.
\<close>

definition framer_begin_next :: "framer \<Rightarrow> blocks \<Rightarrow> unit result \<times> framer \<times> blocks" where
  "framer_begin_next f b =
     (if fr_release_before_next f
      then (case framer_release_lease f b of
              (Inl e, f1, b1) \<Rightarrow> (Inl e, f1, b1)
            | (Inr _, f1, b1) \<Rightarrow> (Inr (), f1\<lparr>fr_release_before_next := False\<rparr>, b1))
      else (Inr (), f, b))"

text \<open>The result of a stage: return this value, or go on with the rest of the input.\<close>

datatype stage = Return "message option result" | Continue

definition framer_stash ::
    "endian \<Rightarrow> allocator \<Rightarrow> framer \<Rightarrow> blocks \<Rightarrow> u8 list \<Rightarrow> stage \<times> u8 list \<times> framer \<times> blocks" where
  "framer_stash en alloc f b input =
     (if fr_buffered f \<noteq> 0 then (Continue, input, f, b)
      else case message_decode en input of
             Inl e \<Rightarrow> (Return (Inl e), input, f, b)
           | Inr (Some m) \<Rightarrow> (Return (Inr (Some m)), drop (unat (msg_size (msg_header m))) input, f, b)
           | Inr None \<Rightarrow>
               if input = [] then (Return (Inr None), input, f, b)
               else (case framer_ensure_capacity alloc f b (length input) of
                       (Inl e, f1, b1) \<Rightarrow> (Return (Inl e), input, f1, b1)
                     | (Inr _, f1, b1) \<Rightarrow>
                         if length (scratch_bytes f1 b1) < length input
                         then (Return (Inl (EWire MessageTooLarge)), input, f1, b1)
                         else (case scratch_write f1 b1 0 input of
                                 (f2, b2) \<Rightarrow> (Continue, [], f2\<lparr>fr_buffered := length input\<rparr>, b2))))"

definition framer_fill_header ::
    "framer \<Rightarrow> blocks \<Rightarrow> u8 list \<Rightarrow> stage \<times> u8 list \<times> framer \<times> blocks" where
  "framer_fill_header f b input =
     (if fr_buffered f < header_len then
        (let count = min (header_len - fr_buffered f) (length input)
         in if length (scratch_bytes f b) < fr_buffered f + count
            then (Return (Inl (EWire MessageTooLarge)), input, f, b)
            else (case scratch_write f b (fr_buffered f) (take count input) of
                    (f1, b1) \<Rightarrow>
                      (let f2 = f1\<lparr>fr_buffered := fr_buffered f + count\<rparr>
                       in (if fr_buffered f2 < header_len then Return (Inr None) else Continue,
                           drop count input, f2, b1))))
      else (Continue, input, f, b))"

definition framer_fill_body ::
    "endian \<Rightarrow> allocator \<Rightarrow> framer \<Rightarrow> blocks \<Rightarrow> u8 list \<Rightarrow>
     message option result \<times> u8 list \<times> framer \<times> blocks" where
  "framer_fill_body en alloc f b input =
     (case header_decode en (pending_bytes f b) of
        Inl e \<Rightarrow> (Inl e, input, f, b)
      | Inr None \<Rightarrow> (Inl EUnreachable, input, f, b)
      | Inr (Some h) \<Rightarrow>
          (case framer_ensure_capacity alloc f b (unat (msg_size h)) of
             (Inl e, f1, b1) \<Rightarrow> (Inl e, input, f1, b1)
           | (Inr _, f1, b1) \<Rightarrow>
               (let count = min (unat (msg_size h) - fr_buffered f1) (length input)
                in case scratch_write f1 b1 (fr_buffered f1) (take count input) of
                     (f2, b2) \<Rightarrow>
                       (let f3 = f2\<lparr>fr_buffered := fr_buffered f1 + count\<rparr>; rest = drop count input
                        in if fr_buffered f3 < unat (msg_size h) then (Inr None, rest, f3, b2)
                           else (case message_decode en (pending_bytes f3 b2) of
                                   Inl e \<Rightarrow> (Inl e, rest, f3, b2)
                                 | Inr None \<Rightarrow> (Inl EUnreachable, rest, f3, b2)
                                 | Inr (Some m) \<Rightarrow>
                                     (Inr (Some m), rest,
                                      f3\<lparr>fr_buffered := 0,
                                         fr_release_before_next := (fr_lease f3 \<noteq> None)\<rparr>, b2))))))"

definition framer_next ::
    "endian \<Rightarrow> allocator \<Rightarrow> framer \<Rightarrow> blocks \<Rightarrow> u8 list \<Rightarrow>
     message option result \<times> u8 list \<times> framer \<times> blocks" where
  "framer_next en alloc f b input =
     (case framer_begin_next f b of
        (Inl e, f1, b1) \<Rightarrow> (Inl e, input, f1, b1)
      | (Inr _, f1, b1) \<Rightarrow>
          (case framer_stash en alloc f1 b1 input of
             (Return r, input2, f2, b2) \<Rightarrow> (r, input2, f2, b2)
           | (Continue, input2, f2, b2) \<Rightarrow>
               (case framer_fill_header f2 b2 input2 of
                  (Return r, input3, f3, b3) \<Rightarrow> (r, input3, f3, b3)
                | (Continue, input3, f3, b3) \<Rightarrow> framer_fill_body en alloc f3 b3 input3)))"

section \<open>Invariant\<close>

text \<open>
  The framer holds back an incomplete message, its scratch slice is where the lease says, and a
  lease that is due for release holds no bytes.
\<close>

definition framer_ok :: "framer \<Rightarrow> blocks \<Rightarrow> bool" where
  "framer_ok f b \<longleftrightarrow>
     blocks_inv b \<and> fr_buffered f \<le> length (scratch_bytes f b) \<and>
     length (fr_inline f) = inline_scratch_size \<and>
     (case fr_lease f of
        None \<Rightarrow> (\<forall>l. fr_scratch f \<noteq> Lease_Scratch l) \<and> \<not> fr_release_before_next f
      | Some l \<Rightarrow> fr_scratch f = Lease_Scratch l \<and> fr_shared f \<and> blocks_valid b l) \<and>
     (fr_scratch f = Caller_Scratch \<and> fr_shared f \<longrightarrow> fr_caller f = []) \<and>
     (fr_release_before_next f \<longrightarrow> fr_buffered f = 0)"

definition framer_inv :: "endian \<Rightarrow> framer \<Rightarrow> blocks \<Rightarrow> bool" where
  "framer_inv en f b \<longleftrightarrow> framer_ok f b \<and> message_decode en (pending_bytes f b) = Inr None"

lemma framer_init_inv: "blocks_inv b \<Longrightarrow> framer_inv en (framer_init storage) b"
  by (simp add: framer_inv_def framer_ok_def framer_init_def pending_bytes_def scratch_bytes_def
      message_decode_def header_decode_def header_len_def)

lemma framer_init_shared_inv: "blocks_inv b \<Longrightarrow> framer_inv en framer_init_shared b"
  by (simp add: framer_inv_def framer_ok_def framer_init_shared_def framer_init_def pending_bytes_def
      scratch_bytes_def message_decode_def header_decode_def header_len_def)

lemma length_pending [simp]: "framer_ok f b \<Longrightarrow> length (pending_bytes f b) = fr_buffered f"
  by (simp add: framer_ok_def pending_bytes_def)

lemma scratch_bytes_update [simp]:
  "scratch_bytes (f\<lparr>fr_buffered := n\<rparr>) b = scratch_bytes f b"
  "scratch_bytes (f\<lparr>fr_release_before_next := x\<rparr>) b = scratch_bytes f b"
  by (simp_all add: scratch_bytes_def cong: scratch_ref.case_cong)

lemma framer_set_buffered:
  "framer_ok f b \<Longrightarrow> n \<le> length (scratch_bytes f b) \<Longrightarrow> \<not> fr_release_before_next f \<Longrightarrow>
     framer_ok (f\<lparr>fr_buffered := n\<rparr>) b"
  by (simp add: framer_ok_def scratch_bytes_def cong: scratch_ref.case_cong option.case_cong)

text \<open>A copy behind the buffered bytes extends what is pending.\<close>

lemma scratch_write_ok:
  assumes ok: "framer_ok f b" and nrel: "\<not> fr_release_before_next f"
    and fit: "fr_buffered f + length src \<le> length (scratch_bytes f b)"
    and wr: "scratch_write f b (fr_buffered f) src = (f', b')"
  shows "framer_ok (f'\<lparr>fr_buffered := fr_buffered f + length src\<rparr>) b'"
    and "pending_bytes (f'\<lparr>fr_buffered := fr_buffered f + length src\<rparr>) b' = pending_bytes f b @ src"
    and "fr_lease f' = fr_lease f" "fr_shared f' = fr_shared f"
    and "fr_release_before_next f' = fr_release_before_next f"
    and "length (scratch_bytes f' b') = length (scratch_bytes f b)"
    and "block_size b' = block_size b" "block_active b' = block_active b"
proof -
  have len: "length (scratch_bytes f b) = block_size b" if "fr_scratch f = Lease_Scratch l" for l
    using ok that length_lease_bytes
    by (auto simp: framer_ok_def scratch_bytes_def split: option.splits)
  have wrl: "blocks_valid b l \<and> fr_buffered f + length src \<le> block_size b"
    if "fr_scratch f = Lease_Scratch l" for l
    using ok that fit len [OF that] by (auto simp: framer_ok_def split: option.splits)
  have inv: "blocks_inv b" using ok by (simp add: framer_ok_def)
  have f': "fr_lease f' = fr_lease f" "fr_shared f' = fr_shared f" "fr_scratch f' = fr_scratch f"
    "fr_release_before_next f' = fr_release_before_next f"
    using wr by (auto simp: scratch_write_def split: scratch_ref.splits)
  have sb: "scratch_bytes f' b' = blit (scratch_bytes f b) (fr_buffered f) src"
    using wr lease_write_ok [OF inv] wrl
    by (auto simp: scratch_write_def scratch_bytes_def split: scratch_ref.splits)
  then show sl: "length (scratch_bytes f' b') = length (scratch_bytes f b)"
    using fit by simp
  have b': "blocks_inv b' \<and> block_size b' = block_size b \<and> block_active b' = block_active b \<and>
      (\<forall>m. blocks_valid b m \<longrightarrow> blocks_valid b' m)"
    using wr inv lease_write_ok [OF inv] wrl
    by (auto simp: scratch_write_def split: scratch_ref.splits)
  have inl: "length (fr_inline f') = length (fr_inline f)"
    "fr_scratch f = Caller_Scratch \<longrightarrow> fr_caller f = [] \<longrightarrow> fr_caller f' = []"
    using wr fit by (auto simp: scratch_write_def scratch_bytes_def blit_def split: scratch_ref.splits)
  have buf: "fr_buffered f' = fr_buffered f"
    using wr by (auto simp: scratch_write_def split: scratch_ref.splits)
  have "framer_ok f' b'"
    using ok f' sl b' inl buf by (cases "fr_lease f") (simp_all add: framer_ok_def)
  then show "framer_ok (f'\<lparr>fr_buffered := fr_buffered f + length src\<rparr>) b'"
    using framer_set_buffered fit sl f'(4) nrel by simp
  show "pending_bytes (f'\<lparr>fr_buffered := fr_buffered f + length src\<rparr>) b' = pending_bytes f b @ src"
    using ok by (simp add: pending_bytes_def sb take_blit_extend framer_ok_def)
qed (use wr in \<open>auto simp: scratch_write_def lease_write_def Let_def split: scratch_ref.splits\<close>)

section \<open>Each stage keeps the stream\<close>

text \<open>Errors that are about space, not about the bytes.\<close>

definition resource_error :: "zerror \<Rightarrow> bool" where
  "resource_error e \<longleftrightarrow> e = EWire MessageTooLarge \<or> (\<exists>pe. e = EPool pe)"

lemma blocks_release_valid: "blocks_valid b l \<Longrightarrow> blocks_release b l = (r, b') \<Longrightarrow> r = Inr ()"
  by (auto simp: blocks_release_def Let_def)

lemma blocks_grow_until_error: "blocks_grow_until alloc b n = (Inl e, b') \<Longrightarrow> \<exists>pe. e = EPool pe"
proof (induction alloc b n arbitrary: b' rule: blocks_grow_until.induct)
  case (1 alloc b n)
  show ?case
  proof (cases "blocks_grow alloc b")
    case (Pair g b1)
    show ?thesis
    proof (cases g)
      case (Inl ge)
      with Pair have "\<exists>pe. ge = EPool pe" by (auto simp: blocks_grow_def Let_def split: if_splits)
      with Pair Inl "1.prems" show ?thesis
        by (auto simp: blocks_grow_until.simps [of alloc b] split: if_splits)
    next
      case (Inr u)
      with Pair "1.prems" "1.IH" [OF _ Pair [symmetric] Inr] show ?thesis
        by (auto simp: blocks_grow_until.simps [of alloc b] split: if_splits)
    qed
  qed
qed

lemma framer_begin_next_ok:
  assumes inv: "framer_inv en f b" and bn: "framer_begin_next f b = (r, f1, b1)"
  shows "r = Inr () \<and> framer_inv en f1 b1 \<and> pending_bytes f1 b1 = pending_bytes f b \<and>
         \<not> fr_release_before_next f1 \<and> fr_shared f1 = fr_shared f \<and>
         block_size b1 = block_size b \<and> block_active b1 \<le> block_active b"
proof (cases "fr_release_before_next f")
  case False
  with bn inv show ?thesis by (auto simp: framer_begin_next_def)
next
  case True
  from inv have ok: "framer_ok f b" by (simp add: framer_inv_def)
  with True obtain l where l: "fr_lease f = Some l" "blocks_valid b l" "fr_shared f"
    and buf: "fr_buffered f = 0" and binv: "blocks_inv b" and inl: "length (fr_inline f) = inline_scratch_size"
    by (auto simp: framer_ok_def split: option.splits)
  obtain b2 where b2: "blocks_release b l = (Inr (), b2)" using blocks_release_total [OF l(2)] by blast
  from True bn l(1) b2 have r: "r = Inr ()" and b1: "b1 = b2"
    and f1: "f1 = f\<lparr>fr_lease := None, fr_scratch := Inline_Scratch, fr_release_before_next := False\<rparr>"
    by (auto simp: framer_begin_next_def framer_release_lease_def)
  have "framer_ok f1 b1"
    using blocks_release_ok [OF binv b2] buf inl
    by (simp add: framer_ok_def f1 b1 scratch_bytes_def inline_scratch_size_def)
  moreover have "pending_bytes f1 b1 = []" "pending_bytes f b = []"
    by (simp_all add: pending_bytes_def f1 buf)
  ultimately show ?thesis
    using r f1 b1 blocks_release_ok [OF binv b2] inv by (simp add: framer_inv_def)
qed

text \<open>Making room keeps the pending bytes; it fails only for lack of space.\<close>

lemma framer_ensure_capacity_ok:
  assumes ok: "framer_ok f b" and nrel: "\<not> fr_release_before_next f"
    and en: "framer_ensure_capacity alloc f b n = (r, f1, b1)"
  shows "(case r of
            Inr _ \<Rightarrow> framer_ok f1 b1 \<and> n \<le> length (scratch_bytes f1 b1) \<and>
              pending_bytes f1 b1 = pending_bytes f b \<and> fr_buffered f1 = fr_buffered f \<and>
              \<not> fr_release_before_next f1
          | Inl e \<Rightarrow> resource_error e)"
proof (cases "n \<le> length (scratch_bytes f b)")
  case True
  with en ok nrel show ?thesis by (auto simp: framer_ensure_capacity_def)
next
  case big: False
  show ?thesis
  proof (cases "\<not> fr_shared f \<or> fr_lease f \<noteq> None")
    case True
    with en big ok show ?thesis
      by (auto simp: framer_ensure_capacity_def resource_error_def split: if_splits)
  next
    case sh: False
    then have sh: "fr_shared f" "fr_lease f = None" by auto
    from ok have binv: "blocks_inv b" and inl: "length (fr_inline f) = inline_scratch_size"
      and le: "fr_buffered f \<le> length (scratch_bytes f b)"
      and nolease: "fr_scratch f \<noteq> Lease_Scratch l" for l
      using sh by (auto simp: framer_ok_def)
    show ?thesis
    proof (cases "n \<le> inline_scratch_size")
      case True
      have caller: "fr_scratch f = Caller_Scratch"
        using nolease True big inl by (cases "fr_scratch f") (auto simp: scratch_bytes_def)
      then have "fr_caller f = []" using ok sh by (simp add: framer_ok_def)
      then have zero: "fr_buffered f = 0" using le caller by (simp add: scratch_bytes_def)
      from en big sh True have "r = Inr ()" "f1 = f\<lparr>fr_scratch := Inline_Scratch\<rparr>" "b1 = b"
        by (auto simp: framer_ensure_capacity_def)
      with zero ok sh inl True nrel show ?thesis
        by (auto simp: framer_ok_def scratch_bytes_def pending_bytes_def)
    next
      case False
      show ?thesis
      proof (cases "blocks_acquire alloc b")
        case (Pair a b2)
        show ?thesis
        proof (cases a)
          case (Inl e)
          have "\<exists>pe. e = EPool pe"
            using Pair Inl
            by (auto simp: blocks_acquire_def blocks_ensure_available_def Let_def
                split: prod.splits sum.splits if_splits
                dest: blocks_grow_until_error)
          with en big sh False Pair Inl show ?thesis
            by (auto simp: framer_ensure_capacity_def resource_error_def)
        next
          case (Inr l)
          with Pair have acq: "blocks_acquire alloc b = (Inr l, b2)" by simp
          note new = blocks_acquire_new [OF binv acq]
          have same: "scratch_bytes f b2 = scratch_bytes f b"
            using nolease by (cases "fr_scratch f") (auto simp: scratch_bytes_def)
          have llen: "ls_len l = block_size b2" using blocks_valid_index [OF new(1,2)] by simp
          show ?thesis
          proof (cases "ls_len l < n")
            case True
            obtain b3 where "blocks_release b2 l = (Inr (), b3)" using blocks_release_total [OF new(2)] by blast
            with en big sh False acq True show ?thesis
              by (auto simp: framer_ensure_capacity_def resource_error_def)
          next
            case fits: False
            let ?src = "take (fr_buffered f) (scratch_bytes f b2)"
            from en big sh False acq fits have r: "r = Inr ()"
              and f1: "f1 = f\<lparr>fr_lease := Some l, fr_scratch := Lease_Scratch l\<rparr>"
              and b1: "b1 = lease_write b2 l 0 ?src"
              by (auto simp: framer_ensure_capacity_def)
            have src: "0 + length ?src \<le> block_size b2"
              using le same big fits llen by simp
            note w = lease_write_ok [OF new(1,2) src]
            have len: "length (lease_bytes b2 l) = block_size b2" by (rule length_lease_bytes [OF new(1,2)])
            have sb: "scratch_bytes f1 b1 = blit (lease_bytes b2 l) 0 ?src"
              using w by (simp add: scratch_bytes_def f1 b1)
            have slen: "length (scratch_bytes f1 b1) = block_size b2"
              using sb src len by simp
            have lsrc: "length ?src = fr_buffered f" using le same by simp
            have "take (0 + length ?src) (scratch_bytes f1 b1) = ?src"
              using take_blit_extend [of 0 "lease_bytes b2 l" ?src] by (simp add: sb)
            then have "pending_bytes f1 b1 = pending_bytes f b"
              unfolding lsrc using same by (simp add: pending_bytes_def f1)
            moreover have "fr_buffered f \<le> block_size b2" using src unfolding lsrc by simp
            then have "framer_ok f1 b1"
              using w new inl slen sh nrel by (simp add: framer_ok_def f1 b1)
            ultimately show ?thesis using r slen fits llen nrel by (simp add: f1)
          qed
        qed
      qed
    qed
  qed
qed

text \<open>What the whole call must do, given the bytes held back and the new input.\<close>

definition framer_result ::
    "endian \<Rightarrow> u8 list \<Rightarrow> u8 list \<Rightarrow> message option result \<Rightarrow> u8 list \<Rightarrow> framer \<Rightarrow> blocks \<Rightarrow> bool" where
  "framer_result en held input r rest f' b' \<longleftrightarrow>
     (case message_decode en (held @ input) of
        Inl e \<Rightarrow> r = Inl e
      | Inr None \<Rightarrow> r = Inr None \<and> rest = [] \<and> framer_inv en f' b' \<and>
          pending_bytes f' b' = held @ input
      | Inr (Some m) \<Rightarrow> r = Inr (Some m) \<and> framer_inv en f' b' \<and> pending_bytes f' b' = [] \<and>
          length held \<le> unat (msg_size (msg_header m)) \<and>
          rest = drop (unat (msg_size (msg_header m)) - length held) input)"

lemma message_decode_Nil [simp]: "message_decode en [] = Inr None"
  by (simp add: message_decode_def header_decode_def header_len_def)

lemma framer_stash_ok:
  assumes inv: "framer_inv en f b" and nrel: "\<not> fr_release_before_next f"
    and st: "framer_stash en alloc f b input = (s, rest, f1, b1)"
  shows "case s of
      Return r \<Rightarrow> (\<exists>e. r = Inl e \<and> resource_error e) \<or>
        framer_result en (pending_bytes f b) input r rest f1 b1
    | Continue \<Rightarrow> framer_inv en f1 b1 \<and> \<not> fr_release_before_next f1 \<and>
        length (pending_bytes f b) \<le> length (pending_bytes f1 b1) \<and>
        pending_bytes f1 b1 @ rest = pending_bytes f b @ input"
proof (cases "fr_buffered f = 0")
  case False
  with st inv nrel show ?thesis by (auto simp: framer_stash_def)
next
  case True
  from inv have ok: "framer_ok f b" by (simp add: framer_inv_def)
  have nil: "pending_bytes f b = []" by (simp add: pending_bytes_def True)
  show ?thesis
  proof (cases "message_decode en input")
    case (Inl e)
    with st True nil show ?thesis by (auto simp: framer_stash_def framer_result_def)
  next
    case (Inr mo)
    show ?thesis
    proof (cases mo)
      case (Some m)
      with st True nil Inr inv show ?thesis by (auto simp: framer_stash_def framer_result_def)
    next
      case None
      show ?thesis
      proof (cases "input = []")
        case True
        with st \<open>fr_buffered f = 0\<close> nil inv show ?thesis
          by (auto simp: framer_stash_def framer_result_def)
      next
        case False
        obtain r2 f2 b2 where e: "framer_ensure_capacity alloc f b (length input) = (r2, f2, b2)"
          by (cases "framer_ensure_capacity alloc f b (length input)") auto
        note cap = framer_ensure_capacity_ok [OF ok nrel e]
        show ?thesis
        proof (cases r2)
          case (Inl er)
          with st True Inr None False e cap show ?thesis by (auto simp: framer_stash_def)
        next
          case (Inr u)
          with cap have c: "framer_ok f2 b2" "length input \<le> length (scratch_bytes f2 b2)"
            "pending_bytes f2 b2 = []" "fr_buffered f2 = 0" "\<not> fr_release_before_next f2"
            using nil True by auto
          obtain f3 b3 where w: "scratch_write f2 b2 0 input = (f3, b3)"
            by (cases "scratch_write f2 b2 0 input") auto
          from st True \<open>message_decode en input = Inr mo\<close> None False e Inr c(2) w
          have res: "s = Continue" "rest = []" "f1 = f3\<lparr>fr_buffered := length input\<rparr>" "b1 = b3"
            by (auto simp: framer_stash_def)
          from scratch_write_ok(1,2,5) [OF c(1,5), of input f3 b3] c(2-4) w
          have wr: "framer_ok f1 b1" "pending_bytes f1 b1 = input" "\<not> fr_release_before_next f3"
            using c(5) by (simp_all add: res)
          then show ?thesis
            using \<open>message_decode en input = Inr mo\<close> None nil by (simp add: framer_inv_def res)
        qed
      qed
    qed
  qed
qed

lemma framer_fill_header_ok:
  assumes inv: "framer_inv en f b" and nrel: "\<not> fr_release_before_next f"
    and fh: "framer_fill_header f b input = (s, rest, f1, b1)"
  shows "case s of
      Return r \<Rightarrow> (\<exists>e. r = Inl e \<and> resource_error e) \<or>
        framer_result en (pending_bytes f b) input r rest f1 b1
    | Continue \<Rightarrow> framer_ok f1 b1 \<and> \<not> fr_release_before_next f1 \<and>
        header_len \<le> length (pending_bytes f1 b1) \<and>
        pending_bytes f1 b1 @ rest = pending_bytes f b @ input \<and>
        length (pending_bytes f b) \<le> length (pending_bytes f1 b1) \<and>
        (\<forall>h. header_decode en (pending_bytes f1 b1) = Inr (Some h) \<longrightarrow>
          length (pending_bytes f1 b1) \<le> unat (msg_size h))"
proof -
  from inv have ok: "framer_ok f b" and inc: "message_decode en (pending_bytes f b) = Inr None"
    by (auto simp: framer_inv_def)
  note lp = length_pending [OF ok]
  show ?thesis
  proof (cases "fr_buffered f < header_len")
    case False
    then have "length (pending_bytes f b) \<le> unat (msg_size h)"
      if "header_decode en (pending_bytes f b) = Inr (Some h)" for h
      using inc that by (auto simp: message_decode_def split: if_splits)
    with False fh ok nrel lp show ?thesis by (auto simp: framer_fill_header_def)
  next
    case True
    define count where "count = min (header_len - fr_buffered f) (length input)"
    show ?thesis
    proof (cases "length (scratch_bytes f b) < fr_buffered f + count")
      case True
      with fh \<open>fr_buffered f < header_len\<close> show ?thesis
        by (auto simp: framer_fill_header_def resource_error_def count_def)
    next
      case fits: False
      obtain f2 b2 where w: "scratch_write f b (fr_buffered f) (take count input) = (f2, b2)"
        by (cases "scratch_write f b (fr_buffered f) (take count input)") auto
      have cl: "length (take count input) = count" by (simp add: count_def)
      from fh True fits w have res: "f1 = f2\<lparr>fr_buffered := fr_buffered f + count\<rparr>" "b1 = b2"
        "rest = drop count input"
        "s = (if fr_buffered f + count < header_len then Return (Inr None) else Continue)"
        by (auto simp: framer_fill_header_def count_def [symmetric] Let_def split: if_splits)
      from scratch_write_ok(1,2,5) [OF ok nrel _ w] fits cl
      have wr: "framer_ok f1 b1" "pending_bytes f1 b1 = pending_bytes f b @ take count input"
        "\<not> fr_release_before_next f1"
        using nrel by (simp_all add: res)
      show ?thesis
      proof (cases "fr_buffered f + count < header_len")
        case True
        then have all: "count = length input" by (simp add: count_def min_def split: if_splits)
        then have "length (pending_bytes f b @ input) < header_len" using True lp by simp
        then have "message_decode en (pending_bytes f b @ input) = Inr None"
          by (simp add: message_decode_def header_decode_def)
        then show ?thesis using True res wr all by (simp add: framer_result_def framer_inv_def)
      next
        case False
        then have "fr_buffered f + count = header_len"
          using \<open>fr_buffered f < header_len\<close> by (simp add: count_def min_def split: if_splits)
        then have "length (pending_bytes f1 b1) = header_len" using wr(2) lp cl by simp
        moreover have "\<forall>h. header_decode en (pending_bytes f1 b1) = Inr (Some h) \<longrightarrow>
            header_len \<le> unat (msg_size h)"
          using header_decode_ok by (auto simp: header_ok_def)
        ultimately show ?thesis using False res wr by simp
      qed
    qed
  qed
qed

lemma framer_fill_body_ok:
  assumes ok: "framer_ok f b" and nrel: "\<not> fr_release_before_next f"
    and hl: "header_len \<le> length (pending_bytes f b)"
    and sz: "\<And>h. header_decode en (pending_bytes f b) = Inr (Some h) \<Longrightarrow>
      length (pending_bytes f b) \<le> unat (msg_size h)"
    and fb: "framer_fill_body en alloc f b input = (r, rest, f1, b1)"
  shows "(\<exists>e. r = Inl e \<and> resource_error e) \<or>
    framer_result en (pending_bytes f b) input r rest f1 b1"
proof (cases "header_decode en (pending_bytes f b)")
  case (Inl e)
  then have "message_decode en (pending_bytes f b @ input) = Inl e"
    by (simp add: message_decode_def header_decode_append [OF hl])
  moreover have "r = Inl e" using fb Inl by (simp add: framer_fill_body_def)
  ultimately show ?thesis by (simp add: framer_result_def)
next
  case (Inr ho)
  then obtain h where h: "header_decode en (pending_bytes f b) = Inr (Some h)"
    using header_decode_None_iff hl by (cases ho) (auto simp: not_less [symmetric])
  let ?P = "pending_bytes f b" and ?n = "unat (msg_size h)"
  have hd: "header_decode en (?P @ ms) = Inr (Some h)" for ms
    using h by (simp add: header_decode_append [OF hl])
  obtain r2 f2 b2 where e: "framer_ensure_capacity alloc f b ?n = (r2, f2, b2)"
    by (cases "framer_ensure_capacity alloc f b ?n") auto
  note cap = framer_ensure_capacity_ok [OF ok nrel e]
  show ?thesis
  proof (cases r2)
    case (Inl er)
    with fb h e cap show ?thesis by (auto simp: framer_fill_body_def)
  next
    case (Inr u)
    with cap have c: "framer_ok f2 b2" "?n \<le> length (scratch_bytes f2 b2)"
      "pending_bytes f2 b2 = ?P" "fr_buffered f2 = length ?P" "\<not> fr_release_before_next f2"
      using length_pending [OF ok] by auto
    define count where "count = min (?n - length ?P) (length input)"
    obtain f3 b3 where w: "scratch_write f2 b2 (fr_buffered f2) (take count input) = (f3, b3)"
      by (cases "scratch_write f2 b2 (fr_buffered f2) (take count input)") auto
    have cl: "length (take count input) = count" by (simp add: count_def)
    have cnt: "min (?n - fr_buffered f2) (length input) = count" by (simp add: count_def c(4))
    have le: "length ?P + count \<le> ?n" using sz [OF h] by (simp add: count_def)
    let ?f3 = "f3\<lparr>fr_buffered := length ?P + count\<rparr>"
    from scratch_write_ok(1,2,5) [OF c(1,5) _ w] c(2-4) cl le
    have wr: "framer_ok ?f3 b3" "pending_bytes ?f3 b3 = ?P @ take count input"
      "\<not> fr_release_before_next ?f3"
      using c(5) by simp_all
    have step: "framer_fill_body en alloc f b input =
        (if length ?P + count < ?n then (Inr None, drop count input, ?f3, b3)
         else (case message_decode en (pending_bytes ?f3 b3) of
            Inl e \<Rightarrow> (Inl e, drop count input, ?f3, b3)
          | Inr None \<Rightarrow> (Inl EUnreachable, drop count input, ?f3, b3)
          | Inr (Some m) \<Rightarrow> (Inr (Some m), drop count input,
              ?f3\<lparr>fr_buffered := 0, fr_release_before_next := (fr_lease f3 \<noteq> None)\<rparr>, b3)))"
      unfolding framer_fill_body_def h sum.case option.case e prod.case Inr Let_def cnt w
      unfolding c(4) by (simp cong: sum.case_cong option.case_cong)
    show ?thesis
    proof (cases "length ?P + count < ?n")
      case True
      then have all: "count = length input" by (simp add: count_def min_def split: if_splits)
      have none: "message_decode en (?P @ input) = Inr None"
        using True hd [of input] by (simp add: message_decode_def all)
      have "r = Inr None" "rest = []" "f1 = ?f3" "b1 = b3"
        using True fb step all by simp_all
      then show ?thesis
        using wr none all by (simp add: framer_result_def framer_inv_def)
    next
      case False
      with le have full: "length ?P + count = ?n" by simp
      define m where "m = \<lparr>msg_header = h, payload = slice (?P @ take count input) header_len ?n\<rparr>"
      have dec: "message_decode en (?P @ take count input) = Inr (Some m)"
        using hd [of "take count input"] full cl by (simp add: message_decode_def m_def)
      then have decall: "message_decode en (?P @ input) = Inr (Some m)"
        using message_decode_append [of en "?P @ take count input" m "drop count input"] by simp
      let ?f4 = "?f3\<lparr>fr_buffered := 0, fr_release_before_next := (fr_lease f3 \<noteq> None)\<rparr>"
      have "framer_ok ?f4 b3"
        using wr(1,3) by (auto simp: framer_ok_def split: option.splits)
      moreover have "pending_bytes ?f4 b3 = []" by (simp add: pending_bytes_def)
      moreover have "?n - length ?P = count" using full by simp
      moreover have "r = Inr (Some m)" "rest = drop count input" "f1 = ?f4" "b1 = b3"
        using False fb step wr(2) dec by simp_all
      ultimately show ?thesis
        using decall sz [OF h] by (simp add: framer_result_def framer_inv_def m_def)
    qed
  qed
qed

text \<open>The three stages together.\<close>

lemma framer_result_shift:
  assumes "framer_result en held' input' r rest f b" and "held' @ input' = held @ input"
    and "length held \<le> length held'"
    and sm: "\<And>m. message_decode en (held @ input) = Inr (Some m) \<Longrightarrow> length held' \<le> unat (msg_size (msg_header m))"
  shows "framer_result en held input r rest f b"
proof (cases "message_decode en (held @ input)")
  case (Inr mo)
  show ?thesis
  proof (cases mo)
    case (Some m)
    let ?n = "unat (msg_size (msg_header m))"
    have n: "length held' \<le> ?n" using sm Inr Some by simp
    have "drop (?n - length held') input' = drop ?n (held' @ input')" using n by simp
    also have "\<dots> = drop (?n - length held) input" using n assms(2,3) by simp
    finally show ?thesis using assms(1-3) Inr Some n by (simp add: framer_result_def)
  qed (use assms Inr in \<open>simp add: framer_result_def\<close>)
qed (use assms in \<open>simp add: framer_result_def\<close>)

lemma framer_next_ok:
  assumes inv: "framer_inv en f b" and nx: "framer_next en alloc f b input = (r, rest, f', b')"
  shows "(\<exists>e. r = Inl e \<and> resource_error e) \<or>
         framer_result en (pending_bytes f b) input r rest f' b'"
proof -
  obtain rb f1 b1 where bn: "framer_begin_next f b = (rb, f1, b1)"
    by (cases "framer_begin_next f b") auto
  from framer_begin_next_ok [OF inv bn] have rb: "rb = Inr ()" and inv1: "framer_inv en f1 b1"
    and P1: "pending_bytes f1 b1 = pending_bytes f b" and nrel1: "\<not> fr_release_before_next f1"
    by auto
  obtain s i2 f2 b2 where st: "framer_stash en alloc f1 b1 input = (s, i2, f2, b2)"
    by (cases "framer_stash en alloc f1 b1 input") auto
  note stash = framer_stash_ok [OF inv1 nrel1 st, unfolded P1]
  show ?thesis
  proof (cases s)
    case (Return x)
    with nx bn rb st stash show ?thesis by (auto simp: framer_next_def)
  next
    case Continue
    with stash have inv2: "framer_inv en f2 b2" and nrel2: "\<not> fr_release_before_next f2"
      and len2: "length (pending_bytes f b) \<le> length (pending_bytes f2 b2)"
      and P2: "pending_bytes f2 b2 @ i2 = pending_bytes f b @ input" by auto
    obtain s3 i3 f3 b3 where fh: "framer_fill_header f2 b2 i2 = (s3, i3, f3, b3)"
      by (cases "framer_fill_header f2 b2 i2") auto
    note head = framer_fill_header_ok [OF inv2 nrel2 fh]
    have small: "length (pending_bytes f2 b2) \<le> unat (msg_size (msg_header m))"
      if "message_decode en (pending_bytes f b @ input) = Inr (Some m)" for m
    proof (rule ccontr)
      assume "\<not> ?thesis"
      moreover from that have "header_decode en (pending_bytes f2 b2 @ i2) = Inr (Some (msg_header m))"
        unfolding P2 by (auto simp: message_decode_def split: sum.splits option.splits if_splits)
      moreover from that have "header_len \<le> unat (msg_size (msg_header m))"
        using message_decode_length by (fastforce simp: header_ok_def)
      ultimately have "message_decode en (pending_bytes f2 b2) \<noteq> Inr None"
        using header_decode_append [of "pending_bytes f2 b2" en i2]
        by (auto simp: message_decode_def)
      with inv2 show False by (simp add: framer_inv_def)
    qed
    show ?thesis
    proof (cases s3)
      case (Return x)
      then have "r = x" "rest = i3" "f' = f3" "b' = b3"
        using nx bn rb st Continue fh by (auto simp: framer_next_def)
      with head Return framer_result_shift [OF _ P2 len2 small] show ?thesis by auto
    next
      case c3: Continue
      from head c3 have h3: "framer_ok f3 b3" "\<not> fr_release_before_next f3"
        "header_len \<le> length (pending_bytes f3 b3)"
        "pending_bytes f3 b3 @ i3 = pending_bytes f b @ input"
        "length (pending_bytes f b) \<le> length (pending_bytes f3 b3)"
        "\<And>h. header_decode en (pending_bytes f3 b3) = Inr (Some h) \<Longrightarrow>
           length (pending_bytes f3 b3) \<le> unat (msg_size h)"
        using P2 len2 by auto
      have "framer_fill_body en alloc f3 b3 i3 = (r, rest, f', b')"
        using nx bn rb st Continue fh c3 by (simp add: framer_next_def)
      note body = framer_fill_body_ok [OF h3(1-3,6) this]
      have "length (pending_bytes f3 b3) \<le> unat (msg_size (msg_header m))"
        if "message_decode en (pending_bytes f b @ input) = Inr (Some m)" for m
        using that h3(6) header_decode_append [OF h3(3), of en i3]
        unfolding h3(4) by (auto simp: message_decode_def split: sum.splits option.splits if_splits)
      with body framer_result_shift [OF _ h3(4,5)] show ?thesis by blast
    qed
  qed
qed

section \<open>Space always suffices with blocks of the maximum message size\<close>

text \<open>
  Enough room for a shared framer: blocks hold any message, and one more lease fits in the
  index space unless the framer holds one already.
\<close>

definition framer_roomy :: "framer \<Rightarrow> blocks \<Rightarrow> bool" where
  "framer_roomy f b \<longleftrightarrow>
     fr_shared f \<and> max_message_len \<le> block_size b \<and>
     block_active b + (if fr_lease f = None then 1 else 0) \<le> free_sentinel"

lemma framer_roomy_update [simp]:
  "framer_roomy (f\<lparr>fr_buffered := n\<rparr>) b = framer_roomy f b"
  "framer_roomy (f\<lparr>fr_release_before_next := x\<rparr>) b = framer_roomy f b"
  by (simp_all add: framer_roomy_def)

lemma framer_write_roomy:
  assumes "framer_roomy f b" and "scratch_write f b off src = (f', b')"
  shows "framer_roomy f' b'"
  using assms
  by (auto simp: scratch_write_def framer_roomy_def lease_write_def Let_def split: scratch_ref.splits)

lemma framer_begin_next_roomy:
  assumes inv: "framer_inv en f b" and room: "framer_roomy f b"
    and bn: "framer_begin_next f b = (r, f1, b1)"
  shows "framer_roomy f1 b1"
proof (cases "fr_release_before_next f")
  case False
  with bn room show ?thesis by (auto simp: framer_begin_next_def)
next
  case True
  with inv obtain l where l: "fr_lease f = Some l" "blocks_valid b l" and binv: "blocks_inv b"
    by (auto simp: framer_inv_def framer_ok_def split: option.splits)
  obtain b2 where b2: "blocks_release b l = (Inr (), b2)" using blocks_release_total [OF l(2)] by blast
  have "0 < block_active b"
  proof -
    have "ls_index l \<in> {i. i < length (block_nodes b) \<and> bnode_used b i}"
      using blocks_valid_index [OF binv l(2)] by simp
    then show ?thesis
      using blocks_inv_table [OF binv] by (auto simp: free_table_def card_gt_0_iff)
  qed
  with True bn l(1) b2 room blocks_release_ok [OF binv b2] show ?thesis
    by (auto simp: framer_begin_next_def framer_release_lease_def framer_roomy_def)
qed

lemma framer_ensure_capacity_total:
  assumes ok: "framer_ok f b" and room: "framer_roomy f b" and alloc: "generous alloc"
    and n: "n \<le> max_message_len" and en: "framer_ensure_capacity alloc f b n = (r, f1, b1)"
  shows "r = Inr () \<and> framer_roomy f1 b1"
proof (cases "n \<le> length (scratch_bytes f b)")
  case True
  with en room show ?thesis by (auto simp: framer_ensure_capacity_def)
next
  case big: False
  from ok have binv: "blocks_inv b" by (simp add: framer_ok_def)
  have nolease: "fr_lease f = None"
  proof (rule ccontr)
    assume "fr_lease f \<noteq> None"
    then obtain l where "fr_scratch f = Lease_Scratch l" "blocks_valid b l"
      using ok by (auto simp: framer_ok_def)
    with big n room length_lease_bytes [OF binv] show False
      by (auto simp: scratch_bytes_def framer_roomy_def)
  qed
  show ?thesis
  proof (cases "n \<le> inline_scratch_size")
    case True
    with en big nolease room show ?thesis
      by (auto simp: framer_ensure_capacity_def framer_roomy_def)
  next
    case False
    have "block_active b + 1 \<le> free_sentinel" using room nolease by (simp add: framer_roomy_def)
    from blocks_acquire_total [OF binv alloc this]
    obtain l b2 where acq: "blocks_acquire alloc b = (Inr l, b2)" by blast
    note new = blocks_acquire_new [OF binv acq]
    have "n \<le> ls_len l"
      using blocks_valid_index [OF new(1,2)] n room new(4) by (simp add: framer_roomy_def)
    with en big nolease False acq room have "r = Inr ()"
      "f1 = f\<lparr>fr_lease := Some l, fr_scratch := Lease_Scratch l\<rparr>"
      "b1 = lease_write b2 l 0 (take (fr_buffered f) (scratch_bytes f b2))"
      by (auto simp: framer_ensure_capacity_def framer_roomy_def)
    then show ?thesis
      using room nolease new(4,5) by (simp add: framer_roomy_def lease_write_def Let_def)
  qed
qed

lemma framer_scratch_roomy:
  assumes "framer_ok f b" and "framer_roomy f b" and "fr_buffered f \<noteq> 0"
  shows "header_len \<le> length (scratch_bytes f b)"
proof (cases "fr_scratch f")
  case Caller_Scratch
  with assms show ?thesis by (auto simp: framer_ok_def framer_roomy_def scratch_bytes_def)
next
  case Inline_Scratch
  with assms(1) show ?thesis
    by (simp add: framer_ok_def scratch_bytes_def inline_scratch_size_def header_len_def)
next
  case (Lease_Scratch l)
  with assms(1) have "blocks_inv b" "blocks_valid b l" by (auto simp: framer_ok_def split: option.splits)
  with Lease_Scratch assms(2) show ?thesis
    by (simp add: scratch_bytes_def length_lease_bytes framer_roomy_def max_message_len_def header_len_def)
qed

lemma incomplete_length: "message_decode en bs = Inr None \<Longrightarrow> length bs \<le> max_message_len"
proof -
  have "unat (w :: u16) \<le> max_message_len" for w
    using unat_u16_bound [of w] by (simp add: max_message_len_def)
  moreover assume "message_decode en bs = Inr None"
  ultimately show ?thesis
    using header_decode_None_iff [of en bs]
    by (auto simp: message_decode_def header_len_def max_message_len_def
        split: sum.splits option.splits if_splits; meson less_le_trans less_imp_le)
qed

lemma framer_stash_total:
  assumes inv: "framer_inv en f b" and room: "framer_roomy f b" and alloc: "generous alloc"
    and st: "framer_stash en alloc f b input = (s, rest, f1, b1)"
  shows "framer_roomy f1 b1 \<and> (\<forall>e. s = Return (Inl e) \<longrightarrow> message_decode en input = Inl e) \<and>
         (s = Continue \<longrightarrow> fr_buffered f1 \<noteq> 0)"
proof (cases "fr_buffered f = 0 \<and> message_decode en input = Inr None \<and> input \<noteq> []")
  case False
  with st room show ?thesis
    by (auto simp: framer_stash_def split: if_splits sum.splits option.splits)
next
  case True
  from inv have ok: "framer_ok f b" by (simp add: framer_inv_def)
  obtain r2 f2 b2 where e: "framer_ensure_capacity alloc f b (length input) = (r2, f2, b2)"
    by (cases "framer_ensure_capacity alloc f b (length input)") auto
  from framer_ensure_capacity_total [OF ok room alloc incomplete_length [OF conjunct1 [OF conjunct2 [OF True]]] e]
  have r2: "r2 = Inr ()" and room2: "framer_roomy f2 b2" by auto
  have big: "length input \<le> length (scratch_bytes f2 b2)"
  proof (cases "fr_release_before_next f")
    case False
    from framer_ensure_capacity_ok [OF ok False e] r2 show ?thesis by simp
  next
    case rel: True
    then have "\<exists>l. fr_lease f = Some l" using ok by (auto simp: framer_ok_def split: option.splits)
    then have "f2 = f" "b2 = b" "length input \<le> length (scratch_bytes f b)"
      using e r2 by (auto simp: framer_ensure_capacity_def split: if_splits)
    then show ?thesis by simp
  qed
  obtain f3 b3 where w: "scratch_write f2 b2 0 input = (f3, b3)"
    by (cases "scratch_write f2 b2 0 input") auto
  from st True e r2 big w have "s = Continue" "f1 = f3\<lparr>fr_buffered := length input\<rparr>" "b1 = b3"
    by (auto simp: framer_stash_def)
  then show ?thesis using framer_write_roomy [OF room2 w] True by simp
qed

lemma framer_next_total:
  assumes inv: "framer_inv en f b" and room: "framer_roomy f b" and alloc: "generous alloc"
    and nx: "framer_next en alloc f b input = (r, rest, f', b')"
  shows "framer_roomy f' b' \<and> framer_result en (pending_bytes f b) input r rest f' b'"
proof -
  obtain rb f1 b1 where bn: "framer_begin_next f b = (rb, f1, b1)"
    by (cases "framer_begin_next f b") auto
  from framer_begin_next_ok [OF inv bn] have rb: "rb = Inr ()" and inv1: "framer_inv en f1 b1"
    and nrel1: "\<not> fr_release_before_next f1"
    by auto
  have room1: "framer_roomy f1 b1" by (rule framer_begin_next_roomy [OF inv room bn])
  obtain s i2 f2 b2 where st: "framer_stash en alloc f1 b1 input = (s, i2, f2, b2)"
    by (cases "framer_stash en alloc f1 b1 input") auto
  note st2 = framer_stash_total [OF inv1 room1 alloc st]
  note stash = framer_stash_ok [OF inv1 nrel1 st]
  have noerr: "\<not> resource_error e" if "header_decode en bs = Inl e" for bs e
    using that by (auto simp: header_decode_def resource_error_def Let_def split: if_splits)
  have nomerr: "\<not> resource_error e" if "message_decode en bs = Inl e" for bs e
    using that noerr by (auto simp: message_decode_def split: sum.splits option.splits if_splits)
  have "framer_roomy f' b' \<and> \<not> (\<exists>e. r = Inl e \<and> resource_error e)"
  proof (cases s)
    case (Return x)
    with nx bn rb st st2 nomerr show ?thesis by (auto simp: framer_next_def)
  next
    case Continue
    with stash st2 have inv2: "framer_inv en f2 b2" and nrel2: "\<not> fr_release_before_next f2"
      and room2: "framer_roomy f2 b2" and nz: "fr_buffered f2 \<noteq> 0" by auto
    from inv2 have ok2: "framer_ok f2 b2" by (simp add: framer_inv_def)
    obtain s3 i3 f3 b3 where fh: "framer_fill_header f2 b2 i2 = (s3, i3, f3, b3)"
      by (cases "framer_fill_header f2 b2 i2") auto
    note head = framer_fill_header_ok [OF inv2 nrel2 fh]
    have room3: "framer_roomy f3 b3 \<and> (\<forall>x. s3 = Return x \<longrightarrow> x = Inr None)"
      using fh room2 framer_scratch_roomy [OF ok2 room2 nz] framer_write_roomy [OF room2]
      by (auto simp: framer_fill_header_def Let_def split: if_splits prod.splits)
    show ?thesis
    proof (cases s3)
      case (Return x)
      with nx bn rb st Continue fh room3 show ?thesis by (auto simp: framer_next_def)
    next
      case c3: Continue
      from head c3 have ok3: "framer_ok f3 b3"
        and hl: "header_len \<le> length (pending_bytes f3 b3)" by auto
      have fb: "framer_fill_body en alloc f3 b3 i3 = (r, rest, f', b')"
        using nx bn rb st Continue fh c3 by (simp add: framer_next_def)
      show ?thesis
      proof (cases "header_decode en (pending_bytes f3 b3)")
        case (Inl e)
        then have "r = Inl e" "f' = f3" "b' = b3" using fb by (auto simp: framer_fill_body_def)
        with Inl noerr room3 show ?thesis by auto
      next
        case (Inr ho)
        then obtain h where h: "header_decode en (pending_bytes f3 b3) = Inr (Some h)"
          using header_decode_None_iff hl by (cases ho) (auto simp: not_less [symmetric])
        obtain r4 f4 b4 where e: "framer_ensure_capacity alloc f3 b3 (unat (msg_size h)) = (r4, f4, b4)"
          by (cases "framer_ensure_capacity alloc f3 b3 (unat (msg_size h))") auto
        have "unat (msg_size h) \<le> max_message_len"
          using unat_u16_bound [of "msg_size h"] by (simp add: max_message_len_def)
        from framer_ensure_capacity_total [OF ok3 conjunct1 [OF room3] alloc this e]
        have r4: "r4 = Inr ()" and room4: "framer_roomy f4 b4" by auto
        let ?c = "min (unat (msg_size h) - fr_buffered f4) (length i3)"
        obtain f5 b5 where w: "scratch_write f4 b4 (fr_buffered f4) (take ?c i3) = (f5, b5)"
          by (cases "scratch_write f4 b4 (fr_buffered f4) (take ?c i3)") auto
        note room5 = framer_write_roomy [OF room4 w]
        show ?thesis
          using fb nomerr room5
          unfolding framer_fill_body_def h sum.case option.case e prod.case r4 Let_def w
          by (auto simp: resource_error_def split: if_splits sum.splits option.splits)
      qed
    qed
  qed
  with framer_next_ok [OF inv nx] show ?thesis by blast
qed

section \<open>The whole stream\<close>

text \<open>The reference: cut a byte string into messages, front to back.\<close>

function parse_all :: "endian \<Rightarrow> u8 list \<Rightarrow> message list \<times> u8 list result" where
  "parse_all en bs =
     (case message_decode en bs of
        Inl e \<Rightarrow> ([], Inl e)
      | Inr None \<Rightarrow> ([], Inr bs)
      | Inr (Some m) \<Rightarrow>
          (case parse_all en (drop (unat (msg_size (msg_header m))) bs) of
             (ms, r) \<Rightarrow> (m # ms, r)))"
  by pat_completeness auto
termination
proof (relation "measure (\<lambda>(en, bs). length bs)")
  fix en :: endian and bs mo m
  assume "message_decode en bs = Inr mo" and "mo = Some m"
  then have "header_len \<le> unat (msg_size (msg_header m))" "unat (msg_size (msg_header m)) \<le> length bs"
    using message_decode_length by (fastforce simp: header_ok_def)+
  then show "((en, drop (unat (msg_size (msg_header m))) bs), en, bs) \<in> measure (\<lambda>(en, bs). length bs)"
    by (simp add: header_len_def)
qed simp

declare parse_all.simps [simp del]

text \<open>
  The loop every dispatcher runs over one receive buffer: take messages until there is none,
  here with a fuel that bounds the number of calls.
\<close>

fun framer_drain ::
    "nat \<Rightarrow> endian \<Rightarrow> allocator \<Rightarrow> framer \<Rightarrow> blocks \<Rightarrow> u8 list \<Rightarrow>
     (message list \<times> unit result \<times> framer \<times> blocks) option" where
  "framer_drain 0 en alloc f b input = None"
| "framer_drain (Suc n) en alloc f b input =
     (case framer_next en alloc f b input of
        (Inl e, _, f', b') \<Rightarrow> Some ([], Inl e, f', b')
      | (Inr None, _, f', b') \<Rightarrow> Some ([], Inr (), f', b')
      | (Inr (Some m), rest, f', b') \<Rightarrow>
          map_option (\<lambda>(ms, r). (m # ms, r)) (framer_drain n en alloc f' b' rest))"

text \<open>Receive buffers one after the other, as the completions deliver them.\<close>

fun framer_feed ::
    "endian \<Rightarrow> allocator \<Rightarrow> framer \<Rightarrow> blocks \<Rightarrow> u8 list list \<Rightarrow>
     (message list \<times> unit result \<times> framer \<times> blocks) option" where
  "framer_feed en alloc f b [] = Some ([], Inr (), f, b)"
| "framer_feed en alloc f b (chunk # chunks) =
     (case framer_drain (Suc (length chunk)) en alloc f b chunk of
        None \<Rightarrow> None
      | Some (ms, Inl e, f', b') \<Rightarrow> Some (ms, Inl e, f', b')
      | Some (ms, Inr _, f', b') \<Rightarrow>
          map_option (\<lambda>(ms', r). (ms @ ms', r)) (framer_feed en alloc f' b' chunks))"

lemma parse_all_incomplete: "message_decode en bs = Inr None \<Longrightarrow> parse_all en bs = ([], Inr bs)"
  by (subst parse_all.simps) simp

lemma parse_all_error: "message_decode en bs = Inl e \<Longrightarrow> parse_all en bs = ([], Inl e)"
  by (subst parse_all.simps) simp

lemma parse_all_message: "message_decode en bs = Inr (Some m) \<Longrightarrow>
    parse_all en bs = (case parse_all en (drop (unat (msg_size (msg_header m))) bs) of
      (ms, r) \<Rightarrow> (m # ms, r))"
  by (subst parse_all.simps) simp

lemma parse_all_append:
  "parse_all en xs = (ms, r) \<Longrightarrow>
     parse_all en (xs @ ys) =
       (case r of Inl e \<Rightarrow> (ms, Inl e)
        | Inr left \<Rightarrow> (case parse_all en (left @ ys) of (ms', r') \<Rightarrow> (ms @ ms', r')))"
proof (induction en xs arbitrary: ms r rule: parse_all.induct)
  case (1 en xs)
  show ?case
  proof (cases "message_decode en xs")
    case (Inl e)
    then show ?thesis
      using "1.prems" message_decode_error_append [OF Inl] by (auto simp: parse_all_error)
  next
    case (Inr mo)
    show ?thesis
    proof (cases mo)
      case None
      with Inr "1.prems" show ?thesis by (auto simp: parse_all_incomplete split: prod.split)
    next
      case (Some m)
      let ?n = "unat (msg_size (msg_header m))"
      from Inr Some have dec: "message_decode en xs = Inr (Some m)" by simp
      have n: "?n \<le> length xs" using message_decode_length [OF dec] by simp
      obtain ms1 r1 where p1: "parse_all en (drop ?n xs) = (ms1, r1)" by fastforce
      with "1.prems" dec have "ms = m # ms1" "r = r1" by (auto simp: parse_all_message)
      with "1.IH" [OF Inr Some p1] n dec show ?thesis
        by (auto simp: parse_all_message [OF message_decode_append [OF dec]]
            split: sum.split prod.split)
    qed
  qed
qed

lemma parse_all_left: "parse_all en bs = (ms, Inr left) \<Longrightarrow> message_decode en left = Inr None"
proof (induction en bs arbitrary: ms rule: parse_all.induct)
  case (1 en bs)
  from "1.prems" show ?case
    by (subst (asm) parse_all.simps)
       (auto split: sum.splits option.splits prod.splits intro: "1.IH")
qed

text \<open>A held-back prefix is never a whole message, so every message uses up input.\<close>

lemma framer_result_progress:
  assumes "framer_result en held input (Inr (Some m)) rest f b" and "message_decode en held = Inr None"
  shows "length rest < length input" and "message_decode en (held @ input) = Inr (Some m)"
    and "rest = drop (unat (msg_size (msg_header m))) (held @ input)"
proof -
  from assms(1) show dec: "message_decode en (held @ input) = Inr (Some m)"
    by (auto simp: framer_result_def split: sum.splits option.splits)
  let ?n = "unat (msg_size (msg_header m))"
  from assms(1) dec have rest: "rest = drop (?n - length held) input" and le: "length held \<le> ?n"
    by (auto simp: framer_result_def)
  from message_decode_length [OF dec] have tot: "?n \<le> length held + length input" by simp
  have "length held \<noteq> ?n"
  proof
    assume eq: "length held = ?n"
    moreover have "header_len \<le> ?n" using message_decode_length [OF dec] by (simp add: header_ok_def)
    moreover have "header_decode en (held @ input) = Inr (Some (msg_header m))"
      using dec by (auto simp: message_decode_def split: sum.splits option.splits if_splits)
    ultimately have "message_decode en held \<noteq> Inr None"
      using header_decode_append [of held en input] by (auto simp: message_decode_def)
    with assms(2) show False by simp
  qed
  with le tot rest show "length rest < length input" by simp
  show "rest = drop ?n (held @ input)" using rest le by simp
qed

text \<open>A framer that may run out of scratch space.\<close>

definition starved :: "allocator \<Rightarrow> framer \<Rightarrow> blocks \<Rightarrow> bool" where
  "starved alloc f b \<longleftrightarrow> \<not> (framer_roomy f b \<and> generous alloc)"

lemma framer_next_starved:
  assumes "framer_inv en f b" and "framer_next en alloc f b input = (r, rest, f', b')"
  shows "(\<exists>e. r = Inl e \<and> resource_error e \<and> starved alloc f b) \<or>
         framer_result en (pending_bytes f b) input r rest f' b'"
    and "starved alloc f' b' \<Longrightarrow> starved alloc f b"
  using framer_next_ok [OF assms] framer_next_total [OF assms(1) _ _ assms(2)]
  by (auto simp: starved_def)

lemma framer_drain_ok:
  assumes "framer_inv en f b" and "length input < n"
  shows "\<exists>ms r f' b'. framer_drain n en alloc f b input = Some (ms, r, f', b') \<and>
    (case r of
       Inr _ \<Rightarrow> framer_inv en f' b' \<and> (starved alloc f' b' \<longrightarrow> starved alloc f b) \<and>
         parse_all en (pending_bytes f b @ input) = (ms, Inr (pending_bytes f' b'))
     | Inl e \<Rightarrow> resource_error e \<and> starved alloc f b \<or>
         parse_all en (pending_bytes f b @ input) = (ms, Inl e))"
  using assms
proof (induction n arbitrary: f b input)
  case 0
  then show ?case by simp
next
  case (Suc n)
  obtain r rest f1 b1 where nx: "framer_next en alloc f b input = (r, rest, f1, b1)"
    by (cases "framer_next en alloc f b input") auto
  note res = framer_next_starved(1) [OF Suc.prems(1) nx]
  note st = framer_next_starved(2) [OF Suc.prems(1) nx]
  let ?S = "pending_bytes f b @ input"
  show ?case
  proof (cases r)
    case (Inl e)
    with res have "resource_error e \<and> starved alloc f b \<or> message_decode en ?S = Inl e"
      by (auto simp: framer_result_def split: sum.splits option.splits)
    with nx Inl show ?thesis by (auto dest: parse_all_error)
  next
    case (Inr mo)
    with res have fr: "framer_result en (pending_bytes f b) input r rest f1 b1" by auto
    show ?thesis
    proof (cases mo)
      case None
      with fr Inr have "message_decode en ?S = Inr None" "framer_inv en f1 b1" "pending_bytes f1 b1 = ?S"
        by (auto simp: framer_result_def split: sum.splits option.splits)
      with nx Inr None st show ?thesis by (simp add: parse_all_incomplete)
    next
      case (Some m)
      with fr Inr have fr: "framer_result en (pending_bytes f b) input (Inr (Some m)) rest f1 b1" by simp
      have held: "message_decode en (pending_bytes f b) = Inr None"
        using Suc.prems(1) by (simp add: framer_inv_def)
      note pr = framer_result_progress [OF fr held]
      from fr pr(2) have f1: "framer_inv en f1 b1" "pending_bytes f1 b1 = []"
        by (auto simp: framer_result_def)
      from Suc.IH [OF f1(1), of rest, unfolded f1(2) append_Nil] pr(1) Suc.prems(2)
      obtain ms r2 f2 b2 where ih: "framer_drain n en alloc f1 b1 rest = Some (ms, r2, f2, b2)"
        "case r2 of
           Inr _ \<Rightarrow> framer_inv en f2 b2 \<and> (starved alloc f2 b2 \<longrightarrow> starved alloc f1 b1) \<and>
             parse_all en rest = (ms, Inr (pending_bytes f2 b2))
         | Inl e \<Rightarrow> resource_error e \<and> starved alloc f1 b1 \<or> parse_all en rest = (ms, Inl e)"
        by auto
      have "framer_drain (Suc n) en alloc f b input = Some (m # ms, r2, f2, b2)"
        using nx Inr Some ih(1) by simp
      moreover have "parse_all en ?S = (case parse_all en rest of (ms, r) \<Rightarrow> (m # ms, r))"
        using parse_all_message [OF pr(2)] pr(3) by simp
      ultimately show ?thesis using ih(2) st by (auto split: sum.splits)
    qed
  qed
qed

lemma framer_feed_ok:
  assumes "framer_inv en f b"
  shows "\<exists>ms r f' b'. framer_feed en alloc f b chunks = Some (ms, r, f', b') \<and>
    (case r of
       Inr _ \<Rightarrow> framer_inv en f' b' \<and> (starved alloc f' b' \<longrightarrow> starved alloc f b) \<and>
         parse_all en (pending_bytes f b @ concat chunks) = (ms, Inr (pending_bytes f' b'))
     | Inl e \<Rightarrow> resource_error e \<and> starved alloc f b \<or> parse_all en (pending_bytes f b @ concat chunks) = (ms, Inl e))"
  using assms
proof (induction chunks arbitrary: f b)
  case Nil
  then show ?case by (simp add: framer_inv_def parse_all_incomplete)
next
  case (Cons c cs)
  obtain ms r f1 b1 where d: "framer_drain (Suc (length c)) en alloc f b c = Some (ms, r, f1, b1)"
    and dr: "case r of
       Inr _ \<Rightarrow> framer_inv en f1 b1 \<and> (starved alloc f1 b1 \<longrightarrow> starved alloc f b) \<and>
         parse_all en (pending_bytes f b @ c) = (ms, Inr (pending_bytes f1 b1))
     | Inl e \<Rightarrow> resource_error e \<and> starved alloc f b \<or> parse_all en (pending_bytes f b @ c) = (ms, Inl e)"
    using framer_drain_ok [OF Cons.prems, of c "Suc (length c)" alloc] by auto
  show ?case
  proof (cases r)
    case (Inl e)
    with d dr parse_all_append [of en "pending_bytes f b @ c" ms "Inl e" "concat cs"] show ?thesis
      by auto
  next
    case (Inr u)
    with dr have f1: "framer_inv en f1 b1" and st: "starved alloc f1 b1 \<Longrightarrow> starved alloc f b"
      and p: "parse_all en (pending_bytes f b @ c) = (ms, Inr (pending_bytes f1 b1))" by auto
    from Cons.IH [OF f1] obtain ms2 r2 f2 b2
      where ih: "framer_feed en alloc f1 b1 cs = Some (ms2, r2, f2, b2)"
        "case r2 of
           Inr _ \<Rightarrow> framer_inv en f2 b2 \<and> (starved alloc f2 b2 \<longrightarrow> starved alloc f1 b1) \<and>
             parse_all en (pending_bytes f1 b1 @ concat cs) = (ms2, Inr (pending_bytes f2 b2))
         | Inl e \<Rightarrow> resource_error e \<and> starved alloc f1 b1 \<or>
             parse_all en (pending_bytes f1 b1 @ concat cs) = (ms2, Inl e)"
      by auto
    from parse_all_append [OF p, of "concat cs"] ih d Inr st show ?thesis
      by (auto split: sum.splits prod.splits)
  qed
qed

section \<open>Properties\<close>

text \<open>C1: framing does not depend on how the kernel cuts the byte stream. Feeding any sequence of
  receive buffers to a framer, from any reachable state, always comes back, and it yields the
  messages, the protocol error, and at the end the unconsumed prefix, that parsing the whole
  concatenated stream in one piece gives. Only a framer that may run out of scratch space (it uses
  the fixed buffer of its caller, the blocks are smaller than a message, or an allocation is
  refused) can stop early with another error.\<close>

theorem framing_is_chunk_invariant:
  assumes "framer_inv en f b"
  shows "\<exists>ms r f' b'. framer_feed en alloc f b chunks = Some (ms, r, f', b') \<and>
    (case r of
       Inr _ \<Rightarrow> framer_inv en f' b' \<and>
         parse_all en (pending_bytes f b @ concat chunks) = (ms, Inr (pending_bytes f' b'))
     | Inl e \<Rightarrow> resource_error e \<and> starved alloc f b \<or>
         parse_all en (pending_bytes f b @ concat chunks) = (ms, Inl e))"
proof -
  obtain ms r f' b' where "framer_feed en alloc f b chunks = Some (ms, r, f', b')"
    and "case r of
       Inr _ \<Rightarrow> framer_inv en f' b' \<and> (starved alloc f' b' \<longrightarrow> starved alloc f b) \<and>
         parse_all en (pending_bytes f b @ concat chunks) = (ms, Inr (pending_bytes f' b'))
     | Inl e \<Rightarrow> resource_error e \<and> starved alloc f b \<or>
         parse_all en (pending_bytes f b @ concat chunks) = (ms, Inl e)"
    using framer_feed_ok [OF assms] by blast
  then show ?thesis by (auto split: sum.splits)
qed

theorem framing_is_chunk_invariant_witness:
  "\<exists>ms r f' b'. framer_feed Little (\<lambda>_. True) framer_init_shared (empty_blocks 65536)
       [[7, 0, 0], [0, 3, 0, 8, 0, 9]] = Some (ms, r, f', b') \<and>
     (case r of
        Inr _ \<Rightarrow> parse_all Little [7, 0, 0, 0, 3, 0, 8, 0, 9] = (ms, Inr (pending_bytes f' b'))
      | Inl e \<Rightarrow> parse_all Little [7, 0, 0, 0, 3, 0, 8, 0, 9] = (ms, Inl e))"
proof -
  let ?b = "empty_blocks 65536" and ?chunks = "[[7, 0, 0], [0, 3, 0, 8, 0, 9]]"
  have inv: "framer_inv Little framer_init_shared ?b" by (rule framer_init_shared_inv) simp
  have fed: "pending_bytes framer_init_shared ?b @ concat ?chunks = [7, 0, 0, 0, 3, 0, 8, 0, 9]"
    by (simp add: pending_bytes_def framer_init_shared_def framer_init_def)
  have "\<not> starved (\<lambda>_. True) framer_init_shared ?b"
    by (simp add: starved_def framer_roomy_def framer_init_shared_def framer_init_def empty_blocks_def
        max_message_len_def generous_def)
  with framing_is_chunk_invariant [OF inv, of "\<lambda>_. True" ?chunks, unfolded fed] show ?thesis
    by (fastforce split: sum.splits)
qed

text \<open>C2: a shared framer never fails for lack of scratch space. With blocks that hold the largest
  message and an allocator that grants requests, every call returns what decoding the bytes held back
  followed by the input gives: a message, a protocol error of the stream, or nothing with the whole
  input set aside; and the room for the next call is there again.\<close>

theorem shared_framer_always_has_scratch:
  assumes "framer_inv en f b" and "framer_roomy f b" and "generous alloc"
    and "framer_next en alloc f b input = (r, rest, f', b')"
  shows "framer_roomy f' b' \<and> framer_result en (pending_bytes f b) input r rest f' b'"
  using framer_next_total [OF assms] .

theorem shared_framer_always_has_scratch_witness:
  "\<exists>r rest f' b'. framer_next Little (\<lambda>_. True) framer_init_shared (empty_blocks 65535) [7, 0, 0] =
       (r, rest, f', b') \<and> framer_result Little [] [7, 0, 0] r rest f' b'"
proof -
  obtain r rest f' b' where nx: "framer_next Little (\<lambda>_. True) framer_init_shared (empty_blocks 65535)
      [7, 0, 0] = (r, rest, f', b')"
    by (cases "framer_next Little (\<lambda>_. True) framer_init_shared (empty_blocks 65535) [7, 0, 0]") auto
  have inv: "framer_inv Little framer_init_shared (empty_blocks 65535)"
    by (rule framer_init_shared_inv) simp
  have room: "framer_roomy framer_init_shared (empty_blocks 65535)"
    by (simp add: framer_roomy_def framer_init_shared_def framer_init_def empty_blocks_def
        max_message_len_def)
  have "generous (\<lambda>_. True)" by (simp add: generous_def)
  from shared_framer_always_has_scratch [OF inv room this nx] nx show ?thesis
    by (auto simp: pending_bytes_def framer_init_shared_def framer_init_def)
qed

end
