(* ===== verification/Ancillary.thy ===== *)
theory Ancillary
  imports Wire Pool
begin

text \<open>
  Ordered ownership of descriptors received through \<open>SCM_RIGHTS\<close> (\<open>src/src/ancillary.zig\<close>): a
  budgeted queue of leases in the shared descriptor pool, and the control-message codec. The
  effect of \<open>close\<close> is recorded: operations that close descriptors return the list of them in
  order. Layouts are those of 64-bit Linux: a control header is a 64-bit length, a 32-bit
  level and a 32-bit type.
\<close>

section \<open>The contract of a queue\<close>

text \<open>
  A first-in first-out queue as its clients see it: pushing may be refused, popping returns the
  oldest element exactly when there is one.
\<close>

locale fifo =
  fixes rep :: "'s \<Rightarrow> 'v list \<Rightarrow> bool"
    and push :: "'a \<Rightarrow> 'v \<Rightarrow> 's \<Rightarrow> 's option"
    and pop :: "'s \<Rightarrow> ('v \<times> 's) option"
  assumes push_rep: "rep s xs \<Longrightarrow> push a v s = Some s' \<Longrightarrow> rep s' (xs @ [v])"
    and pop_rep: "rep s (x # xs) \<Longrightarrow> \<exists>s'. pop s = Some (x, s') \<and> rep s' xs"
    and pop_empty: "rep s [] \<Longrightarrow> pop s = None"
begin

text \<open>Pushing a list of values, refusals skipped: the accepted ones, in order, join the tail.\<close>

fun push_all :: "'a \<Rightarrow> 'v list \<Rightarrow> 's \<Rightarrow> 'v list \<times> 's" where
  "push_all a [] s = ([], s)"
| "push_all a (v # vs) s =
     (case push a v s of
        None \<Rightarrow> push_all a vs s
      | Some s1 \<Rightarrow> (case push_all a vs s1 of (ws, s2) \<Rightarrow> (v # ws, s2)))"

fun pop_many :: "nat \<Rightarrow> 's \<Rightarrow> 'v list \<times> 's" where
  "pop_many 0 s = ([], s)"
| "pop_many (Suc n) s =
     (case pop s of
        None \<Rightarrow> ([], s)
      | Some (v, s1) \<Rightarrow> (case pop_many n s1 of (vs, s2) \<Rightarrow> (v # vs, s2)))"

lemma push_all_rep: "rep s xs \<Longrightarrow> push_all a vs s = (ws, s') \<Longrightarrow> rep s' (xs @ ws)"
proof (induction vs arbitrary: s xs ws)
  case Nil
  then show ?case by simp
next
  case (Cons v vs)
  show ?case
  proof (cases "push a v s")
    case None
    with Cons show ?thesis by simp
  next
    case (Some s1)
    with Cons.prems obtain ws1 where "push_all a vs s1 = (ws1, s')" "ws = v # ws1"
      by (auto split: prod.splits)
    with Cons.IH [OF push_rep [OF Cons.prems(1) Some]] show ?thesis by simp
  qed
qed

lemma pop_many_rep: "rep s xs \<Longrightarrow> pop_many n s = (vs, s') \<Longrightarrow> vs = take n xs \<and> rep s' (drop n xs)"
proof (induction n arbitrary: s xs vs)
  case 0
  then show ?case by simp
next
  case (Suc n)
  show ?case
  proof (cases xs)
    case Nil
    with Suc.prems pop_empty show ?thesis by auto
  next
    case (Cons x xs1)
    with Suc.prems(1) obtain s1 where "pop s = Some (x, s1)" "rep s1 xs1" using pop_rep by blast
    moreover obtain vs1 where "pop_many n s1 = (vs1, s')" "vs = x # vs1"
      using Suc.prems(2) calculation(1) by (auto split: prod.splits)
    ultimately show ?thesis using Suc.IH Cons by auto
  qed
qed

lemma push_pop_order:
  assumes "rep s []" and "push_all a vs s = (ws, s1)" and "pop_many (length ws) s1 = (us, s2)"
  shows "us = ws \<and> rep s2 []"
  using pop_many_rep [OF push_all_rep [OF assms(1,2)] assms(3)] by simp

end

section \<open>Descriptor queues\<close>

record fd_queue =
  fq_budget :: nat
  fq_head :: "fd_lease option"
  fq_tail :: "fd_lease option"
  fq_count :: nat

definition fdq_init :: "nat \<Rightarrow> fd_queue" where
  "fdq_init budget = \<lparr>fq_budget = budget, fq_head = None, fq_tail = None, fq_count = 0\<rparr>"

definition fdq_len :: "fd_queue \<Rightarrow> nat" where
  "fdq_len q = fq_count q"

definition fdq_available :: "fd_queue \<Rightarrow> nat" where
  "fdq_available q = fq_budget q - fq_count q"

definition fdq_ensure_capacity :: "allocator \<Rightarrow> fd_queue \<Rightarrow> fds \<Rightarrow> nat \<Rightarrow> unit result \<times> fds" where
  "fdq_ensure_capacity alloc q p count =
     (if fdq_available q < count then (Inl (ETx DescriptorBudgetExceeded), p)
      else fds_ensure_available alloc p count)"

definition fdq_pop :: "fd_queue \<Rightarrow> fds \<Rightarrow> fd_t result \<times> fd_queue \<times> fds" where
  "fdq_pop q p =
     (if fq_count q = 0 then (Inl (ETx Empty), q, p)
      else case fq_head q of
             None \<Rightarrow> (Inl EUnreachable, q, p)
           | Some head \<Rightarrow>
               (case fds_next_lease p head of
                  Inl e \<Rightarrow> (Inl e, q, p)
                | Inr next \<Rightarrow>
                    (let q1 = q\<lparr>fq_head := next\<rparr>
                     in case fds_take p head of
                          (Inl e, p1) \<Rightarrow> (Inl e, q1, p1)
                        | (Inr fd, p1) \<Rightarrow>
                            (Inr fd,
                             q1\<lparr>fq_count := fq_count q - 1,
                                fq_tail := (if next = None then None else fq_tail q1)\<rparr>, p1))))"

text \<open>\<open>while (queue.pop()) |fd| close(fd) else |_| {}\<close>: the descriptors closed.\<close>

function fdq_deinit :: "fd_queue \<Rightarrow> fds \<Rightarrow> fd_t list \<times> fd_queue \<times> fds" where
  "fdq_deinit q p =
     (case fdq_pop q p of
        (Inl e, q', p') \<Rightarrow> ([], q', p')
      | (Inr fd, q', p') \<Rightarrow> (case fdq_deinit q' p' of (fds, r) \<Rightarrow> (fd # fds, r)))"
  by pat_completeness auto
termination
  by (relation "measure (\<lambda>(q, p). fq_count q)")
     (auto simp: fdq_pop_def Let_def split: if_splits option.splits sum.splits prod.splits)

declare fdq_deinit.simps [simp del]

text \<open>The loop of \<open>discard\<close>, and the operation.\<close>

fun fdq_close_many :: "nat \<Rightarrow> fd_queue \<Rightarrow> fds \<Rightarrow> unit result \<times> fd_t list \<times> fd_queue \<times> fds" where
  "fdq_close_many 0 q p = (Inr (), [], q, p)"
| "fdq_close_many (Suc n) q p =
     (case fdq_pop q p of
        (Inl e, q', p') \<Rightarrow> (Inl e, [], q', p')
      | (Inr fd, q', p') \<Rightarrow>
          (case fdq_close_many n q' p' of (r, closed, s) \<Rightarrow> (r, fd # closed, s)))"

definition fdq_discard :: "fd_queue \<Rightarrow> fds \<Rightarrow> nat \<Rightarrow> unit result \<times> fd_t list \<times> fd_queue \<times> fds" where
  "fdq_discard q p count =
     (if fq_count q < count then (Inl (ETx Empty), [], q, p) else fdq_close_many count q p)"

definition fdq_append :: "allocator \<Rightarrow> fd_queue \<Rightarrow> fds \<Rightarrow> fd_t \<Rightarrow> unit result \<times> fd_queue \<times> fds" where
  "fdq_append alloc q p fd =
     (case fdq_ensure_capacity alloc q p 1 of
        (Inl e, p1) \<Rightarrow> (Inl e, q, p1)
      | (Inr _, p1) \<Rightarrow>
          (case fds_acquire alloc p1 fd of
             (Inl e, p2) \<Rightarrow> (Inl e, q, p2)
           | (Inr lease, p2) \<Rightarrow>
               (case fq_tail q of
                  Some tail \<Rightarrow>
                    (case fds_link p2 tail lease of
                       (Inl e, p3) \<Rightarrow>
                         (case fds_take p3 lease of
                            (Inl _, p4) \<Rightarrow> (Inl EUnreachable, q, p4)
                          | (Inr _, p4) \<Rightarrow> (Inl e, q, p4))
                     | (Inr _, p3) \<Rightarrow>
                         (Inr (), q\<lparr>fq_tail := Some lease, fq_count := fq_count q + 1\<rparr>, p3))
                | None \<Rightarrow>
                    (Inr (), q\<lparr>fq_head := Some lease, fq_tail := Some lease,
                               fq_count := fq_count q + 1\<rparr>, p2))))"

text \<open>
  \<open>copyTo\<close>: the loop writes \<open>destination[index]\<close> for every lease of the chain; \<open>room\<close> is what is
  left of the destination, and writing past it would trap.
\<close>

fun fdq_copy_loop :: "fds \<Rightarrow> fd_lease option \<Rightarrow> nat \<Rightarrow> fd_t list result" where
  "fdq_copy_loop p None room = Inr []"
| "fdq_copy_loop p (Some l) 0 = Inl EUnreachable"
| "fdq_copy_loop p (Some l) (Suc room) =
     (case fds_next_lease p l of
        Inl e \<Rightarrow> Inl e
      | Inr next \<Rightarrow> bind_result (fdq_copy_loop p next room) (\<lambda>fds. Inr (fl_fd l # fds)))"

definition fdq_copy_to :: "fd_queue \<Rightarrow> fds \<Rightarrow> nat \<Rightarrow> fd_t list result" where
  "fdq_copy_to q p dest_len =
     (if dest_len < fq_count q then Inl (ETx DescriptorBudgetExceeded)
      else bind_result (fdq_copy_loop p (fq_head q) dest_len) (\<lambda>fds. Inr (take (fq_count q) fds)))"

section \<open>Queues as lists of leases\<close>

definition fdq_chain :: "fds \<Rightarrow> fd_lease list \<Rightarrow> bool" where
  "fdq_chain p ls \<longleftrightarrow> lease_chain (fds_valid p) fl_index (fnode_chain_next p) free_sentinel ls"

definition fdq_rep :: "fd_queue \<Rightarrow> fds \<Rightarrow> fd_lease list \<Rightarrow> bool" where
  "fdq_rep q p ls \<longleftrightarrow>
     fds_inv p \<and> fdq_chain p ls \<and> fq_count q = length ls \<and> length ls \<le> fq_budget q \<and>
     fq_head q = (if ls = [] then None else Some (hd ls)) \<and>
     fq_tail q = (if ls = [] then None else Some (last ls))"

lemma fdq_init_rep: "fds_inv p \<Longrightarrow> fdq_rep (fdq_init budget) p []"
  by (simp add: fdq_rep_def fdq_init_def fdq_chain_def)

lemma fds_next_lease_chain:
  assumes "fds_inv p" and "fdq_chain p (l # ls)"
  shows "fds_next_lease p l = Inr (case ls of [] \<Rightarrow> None | m # _ \<Rightarrow> Some m)"
proof (cases ls)
  case Nil
  with assms show ?thesis by (simp add: fdq_chain_def fds_next_lease_def fnode_chain_next_def)
next
  case (Cons m ms)
  with assms(2) have "fds_valid p l" "fds_valid p m" "fnode_chain_next p (fl_index l) = fl_index m"
    by (auto simp: fdq_chain_def dest: lease_chain_valid)
  moreover from this(2) have "fl_index m \<noteq> free_sentinel" using fds_valid_index [OF assms(1)] by blast
  ultimately show ?thesis
    using Cons by (auto simp: fds_next_lease_def fnode_chain_next_def fds_valid_def Let_def)
qed

lemma fdq_pop_ok:
  assumes "fdq_rep q p (l # ls)"
  shows "\<exists>q' p'. fdq_pop q p = (Inr (fl_fd l), q', p') \<and> fdq_rep q' p' ls \<and>
    fq_budget q' = fq_budget q \<and> fds_live p' = fds_live p - {l} \<and>
    (\<forall>ms. fdq_chain p ms \<longrightarrow> l \<notin> set ms \<longrightarrow> fdq_chain p' ms)"
proof -
  from assms have inv: "fds_inv p" and ch: "fdq_chain p (l # ls)" by (auto simp: fdq_rep_def)
  then have v: "fds_valid p l" by (auto simp: fdq_chain_def dest: lease_chain_valid)
  obtain p' where t: "fds_take p l = (Inr (fl_fd l), p')" using fds_take_total [OF v] by blast
  then have rel: "fds_released p l p'" by (auto simp: fds_released_def)
  have inv': "fds_inv p'" using fds_take_ok [OF inv t] by simp
  have ch': "fdq_chain p' ls"
    using fd_pool.chain_pop(1) [OF inv rel] ch by (simp add: fdq_chain_def)
  have other: "fdq_chain p' ms" if "fdq_chain p ms" "l \<notin> set ms" for ms
  proof -
    have "fl_index l \<notin> fl_index ` set ms"
      using that v fds_valid_unique by (auto simp: fdq_chain_def dest!: lease_chain_valid)
    with that fd_pool.chain_released(1) [OF inv rel] show ?thesis by (simp add: fdq_chain_def)
  qed
  have "fdq_pop q p = (Inr (fl_fd l),
      q\<lparr>fq_head := (case ls of [] \<Rightarrow> None | m # _ \<Rightarrow> Some m), fq_count := length ls,
        fq_tail := (if ls = [] then None else fq_tail q)\<rparr>, p')"
    using assms fds_next_lease_chain [OF inv ch] t
    by (cases ls) (auto simp: fdq_pop_def fdq_rep_def Let_def)
  then show ?thesis
    using assms inv' ch' other fds_take_live [OF inv t]
    by (cases ls) (auto simp: fdq_rep_def)
qed

lemma fdq_pop_empty: "fdq_rep q p [] \<Longrightarrow> fdq_pop q p = (Inl (ETx Empty), q, p)"
  by (simp add: fdq_rep_def fdq_pop_def)

lemma fds_live_grow: "fds_inv p \<Longrightarrow> fds_ensure_available alloc p n = (r, p') \<Longrightarrow> fds_live p' = fds_live p"
  using fds_ensure_inv fds_live_extends by blast

lemma fdq_chain_extends: "fds_inv p \<Longrightarrow> fds_extends p p' \<Longrightarrow> fdq_chain p ms \<Longrightarrow> fdq_chain p' ms"
  unfolding fdq_chain_def
  by (erule lease_chain_cong [rotated])
     (auto simp: fds_extends_def fds_valid_def fnode_chain_next_def)

text \<open>Making room leaves every queue as it is.\<close>

lemma fdq_ensure_ok:
  assumes rep: "fdq_rep q p ls" and ens: "fdq_ensure_capacity alloc q p n = (r, p')"
  shows "fdq_rep q p' ls \<and> fds_live p' = fds_live p \<and> (\<forall>ms. fdq_chain p ms \<longrightarrow> fdq_chain p' ms) \<and>
    (r = Inr () \<longrightarrow> length ls + n \<le> fq_budget q \<and> n \<le> fds_available p')"
proof (cases "fdq_available q < n")
  case True
  with ens rep show ?thesis by (auto simp: fdq_ensure_capacity_def)
next
  case False
  with ens have e: "fds_ensure_available alloc p n = (r, p')" by (simp add: fdq_ensure_capacity_def)
  from rep have inv: "fds_inv p" by (simp add: fdq_rep_def)
  from fds_ensure_inv [OF e inv] have p': "fds_inv p'" "fds_extends p p'"
    "r = Inr () \<longrightarrow> n \<le> fds_available p'" by auto
  from False rep have "length ls + n \<le> fq_budget q" by (auto simp: fdq_available_def fdq_rep_def)
  with p' rep fdq_chain_extends [OF inv p'(2)] fds_live_extends [OF p'(2)] show ?thesis
    by (auto simp: fdq_rep_def)
qed

lemma fdq_append_ok:
  assumes rep: "fdq_rep q p ls" and app: "fdq_append alloc q p fd = (Inr u, q', p')"
  shows "\<exists>l. fl_fd l = fd \<and> fdq_rep q' p' (ls @ [l]) \<and> fq_budget q' = fq_budget q \<and>
    l \<notin> fds_live p \<and> fds_live p' = insert l (fds_live p) \<and>
    (\<forall>ms. fdq_chain p ms \<longrightarrow> set ms \<inter> set ls = {} \<longrightarrow> fdq_chain p' ms)"
proof -
  from app obtain p1 where e: "fdq_ensure_capacity alloc q p 1 = (Inr (), p1)"
    by (auto simp: fdq_append_def split: prod.splits sum.splits)
  note ens = fdq_ensure_ok [OF rep e]
  from ens have rep1: "fdq_rep q p1 ls" and room: "length ls + 1 \<le> fq_budget q" by auto
  from rep1 have inv1: "fds_inv p1" and ch1: "fdq_chain p1 ls" by (auto simp: fdq_rep_def)
  from app e obtain l p2 where a: "fds_acquire alloc p1 fd = (Inr l, p2)"
    by (auto simp: fdq_append_def split: prod.splits sum.splits)
  then have acq: "fds_acquired p1 l p2" by (auto simp: fds_acquired_def)
  note new = fds_acquire_new [OF inv1 a]
  note live = fds_acquire_live [OF inv1 a]
  have ch2: "fdq_chain p2 ms" if "fdq_chain p1 ms" for ms
    using fd_pool.chain_acquired(1) [OF inv1 acq] that by (simp add: fdq_chain_def)
  have lfree: "fl_index l \<notin> fl_index ` set ls"
    using fd_pool.chain_acquired(2) [OF inv1 acq] ch1 by (simp add: fdq_chain_def)
  have one: "fdq_chain p2 [l]"
    using new fds_valid_index [OF new(1,2)] by (simp add: fdq_chain_def)
  show ?thesis
  proof (cases "ls = []")
    case True
    with app e a rep have "q' = q\<lparr>fq_head := Some l, fq_tail := Some l, fq_count := fq_count q + 1\<rparr>"
      "p' = p2" by (auto simp: fdq_append_def fdq_rep_def)
    with True rep room new one live ens ch2 show ?thesis by (auto simp: fdq_rep_def)
  next
    case False
    with rep have tail: "fq_tail q = Some (last ls)" by (simp add: fdq_rep_def)
    have vl: "fds_valid p2 (last ls)"
      by (rule lease_chain_valid [OF ch2 [OF ch1, unfolded fdq_chain_def] last_in_set [OF False]])
    have "fnode_chain_next p2 (fl_index (last ls)) = free_sentinel"
      using lease_chain_last [OF ch2 [OF ch1, unfolded fdq_chain_def] False] .
    then obtain p3 where k: "fds_link p2 (last ls) l = (Inr (), p3)"
      using fds_link_total [OF vl new(2)] by blast
    then have lk: "fds_linked p2 (last ls) l p3" by (simp add: fds_linked_def)
    from app e a tail k have q': "q' = q\<lparr>fq_tail := Some l, fq_count := fq_count q + 1\<rparr>" "p' = p3"
      by (auto simp: fdq_append_def)
    have "fdq_chain p3 (ls @ [l])"
      using fd_pool.chain_linked_snoc [OF new(1) lk ch2 [OF ch1, unfolded fdq_chain_def] False
          one [unfolded fdq_chain_def]] lfree by (simp add: fdq_chain_def)
    moreover have "fdq_chain p3 ms" if "fdq_chain p ms" "set ms \<inter> set ls = {}" for ms
    proof -
      have m2: "fdq_chain p2 ms" using ens that(1) ch2 by blast
      have "fl_index (last ls) \<notin> fl_index ` set ms"
      proof
        assume "fl_index (last ls) \<in> fl_index ` set ms"
        then obtain m where "m \<in> set ms" "fl_index m = fl_index (last ls)" by force
        with vl m2 have "m = last ls"
          by (auto simp: fdq_chain_def intro: fds_valid_unique dest: lease_chain_valid)
        with \<open>m \<in> set ms\<close> that(2) False show False by auto
      qed
      with fd_pool.chain_linked_other [OF new(1) lk] m2 show ?thesis by (simp add: fdq_chain_def)
    qed
    moreover have "fds_inv p3" "fds_live p3 = fds_live p2"
      using fds_link_ok [OF new(1) k] by (auto simp: fds_live_def)
    ultimately show ?thesis
      using False rep room new live ens q' by (auto simp: fdq_rep_def)
  qed
qed

lemma fdq_append_error:
  assumes rep: "fdq_rep q p ls" and app: "fdq_append alloc q p fd = (Inl e, q', p')"
  shows "q' = q \<and> fdq_rep q p' ls"
proof -
  obtain r1 p1 where e: "fdq_ensure_capacity alloc q p 1 = (r1, p1)" by fastforce
  note ens = fdq_ensure_ok [OF rep e]
  show ?thesis
  proof (cases r1)
    case (Inl e1)
    with app e ens show ?thesis by (auto simp: fdq_append_def)
  next
    case (Inr u)
    with ens have rep1: "fdq_rep q p1 ls" and av: "1 \<le> fds_available p1" by auto
    then have inv1: "fds_inv p1" by (simp add: fdq_rep_def)
    obtain l p2 where a: "fds_acquire alloc p1 fd = (Inr l, p2)"
      using fds_ensure_free [OF inv1 av] by (simp add: fds_acquire_def Let_def)
    then have acq: "fds_acquired p1 l p2" by (auto simp: fds_acquired_def)
    note new = fds_acquire_new [OF inv1 a]
    from rep1 have ch1: "fdq_chain p1 ls" by (simp add: fdq_rep_def)
    have ch2: "fdq_chain p2 ls"
      using fd_pool.chain_acquired(1) [OF inv1 acq] ch1 by (simp add: fdq_chain_def)
    have False if "ls \<noteq> []"
    proof -
      have tail: "fq_tail q = Some (last ls)" using rep that by (simp add: fdq_rep_def)
      have v: "fds_valid p2 (last ls)"
        by (rule lease_chain_valid [OF ch2 [unfolded fdq_chain_def] last_in_set [OF that]])
      have nx: "fnode_chain_next p2 (fl_index (last ls)) = free_sentinel"
        using lease_chain_last [OF ch2 [unfolded fdq_chain_def] that] .
      obtain p3 where "fds_link p2 (last ls) l = (Inr (), p3)"
        using fds_link_total [OF v new(2) nx] by blast
      then show False using app e Inr a tail by (simp add: fdq_append_def)
    qed
    moreover have "fq_tail q = None" if "ls = []" using rep that by (simp add: fdq_rep_def)
    ultimately show ?thesis using app e Inr a by (auto simp: fdq_append_def split: option.splits)
  qed
qed

text \<open>Room that is already there makes an append succeed without the allocator.\<close>

lemma fdq_append_total:
  assumes rep: "fdq_rep q p ls" and "length ls + 1 \<le> fq_budget q" and "1 \<le> fds_available p"
  shows "\<exists>q' p'. fdq_append alloc q p fd = (Inr (), q', p')"
proof -
  obtain r q' p' where app: "fdq_append alloc q p fd = (r, q', p')"
    by (cases "fdq_append alloc q p fd") auto
  from rep have inv: "fds_inv p" by (simp add: fdq_rep_def)
  have e: "fdq_ensure_capacity alloc q p 1 = (Inr (), p)"
    using assms fds_ensure_free [OF inv assms(3)]
    by (simp add: fdq_ensure_capacity_def fdq_available_def fdq_rep_def)
  obtain l p2 where a: "fds_acquire alloc p fd = (Inr l, p2)"
    using fds_ensure_free [OF inv assms(3)] by (simp add: fds_acquire_def Let_def)
  note new = fds_acquire_new [OF inv a]
  have ch2: "fdq_chain p2 ls"
    using fd_pool.chain_acquired(1) [OF inv, of l p2] a rep
    by (auto simp: fdq_chain_def fdq_rep_def fds_acquired_def)
  show ?thesis
  proof (cases "ls = []")
    case True
    with e a rep show ?thesis by (simp add: fdq_append_def fdq_rep_def)
  next
    case False
    have "\<exists>p3. fds_link p2 (last ls) l = (Inr (), p3)"
      using fds_link_total [OF _ new(2)] lease_chain_last [OF ch2 [unfolded fdq_chain_def] False]
        lease_chain_valid [OF ch2 [unfolded fdq_chain_def]] False by simp
    with e a rep False show ?thesis by (auto simp: fdq_append_def fdq_rep_def)
  qed
qed

text \<open>The queue is a \<open>fifo\<close> of descriptors.\<close>

definition fdq_fifo_rep :: "fd_queue \<times> fds \<Rightarrow> fd_t list \<Rightarrow> bool" where
  "fdq_fifo_rep s fds \<longleftrightarrow> (\<exists>ls. fdq_rep (fst s) (snd s) ls \<and> fds = map fl_fd ls)"

definition fdq_push_opt :: "allocator \<Rightarrow> fd_t \<Rightarrow> fd_queue \<times> fds \<Rightarrow> (fd_queue \<times> fds) option" where
  "fdq_push_opt alloc fd s =
     (case fdq_append alloc (fst s) (snd s) fd of (Inl _, _) \<Rightarrow> None | (Inr _, s') \<Rightarrow> Some s')"

definition fdq_pop_opt :: "fd_queue \<times> fds \<Rightarrow> (fd_t \<times> (fd_queue \<times> fds)) option" where
  "fdq_pop_opt s =
     (case fdq_pop (fst s) (snd s) of (Inl _, _) \<Rightarrow> None | (Inr fd, s') \<Rightarrow> Some (fd, s'))"

interpretation fd_fifo: fifo fdq_fifo_rep fdq_push_opt fdq_pop_opt
proof unfold_locales
  fix s xs a v s'
  assume "fdq_fifo_rep s xs" and "fdq_push_opt a v s = Some s'"
  then obtain ls u where rep: "fdq_rep (fst s) (snd s) ls" and xs: "xs = map fl_fd ls"
    and app: "fdq_append a (fst s) (snd s) v = (Inr u, fst s', snd s')"
    by (cases s') (auto simp: fdq_fifo_rep_def fdq_push_opt_def split: prod.splits sum.splits)
  from fdq_append_ok [OF rep app] obtain l where
    "fl_fd l = v" "fdq_rep (fst s') (snd s') (ls @ [l])" by blast
  then show "fdq_fifo_rep s' (xs @ [v])"
    unfolding fdq_fifo_rep_def xs by (intro exI [of _ "ls @ [l]"]) simp
next
  fix s x xs
  assume "fdq_fifo_rep s (x # xs)"
  then obtain l ls where "fdq_rep (fst s) (snd s) (l # ls)" "x = fl_fd l" "xs = map fl_fd ls"
    by (auto simp: fdq_fifo_rep_def)
  then show "\<exists>s'. fdq_pop_opt s = Some (x, s') \<and> fdq_fifo_rep s' xs"
    by (auto simp: fdq_fifo_rep_def fdq_pop_opt_def dest!: fdq_pop_ok)
next
  fix s
  assume "fdq_fifo_rep s []"
  then show "fdq_pop_opt s = None"
    by (auto simp: fdq_fifo_rep_def fdq_pop_opt_def dest!: fdq_pop_empty)
qed

section \<open>More queue operations\<close>

lemma fdq_close_many_ok:
  "fdq_rep q p (ls @ ms) \<Longrightarrow>
     \<exists>q' p'. fdq_close_many (length ls) q p = (Inr (), map fl_fd ls, q', p') \<and> fdq_rep q' p' ms \<and>
       fq_budget q' = fq_budget q \<and> fds_live p' = fds_live p - set ls \<and>
       (\<forall>ks. fdq_chain p ks \<longrightarrow> set ks \<inter> set ls = {} \<longrightarrow> fdq_chain p' ks)"
proof (induction ls arbitrary: q p)
  case Nil
  then show ?case by auto
next
  case (Cons l ls)
  then have "fdq_rep q p (l # (ls @ ms))" by simp
  then obtain q1 p1 where 1: "fdq_pop q p = (Inr (fl_fd l), q1, p1)" "fdq_rep q1 p1 (ls @ ms)"
    "fq_budget q1 = fq_budget q" "fds_live p1 = fds_live p - {l}"
    "\<forall>ks. fdq_chain p ks \<longrightarrow> l \<notin> set ks \<longrightarrow> fdq_chain p1 ks"
    using fdq_pop_ok by blast
  from Cons.IH [OF 1(2)] obtain q2 p2 where
    2: "fdq_close_many (length ls) q1 p1 = (Inr (), map fl_fd ls, q2, p2)" "fdq_rep q2 p2 ms"
    "fq_budget q2 = fq_budget q1" "fds_live p2 = fds_live p1 - set ls"
    "\<forall>ks. fdq_chain p1 ks \<longrightarrow> set ks \<inter> set ls = {} \<longrightarrow> fdq_chain p2 ks" by blast
  have "fdq_close_many (length (l # ls)) q p = (Inr (), map fl_fd (l # ls), q2, p2)"
    using 1(1) 2(1) by simp
  moreover have "fds_live p2 = fds_live p - set (l # ls)" using 1(4) 2(4) by auto
  ultimately show ?case using 1(3,5) 2(2,3,5) by auto
qed

lemma fdq_discard_ok:
  assumes "fdq_rep q p ls" and "n \<le> length ls"
  shows "\<exists>q' p'. fdq_discard q p n = (Inr (), map fl_fd (take n ls), q', p') \<and>
    fdq_rep q' p' (drop n ls) \<and> fq_budget q' = fq_budget q \<and>
    fds_live p' = fds_live p - set (take n ls) \<and>
    (\<forall>ks. fdq_chain p ks \<longrightarrow> set ks \<inter> set (take n ls) = {} \<longrightarrow> fdq_chain p' ks)"
  using fdq_close_many_ok [of q p "take n ls" "drop n ls"] assms
  by (auto simp: fdq_discard_def fdq_rep_def min_def)

lemma fdq_deinit_ok:
  "fdq_rep q p ls \<Longrightarrow>
     \<exists>q' p'. fdq_deinit q p = (map fl_fd ls, q', p') \<and> fdq_rep q' p' [] \<and>
       fds_live p' = fds_live p - set ls"
proof (induction ls arbitrary: q p)
  case Nil
  then show ?case using fdq_pop_empty by (subst fdq_deinit.simps) auto
next
  case (Cons l ls)
  then obtain q1 p1 where 1: "fdq_pop q p = (Inr (fl_fd l), q1, p1)" "fdq_rep q1 p1 ls"
    "fds_live p1 = fds_live p - {l}" using fdq_pop_ok by blast
  from Cons.IH [OF 1(2)] obtain q2 p2 where
    2: "fdq_deinit q1 p1 = (map fl_fd ls, q2, p2)" "fdq_rep q2 p2 []" "fds_live p2 = fds_live p1 - set ls"
    by blast
  have "fdq_deinit q p = (map fl_fd (l # ls), q2, p2)"
    using 1(1) 2(1) by (subst fdq_deinit.simps) simp
  then show ?case using 1(3) 2(2,3) by auto
qed

lemma fdq_copy_loop_ok:
  "fds_inv p \<Longrightarrow> fdq_chain p ls \<Longrightarrow> length ls \<le> room \<Longrightarrow>
     fdq_copy_loop p (if ls = [] then None else Some (hd ls)) room = Inr (map fl_fd ls)"
proof (induction ls arbitrary: room)
  case Nil
  then show ?case by (cases room) simp_all
next
  case (Cons l ls)
  then obtain n where n: "room = Suc n" by (cases room) auto
  have next_l: "fds_next_lease p l = Inr (if ls = [] then None else Some (hd ls))"
    using fds_next_lease_chain [OF Cons.prems(1,2)] by (cases ls) simp_all
  have "fdq_chain p ls" using Cons.prems(2) unfolding fdq_chain_def by (rule lease_chain_tl)
  with Cons n next_l show ?case by simp
qed

lemma fdq_copy_to_ok:
  "fdq_rep q p ls \<Longrightarrow> fdq_copy_to q p n =
     (if n < length ls then Inl (ETx DescriptorBudgetExceeded) else Inr (map fl_fd ls))"
  using fdq_copy_loop_ok [of p ls n] by (simp add: fdq_copy_to_def fdq_rep_def)

section \<open>Control messages\<close>

definition cmsghdr_size :: nat where
  "cmsghdr_size = 16"

definition fd_size :: nat where
  "fd_size = 4"

definition sol_socket :: u32 where
  "sol_socket = 1"

definition scm_rights :: u32 where
  "scm_rights = 1"

text \<open>
  \<open>std.mem.alignForward(usize, len, 8)\<close>. It would overflow only within 8 bytes of
  \<open>2 ^ 64\<close>, which neither the length of a slice nor the control data for a slice of descriptors reaches.
\<close>

definition cmsg_align :: "nat \<Rightarrow> nat" where
  "cmsg_align len = (len + 7) div 8 * 8"

definition cmsg_data_offset :: nat where
  "cmsg_data_offset = cmsg_align cmsghdr_size"

definition writeU64 :: "endian \<Rightarrow> u64 \<Rightarrow> u8 list" where
  "writeU64 en v = (case en of
     Little \<Rightarrow> write_le (ucast v) @ write_le (ucast (drop_bit 32 v))
   | Big \<Rightarrow> rev (write_le (ucast v) @ write_le (ucast (drop_bit 32 v))))"

definition readU64 :: "endian \<Rightarrow> u8 list \<Rightarrow> u64" where
  "readU64 en bs =
     (let xs = (case en of Little \<Rightarrow> bs | Big \<Rightarrow> rev bs)
      in ucast (read_le (take 4 xs)) OR push_bit 32 (ucast (read_le (drop 4 xs))))"

text \<open>A descriptor is a signed 32-bit integer.\<close>

definition fd_bytes :: "endian \<Rightarrow> fd_t \<Rightarrow> u8 list" where
  "fd_bytes en fd = writeU32 en (word_of_int fd)"

definition bytes_fd :: "endian \<Rightarrow> u8 list \<Rightarrow> fd_t" where
  "bytes_fd en bs = sint (readU32 en bs)"

definition is_fd :: "fd_t \<Rightarrow> bool" where
  "is_fd fd \<longleftrightarrow> - (2 ^ 31) \<le> fd \<and> fd < 2 ^ 31"

definition rights_control_size :: "nat \<Rightarrow> nat result" where
  "rights_control_size fd_count =
     (if fd_count = 0 then Inr 0
      else case checked_mul fd_count fd_size of
             None \<Rightarrow> Inl (ETx Overflow)
           | Some data_len \<Rightarrow>
               (case checked_add cmsg_data_offset data_len of
                  None \<Rightarrow> Inl (ETx Overflow)
                | Some used \<Rightarrow> Inr (cmsg_align used)))"

text \<open>The bytes written to the start of the storage: header, descriptors, zero padding.\<close>

definition encode_rights :: "endian \<Rightarrow> nat \<Rightarrow> fd_t list \<Rightarrow> u8 list result" where
  "encode_rights en storage_len fds =
     (if fds = [] then Inl (ETx MalformedControl)
      else case rights_control_size (length fds) of
             Inl e \<Rightarrow> Inl e
           | Inr space \<Rightarrow>
               if storage_len < space then Inl (ETx ControlBufferTooSmall)
               else let used = cmsg_data_offset + length fds * fd_size
                    in Inr (writeU64 en (of_nat used) @ writeU32 en sol_socket @ writeU32 en scm_rights
                            @ concat (map (fd_bytes en) fds) @ replicate (space - used) 0))"

record rights_iterator =
  ri_control :: "u8 list"
  ri_record_offset :: nat
  ri_rights :: "u8 list"
  ri_rights_offset :: nat

definition rights_start :: "u8 list \<Rightarrow> rights_iterator" where
  "rights_start control =
     \<lparr>ri_control = control, ri_record_offset = 0, ri_rights = [], ri_rights_offset = 0\<rparr>"

text \<open>One record of the control buffer: its aligned end and the descriptors' bytes, if any.\<close>

definition rights_record :: "endian \<Rightarrow> rights_iterator \<Rightarrow> (rights_iterator \<times> bool) result" where
  "rights_record en it =
     (let rec = drop (ri_record_offset it) (ri_control it);
          hlen = unat (readU64 en (take 8 rec));
          level = readU32 en (slice rec 8 12);
          kind = readU32 en (slice rec 12 16)
      in if hlen < cmsg_data_offset \<or> length rec < hlen then Inl (ETx MalformedControl)
         else let aligned = cmsg_align hlen
              in if length rec < aligned \<and> hlen \<noteq> length rec then Inl (ETx MalformedControl)
                 else let it1 = it\<lparr>ri_record_offset := ri_record_offset it + min aligned (length rec)\<rparr>
                      in if level \<noteq> sol_socket \<or> kind \<noteq> scm_rights then Inr (it1, False)
                         else let data = slice rec cmsg_data_offset hlen
                              in if data = [] \<or> length data mod fd_size \<noteq> 0
                                 then Inl (ETx MalformedControl)
                                 else Inr (it1\<lparr>ri_rights := data, ri_rights_offset := 0\<rparr>, True))"

lemma cmsg_align_ge: "n \<le> cmsg_align n"
  unfolding cmsg_align_def by presburger

lemma cmsg_data_offset_16 [simp]: "cmsg_data_offset = 16"
  by (simp add: cmsg_data_offset_def cmsg_align_def cmsghdr_size_def)

lemma rights_record_progress:
  assumes "rights_record en it = Inr (it1, found)"
  shows "ri_control it1 = ri_control it" "ri_record_offset it < ri_record_offset it1"
    "ri_record_offset it1 \<le> length (ri_control it)"
proof -
  from assms have len: "16 \<le> length (drop (ri_record_offset it) (ri_control it))"
    and al: "16 \<le> cmsg_align (unat (readU64 en (take 8 (drop (ri_record_offset it) (ri_control it)))))"
    using cmsg_align_ge [of "unat (readU64 en (take 8 (drop (ri_record_offset it) (ri_control it))))"]
    by (auto simp: rights_record_def Let_def split: if_splits)
  with assms show "ri_control it1 = ri_control it" "ri_record_offset it < ri_record_offset it1"
    "ri_record_offset it1 \<le> length (ri_control it)"
    by (auto simp: rights_record_def Let_def split: if_splits)
qed

text \<open>
  \<open>RightsIterator.next\<close>: the loop runs on while records hold no descriptors. The callers
  abandon the iterator after an error, so its state is not tracked any further then.
\<close>

function rights_next :: "endian \<Rightarrow> rights_iterator \<Rightarrow> fd_t option result \<times> rights_iterator" where
  "rights_next en it =
     (if ri_rights_offset it < length (ri_rights it)
      then (Inr (Some (bytes_fd en (slice (ri_rights it) (ri_rights_offset it) (ri_rights_offset it + fd_size)))),
            it\<lparr>ri_rights_offset := ri_rights_offset it + fd_size\<rparr>)
      else if ri_record_offset it = length (ri_control it) then (Inr None, it)
      else if length (ri_control it) - ri_record_offset it < cmsghdr_size
      then (Inl (ETx MalformedControl), it)
      else case rights_record en it of
             Inl e \<Rightarrow> (Inl e, it)
           | Inr (it1, _) \<Rightarrow> rights_next en it1)"
  by pat_completeness auto
termination
proof (relation "measure (\<lambda>(en, it). length (ri_control it) - ri_record_offset it)")
  fix en it r it1 found
  assume "rights_record en it = Inr r" and "(it1, found) = r"
  then have "rights_record en it = Inr (it1, found)" by simp
  from rights_record_progress [OF this]
  show "((en, it1), en, it) \<in> measure (\<lambda>(en, it). length (ri_control it) - ri_record_offset it)"
    by auto
qed simp

declare rights_next.simps [simp del]

text \<open>\<open>while (try rights.next()) |fd|\<close>: the descriptors seen, and how the loop ended.\<close>

lemma rights_next_progress:
  "rights_next en it = (Inr (Some fd), it') \<Longrightarrow>
     ri_control it' = ri_control it \<and>
     (ri_record_offset it' = ri_record_offset it \<and> ri_rights it' = ri_rights it \<and>
        ri_rights_offset it' = ri_rights_offset it + fd_size \<and> ri_rights_offset it < length (ri_rights it)
      \<or> ri_record_offset it < ri_record_offset it' \<and> ri_record_offset it' \<le> length (ri_control it))"
proof (induction en it arbitrary: fd it' rule: rights_next.induct)
  case (1 en it)
  show ?case
  proof (cases "ri_rights_offset it < length (ri_rights it)")
    case True
    with "1.prems" show ?thesis by (auto simp: rights_next.simps [of en it])
  next
    case False
    with "1.prems" obtain it1 found where r: "rights_record en it = Inr (it1, found)"
      and n: "ri_record_offset it \<noteq> length (ri_control it)"
      "\<not> length (ri_control it) - ri_record_offset it < cmsghdr_size"
      and rec: "rights_next en it1 = (Inr (Some fd), it')"
      by (auto simp: rights_next.simps [of en it] split: if_splits sum.splits)
    from "1.IH" [OF False n r refl rec] rights_record_progress [OF r] show ?thesis by auto
  qed
qed

function rights_all :: "endian \<Rightarrow> rights_iterator \<Rightarrow> fd_t list \<times> unit result" where
  "rights_all en it =
     (case rights_next en it of
        (Inl e, _) \<Rightarrow> ([], Inl e)
      | (Inr None, _) \<Rightarrow> ([], Inr ())
      | (Inr (Some fd), it1) \<Rightarrow> (case rights_all en it1 of (fds, r) \<Rightarrow> (fd # fds, r)))"
  by pat_completeness auto
termination
proof (relation "measures [\<lambda>(en, it). length (ri_control it) - ri_record_offset it,
    \<lambda>(en, it). length (ri_rights it) - ri_rights_offset it]")
  fix en it r it1 x fd
  assume "(r, it1) = rights_next en it" and "r = Inr x" and "x = Some fd"
  then have "rights_next en it = (Inr (Some fd), it1)" by simp
  from rights_next_progress [OF this]
  show "((en, it1), en, it) \<in> measures [\<lambda>(en, it). length (ri_control it) - ri_record_offset it,
    \<lambda>(en, it). length (ri_rights it) - ri_rights_offset it]"
    by (auto simp: fd_size_def)
qed simp

declare rights_all.simps [simp del]

text \<open>\<open>closeRights\<close> closes what \<open>rights_all\<close> visits, the valid prefix when it ends in an error.\<close>

definition close_rights :: "endian \<Rightarrow> u8 list \<Rightarrow> unit result \<times> fd_t list" where
  "close_rights en control = (case rights_all en (rights_start control) of (fds, r) \<Rightarrow> (r, fds))"

text \<open>\<open>queue.append(fd) catch unreachable\<close> for every descriptor of the second pass.\<close>

fun fdq_append_all :: "allocator \<Rightarrow> fd_queue \<Rightarrow> fds \<Rightarrow> fd_t list \<Rightarrow> unit result \<times> fd_queue \<times> fds" where
  "fdq_append_all alloc q p [] = (Inr (), q, p)"
| "fdq_append_all alloc q p (fd # fds) =
     (case fdq_append alloc q p fd of
        (Inl _, q1, p1) \<Rightarrow> (Inl EUnreachable, q1, p1)
      | (Inr _, q1, p1) \<Rightarrow> fdq_append_all alloc q1 p1 fds)"

text \<open>
  \<open>enqueueRights\<close>: a counting pass, the room, then the appending pass. The \<open>errdefer\<close> closes the
  descriptors of the message on every error return; the second component lists them.
\<close>

definition enqueue_rights ::
    "allocator \<Rightarrow> endian \<Rightarrow> u8 list \<Rightarrow> fd_queue \<Rightarrow> fds \<Rightarrow> nat result \<times> fd_t list \<times> fd_queue \<times> fds" where
  "enqueue_rights alloc en control q p =
     (let (fds, r) = rights_all en (rights_start control)
      in case r of
           Inl e \<Rightarrow> (Inl e, snd (close_rights en control), q, p)
         | Inr _ \<Rightarrow>
             let count = length fds
             in if count = 0 then (Inr 0, [], q, p)
                else case fdq_ensure_capacity alloc q p count of
                       (Inl e, p1) \<Rightarrow> (Inl e, snd (close_rights en control), q, p1)
                     | (Inr _, p1) \<Rightarrow>
                         (case fdq_append_all alloc q p1 fds of
                            (Inl e, q2, p2) \<Rightarrow> (Inl e, snd (close_rights en control), q2, p2)
                          | (Inr _, q2, p2) \<Rightarrow> (Inr count, [], q2, p2)))"

section \<open>The iterator against a decoder of whole buffers\<close>

text \<open>The reference: split the buffer into records from the front, the data into descriptors.\<close>

function fds_of :: "endian \<Rightarrow> u8 list \<Rightarrow> fd_t list" where
  "fds_of en data = (if data = [] then [] else bytes_fd en (take fd_size data) # fds_of en (drop fd_size data))"
  by pat_completeness auto
termination by (relation "measure (\<lambda>(en, data). length data)") (auto simp: fd_size_def)

declare fds_of.simps [simp del]

function decode_rights :: "endian \<Rightarrow> u8 list \<Rightarrow> fd_t list \<times> unit result" where
  "decode_rights en bs =
     (if bs = [] then ([], Inr ())
      else if length bs < cmsghdr_size then ([], Inl (ETx MalformedControl))
      else case rights_record en (rights_start bs) of
             Inl e \<Rightarrow> ([], Inl e)
           | Inr (it, _) \<Rightarrow>
               (case decode_rights en (drop (ri_record_offset it) bs) of
                  (fds, r) \<Rightarrow> (fds_of en (ri_rights it) @ fds, r)))"
  by pat_completeness auto
termination
proof (relation "measure (\<lambda>(en, bs). length bs)")
  fix en bs r it x
  assume "rights_record en (rights_start bs) = Inr r" and "(it, x) = r"
  then have "rights_record en (rights_start bs) = Inr (it, x)" by simp
  from rights_record_progress [OF this]
  show "((en, drop (ri_record_offset it) bs), en, bs) \<in> measure (\<lambda>(en, bs). length bs)"
    by (auto simp: rights_start_def)
qed simp

declare decode_rights.simps [simp del]


definition rights_rest :: "endian \<Rightarrow> rights_iterator \<Rightarrow> fd_t list \<times> unit result" where
  "rights_rest en it =
     (case decode_rights en (drop (ri_record_offset it) (ri_control it)) of
        (fds, r) \<Rightarrow> (fds_of en (drop (ri_rights_offset it) (ri_rights it)) @ fds, r))"

lemma rights_record_shift:
  "rights_record en it =
     (case rights_record en (rights_start (drop (ri_record_offset it) (ri_control it))) of
        Inl e \<Rightarrow> Inl e
      | Inr (it1, found) \<Rightarrow>
          Inr (if found
               then it\<lparr>ri_record_offset := ri_record_offset it + ri_record_offset it1,
                       ri_rights := ri_rights it1, ri_rights_offset := 0\<rparr>
               else it\<lparr>ri_record_offset := ri_record_offset it + ri_record_offset it1\<rparr>, found))"
  by (simp add: rights_record_def rights_start_def Let_def)

lemma rights_record_not_found:
  "rights_record en (rights_start bs) = Inr (it, False) \<Longrightarrow> ri_rights it = []"
  by (auto simp: rights_record_def rights_start_def Let_def split: if_splits)

lemma rights_rest_step:
  assumes "length (ri_rights it) \<le> ri_rights_offset it"
    and "ri_record_offset it < length (ri_control it)"
    and "cmsghdr_size \<le> length (ri_control it) - ri_record_offset it"
  shows "rights_rest en it =
    (case rights_record en it of Inl e \<Rightarrow> ([], Inl e) | Inr (it1, _) \<Rightarrow> rights_rest en it1)"
proof -
  let ?bs = "drop (ri_record_offset it) (ri_control it)"
  have bs: "?bs \<noteq> []" "\<not> length ?bs < cmsghdr_size" using assms by auto
  have old: "drop (ri_rights_offset it) (ri_rights it) = []" using assms(1) by simp
  show ?thesis
  proof (cases "rights_record en (rights_start ?bs)")
    case (Inl e)
    with bs old show ?thesis
      by (simp add: rights_rest_def rights_record_shift [of en it] decode_rights.simps [of en ?bs]
          fds_of.simps)
  next
    case (Inr r)
    obtain it1 found where r: "r = (it1, found)" by (cases r) auto
    show ?thesis
    proof (cases found)
      case True
      with Inr r bs old show ?thesis
        by (simp add: rights_rest_def rights_record_shift [of en it] decode_rights.simps [of en ?bs]
            fds_of.simps [of en "[]"] add.commute split: prod.splits)
    next
      case False
      with Inr r bs old rights_record_not_found [of en ?bs it1] show ?thesis
        by (simp add: rights_rest_def rights_record_shift [of en it] decode_rights.simps [of en ?bs]
            fds_of.simps [of en "[]"] add.commute split: prod.splits)
    qed
  qed
qed

lemma rights_next_spec:
  assumes "ri_record_offset it \<le> length (ri_control it)"
  shows "rights_rest en it =
    (case rights_next en it of
       (Inl e, _) \<Rightarrow> ([], Inl e)
     | (Inr None, _) \<Rightarrow> ([], Inr ())
     | (Inr (Some fd), it') \<Rightarrow> (fd # fst (rights_rest en it'), snd (rights_rest en it')))"
  using assms
proof (induction en it rule: rights_next.induct)
  case (1 en it)
  let ?bs = "drop (ri_record_offset it) (ri_control it)"
  let ?more = "ri_rights_offset it < length (ri_rights it)"
  consider "?more" | "\<not> ?more" "?bs = []"
    | "\<not> ?more" "?bs \<noteq> []" "length ?bs < cmsghdr_size"
    | "\<not> ?more" "?bs \<noteq> []" "\<not> length ?bs < cmsghdr_size" by blast
  then show ?case
  proof cases
    case 1
    then have "drop (ri_rights_offset it) (ri_rights it) \<noteq> []" by simp
    with 1 show ?thesis
      by (simp add: rights_next.simps [of en it] rights_rest_def slice_def drop_take add.commute
          fds_of.simps [of en "drop (ri_rights_offset it) (ri_rights it)"] split: prod.splits)
  next
    case 2
    with "1.prems" show ?thesis
      by (simp add: rights_next.simps [of en it] rights_rest_def fds_of.simps decode_rights.simps)
  next
    case 3
    with "1.prems" show ?thesis
      by (simp add: rights_next.simps [of en it] rights_rest_def fds_of.simps decode_rights.simps)
  next
    case 4
    then have n: "ri_record_offset it \<noteq> length (ri_control it)"
      "\<not> length (ri_control it) - ri_record_offset it < cmsghdr_size" by auto
    from n "1.prems" have step: "rights_rest en it =
        (case rights_record en it of Inl e \<Rightarrow> ([], Inl e) | Inr (it1, _) \<Rightarrow> rights_rest en it1)"
      using 4(1) by (intro rights_rest_step) auto
    show ?thesis
    proof (cases "rights_record en it")
      case (Inl e)
      with n 4(1) step show ?thesis by (simp add: rights_next.simps [of en it])
    next
      case (Inr r)
      obtain it1 found where r: "r = (it1, found)" by (cases r) auto
      with Inr have rr: "rights_record en it = Inr (it1, found)" by simp
      have "ri_record_offset it1 \<le> length (ri_control it1)" using rights_record_progress [OF rr] by simp
      from "1.IH" [OF 4(1) n rr refl this] rr n 4(1) step show ?thesis
        by (simp add: rights_next.simps [of en it])
    qed
  qed
qed

lemma rights_all_rest:
  "ri_record_offset it \<le> length (ri_control it) \<Longrightarrow> rights_all en it = rights_rest en it"
proof (induction en it rule: rights_all.induct)
  case (1 en it)
  obtain r it1 where n: "rights_next en it = (r, it1)" by fastforce
  note spec = rights_next_spec [OF "1.prems", of en, unfolded n]
  show ?case
  proof (cases r)
    case (Inl e)
    with n spec show ?thesis by (simp add: rights_all.simps [of en it])
  next
    case (Inr x)
    show ?thesis
    proof (cases x)
      case None
      with n spec Inr show ?thesis by (simp add: rights_all.simps [of en it])
    next
      case (Some fd)
      with n Inr have n': "rights_next en it = (Inr (Some fd), it1)" by simp
      have "ri_record_offset it1 \<le> length (ri_control it1)"
        using rights_next_progress [OF n'] "1.prems" by auto
      with "1.IH" [OF n [symmetric] Inr Some] spec Inr Some n' show ?thesis
        by (simp add: rights_all.simps [of en it] split: prod.splits)
    qed
  qed
qed

lemma rights_all_decode: "rights_all en (rights_start control) = decode_rights en control"
  by (simp add: rights_all_rest rights_start_def rights_rest_def fds_of.simps split: prod.splits)


section \<open>Round trip and ownership\<close>

lemma length_writeU64 [simp]: "length (writeU64 en v) = 8"
  by (cases en) (simp_all add: writeU64_def write_le_def)

lemma length_fd_bytes [simp]: "length (fd_bytes en fd) = fd_size"
  by (simp add: fd_bytes_def fd_size_def)

lemma u64_halves: "ucast (ucast v :: u32) OR push_bit 32 (ucast (ucast (drop_bit 32 v) :: u32)) = (v :: u64)"
  by (rule bit_word_eqI) (auto simp: bit_simps not_less)

lemma readU64_writeU64 [simp]: "readU64 en (writeU64 en v) = v"
proof -
  have len: "length (write_le w) = 4" for w by (simp add: write_le_def)
  show ?thesis
    by (cases en) (simp_all add: readU64_def writeU64_def len read_write_le u64_halves del: rev_append)
qed

lemma bytes_fd_bytes: "is_fd fd \<Longrightarrow> bytes_fd en (fd_bytes en fd) = fd"
  unfolding bytes_fd_def fd_bytes_def is_fd_def readU32_writeU32 sint_sbintrunc'
  by (rule signed_take_bit_int_eq_self; simp)

lemma fds_of_concat: "list_all is_fd fds \<Longrightarrow> fds_of en (concat (map (fd_bytes en) fds)) = fds"
proof (induction fds)
  case Nil
  then show ?case by (simp add: fds_of.simps)
next
  case (Cons fd fds)
  have "fd_bytes en fd \<noteq> []" using length_fd_bytes [of en fd] by (metis fd_size_def list.size(3) zero_neq_numeral)
  with Cons show ?case by (subst fds_of.simps) (simp add: bytes_fd_bytes)
qed

lemma length_fds_concat [simp]: "length (concat (map (fd_bytes en) fds)) = length fds * fd_size"
  by (induction fds) (simp_all add: add.commute)

lemma encode_rights_ok:
  assumes "encode_rights en n fds = Inr bs"
  shows "fds \<noteq> []" and "length bs = cmsg_align (16 + length fds * fd_size)"
    and "16 + length fds * fd_size < usize_limit" and "length bs \<le> n"
proof -
  from assms show ne: "fds \<noteq> []" by (auto simp: encode_rights_def)
  from assms show lim: "16 + length fds * fd_size < usize_limit"
    by (auto simp: encode_rights_def rights_control_size_def checked_mul_def checked_add_def
        split: if_splits)
  then have "length fds * fd_size < usize_limit" by simp
  with assms ne lim have bs: "cmsg_align (16 + length fds * fd_size) \<le> n"
    "bs = writeU64 en (of_nat (16 + length fds * fd_size)) @ writeU32 en sol_socket @ writeU32 en scm_rights
      @ concat (map (fd_bytes en) fds)
      @ replicate (cmsg_align (16 + length fds * fd_size) - (16 + length fds * fd_size)) 0"
    by (auto simp: encode_rights_def rights_control_size_def Let_def split: if_splits)
  from bs(2) show "length bs = cmsg_align (16 + length fds * fd_size)"
    using cmsg_align_ge [of "16 + length fds * fd_size"] by simp
  with bs(1) show "length bs \<le> n" by simp
qed

text \<open>Encoded descriptors at the front of a control buffer are read back first, in order.\<close>

lemma decode_encode_rights:
  assumes enc: "encode_rights en n fds = Inr bs" and fds: "list_all is_fd fds"
  shows "decode_rights en (bs @ rest) =
    (fds @ fst (decode_rights en rest), snd (decode_rights en rest))"
proof -
  let ?used = "16 + length fds * fd_size"
  note ok = encode_rights_ok [OF enc]
  from enc ok(1,3) have bs: "bs = writeU64 en (of_nat ?used) @ writeU32 en sol_socket
      @ writeU32 en scm_rights @ concat (map (fd_bytes en) fds)
      @ replicate (cmsg_align ?used - ?used) 0"
    by (auto simp: encode_rights_def rights_control_size_def Let_def split: if_splits)
  have hlen: "unat (of_nat ?used :: u64) = ?used"
    using ok(3) unfolding usize_limit_def by (subst unat_of_nat) simp
  have al: "?used \<le> cmsg_align ?used" by (rule cmsg_align_ge)
  have len: "length bs = cmsg_align ?used" by (rule ok(2))
  have data: "slice (bs @ rest) 16 ?used = concat (map (fd_bytes en) fds)"
    unfolding bs slice_def by (simp add: take_Cons' drop_Cons')
  have hdr: "take 8 (bs @ rest) = writeU64 en (of_nat ?used)"
    "slice (bs @ rest) 8 12 = writeU32 en sol_socket" "slice (bs @ rest) 12 16 = writeU32 en scm_rights"
    unfolding bs slice_def by simp_all
  have ne: "concat (map (fd_bytes en) fds) \<noteq> []"
    using ok(1) length_fds_concat [of en fds] by (metis fd_size_def length_0_conv mult_is_0 zero_neq_numeral)
  define B where "B = bs @ rest"
  have B: "length B = cmsg_align ?used + length rest" using len by (simp add: B_def)
  note hdr = hdr [folded B_def] and data = data [folded B_def]
  have "rights_record en (rights_start B) =
      Inr (\<lparr>ri_control = B, ri_record_offset = cmsg_align ?used,
        ri_rights = concat (map (fd_bytes en) fds), ri_rights_offset = 0\<rparr>, True)"
    using al ne
    by (simp add: rights_record_def rights_start_def Let_def hdr hlen data B
        del: of_nat_add of_nat_mult concat_eq_Nil_conv)
  then have rec: "rights_record en (rights_start (bs @ rest)) =
      Inr (\<lparr>ri_control = bs @ rest, ri_record_offset = cmsg_align ?used,
        ri_rights = concat (map (fd_bytes en) fds), ri_rights_offset = 0\<rparr>, True)"
    by (simp add: B_def)
  have "bs \<noteq> []" "\<not> length (bs @ rest) < cmsghdr_size"
    using al len by (auto simp: cmsghdr_size_def)
  with rec len show ?thesis
    by (subst decode_rights.simps) (simp add: fds_of_concat [OF fds] split: prod.splits)
qed


lemma fds_available_live:
  "fds_inv p \<Longrightarrow> fds_acquire alloc p fd = (Inr l, p') \<Longrightarrow> fds_available p - 1 \<le> fds_available p'"
  by (rule fds_acquire_ok, assumption+) (auto simp: fds_available_def fds_capacity_def fds_extends_def)

lemma fdq_append_available:
  assumes rep: "fdq_rep q p ls" and app: "fdq_append alloc q p fd = (Inr (), q', p')"
    and av: "Suc n \<le> fds_available p"
  shows "n \<le> fds_available p'"
proof -
  from rep have inv: "fds_inv p" by (simp add: fdq_rep_def)
  have e: "fds_ensure_available alloc p 1 = (Inr (), p)" using av fds_ensure_free [OF inv] by simp
  with app obtain l p2 where a: "fds_acquire alloc p fd = (Inr l, p2)"
    and k: "p' = p2 \<or> (\<exists>tail. fds_link p2 tail l = (Inr (), p'))"
    by (auto simp: fdq_append_def fdq_ensure_capacity_def split: if_splits prod.splits sum.splits option.splits)
  have "fds_available p' = fds_available p2"
    using k by (auto simp: fds_link_def fds_available_def fds_capacity_def Let_def split: if_splits)
  with fds_available_live [OF inv a] av show ?thesis by simp
qed

lemma fdq_append_all_ok:
  "fdq_rep q p ls \<Longrightarrow> length ls + length fds \<le> fq_budget q \<Longrightarrow> length fds \<le> fds_available p \<Longrightarrow>
     \<exists>q' p' ms. fdq_append_all alloc q p fds = (Inr (), q', p') \<and> map fl_fd ms = fds \<and>
       fdq_rep q' p' (ls @ ms) \<and> fq_budget q' = fq_budget q \<and> fds_live p' = fds_live p \<union> set ms \<and>
       set ms \<inter> fds_live p = {}"
proof (induction fds arbitrary: q p ls)
  case Nil
  then show ?case by auto
next
  case (Cons fd fds)
  then obtain q1 p1 where 1: "fdq_append alloc q p fd = (Inr (), q1, p1)"
    using fdq_append_total [OF Cons.prems(1), of alloc fd] by auto
  from fdq_append_ok [OF Cons.prems(1) 1] obtain l where l: "fl_fd l = fd" "fdq_rep q1 p1 (ls @ [l])"
    "fq_budget q1 = fq_budget q" "l \<notin> fds_live p" "fds_live p1 = insert l (fds_live p)" by blast
  have "length fds \<le> fds_available p1"
    using fdq_append_available [OF Cons.prems(1) 1] Cons.prems(3) by simp
  with Cons.IH [OF l(2)] Cons.prems(2) l(3) obtain q' p' ms where
    2: "fdq_append_all alloc q1 p1 fds = (Inr (), q', p')" "map fl_fd ms = fds"
    "fdq_rep q' p' ((ls @ [l]) @ ms)" "fq_budget q' = fq_budget q1" "fds_live p' = fds_live p1 \<union> set ms"
    "set ms \<inter> fds_live p1 = {}" by auto
  have "fdq_append_all alloc q p (fd # fds) = (Inr (), q', p')" using 1 2(1) by simp
  moreover have "map fl_fd (l # ms) = fd # fds" "fdq_rep q' p' (ls @ l # ms)"
    "fds_live p' = fds_live p \<union> set (l # ms)" "set (l # ms) \<inter> fds_live p = {}"
    using l 2 by auto
  ultimately show ?case using 2(4) l(3) by (intro exI [of _ q'] exI [of _ p'] exI [of _ "l # ms"]) simp
qed

lemma rights_record_error: "rights_record en it = Inl e \<Longrightarrow> e = ETx MalformedControl"
  by (auto simp: rights_record_def Let_def split: if_splits)

lemma decode_rights_error: "decode_rights en bs = (fds, Inl e) \<Longrightarrow> e = ETx MalformedControl"
proof (induction en bs arbitrary: fds rule: decode_rights.induct)
  case (1 en bs)
  show ?case
  proof (cases "rights_record en (rights_start bs)")
    case (Inl e1)
    with "1.prems" rights_record_error [OF Inl] show ?thesis
      by (auto simp: decode_rights.simps [of en bs] split: if_splits)
  next
    case (Inr r)
    obtain it found where r: "r = (it, found)" by (cases r) auto
    with "1.prems" Inr "1.IH" [OF _ _ Inr r [symmetric]] show ?thesis
      by (auto simp: decode_rights.simps [of en bs] split: if_splits prod.splits)
  qed
qed

lemma fds_grow_until_error: "fds_grow_until alloc p n = (Inl e, p') \<Longrightarrow> \<exists>pe. e = EPool pe"
proof (induction alloc p n rule: fds_grow_until.induct)
  case (1 alloc p n)
  obtain r p1 where g: "fds_grow alloc p = (r, p1)" by fastforce
  show ?case
  proof (cases r)
    case (Inl e1)
    with g have "\<exists>pe. e1 = EPool pe" by (auto simp: fds_grow_def Let_def split: if_splits)
    with "1.prems" g Inl show ?thesis by (auto simp: fds_grow_until.simps [of alloc p] split: if_splits)
  next
    case (Inr u)
    with "1.prems" g "1.IH" [OF _ g [symmetric] Inr] show ?thesis
      by (auto simp: fds_grow_until.simps [of alloc p] split: if_splits)
  qed
qed

lemma fdq_ensure_error: "fdq_ensure_capacity alloc q p n = (Inl e, p') \<Longrightarrow> e \<noteq> EUnreachable"
  using fds_grow_until_error
  by (fastforce simp: fdq_ensure_capacity_def fds_ensure_available_def split: if_splits)

lemma enqueue_rights_ok:
  assumes rep: "fdq_rep q p ls" and enq: "enqueue_rights alloc en control q p = (r, closed, q', p')"
  shows "(case r of
      Inl e \<Rightarrow> q' = q \<and> fdq_rep q p' ls \<and> fds_live p' = fds_live p \<and>
        closed = fst (decode_rights en control) \<and> e \<noteq> EUnreachable
    | Inr n \<Rightarrow> closed = [] \<and>
        (\<exists>ms. decode_rights en control = (map fl_fd ms, Inr ()) \<and> n = length ms \<and>
           fdq_rep q' p' (ls @ ms) \<and> fds_live p' = fds_live p \<union> set ms \<and> set ms \<inter> fds_live p = {}))"
proof -
  obtain fds d where dec: "decode_rights en control = (fds, d)" by fastforce
  have all: "rights_all en (rights_start control) = (fds, d)" by (simp add: rights_all_decode dec)
  have cl: "snd (close_rights en control) = fds" by (simp add: close_rights_def all)
  show ?thesis
  proof (cases d)
    case (Inl e)
    then have "e \<noteq> EUnreachable" using decode_rights_error dec by fastforce
    with Inl enq all cl dec rep show ?thesis by (auto simp: enqueue_rights_def Let_def)
  next
    case (Inr u)
    show ?thesis
    proof (cases "fds = []")
      case True
      with Inr enq all dec rep show ?thesis by (auto simp: enqueue_rights_def Let_def)
    next
      case False
      obtain r1 p1 where e: "fdq_ensure_capacity alloc q p (length fds) = (r1, p1)" by fastforce
      note ens = fdq_ensure_ok [OF rep e]
      show ?thesis
      proof (cases r1)
        case (Inl e1)
        with fdq_ensure_error e have "e1 \<noteq> EUnreachable" by blast
        with False Inr Inl enq all cl dec e ens show ?thesis
          by (auto simp: enqueue_rights_def Let_def)
      next
        case r1: (Inr u)
        with ens have rep1: "fdq_rep q p1 ls" "length ls + length fds \<le> fq_budget q"
          "length fds \<le> fds_available p1" by auto
        from fdq_append_all_ok [OF rep1, of alloc] obtain q2 p2 ms where
          2: "fdq_append_all alloc q p1 fds = (Inr (), q2, p2)" "map fl_fd ms = fds"
          "fdq_rep q2 p2 (ls @ ms)" "fds_live p2 = fds_live p1 \<union> set ms" "set ms \<inter> fds_live p1 = {}"
          by blast
        from False Inr r1 enq all e 2(1) have res: "r = Inr (length fds)" "closed = []" "q' = q2" "p' = p2"
          by (auto simp: enqueue_rights_def Let_def)
        have "length fds = length ms" using 2(2) by auto
        with res 2 ens dec Inr show ?thesis by auto
      qed
    qed
  qed
qed

lemma enqueue_rights_total:
  assumes rep: "fdq_rep q p ls" and "generous alloc" and dec: "decode_rights en control = (fds, Inr ())"
    and "length ls + length fds \<le> fq_budget q" and "fd_active p + length fds \<le> free_sentinel"
  shows "\<exists>q' p'. enqueue_rights alloc en control q p = (Inr (length fds), [], q', p')"
proof -
  have all: "rights_all en (rights_start control) = (fds, Inr ())" by (simp add: rights_all_decode dec)
  from rep have inv: "fds_inv p" by (simp add: fdq_rep_def)
  obtain p1 where "fds_ensure_available alloc p (length fds) = (Inr (), p1)"
    using fds_ensure_total [OF inv assms(2,5)] by blast
  with assms(4) rep have e: "fdq_ensure_capacity alloc q p (length fds) = (Inr (), p1)"
    by (simp add: fdq_ensure_capacity_def fdq_available_def fdq_rep_def)
  from fdq_ensure_ok [OF rep e] have rep1: "fdq_rep q p1 ls" "length fds \<le> fds_available p1" by auto
  from fdq_append_all_ok [OF rep1(1) assms(4) rep1(2), of alloc] obtain q2 p2 where
    "fdq_append_all alloc q p1 fds = (Inr (), q2, p2)" by blast
  with all e show ?thesis by (simp add: enqueue_rights_def Let_def)
qed

section \<open>Properties\<close>

text \<open>C3: received descriptors have exactly one owner. Enqueueing the control data of a message
  either appends all of its descriptors to the queue in delivery order, each under a new lease and
  none of them closed, or leaves the queue and every lease as it was and closes each descriptor of
  the valid prefix once; no branch the source declares unreachable is taken.\<close>

theorem received_descriptors_have_one_owner:
  assumes "fdq_rep q p ls" and "enqueue_rights alloc en control q p = (r, closed, q', p')"
  shows "case r of
      Inl e \<Rightarrow> q' = q \<and> fdq_rep q p' ls \<and> fds_live p' = fds_live p \<and>
        closed = fst (decode_rights en control) \<and> e \<noteq> EUnreachable
    | Inr n \<Rightarrow> closed = [] \<and>
        (\<exists>ms. decode_rights en control = (map fl_fd ms, Inr ()) \<and> n = length ms \<and>
           fdq_rep q' p' (ls @ ms) \<and> fds_live p' = fds_live p \<union> set ms \<and> set ms \<inter> fds_live p = {})"
  using enqueue_rights_ok [OF assms] .

theorem received_descriptors_have_one_owner_witness:
  "\<exists>e p'. enqueue_rights (\<lambda>_. True) Little [1, 2, 3] (fdq_init 4) empty_fds =
     (Inl e, [], fdq_init 4, p')"
proof -
  have dec: "decode_rights Little [1, 2, 3] = ([], Inl (ETx MalformedControl))"
    by (subst decode_rights.simps) (simp add: cmsghdr_size_def)
  obtain r closed q' p' where enq: "enqueue_rights (\<lambda>_. True) Little [1, 2, 3] (fdq_init 4) empty_fds =
      (r, closed, q', p')" by (cases "enqueue_rights (\<lambda>_. True) Little [1, 2, 3] (fdq_init 4) empty_fds") auto
  note own = received_descriptors_have_one_owner [OF fdq_init_rep [OF empty_fds_inv] enq]
  show ?thesis
  proof (cases r)
    case (Inl e)
    with own enq dec show ?thesis by auto
  next
    case (Inr n)
    with own dec show ?thesis by simp
  qed
qed

text \<open>C4: descriptors arrive as they were sent. The control record that \<open>encodeRights\<close> builds for a
  list of descriptors, followed by any other well-formed records, is read back by \<open>enqueueRights\<close> as
  that list followed by the descriptors of the rest, in order: with room in the budget and the pool
  the call succeeds, closes nothing, and copying the queue out shows the descriptors.\<close>

theorem descriptor_passing_roundtrip:
  assumes "encode_rights en n fds = Inr bs" and "list_all is_fd fds"
    and "decode_rights en rest = (fds2, Inr ())" and "fdq_rep q p []" and "generous alloc"
    and "length (fds @ fds2) \<le> fq_budget q" and "fd_active p + length (fds @ fds2) \<le> free_sentinel"
  shows "\<exists>q' p'. enqueue_rights alloc en (bs @ rest) q p = (Inr (length (fds @ fds2)), [], q', p') \<and>
    fdq_copy_to q' p' (length (fds @ fds2)) = Inr (fds @ fds2)"
proof -
  have dec: "decode_rights en (bs @ rest) = (fds @ fds2, Inr ())"
    using decode_encode_rights [OF assms(1,2), of rest] assms(3) by simp
  obtain q' p' where enq: "enqueue_rights alloc en (bs @ rest) q p = (Inr (length (fds @ fds2)), [], q', p')"
    using enqueue_rights_total [OF assms(4,5) dec] assms(6,7) by auto
  obtain ms where "map fl_fd ms = fds @ fds2" "length (fds @ fds2) = length ms" "fdq_rep q' p' ms"
    using enqueue_rights_ok [OF assms(4) enq] dec by auto
  with fdq_copy_to_ok [of q' p' ms "length (fds @ fds2)"] enq show ?thesis by simp
qed

theorem descriptor_passing_roundtrip_witness:
  "\<exists>bs q' p'. encode_rights Little 32 [5, 6] = Inr bs \<and>
     enqueue_rights (\<lambda>_. True) Little bs (fdq_init 4) empty_fds = (Inr 2, [], q', p') \<and>
     fdq_copy_to q' p' 2 = Inr [5, 6]"
proof -
  have "rights_control_size (Suc (Suc 0)) = Inr 24"
    by (simp add: rights_control_size_def checked_mul_def checked_add_def usize_limit_def cmsg_align_def
        fd_size_def)
  then obtain bs where enc: "encode_rights Little 32 [5, 6] = Inr bs"
    by (simp add: encode_rights_def Let_def)
  have dec: "decode_rights Little [] = ([], Inr ())" by (simp add: decode_rights.simps)
  have fds: "list_all is_fd [5, 6]" by (simp add: is_fd_def)
  have "generous (\<lambda>_. True)" by (simp add: generous_def)
  from descriptor_passing_roundtrip [OF enc fds dec fdq_init_rep [OF empty_fds_inv, of 4] this] enc
  show ?thesis
    by (simp add: fdq_init_def empty_fds_def free_sentinel_def max_u32_def flip: numeral_2_eq_2)
qed

end
