(* ===== verification/Libwayland.thy ===== *)
theory Libwayland
  imports Prelude
begin

text \<open>
  The interface of the libwayland server library as the C programs of \<open>src/bench\<close> use it. The
  library is not part of the repository, so nothing of it is defined here beyond its vocabulary:
  what it answers is an argument of the handlers (a created resource or NULL, the version of a
  resource, the fixed-point conversions and enumerators of its headers), what a handler asks of it
  is recorded as a list of calls.

  The theory also holds what the programs' proofs share: which call sequences touch only resources
  that exist, sessions of requests against a set of handlers, and the shape of the main function
  every interop server has.
\<close>

section \<open>Vocabulary\<close>

text \<open>A resource pointer; \<open>resource option\<close> is a pointer that may be NULL.\<close>

type_synonym resource = nat

type_synonym resources = "resource \<Rightarrow> string option"

text \<open>
  Inline functions and enumerators of the protocol headers. A \<open>double\<close> argument is the pair of a
  numerator and the exponent of its power-of-two denominator.
\<close>

record wl_lib =
  fixed_from_int :: "int \<Rightarrow> int"
  fixed_from_double :: "int \<Rightarrow> nat \<Rightarrow> int"
  version_of :: "resource \<Rightarrow> int"
  cap_pointer :: u32
  cap_keyboard :: u32
  cap_touch :: u32
  transform_90 :: int
  dnd_copy :: u32
  dnd_move :: u32
  shm_argb8888 :: u32
  key_pressed :: u32
  button_pressed :: u32
  axis_vertical :: u32
  axis_wheel :: u32

text \<open>What a handler asks of the library; \<open>'ev\<close> are the events it can send.\<close>

datatype 'ev wl_call =
    Create resource string int u32
  | Set_Implementation resource
  | Destroy resource
  | No_Memory
  | Implementation_Error string
  | Send 'ev
  | Close fd_t
  | Terminate

text \<open>
  The beginning of most constructors of the C programs: \<open>wl_resource_create\<close> returned \<open>new\<close>; post
  no-memory on NULL, otherwise install the implementation and go on with \<open>rest\<close>.
\<close>

definition create_resource ::
    "resource option \<Rightarrow> string \<Rightarrow> int \<Rightarrow> u32 \<Rightarrow> (resource \<Rightarrow> 'ev wl_call list) \<Rightarrow> 'ev wl_call list" where
  "create_resource new interface version rid rest =
     (case new of
        None \<Rightarrow> [No_Memory]
      | Some r \<Rightarrow> [Create r interface version rid, Set_Implementation r] @ rest r)"

text \<open>\<open>version < limit ? (int) version : limit\<close>.\<close>

definition min_version :: "u32 \<Rightarrow> nat \<Rightarrow> int" where
  "min_version version limit = (if unat version < limit then int (unat version) else int limit)"

text \<open>The events of \<open>wl_seat\<close>, which several servers send.\<close>

datatype seat_event = Seat_Capabilities resource u32 | Seat_Name resource string

fun seat_event_uses :: "seat_event \<Rightarrow> resource option list" where
  "seat_event_uses (Seat_Capabilities r caps) = [Some r]"
| "seat_event_uses (Seat_Name r name) = [Some r]"

text \<open>\<open>FD_CLOEXEC\<close> of \<open>fcntl.h\<close>.\<close>

definition FD_CLOEXEC :: int where
  "FD_CLOEXEC = 1"

section \<open>Memory safety of a call sequence\<close>

text \<open>
  \<open>exec_call\<close> tracks the resources that exist, each with its interface. It fails on a call through a pointer that is NULL or
  dangling: destroying or configuring a resource that does not exist, or sending an event whose
  target or object argument (\<open>uses\<close>) does not exist.
\<close>

fun exec_call :: "('ev \<Rightarrow> resource option list) \<Rightarrow> 'ev wl_call \<Rightarrow> resources \<Rightarrow> resources option" where
  "exec_call uses (Create r interface version rid) live = Some (live(r \<mapsto> interface))"
| "exec_call uses (Set_Implementation r) live = (if live r \<noteq> None then Some live else None)"
| "exec_call uses (Destroy r) live = (if live r \<noteq> None then Some (live(r := None)) else None)"
| "exec_call uses (Send ev) live =
     (if list_all (\<lambda>x. case x of None \<Rightarrow> False | Some r \<Rightarrow> live r \<noteq> None) (uses ev) then Some live else None)"
| "exec_call uses _ live = Some live"

fun exec_calls :: "('ev \<Rightarrow> resource option list) \<Rightarrow> 'ev wl_call list \<Rightarrow> resources \<Rightarrow> resources option" where
  "exec_calls uses [] live = Some live"
| "exec_calls uses (c # cs) live =
     (case exec_call uses c live of None \<Rightarrow> None | Some live' \<Rightarrow> exec_calls uses cs live')"

lemma exec_calls_append:
  "exec_calls uses (xs @ ys) live =
     (case exec_calls uses xs live of None \<Rightarrow> None | Some live' \<Rightarrow> exec_calls uses ys live')"
  by (induction xs arbitrary: live) (simp_all split: option.split)

section \<open>Sessions\<close>

text \<open>
  A client sends requests; each comes with the pointer \<open>wl_resource_create\<close> would return while it
  is handled. The library delivers a request only when the resources it names exist and have the
  interface the protocol asks for, and never returns a pointer that is in use; inputs that break this are skipped. \<open>None\<close> is a session in which a handler
  used a NULL or dangling pointer.
\<close>

type_synonym 'req input = "'req \<times> resource option"

record ('s, 'req, 'ev) session =
  ss_state :: 's
  ss_live :: resources
  ss_handled :: "'req input list"
  ss_calls :: "'ev wl_call list"

text \<open>\<open>wl_display_run\<close> returns after \<open>wl_display_terminate\<close>: nothing is delivered any more.\<close>

fun is_terminate :: "'ev wl_call \<Rightarrow> bool" where
  "is_terminate Terminate = True"
| "is_terminate _ = False"

definition terminated :: "('s, 'req, 'ev) session \<Rightarrow> bool" where
  "terminated ss \<longleftrightarrow> list_ex is_terminate (ss_calls ss)"

definition deliverable :: "('req \<Rightarrow> (resource \<times> string) list) \<Rightarrow> 'req input \<Rightarrow> resources \<Rightarrow> bool" where
  "deliverable args i live \<longleftrightarrow>
     list_all (\<lambda>(r, interface). live r = Some interface) (args (fst i)) \<and>
     (case snd i of None \<Rightarrow> True | Some r \<Rightarrow> live r = None)"

definition deliver ::
    "('req \<Rightarrow> resource option \<Rightarrow> 's \<Rightarrow> 's \<times> 'ev wl_call list) \<Rightarrow> ('req \<Rightarrow> (resource \<times> string) list) \<Rightarrow>
     ('ev \<Rightarrow> resource option list) \<Rightarrow> 'req input \<Rightarrow> ('s, 'req, 'ev) session \<Rightarrow>
     ('s, 'req, 'ev) session option" where
  "deliver handle args uses i ss =
     (if deliverable args i (ss_live ss) \<and> \<not> terminated ss then
        (case handle (fst i) (snd i) (ss_state ss) of
           (s', calls) \<Rightarrow>
             (case exec_calls uses calls (ss_live ss) of
                None \<Rightarrow> None
              | Some live' \<Rightarrow>
                  Some \<lparr>ss_state = s', ss_live = live', ss_handled = ss_handled ss @ [i],
                        ss_calls = ss_calls ss @ calls\<rparr>))
      else Some ss)"

fun serve ::
    "('req \<Rightarrow> resource option \<Rightarrow> 's \<Rightarrow> 's \<times> 'ev wl_call list) \<Rightarrow> ('req \<Rightarrow> (resource \<times> string) list) \<Rightarrow>
     ('ev \<Rightarrow> resource option list) \<Rightarrow> 'req input list \<Rightarrow> ('s, 'req, 'ev) session \<Rightarrow>
     ('s, 'req, 'ev) session option" where
  "serve handle args uses [] ss = Some ss"
| "serve handle args uses (i # ins) ss =
     (case deliver handle args uses i ss of None \<Rightarrow> None | Some ss' \<Rightarrow> serve handle args uses ins ss')"

lemma serve_append:
  "serve handle args uses (xs @ ys) ss =
     (case serve handle args uses xs ss of None \<Rightarrow> None | Some ss' \<Rightarrow> serve handle args uses ys ss')"
  by (induction xs arbitrary: ss) (simp_all split: option.split)

definition start_session :: "'s \<Rightarrow> ('s, 'req, 'ev) session" where
  "start_session s = \<lparr>ss_state = s, ss_live = Map.empty, ss_handled = [], ss_calls = []\<rparr>"

text \<open>An invariant between the handled requests, the state, the resources that exist and the calls made so
  far, kept by every request that is delivered.\<close>

lemma serve_full_invariant:
  assumes "serve handle args uses ins ss = Some ss'"
    and "I (ss_handled ss) (ss_state ss) (ss_live ss) (ss_calls ss)"
    and "\<And>hs s live cs req new live'. I hs s live cs \<Longrightarrow> \<not> list_ex is_terminate cs \<Longrightarrow>
      list_all (\<lambda>(r, interface). live r = Some interface) (args req) \<Longrightarrow>
      (\<forall>r. new = Some r \<longrightarrow> live r = None) \<Longrightarrow>
      exec_calls uses (snd (handle req new s)) live = Some live' \<Longrightarrow>
      I (hs @ [(req, new)]) (fst (handle req new s)) live' (cs @ snd (handle req new s))"
  shows "I (ss_handled ss') (ss_state ss') (ss_live ss') (ss_calls ss')"
  using assms(1,2)
proof (induction ins arbitrary: ss)
  case Nil
  then show ?case by simp
next
  case (Cons i ins)
  from Cons.prems(1) obtain ss1 where d: "deliver handle args uses i ss = Some ss1"
    and rest: "serve handle args uses ins ss1 = Some ss'"
    by (auto split: option.splits)
  have "I (ss_handled ss1) (ss_state ss1) (ss_live ss1) (ss_calls ss1)"
  proof (cases "deliverable args i (ss_live ss) \<and> \<not> terminated ss")
    case True
    with d have "ss_handled ss1 = ss_handled ss @ [(fst i, snd i)]"
      "ss_state ss1 = fst (handle (fst i) (snd i) (ss_state ss))"
      "ss_calls ss1 = ss_calls ss @ snd (handle (fst i) (snd i) (ss_state ss))"
      "exec_calls uses (snd (handle (fst i) (snd i) (ss_state ss))) (ss_live ss) = Some (ss_live ss1)"
      by (auto simp: deliver_def split: prod.splits option.splits)
    with True assms(3) [OF Cons.prems(2), of "fst i" "snd i" "ss_live ss1"] show ?thesis
      by (auto simp: terminated_def deliverable_def split: option.splits)
  next
    case False
    with d Cons.prems(2) show ?thesis by (auto simp: deliver_def)
  qed
  from Cons.IH [OF rest this] show ?case .
qed

text \<open>One between the requests and the state only.\<close>

lemma serve_invariant:
  assumes "serve handle args uses ins ss = Some ss'"
    and "I (ss_handled ss) (ss_state ss)"
    and "\<And>hs s req new. I hs s \<Longrightarrow> I (hs @ [(req, new)]) (fst (handle req new s))"
  shows "I (ss_handled ss') (ss_state ss')"
  by (rule serve_full_invariant [OF assms(1), where I = "\<lambda>hs s live cs. I hs s"]) (use assms(2,3) in blast)+

lemma serve_start_invariant:
  assumes "serve handle args uses ins (start_session s) = Some ss'" and "I [] s"
    and "\<And>hs s req new. I hs s \<Longrightarrow> I (hs @ [(req, new)]) (fst (handle req new s))"
  shows "I (ss_handled ss') (ss_state ss')"
  using serve_invariant [OF assms(1), of I] assms(2,3) by (simp add: start_session_def)

text \<open>The same for an invariant that also speaks of the calls made so far.\<close>

lemma serve_trace_invariant:
  assumes "serve handle args uses ins ss = Some ss'"
    and "I (ss_handled ss) (ss_state ss) (ss_calls ss)"
    and "\<And>hs s cs req new. I hs s cs \<Longrightarrow> \<not> list_ex is_terminate cs \<Longrightarrow>
      I (hs @ [(req, new)]) (fst (handle req new s)) (cs @ snd (handle req new s))"
  shows "I (ss_handled ss') (ss_state ss') (ss_calls ss')"
  by (rule serve_full_invariant [OF assms(1), where I = "\<lambda>hs s live cs. I hs s cs"])
     (use assms(2,3) in blast)+

lemma serve_start_trace_invariant:
  assumes "serve handle args uses ins (start_session s) = Some ss'" and "I [] s []"
    and "\<And>hs s cs req new. I hs s cs \<Longrightarrow> \<not> list_ex is_terminate cs \<Longrightarrow>
      I (hs @ [(req, new)]) (fst (handle req new s)) (cs @ snd (handle req new s))"
  shows "I (ss_handled ss') (ss_state ss') (ss_calls ss')"
  using serve_trace_invariant [OF assms(1), of I] assms(2,3) by (simp add: start_session_def)

text \<open>The objects of an interface a call list creates, and the descriptors it closes.\<close>

fun created :: "string \<Rightarrow> 'ev wl_call list \<Rightarrow> int" where
  "created interface [] = 0"
| "created interface (Create r i version rid # cs) =
     (if i = interface then 1 else 0) + created interface cs"
| "created interface (c # cs) = created interface cs"

fun closed :: "'ev wl_call list \<Rightarrow> fd_t list" where
  "closed [] = []"
| "closed (Close fd # cs) = fd # closed cs"
| "closed (c # cs) = closed cs"

lemma created_append [simp]: "created interface (xs @ ys) = created interface xs + created interface ys"
  by (induction interface xs rule: created.induct) auto

lemma closed_append [simp]: "closed (xs @ ys) = closed xs @ closed ys"
  by (induction xs rule: closed.induct) auto

text \<open>Some handled request satisfies \<open>P\<close>.\<close>

definition asked :: "'req input list \<Rightarrow> ('req \<Rightarrow> bool) \<Rightarrow> bool" where
  "asked hs P \<longleftrightarrow> (\<exists>(req, new) \<in> set hs. P req)"

lemma asked_append [simp]: "asked (hs @ [(req, new)]) P \<longleftrightarrow> asked hs P \<or> P req"
  by (auto simp: asked_def)

text \<open>A flag that the requests satisfying \<open>trig\<close> raise and nothing lowers.\<close>

lemma serve_flag:
  assumes "serve handle args uses ins (start_session s) = Some ss'" and "\<not> flag s"
    and "\<And>s req new. flag (fst (handle req new s)) \<longleftrightarrow> flag s \<or> trig req new"
  shows "flag (ss_state ss') \<longleftrightarrow> (\<exists>(req, new) \<in> set (ss_handled ss'). trig req new)"
  by (rule serve_start_invariant [OF assms(1), where I = "\<lambda>hs s. flag s \<longleftrightarrow> (\<exists>(req, new) \<in> set hs. trig req new)"])
     (use assms(2,3) in auto)

text \<open>A counter that the requests satisfying \<open>trig\<close> step.\<close>

lemma serve_counter:
  assumes "serve handle args uses ins (start_session s) = Some ss'" and "count s = 0"
    and "\<And>s req new. count (fst (handle req new s)) = count s + (if trig req new then 1 else 0 :: int)"
  shows "count (ss_state ss') = int (length (filter (\<lambda>(req, new). trig req new) (ss_handled ss')))"
  by (rule serve_start_invariant [OF assms(1),
        where I = "\<lambda>hs s. count s = int (length (filter (\<lambda>(req, new). trig req new) hs))"])
     (use assms(2,3) in auto)

text \<open>Requests satisfying the predicates were handled in this order, others between them.\<close>

fun in_order :: "'req input list \<Rightarrow> ('req \<Rightarrow> bool) list \<Rightarrow> bool" where
  "in_order hs [] = True"
| "in_order [] (P # Ps) = False"
| "in_order (h # hs) (P # Ps) = (P (fst h) \<and> in_order hs Ps \<or> in_order hs (P # Ps))"

lemma in_order_snoc:
  "in_order (hs @ [h]) (Ps @ [P]) \<longleftrightarrow> in_order hs (Ps @ [P]) \<or> in_order hs Ps \<and> P (fst h)"
proof (induction hs Ps rule: in_order.induct)
  case (1 hs)
  then show ?case by (induction hs) auto
next
  case (2 Q Qs)
  then show ?case by (cases Qs) auto
next
  case (3 g hs Q Qs)
  then show ?case by auto
qed

lemma in_order_prefix: "in_order hs Ps \<Longrightarrow> in_order hs (take n Ps)"
proof (induction hs Ps arbitrary: n rule: in_order.induct)
  case (3 h hs P Ps)
  show ?case
  proof (cases n)
    case (Suc m)
    with "3.prems" "3.IH"(1) [of m] "3.IH"(2) [of n] show ?thesis by auto
  qed simp
qed auto

lemma in_order_snocs [simp]:
  "in_order (hs @ [h]) [A] \<longleftrightarrow> in_order hs [A] \<or> A (fst h)"
  "in_order (hs @ [h]) [A, B] \<longleftrightarrow> in_order hs [A, B] \<or> in_order hs [A] \<and> B (fst h)"
  "in_order (hs @ [h]) [A, B, C] \<longleftrightarrow> in_order hs [A, B, C] \<or> in_order hs [A, B] \<and> C (fst h)"
  "in_order (hs @ [h]) [A, B, C, D] \<longleftrightarrow> in_order hs [A, B, C, D] \<or> in_order hs [A, B, C] \<and> D (fst h)"
  using in_order_snoc [of hs h "[]" A] in_order_snoc [of hs h "[A]" B]
    in_order_snoc [of hs h "[A, B]" C] in_order_snoc [of hs h "[A, B, C]" D] by simp_all

lemma in_order_pair:
  "\<exists>h \<in> set xs. A (fst h) \<Longrightarrow> B (fst i) \<Longrightarrow> in_order (xs @ i # ys) [A, B]"
proof (induction xs)
  case (Cons x xs)
  have "in_order (xs @ i # ys) [B]" using Cons.prems(2) by (induction xs) auto
  with Cons show ?case by auto
qed simp

text \<open>Some request satisfied \<open>P\<close> together with the requests handled before it.\<close>

fun asked_after :: "'req input list \<Rightarrow> 'req input list \<Rightarrow> ('req input list \<Rightarrow> 'req \<Rightarrow> bool) \<Rightarrow> bool" where
  "asked_after past [] P = False"
| "asked_after past (h # hs) P = (P past (fst h) \<or> asked_after (past @ [h]) hs P)"

lemma asked_after_snoc [simp]:
  "asked_after past (hs @ [h]) P \<longleftrightarrow> asked_after past hs P \<or> P (past @ hs) (fst h)"
  by (induction hs arbitrary: past) auto

section \<open>The contract of memory-safe handlers\<close>

text \<open>
  \<open>holds s\<close> are the resource pointers the server keeps in its state, with their interfaces. If
  every handler uses only pointers that exist and keeps no pointer that dangles, no session goes
  wrong.
\<close>

definition exist :: "(resource \<times> string) list \<Rightarrow> resources \<Rightarrow> bool" where
  "exist rs live \<longleftrightarrow> list_all (\<lambda>(r, interface). live r = Some interface) rs"

lemma exist_simps [simp]:
  "exist [] live"
  "exist ((r, interface) # rs) live \<longleftrightarrow> live r = Some interface \<and> exist rs live"
  by (simp_all add: exist_def)

text \<open>The pointers kept in an optional field.\<close>

definition held :: "resource option \<Rightarrow> string \<Rightarrow> (resource \<times> string) list" where
  "held x interface = (case x of None \<Rightarrow> [] | Some r \<Rightarrow> [(r, interface)])"

lemma held_simps [simp]: "held None interface = []" "held (Some r) interface = [(r, interface)]"
  by (simp_all add: held_def)

lemma exist_append [simp]: "exist (xs @ ys) live \<longleftrightarrow> exist xs live \<and> exist ys live"
  by (simp add: exist_def)

lemma exist_held_update [simp]:
  "exist (held x interface) (live(r \<mapsto> i)) \<longleftrightarrow>
     (if x = Some r then i = interface else exist (held x interface) live)"
  "exist (held x interface) (live(r := None)) \<longleftrightarrow> x \<noteq> Some r \<and> exist (held x interface) live"
  by (cases x; auto)+

text \<open>
  Handlers that are safe only for requests that are \<open>allowed\<close> in the state the server is in and among
  the resources that exist: a session goes wrong only at a request that is not allowed.
\<close>

locale guarded_server =
  fixes handle :: "'req \<Rightarrow> resource option \<Rightarrow> 's \<Rightarrow> 's \<times> 'ev wl_call list"
    and args :: "'req \<Rightarrow> (resource \<times> string) list"
    and uses :: "'ev \<Rightarrow> resource option list"
    and inv :: "'s \<Rightarrow> resources \<Rightarrow> bool"
    and allowed :: "'s \<Rightarrow> resources \<Rightarrow> 'req input \<Rightarrow> bool"
  assumes handle_guarded:
    "allowed s live (req, new) \<Longrightarrow> inv s live \<Longrightarrow> exist (args req) live \<Longrightarrow> (\<forall>r. new = Some r \<longrightarrow> live r = None) \<Longrightarrow>
       handle req new s = (s', calls) \<Longrightarrow>
       \<exists>live'. exec_calls uses calls live = Some live' \<and> inv s' live'"
begin

lemma serve_guarded:
  assumes "inv (ss_state ss) (ss_live ss)"
    and "\<And>xs i ys ss1. ins = xs @ i # ys \<Longrightarrow> serve handle args uses xs ss = Some ss1 \<Longrightarrow>
      deliverable args i (ss_live ss1) \<Longrightarrow> \<not> terminated ss1 \<Longrightarrow> allowed (ss_state ss1) (ss_live ss1) i"
  shows "\<exists>ss'. serve handle args uses ins ss = Some ss' \<and> inv (ss_state ss') (ss_live ss')"
  using assms
proof (induction ins arbitrary: ss)
  case Nil
  then show ?case by simp
next
  case (Cons i ins)
  have "\<exists>ss1. deliver handle args uses i ss = Some ss1 \<and> inv (ss_state ss1) (ss_live ss1)"
  proof (cases "deliverable args i (ss_live ss) \<and> \<not> terminated ss")
    case True
    obtain s' calls where h: "handle (fst i) (snd i) (ss_state ss) = (s', calls)" by fastforce
    from True have "exist (args (fst i)) (ss_live ss)" "\<forall>r. snd i = Some r \<longrightarrow> ss_live ss r = None"
      by (auto simp: deliverable_def exist_def)
    moreover have "allowed (ss_state ss) (ss_live ss) (fst i, snd i)"
      using Cons.prems(2) [of "[]" i ins ss] True by simp
    ultimately obtain live' where
      "exec_calls uses calls (ss_live ss) = Some live'" "inv s' live'"
      using handle_guarded Cons.prems(1) h by blast
    with True h show ?thesis by (simp add: deliver_def)
  next
    case False
    with Cons.prems show ?thesis by (auto simp: deliver_def)
  qed
  then obtain ss1 where "deliver handle args uses i ss = Some ss1"
    "inv (ss_state ss1) (ss_live ss1)" by blast
  note ss1 = this
  have "allowed (ss_state ss2) (ss_live ss2) j"
    if "ins = xs @ j # ys" "serve handle args uses xs ss1 = Some ss2"
      "deliverable args j (ss_live ss2)" "\<not> terminated ss2" for xs j ys ss2
    using Cons.prems(2) [of "i # xs" j ys ss2] that ss1 by simp
  with Cons.IH [of ss1] ss1 show ?case by simp
qed

lemma session_guarded:
  assumes "inv s Map.empty"
    and "\<And>xs i ys ss1. ins = xs @ i # ys \<Longrightarrow> serve handle args uses xs (start_session s) = Some ss1 \<Longrightarrow>
      deliverable args i (ss_live ss1) \<Longrightarrow> \<not> terminated ss1 \<Longrightarrow> allowed (ss_state ss1) (ss_live ss1) i"
  shows "\<exists>ss'. serve handle args uses ins (start_session s) = Some ss'"
  using serve_guarded [of "start_session s" ins] assms by (auto simp: start_session_def)

end

locale safe_server =
  fixes handle :: "'req \<Rightarrow> resource option \<Rightarrow> 's \<Rightarrow> 's \<times> 'ev wl_call list"
    and args :: "'req \<Rightarrow> (resource \<times> string) list"
    and uses :: "'ev \<Rightarrow> resource option list"
    and holds :: "'s \<Rightarrow> (resource \<times> string) list"
  assumes handle_safe:
    "exist (holds s) live \<Longrightarrow> exist (args req) live \<Longrightarrow> (\<forall>r. new = Some r \<longrightarrow> live r = None) \<Longrightarrow>
       handle req new s = (s', calls) \<Longrightarrow>
       \<exists>live'. exec_calls uses calls live = Some live' \<and> exist (holds s') live'"

text \<open>Handlers that are always safe are guarded by nothing.\<close>

sublocale safe_server \<subseteq>
  guarded_server handle args uses "\<lambda>s live. exist (holds s) live" "\<lambda>s live i. True"
  by unfold_locales (rule handle_safe)

context safe_server
begin

lemma session_safe:
  assumes "holds s = []"
  shows "\<exists>ss'. serve handle args uses ins (start_session s) = Some ss'"
  using session_guarded [of s ins] assms by simp

end

lemma serve_handled:
  assumes "serve handle args uses ins ss = Some ss'"
  shows "set (ss_handled ss') \<subseteq> set (ss_handled ss) \<union> set ins"
  using assms
proof (induction ins arbitrary: ss)
  case (Cons i ins)
  then obtain ss1 where d: "deliver handle args uses i ss = Some ss1"
    and "set (ss_handled ss') \<subseteq> set (ss_handled ss1) \<union> set ins"
    by (auto split: option.splits)
  moreover have "set (ss_handled ss1) \<subseteq> insert i (set (ss_handled ss))"
    using d by (auto simp: deliver_def split: if_splits prod.splits option.splits)
  ultimately show ?case by auto
qed simp

lemma serve_handled_length:
  "serve handle args uses ins ss = Some ss' \<Longrightarrow> length (ss_handled ss') \<le> length (ss_handled ss) + length ins"
proof (induction ins arbitrary: ss)
  case (Cons i ins)
  then obtain ss1 where d: "deliver handle args uses i ss = Some ss1"
    and "length (ss_handled ss') \<le> length (ss_handled ss1) + length ins"
    by (auto split: option.splits)
  moreover have "length (ss_handled ss1) \<le> Suc (length (ss_handled ss))"
    using d by (auto simp: deliver_def split: if_splits prod.splits option.splits)
  ultimately show ?case by simp
qed simp

section \<open>The main function of a server\<close>

definition EXIT_SUCCESS :: int where
  "EXIT_SUCCESS = 0"

definition EXIT_FAILURE :: int where
  "EXIT_FAILURE = 1"

lemma exit_codes_differ [simp]: "EXIT_SUCCESS \<noteq> EXIT_FAILURE" "EXIT_FAILURE \<noteq> EXIT_SUCCESS"
  by (simp_all add: EXIT_SUCCESS_def EXIT_FAILURE_def)

datatype main_call =
  Display_Create | Global_Create string nat | Client_Create | Display_Run | Display_Destroy

text \<open>
  What the library answers while the server starts: whether the display exists, the results of the
  successive \<open>wl_global_create\<close> calls, whether the client exists.
\<close>

record main_env =
  me_display :: bool
  me_global :: "nat \<Rightarrow> bool"
  me_client :: bool

text \<open>The chain of \<open>wl_global_create(...) == NULL ||\<close>: stop at the first failure.\<close>

fun create_globals :: "(nat \<Rightarrow> bool) \<Rightarrow> nat \<Rightarrow> (string \<times> nat) list \<Rightarrow> bool \<times> main_call list" where
  "create_globals ok k [] = (True, [])"
| "create_globals ok k ((interface, version) # gs) =
     (if ok k
      then (case create_globals ok (Suc k) gs of (r, cs) \<Rightarrow> (r, Global_Create interface version # cs))
      else (False, [Global_Create interface version]))"

definition server_main :: "main_env \<Rightarrow> (string \<times> nat) list \<Rightarrow> bool \<Rightarrow> int \<times> main_call list" where
  "server_main env globals success =
     (if \<not> me_display env then (EXIT_FAILURE, [Display_Create])
      else case create_globals (me_global env) 0 globals of
             (False, cs) \<Rightarrow> (EXIT_FAILURE, [Display_Create] @ cs @ [Display_Destroy])
           | (True, cs) \<Rightarrow>
               if \<not> me_client env
               then (EXIT_FAILURE, [Display_Create] @ cs @ [Client_Create, Display_Destroy])
               else (if success then EXIT_SUCCESS else EXIT_FAILURE,
                     [Display_Create] @ cs @ [Client_Create, Display_Run, Display_Destroy]))"

definition env_ok :: "main_env \<Rightarrow> nat \<Rightarrow> bool" where
  "env_ok env n \<longleftrightarrow> me_display env \<and> (\<forall>i < n. me_global env i) \<and> me_client env"

lemma create_globals_ok: "fst (create_globals ok k gs) \<longleftrightarrow> (\<forall>i < length gs. ok (k + i))"
proof (induction gs arbitrary: k)
  case Nil
  then show ?case by simp
next
  case (Cons g gs)
  have "(\<forall>i < length (g # gs). ok (k + i)) \<longleftrightarrow> ok k \<and> (\<forall>i < length gs. ok (Suc k + i))"
    by (auto simp: less_Suc_eq_0_disj)
  with Cons [of "Suc k"] show ?case by (cases g) (auto split: prod.splits)
qed

lemma server_main_success:
  "fst (server_main env globals success) = EXIT_SUCCESS \<longleftrightarrow> env_ok env (length globals) \<and> success"
  using create_globals_ok [of "me_global env" 0 globals]
  by (auto simp: server_main_def env_ok_def split: prod.splits bool.splits)

text \<open>A library and a start-up in which everything works, for examples.\<close>

definition demo_env :: main_env where
  "demo_env = \<lparr>me_display = True, me_global = (\<lambda>i. True), me_client = True\<rparr>"

definition demo_lib :: wl_lib where
  "demo_lib = \<lparr>fixed_from_int = (\<lambda>i. i * 256), fixed_from_double = (\<lambda>m k. m * 256 div 2 ^ k),
     version_of = (\<lambda>r. 4), cap_pointer = 1, cap_keyboard = 2, cap_touch = 4, transform_90 = 1,
     dnd_copy = 1, dnd_move = 2, shm_argb8888 = 0, key_pressed = 1, button_pressed = 1, axis_vertical = 0,
     axis_wheel = 0\<rparr>"

text \<open>
  The whole program: it exits at once when it cannot start; otherwise it serves until the client is
  gone and exits with the verdict on its state. \<open>Crashed\<close> is a use of a NULL or dangling pointer.
\<close>

datatype outcome = Crashed | Running | Exited int "main_call list"

definition server_program ::
    "main_env \<Rightarrow> (string \<times> nat) list \<Rightarrow> ('s \<Rightarrow> bool) \<Rightarrow> ('s, 'req, 'ev) session option \<Rightarrow> outcome" where
  "server_program env globals success result =
     (if \<not> env_ok env (length globals)
      then (case server_main env globals False of (code, cs) \<Rightarrow> Exited code cs)
      else case result of
             None \<Rightarrow> Crashed
           | Some ss \<Rightarrow>
               if terminated ss
               then (case server_main env globals (success (ss_state ss)) of (code, cs) \<Rightarrow> Exited code cs)
               else Running)"

definition exits_with :: "int \<Rightarrow> outcome \<Rightarrow> bool" where
  "exits_with code r \<longleftrightarrow> (\<exists>cs. r = Exited code cs)"

lemma server_program_success:
  "exits_with EXIT_SUCCESS (server_program env globals success (Some ss)) \<longleftrightarrow>
     env_ok env (length globals) \<and> terminated ss \<and> success (ss_state ss)"
  using server_main_success [of env globals "success (ss_state ss)"]
    server_main_success [of env globals False]
  by (auto simp: server_program_def exits_with_def split: prod.splits)

lemma server_program_not_crashed: "server_program env globals success (Some ss) \<noteq> Crashed"
  by (auto simp: server_program_def split: prod.splits)

text \<open>Every display that was created is destroyed, once and at the end.\<close>

lemma server_main_cleanup:
  "server_main env globals success = (code, cs) \<Longrightarrow> me_display env \<Longrightarrow>
     last cs = Display_Destroy \<and> count_list cs Display_Destroy = 1"
proof -
  have "count_list ds Display_Destroy = 0" if "create_globals ok k gs = (r, ds)" for ok k gs r ds
    using that by (induction gs arbitrary: k r ds) (auto split: if_splits prod.splits)
  note this [of "me_global env" 0 globals]
  then show "server_main env globals success = (code, cs) \<Longrightarrow> me_display env \<Longrightarrow> ?thesis"
    by (auto simp: server_main_def split: prod.splits bool.splits if_splits)
qed

end
