(* ===== verification/Touch_Server.thy ===== *)
theory Touch_Server
  imports Libwayland
begin

text \<open>
  The libwayland touch server (\<open>src/bench/touch-interop-server.c\<close>): a compositor and a seat whose
  touch device replays one fixed sequence of events, and a verdict on what the client released.
  The 0/1 flags of \<open>struct touch_server_state\<close> are booleans; the display pointer and the destroy
  listener, which never change, are left out of the state.
\<close>

record touch_server =
  ts_surface :: "resource option"
  ts_touch_released :: bool
  ts_surface_destroyed :: bool
  ts_seat_released :: bool

definition touch_server_init :: touch_server where
  "touch_server_init = \<lparr>ts_surface = None, ts_touch_released = False, ts_surface_destroyed = False,
     ts_seat_released = False\<rparr>"

datatype touch_event =
    T_Seat seat_event
  | T_Down resource u32 u32 "resource option" int int int
  | T_Motion resource u32 int int int
  | T_Shape resource int int int
  | T_Orientation resource int int
  | T_Frame resource
  | T_Up resource u32 u32 int
  | T_Cancel resource

datatype touch_request =
    T_Bind_Compositor u32 u32
  | T_Bind_Seat u32 u32
  | T_Create_Surface resource u32
  | T_Create_Region resource u32
  | T_Surface_Destroy resource
  | T_Get_Pointer resource u32
  | T_Get_Keyboard resource u32
  | T_Get_Touch resource u32
  | T_Seat_Release resource
  | T_Touch_Release resource
  | T_Client_Destroyed

type_synonym touch_step = "touch_server \<times> touch_event wl_call list"

section \<open>Handlers\<close>

definition touch_release :: "resource \<Rightarrow> touch_server \<Rightarrow> touch_step" where
  "touch_release r s = (s\<lparr>ts_touch_released := True\<rparr>, [Destroy r])"

definition touch_seat_get_pointer :: "touch_server \<Rightarrow> touch_step" where
  "touch_seat_get_pointer s = (s, [Implementation_Error ''unexpected pointer''])"

definition touch_seat_get_keyboard :: "touch_server \<Rightarrow> touch_step" where
  "touch_seat_get_keyboard s = (s, [Implementation_Error ''unexpected keyboard''])"

definition touch_seat_get_touch ::
    "wl_lib \<Rightarrow> resource \<Rightarrow> u32 \<Rightarrow> resource option \<Rightarrow> touch_server \<Rightarrow> touch_step" where
  "touch_seat_get_touch L seat rid new s =
     (if ts_surface s = None then (s, [Implementation_Error ''touch without surface''])
      else (s, create_resource new ''wl_touch'' (version_of L seat) rid (\<lambda>touch.
        [Send (T_Down touch 51 200 (ts_surface s) 7 (fixed_from_double L 3 1) (fixed_from_int L (-2))),
         Send (T_Motion touch 201 7 (fixed_from_int L 3) (fixed_from_int L 4)),
         Send (T_Shape touch 7 (fixed_from_int L 5) (fixed_from_int L 2)),
         Send (T_Orientation touch 7 (fixed_from_int L (-45))),
         Send (T_Frame touch),
         Send (T_Up touch 52 202 7),
         Send (T_Frame touch),
         Send (T_Down touch 53 203 (ts_surface s) 8 0 0),
         Send (T_Cancel touch)])))"

definition touch_seat_release :: "resource \<Rightarrow> touch_server \<Rightarrow> touch_step" where
  "touch_seat_release r s = (s\<lparr>ts_seat_released := True\<rparr>, [Destroy r])"

definition touch_bind_seat ::
    "wl_lib \<Rightarrow> u32 \<Rightarrow> u32 \<Rightarrow> resource option \<Rightarrow> touch_server \<Rightarrow> touch_step" where
  "touch_bind_seat L version rid new s =
     (s, create_resource new ''wl_seat'' (min_version version 8) rid (\<lambda>r.
        [Send (T_Seat (Seat_Capabilities r (cap_touch L))),
         Send (T_Seat (Seat_Name r ''wayring-seat''))]))"

definition touch_surface_destroy :: "resource \<Rightarrow> touch_server \<Rightarrow> touch_step" where
  "touch_surface_destroy r s =
     (s\<lparr>ts_surface_destroyed := True, ts_surface := None\<rparr>, [Destroy r])"

definition touch_create_surface ::
    "wl_lib \<Rightarrow> resource \<Rightarrow> u32 \<Rightarrow> resource option \<Rightarrow> touch_server \<Rightarrow> touch_step" where
  "touch_create_surface L compositor rid new s =
     (if new = None then s else s\<lparr>ts_surface := new\<rparr>,
      create_resource new ''wl_surface'' (version_of L compositor) rid (\<lambda>r. []))"

definition touch_create_region :: "touch_server \<Rightarrow> touch_step" where
  "touch_create_region s = (s, [Implementation_Error ''unexpected region''])"

definition touch_bind_compositor ::
    "u32 \<Rightarrow> u32 \<Rightarrow> resource option \<Rightarrow> touch_server \<Rightarrow> touch_step" where
  "touch_bind_compositor version rid new s =
     (s, create_resource new ''wl_compositor'' (min_version version 4) rid (\<lambda>r. []))"

definition touch_client_destroy :: "touch_server \<Rightarrow> touch_step" where
  "touch_client_destroy s = (s, [Terminate])"

text \<open>The implementation tables: which handler serves which request.\<close>

fun touch_handle :: "wl_lib \<Rightarrow> touch_request \<Rightarrow> resource option \<Rightarrow> touch_server \<Rightarrow> touch_step" where
  "touch_handle L (T_Bind_Compositor version rid) new s = touch_bind_compositor version rid new s"
| "touch_handle L (T_Bind_Seat version rid) new s = touch_bind_seat L version rid new s"
| "touch_handle L (T_Create_Surface r rid) new s = touch_create_surface L r rid new s"
| "touch_handle L (T_Create_Region r rid) new s = touch_create_region s"
| "touch_handle L (T_Surface_Destroy r) new s = touch_surface_destroy r s"
| "touch_handle L (T_Get_Pointer r rid) new s = touch_seat_get_pointer s"
| "touch_handle L (T_Get_Keyboard r rid) new s = touch_seat_get_keyboard s"
| "touch_handle L (T_Get_Touch r rid) new s = touch_seat_get_touch L r rid new s"
| "touch_handle L (T_Seat_Release r) new s = touch_seat_release r s"
| "touch_handle L (T_Touch_Release r) new s = touch_release r s"
| "touch_handle L T_Client_Destroyed new s = touch_client_destroy s"

fun touch_args :: "touch_request \<Rightarrow> (resource \<times> string) list" where
  "touch_args (T_Create_Surface r rid) = [(r, ''wl_compositor'')]"
| "touch_args (T_Create_Region r rid) = [(r, ''wl_compositor'')]"
| "touch_args (T_Surface_Destroy r) = [(r, ''wl_surface'')]"
| "touch_args (T_Get_Pointer r rid) = [(r, ''wl_seat'')]"
| "touch_args (T_Get_Keyboard r rid) = [(r, ''wl_seat'')]"
| "touch_args (T_Get_Touch r rid) = [(r, ''wl_seat'')]"
| "touch_args (T_Seat_Release r) = [(r, ''wl_seat'')]"
| "touch_args (T_Touch_Release r) = [(r, ''wl_touch'')]"
| "touch_args _ = []"

fun touch_uses :: "touch_event \<Rightarrow> resource option list" where
  "touch_uses (T_Seat e) = seat_event_uses e"
| "touch_uses (T_Down r serial time surface touch_id x y) = [Some r, surface]"
| "touch_uses (T_Motion r time touch_id x y) = [Some r]"
| "touch_uses (T_Shape r touch_id major minor) = [Some r]"
| "touch_uses (T_Orientation r touch_id angle) = [Some r]"
| "touch_uses (T_Frame r) = [Some r]"
| "touch_uses (T_Up r serial time touch_id) = [Some r]"
| "touch_uses (T_Cancel r) = [Some r]"

definition touch_status :: "touch_server \<Rightarrow> bool" where
  "touch_status s \<longleftrightarrow> ts_touch_released s \<and> ts_surface_destroyed s \<and> ts_seat_released s"

definition touch_globals :: "(string \<times> nat) list" where
  "touch_globals = [(''wl_compositor'', 4), (''wl_seat'', 8)]"

definition touch_session ::
    "wl_lib \<Rightarrow> touch_request input list \<Rightarrow> (touch_server, touch_request, touch_event) session option" where
  "touch_session L ins = serve (touch_handle L) touch_args touch_uses ins (start_session touch_server_init)"

definition touch_server_fd :: "main_env \<Rightarrow> wl_lib \<Rightarrow> touch_request input list \<Rightarrow> outcome" where
  "touch_server_fd env L ins = server_program env touch_globals touch_status (touch_session L ins)"

lemmas touch_handler_defs = touch_release_def touch_seat_get_pointer_def touch_seat_get_keyboard_def
  touch_seat_get_touch_def touch_seat_release_def touch_bind_seat_def touch_surface_destroy_def
  touch_create_surface_def touch_create_region_def touch_bind_compositor_def touch_client_destroy_def
  create_resource_def

section \<open>The kept surface pointer never dangles\<close>

interpretation touch_safe: safe_server "touch_handle L" touch_args touch_uses
  "\<lambda>s. held (ts_surface s) ''wl_surface''" for L
proof unfold_locales
  fix s live req new s' calls
  assume "exist (held (ts_surface s) ''wl_surface'') live" and "exist (touch_args req) live"
    and "\<forall>r. new = Some r \<longrightarrow> live r = None" and "touch_handle L req new s = (s', calls)"
  then show "\<exists>live'. exec_calls touch_uses calls live = Some live' \<and>
      exist (held (ts_surface s') ''wl_surface'') live'"
    by (cases req; cases new; cases "ts_surface s") (auto simp: touch_handler_defs)
qed

lemma touch_flags:
  assumes "touch_session L ins = Some ss"
  shows "ts_touch_released (ss_state ss) \<longleftrightarrow> (\<exists>(req, new) \<in> set (ss_handled ss). \<exists>r. req = T_Touch_Release r)"
    and "ts_surface_destroyed (ss_state ss) \<longleftrightarrow>
      (\<exists>(req, new) \<in> set (ss_handled ss). \<exists>r. req = T_Surface_Destroy r)"
    and "ts_seat_released (ss_state ss) \<longleftrightarrow> (\<exists>(req, new) \<in> set (ss_handled ss). \<exists>r. req = T_Seat_Release r)"
  by (rule serve_flag [OF assms [unfolded touch_session_def]], simp add: touch_server_init_def,
      case_tac req; auto simp: touch_handler_defs)+

section \<open>Properties\<close>

text \<open>whatever implemented requests a client sends, in whatever order and however often allocations fail, the touch
  server never uses a NULL or dangling resource: the session always runs on. And its verdict is
  exact: it exits with success if and only if it could start, the client has gone, and before that
  the touch device was released, a surface destroyed and the seat released.\<close>

theorem touch_server_safe_and_exact:
  "\<exists>ss. touch_session L ins = Some ss \<and> touch_server_fd env L ins \<noteq> Crashed \<and>
     (exits_with EXIT_SUCCESS (touch_server_fd env L ins) \<longleftrightarrow>
        env_ok env 2 \<and> terminated ss \<and>
        (\<exists>(req, new) \<in> set (ss_handled ss). \<exists>r. req = T_Touch_Release r) \<and>
        (\<exists>(req, new) \<in> set (ss_handled ss). \<exists>r. req = T_Surface_Destroy r) \<and>
        (\<exists>(req, new) \<in> set (ss_handled ss). \<exists>r. req = T_Seat_Release r))"
proof -
  obtain ss where ss: "touch_session L ins = Some ss"
    using touch_safe.session_safe [of touch_server_init L ins]
    by (auto simp: touch_session_def touch_server_init_def)
  then show ?thesis
    using touch_flags [OF ss] server_program_not_crashed [of env touch_globals touch_status ss]
      server_program_success [of env touch_globals touch_status ss]
    by (simp add: touch_server_fd_def touch_status_def touch_globals_def numeral_2_eq_2)
qed

end
