(* ===== verification/Pointer_Server.thy ===== *)
theory Pointer_Server
  imports Libwayland
begin

text \<open>
  The libwayland pointer server (\<open>src/bench/pointer-interop-server.c\<close>): a compositor and a seat
  whose pointer replays one fixed sequence of events, and a verdict on what the client released.
  The flags of \<open>struct pointer_server_state\<close> are booleans.
\<close>

record pointer_server =
  ps_surface :: "resource option"
  ps_pointer_released :: bool
  ps_surface_destroyed :: bool
  ps_seat_released :: bool

definition pointer_server_init :: pointer_server where
  "pointer_server_init = \<lparr>ps_surface = None, ps_pointer_released = False,
     ps_surface_destroyed = False, ps_seat_released = False\<rparr>"

text \<open>
  All events of \<open>wl_pointer\<close>, as a client may receive them; the server sends no \<open>leave\<close> and none of the
  last two, which came after version 8 and whose arguments nothing here depends on.
\<close>

datatype pointer_event =
    P_Seat seat_event
  | P_Enter resource u32 "resource option" int int
  | P_Leave resource u32 "resource option"
  | P_Motion resource u32 int int
  | P_Button resource u32 u32 u32 u32
  | P_Axis_Source resource u32
  | P_Axis resource u32 u32 int
  | P_Axis_Discrete resource u32 int
  | P_Axis_Value120 resource u32 int
  | P_Axis_Stop resource u32 u32
  | P_Frame resource
  | P_Axis_Relative_Direction resource
  | P_Warp resource

datatype pointer_request =
    P_Bind_Compositor u32 u32
  | P_Bind_Seat u32 u32
  | P_Create_Surface resource u32
  | P_Create_Region resource u32
  | P_Surface_Destroy resource
  | P_Get_Pointer resource u32
  | P_Get_Keyboard resource u32
  | P_Get_Touch resource u32
  | P_Seat_Release resource
  | P_Set_Cursor resource u32 "resource option" int int
  | P_Pointer_Release resource
  | P_Client_Destroyed

type_synonym pointer_step = "pointer_server \<times> pointer_event wl_call list"

section \<open>Handlers\<close>

definition pointer_set_cursor :: "pointer_server \<Rightarrow> pointer_step" where
  "pointer_set_cursor s = (s, [Implementation_Error ''unexpected cursor''])"

definition pointer_release :: "resource \<Rightarrow> pointer_server \<Rightarrow> pointer_step" where
  "pointer_release r s = (s\<lparr>ps_pointer_released := True\<rparr>, [Destroy r])"

definition pointer_seat_get_pointer ::
    "wl_lib \<Rightarrow> resource \<Rightarrow> u32 \<Rightarrow> resource option \<Rightarrow> pointer_server \<Rightarrow> pointer_step" where
  "pointer_seat_get_pointer L seat rid new s =
     (if ps_surface s = None then (s, [Implementation_Error ''pointer without surface''])
      else (s, create_resource new ''wl_pointer'' (version_of L seat) rid (\<lambda>pointer.
        [Send (P_Enter pointer 41 (ps_surface s) (fixed_from_double L 7 1) (fixed_from_double L (-9) 2)),
         Send (P_Motion pointer 100 (fixed_from_int L 4) (fixed_from_int L 5)),
         Send (P_Button pointer 42 101 0x110 (button_pressed L)),
         Send (P_Axis_Source pointer (axis_wheel L)),
         Send (P_Axis pointer 102 (axis_vertical L) (fixed_from_int L (-1))),
         Send (P_Axis_Discrete pointer (axis_vertical L) (-1)),
         Send (P_Axis_Value120 pointer (axis_vertical L) (-120)),
         Send (P_Axis_Stop pointer 103 (axis_vertical L)),
         Send (P_Frame pointer)])))"

definition pointer_seat_get_keyboard :: "pointer_server \<Rightarrow> pointer_step" where
  "pointer_seat_get_keyboard s = (s, [Implementation_Error ''unexpected keyboard''])"

definition pointer_seat_get_touch :: "pointer_server \<Rightarrow> pointer_step" where
  "pointer_seat_get_touch s = (s, [Implementation_Error ''unexpected touch''])"

definition pointer_seat_release :: "resource \<Rightarrow> pointer_server \<Rightarrow> pointer_step" where
  "pointer_seat_release r s = (s\<lparr>ps_seat_released := True\<rparr>, [Destroy r])"

definition pointer_bind_seat ::
    "wl_lib \<Rightarrow> u32 \<Rightarrow> u32 \<Rightarrow> resource option \<Rightarrow> pointer_server \<Rightarrow> pointer_step" where
  "pointer_bind_seat L version rid new s =
     (s, create_resource new ''wl_seat'' (min_version version 8) rid (\<lambda>r.
        [Send (P_Seat (Seat_Capabilities r (cap_pointer L))),
         Send (P_Seat (Seat_Name r ''wayring-seat''))]))"

definition pointer_surface_destroy :: "resource \<Rightarrow> pointer_server \<Rightarrow> pointer_step" where
  "pointer_surface_destroy r s =
     (s\<lparr>ps_surface_destroyed := True, ps_surface := None\<rparr>, [Destroy r])"

definition pointer_create_surface ::
    "wl_lib \<Rightarrow> resource \<Rightarrow> u32 \<Rightarrow> resource option \<Rightarrow> pointer_server \<Rightarrow> pointer_step" where
  "pointer_create_surface L compositor rid new s =
     (if new = None then s else s\<lparr>ps_surface := new\<rparr>,
      create_resource new ''wl_surface'' (version_of L compositor) rid (\<lambda>r. []))"

definition pointer_create_region :: "pointer_server \<Rightarrow> pointer_step" where
  "pointer_create_region s = (s, [Implementation_Error ''unexpected region''])"

definition pointer_bind_compositor ::
    "u32 \<Rightarrow> u32 \<Rightarrow> resource option \<Rightarrow> pointer_server \<Rightarrow> pointer_step" where
  "pointer_bind_compositor version rid new s =
     (s, create_resource new ''wl_compositor'' (min_version version 4) rid (\<lambda>r. []))"

definition pointer_client_destroy :: "pointer_server \<Rightarrow> pointer_step" where
  "pointer_client_destroy s = (s, [Terminate])"

fun pointer_handle ::
    "wl_lib \<Rightarrow> pointer_request \<Rightarrow> resource option \<Rightarrow> pointer_server \<Rightarrow> pointer_step" where
  "pointer_handle L (P_Bind_Compositor version rid) new s = pointer_bind_compositor version rid new s"
| "pointer_handle L (P_Bind_Seat version rid) new s = pointer_bind_seat L version rid new s"
| "pointer_handle L (P_Create_Surface r rid) new s = pointer_create_surface L r rid new s"
| "pointer_handle L (P_Create_Region r rid) new s = pointer_create_region s"
| "pointer_handle L (P_Surface_Destroy r) new s = pointer_surface_destroy r s"
| "pointer_handle L (P_Get_Pointer r rid) new s = pointer_seat_get_pointer L r rid new s"
| "pointer_handle L (P_Get_Keyboard r rid) new s = pointer_seat_get_keyboard s"
| "pointer_handle L (P_Get_Touch r rid) new s = pointer_seat_get_touch s"
| "pointer_handle L (P_Seat_Release r) new s = pointer_seat_release r s"
| "pointer_handle L (P_Set_Cursor r serial surface x y) new s = pointer_set_cursor s"
| "pointer_handle L (P_Pointer_Release r) new s = pointer_release r s"
| "pointer_handle L P_Client_Destroyed new s = pointer_client_destroy s"

fun pointer_args :: "pointer_request \<Rightarrow> (resource \<times> string) list" where
  "pointer_args (P_Create_Surface r rid) = [(r, ''wl_compositor'')]"
| "pointer_args (P_Create_Region r rid) = [(r, ''wl_compositor'')]"
| "pointer_args (P_Surface_Destroy r) = [(r, ''wl_surface'')]"
| "pointer_args (P_Get_Pointer r rid) = [(r, ''wl_seat'')]"
| "pointer_args (P_Get_Keyboard r rid) = [(r, ''wl_seat'')]"
| "pointer_args (P_Get_Touch r rid) = [(r, ''wl_seat'')]"
| "pointer_args (P_Seat_Release r) = [(r, ''wl_seat'')]"
| "pointer_args (P_Set_Cursor r serial surface x y) = (r, ''wl_pointer'') # held surface ''wl_surface''"
| "pointer_args (P_Pointer_Release r) = [(r, ''wl_pointer'')]"
| "pointer_args _ = []"

fun pointer_uses :: "pointer_event \<Rightarrow> resource option list" where
  "pointer_uses (P_Seat e) = seat_event_uses e"
| "pointer_uses (P_Enter r serial surface x y) = [Some r, surface]"
| "pointer_uses (P_Leave r serial surface) = [Some r, surface]"
| "pointer_uses (P_Motion r time x y) = [Some r]"
| "pointer_uses (P_Button r serial time button st) = [Some r]"
| "pointer_uses (P_Axis_Source r source) = [Some r]"
| "pointer_uses (P_Axis r time ax v) = [Some r]"
| "pointer_uses (P_Axis_Discrete r ax v) = [Some r]"
| "pointer_uses (P_Axis_Value120 r ax v) = [Some r]"
| "pointer_uses (P_Axis_Stop r time ax) = [Some r]"
| "pointer_uses (P_Frame r) = [Some r]"
| "pointer_uses (P_Axis_Relative_Direction r) = [Some r]"
| "pointer_uses (P_Warp r) = [Some r]"

definition pointer_status :: "pointer_server \<Rightarrow> bool" where
  "pointer_status s \<longleftrightarrow> ps_pointer_released s \<and> ps_surface_destroyed s \<and> ps_seat_released s"

definition pointer_globals :: "(string \<times> nat) list" where
  "pointer_globals = [(''wl_compositor'', 4), (''wl_seat'', 8)]"

definition pointer_session :: "wl_lib \<Rightarrow> pointer_request input list \<Rightarrow>
    (pointer_server, pointer_request, pointer_event) session option" where
  "pointer_session L ins =
     serve (pointer_handle L) pointer_args pointer_uses ins (start_session pointer_server_init)"

definition pointer_server_fd :: "main_env \<Rightarrow> wl_lib \<Rightarrow> pointer_request input list \<Rightarrow> outcome" where
  "pointer_server_fd env L ins = server_program env pointer_globals pointer_status (pointer_session L ins)"

lemmas pointer_handler_defs = pointer_set_cursor_def pointer_release_def pointer_seat_get_pointer_def
  pointer_seat_get_keyboard_def pointer_seat_get_touch_def pointer_seat_release_def
  pointer_bind_seat_def pointer_surface_destroy_def pointer_create_surface_def
  pointer_create_region_def pointer_bind_compositor_def pointer_client_destroy_def
  create_resource_def

section \<open>The kept surface pointer never dangles\<close>

interpretation pointer_safe: safe_server "pointer_handle L" pointer_args pointer_uses
  "\<lambda>s. held (ps_surface s) ''wl_surface''" for L
proof unfold_locales
  fix s live req new s' calls
  assume "exist (held (ps_surface s) ''wl_surface'') live" and "exist (pointer_args req) live"
    and "\<forall>r. new = Some r \<longrightarrow> live r = None" and "pointer_handle L req new s = (s', calls)"
  then show "\<exists>live'. exec_calls pointer_uses calls live = Some live' \<and>
      exist (held (ps_surface s') ''wl_surface'') live'"
    by (cases req; cases new; cases "ps_surface s") (auto simp: pointer_handler_defs)
qed

lemma pointer_flags:
  assumes "pointer_session L ins = Some ss"
  shows "ps_pointer_released (ss_state ss) \<longleftrightarrow>
      (\<exists>(req, new) \<in> set (ss_handled ss). \<exists>r. req = P_Pointer_Release r)"
    and "ps_surface_destroyed (ss_state ss) \<longleftrightarrow>
      (\<exists>(req, new) \<in> set (ss_handled ss). \<exists>r. req = P_Surface_Destroy r)"
    and "ps_seat_released (ss_state ss) \<longleftrightarrow> (\<exists>(req, new) \<in> set (ss_handled ss). \<exists>r. req = P_Seat_Release r)"
  by (rule serve_flag [OF assms [unfolded pointer_session_def]], simp add: pointer_server_init_def,
      case_tac req; auto simp: pointer_handler_defs)+

section \<open>Properties\<close>

text \<open>whatever implemented requests a client sends, the pointer server never uses a NULL or dangling resource, and it
  exits with success if and only if it could start, the client has gone, and before that a pointer
  was released, a surface destroyed and the seat released.\<close>

theorem pointer_server_safe_and_exact:
  "\<exists>ss. pointer_session L ins = Some ss \<and> pointer_server_fd env L ins \<noteq> Crashed \<and>
     (exits_with EXIT_SUCCESS (pointer_server_fd env L ins) \<longleftrightarrow>
        env_ok env 2 \<and> terminated ss \<and>
        (\<exists>(req, new) \<in> set (ss_handled ss). \<exists>r. req = P_Pointer_Release r) \<and>
        (\<exists>(req, new) \<in> set (ss_handled ss). \<exists>r. req = P_Surface_Destroy r) \<and>
        (\<exists>(req, new) \<in> set (ss_handled ss). \<exists>r. req = P_Seat_Release r))"
proof -
  obtain ss where ss: "pointer_session L ins = Some ss"
    using pointer_safe.session_safe [of pointer_server_init L ins]
    by (auto simp: pointer_session_def pointer_server_init_def)
  then show ?thesis
    using pointer_flags [OF ss] server_program_not_crashed [of env pointer_globals pointer_status ss]
      server_program_success [of env pointer_globals pointer_status ss]
    by (simp add: pointer_server_fd_def pointer_status_def pointer_globals_def numeral_2_eq_2)
qed

end
