(* ===== verification/Keyboard_Server.thy ===== *)
theory Keyboard_Server
  imports Libwayland
begin

text \<open>
  The libwayland keyboard server (\<open>src/bench/keyboard-interop-server.c\<close>): a compositor and a seat
  whose keyboard sends a keymap through a descriptor and then one fixed sequence of events, and a
  verdict on what the client released. What the kernel answers while the keymap file is prepared
  (\<open>memfd_create\<close>, \<open>write\<close>, \<open>lseek\<close>) comes with the request.
\<close>

text \<open>\<open>sizeof keymap_text\<close>, with the terminating zero.\<close>

definition keymap_text :: string where
  "keymap_text = ''xkb_keymap {}''"

definition keymap_size :: nat where
  "keymap_size = length keymap_text + 1"

record keyboard_server =
  ks_surface :: "resource option"
  ks_keyboard_released :: bool
  ks_surface_destroyed :: bool
  ks_seat_released :: bool

definition keyboard_server_init :: keyboard_server where
  "keyboard_server_init = \<lparr>ks_surface = None, ks_keyboard_released = False,
     ks_surface_destroyed = False, ks_seat_released = False\<rparr>"

text \<open>
  Sending a keymap passes the descriptor on with the size of the file; the array of pressed keys is
  a list of key codes.
\<close>

datatype keyboard_event =
    K_Seat seat_event
  | K_Repeat_Info resource int int
  | K_Keymap resource fd_t u32
  | K_Enter resource u32 "resource option" "u32 list"
  | K_Modifiers resource u32 u32 u32 u32 u32
  | K_Key resource u32 u32 u32 u32
  | K_Leave resource u32 "resource option"

text \<open>The answers of \<open>memfd_create\<close>, \<open>write\<close> and \<open>lseek\<close>.\<close>

record keymap_file =
  kf_fd :: fd_t
  kf_written :: int
  kf_seek :: int

datatype keyboard_request =
    K_Bind_Compositor u32 u32
  | K_Bind_Seat u32 u32
  | K_Create_Surface resource u32
  | K_Create_Region resource u32
  | K_Surface_Destroy resource
  | K_Get_Pointer resource u32
  | K_Get_Keyboard resource u32 keymap_file
  | K_Get_Touch resource u32
  | K_Seat_Release resource
  | K_Keyboard_Release resource
  | K_Client_Destroyed

type_synonym keyboard_step = "keyboard_server \<times> keyboard_event wl_call list"

section \<open>Handlers\<close>

definition keyboard_release :: "resource \<Rightarrow> keyboard_server \<Rightarrow> keyboard_step" where
  "keyboard_release r s = (s\<lparr>ks_keyboard_released := True\<rparr>, [Destroy r])"

definition keyboard_seat_get_pointer :: "keyboard_server \<Rightarrow> keyboard_step" where
  "keyboard_seat_get_pointer s = (s, [Implementation_Error ''unexpected pointer''])"

definition keyboard_seat_get_keyboard ::
    "wl_lib \<Rightarrow> resource \<Rightarrow> u32 \<Rightarrow> keymap_file \<Rightarrow> resource option \<Rightarrow> keyboard_server \<Rightarrow> keyboard_step" where
  "keyboard_seat_get_keyboard L seat rid kf new s =
     (if ks_surface s = None then (s, [Implementation_Error ''keyboard without surface''])
      else (s, create_resource new ''wl_keyboard'' (version_of L seat) rid (\<lambda>keyboard.
        if kf_fd kf < 0 \<or> kf_written kf \<noteq> int keymap_size \<or> kf_seek kf < 0
        then (if 0 \<le> kf_fd kf then [Close (kf_fd kf)] else []) @ [No_Memory]
        else
        [Send (K_Repeat_Info keyboard 25 600),
         Send (K_Keymap keyboard (kf_fd kf) (of_nat keymap_size)),
         Close (kf_fd kf),
         Send (K_Enter keyboard 41 (ks_surface s) [30, 31]),
         Send (K_Modifiers keyboard 42 1 2 4 3),
         Send (K_Key keyboard 43 100 30 (key_pressed L)),
         Send (K_Leave keyboard 44 (ks_surface s))])))"

definition keyboard_seat_get_touch :: "keyboard_server \<Rightarrow> keyboard_step" where
  "keyboard_seat_get_touch s = (s, [Implementation_Error ''unexpected touch''])"

definition keyboard_seat_release :: "resource \<Rightarrow> keyboard_server \<Rightarrow> keyboard_step" where
  "keyboard_seat_release r s = (s\<lparr>ks_seat_released := True\<rparr>, [Destroy r])"

definition keyboard_bind_seat ::
    "wl_lib \<Rightarrow> u32 \<Rightarrow> u32 \<Rightarrow> resource option \<Rightarrow> keyboard_server \<Rightarrow> keyboard_step" where
  "keyboard_bind_seat L version rid new s =
     (s, create_resource new ''wl_seat'' (min_version version 8) rid (\<lambda>r.
        [Send (K_Seat (Seat_Capabilities r (cap_keyboard L))),
         Send (K_Seat (Seat_Name r ''wayring-seat''))]))"

definition keyboard_surface_destroy :: "resource \<Rightarrow> keyboard_server \<Rightarrow> keyboard_step" where
  "keyboard_surface_destroy r s =
     (s\<lparr>ks_surface_destroyed := True, ks_surface := None\<rparr>, [Destroy r])"

definition keyboard_create_surface ::
    "wl_lib \<Rightarrow> resource \<Rightarrow> u32 \<Rightarrow> resource option \<Rightarrow> keyboard_server \<Rightarrow> keyboard_step" where
  "keyboard_create_surface L compositor rid new s =
     (if new = None then s else s\<lparr>ks_surface := new\<rparr>,
      create_resource new ''wl_surface'' (version_of L compositor) rid (\<lambda>r. []))"

definition keyboard_create_region :: "keyboard_server \<Rightarrow> keyboard_step" where
  "keyboard_create_region s = (s, [Implementation_Error ''unexpected region''])"

definition keyboard_bind_compositor ::
    "u32 \<Rightarrow> u32 \<Rightarrow> resource option \<Rightarrow> keyboard_server \<Rightarrow> keyboard_step" where
  "keyboard_bind_compositor version rid new s =
     (s, create_resource new ''wl_compositor'' (min_version version 4) rid (\<lambda>r. []))"

definition keyboard_client_destroy :: "keyboard_server \<Rightarrow> keyboard_step" where
  "keyboard_client_destroy s = (s, [Terminate])"

fun keyboard_handle ::
    "wl_lib \<Rightarrow> keyboard_request \<Rightarrow> resource option \<Rightarrow> keyboard_server \<Rightarrow> keyboard_step" where
  "keyboard_handle L (K_Bind_Compositor version rid) new s = keyboard_bind_compositor version rid new s"
| "keyboard_handle L (K_Bind_Seat version rid) new s = keyboard_bind_seat L version rid new s"
| "keyboard_handle L (K_Create_Surface r rid) new s = keyboard_create_surface L r rid new s"
| "keyboard_handle L (K_Create_Region r rid) new s = keyboard_create_region s"
| "keyboard_handle L (K_Surface_Destroy r) new s = keyboard_surface_destroy r s"
| "keyboard_handle L (K_Get_Pointer r rid) new s = keyboard_seat_get_pointer s"
| "keyboard_handle L (K_Get_Keyboard r rid kf) new s = keyboard_seat_get_keyboard L r rid kf new s"
| "keyboard_handle L (K_Get_Touch r rid) new s = keyboard_seat_get_touch s"
| "keyboard_handle L (K_Seat_Release r) new s = keyboard_seat_release r s"
| "keyboard_handle L (K_Keyboard_Release r) new s = keyboard_release r s"
| "keyboard_handle L K_Client_Destroyed new s = keyboard_client_destroy s"

fun keyboard_args :: "keyboard_request \<Rightarrow> (resource \<times> string) list" where
  "keyboard_args (K_Create_Surface r rid) = [(r, ''wl_compositor'')]"
| "keyboard_args (K_Create_Region r rid) = [(r, ''wl_compositor'')]"
| "keyboard_args (K_Surface_Destroy r) = [(r, ''wl_surface'')]"
| "keyboard_args (K_Get_Pointer r rid) = [(r, ''wl_seat'')]"
| "keyboard_args (K_Get_Keyboard r rid kf) = [(r, ''wl_seat'')]"
| "keyboard_args (K_Get_Touch r rid) = [(r, ''wl_seat'')]"
| "keyboard_args (K_Seat_Release r) = [(r, ''wl_seat'')]"
| "keyboard_args (K_Keyboard_Release r) = [(r, ''wl_keyboard'')]"
| "keyboard_args _ = []"

fun keyboard_uses :: "keyboard_event \<Rightarrow> resource option list" where
  "keyboard_uses (K_Seat e) = seat_event_uses e"
| "keyboard_uses (K_Repeat_Info r rate delay) = [Some r]"
| "keyboard_uses (K_Keymap r fd sz) = [Some r]"
| "keyboard_uses (K_Enter r serial surface keys) = [Some r, surface]"
| "keyboard_uses (K_Modifiers r serial depressed latched locked layout) = [Some r]"
| "keyboard_uses (K_Key r serial time key st) = [Some r]"
| "keyboard_uses (K_Leave r serial surface) = [Some r, surface]"

definition keyboard_status :: "keyboard_server \<Rightarrow> bool" where
  "keyboard_status s \<longleftrightarrow> ks_keyboard_released s \<and> ks_surface_destroyed s \<and> ks_seat_released s"

definition keyboard_globals :: "(string \<times> nat) list" where
  "keyboard_globals = [(''wl_compositor'', 4), (''wl_seat'', 8)]"

definition keyboard_session :: "wl_lib \<Rightarrow> keyboard_request input list \<Rightarrow>
    (keyboard_server, keyboard_request, keyboard_event) session option" where
  "keyboard_session L ins =
     serve (keyboard_handle L) keyboard_args keyboard_uses ins (start_session keyboard_server_init)"

definition keyboard_server_fd :: "main_env \<Rightarrow> wl_lib \<Rightarrow> keyboard_request input list \<Rightarrow> outcome" where
  "keyboard_server_fd env L ins = server_program env keyboard_globals keyboard_status (keyboard_session L ins)"

lemmas keyboard_handler_defs = keyboard_release_def keyboard_seat_get_pointer_def
  keyboard_seat_get_keyboard_def keyboard_seat_get_touch_def keyboard_seat_release_def
  keyboard_bind_seat_def keyboard_surface_destroy_def keyboard_create_surface_def
  keyboard_create_region_def keyboard_bind_compositor_def keyboard_client_destroy_def
  create_resource_def

section \<open>The kept surface pointer never dangles\<close>

interpretation keyboard_safe: safe_server "keyboard_handle L" keyboard_args keyboard_uses
  "\<lambda>s. held (ks_surface s) ''wl_surface''" for L
proof unfold_locales
  fix s live req new s' calls
  assume "exist (held (ks_surface s) ''wl_surface'') live" and "exist (keyboard_args req) live"
    and "\<forall>r. new = Some r \<longrightarrow> live r = None" and "keyboard_handle L req new s = (s', calls)"
  then show "\<exists>live'. exec_calls keyboard_uses calls live = Some live' \<and>
      exist (held (ks_surface s') ''wl_surface'') live'"
    by (cases req; cases new; cases "ks_surface s") (auto simp: keyboard_handler_defs)
qed

lemma keyboard_flags:
  assumes "keyboard_session L ins = Some ss"
  shows "ks_keyboard_released (ss_state ss) \<longleftrightarrow>
      (\<exists>(req, new) \<in> set (ss_handled ss). \<exists>r. req = K_Keyboard_Release r)"
    and "ks_surface_destroyed (ss_state ss) \<longleftrightarrow>
      (\<exists>(req, new) \<in> set (ss_handled ss). \<exists>r. req = K_Surface_Destroy r)"
    and "ks_seat_released (ss_state ss) \<longleftrightarrow> (\<exists>(req, new) \<in> set (ss_handled ss). \<exists>r. req = K_Seat_Release r)"
  by (rule serve_flag [OF assms [unfolded keyboard_session_def]], simp add: keyboard_server_init_def,
      case_tac req; auto simp: keyboard_handler_defs)+

section \<open>Properties\<close>

text \<open>whatever implemented requests a client sends and whatever the kernel answers, the keyboard server never uses a
  NULL or dangling resource, and it exits with success if and only if it could start, the client has
  gone, and before that a keyboard was released, a surface destroyed and the seat released.\<close>

theorem keyboard_server_safe_and_exact:
  "\<exists>ss. keyboard_session L ins = Some ss \<and> keyboard_server_fd env L ins \<noteq> Crashed \<and>
     (exits_with EXIT_SUCCESS (keyboard_server_fd env L ins) \<longleftrightarrow>
        env_ok env 2 \<and> terminated ss \<and>
        (\<exists>(req, new) \<in> set (ss_handled ss). \<exists>r. req = K_Keyboard_Release r) \<and>
        (\<exists>(req, new) \<in> set (ss_handled ss). \<exists>r. req = K_Surface_Destroy r) \<and>
        (\<exists>(req, new) \<in> set (ss_handled ss). \<exists>r. req = K_Seat_Release r))"
proof -
  obtain ss where ss: "keyboard_session L ins = Some ss"
    using keyboard_safe.session_safe [of keyboard_server_init L ins]
    by (auto simp: keyboard_session_def keyboard_server_init_def)
  then show ?thesis
    using keyboard_flags [OF ss] server_program_not_crashed [of env keyboard_globals keyboard_status ss]
      server_program_success [of env keyboard_globals keyboard_status ss]
    by (simp add: keyboard_server_fd_def keyboard_status_def keyboard_globals_def numeral_2_eq_2)
qed

end
