(* ===== verification/Output_Server.thy ===== *)
theory Output_Server
  imports Libwayland
begin

text \<open>
  The libwayland output server (\<open>src/bench/output-interop-server.c\<close>): one output global that
  describes itself on every bind, as far as the bound version allows, and a verdict on whether an
  output was released. The enumerators of \<open>wl_output\<close> are arguments of the handler that sends them.
\<close>

record output_server =
  os_output_released :: bool

definition output_server_init :: output_server where
  "output_server_init = \<lparr>os_output_released = False\<rparr>"

text \<open>Enumerators and version constants of \<open>wl_output\<close> in the protocol headers.\<close>

record output_consts =
  oc_subpixel_horizontal_rgb :: int
  oc_mode_current :: u32
  oc_mode_preferred :: u32
  oc_scale_since :: int
  oc_name_since :: int
  oc_done_since :: int

datatype output_event =
    O_Geometry resource int int int int int string string int
  | O_Mode resource u32 int int int
  | O_Scale resource int
  | O_Name resource string
  | O_Description resource string
  | O_Done resource

datatype output_request =
    O_Bind u32 u32
  | O_Release resource
  | O_Client_Destroyed

type_synonym output_step = "output_server \<times> output_event wl_call list"

definition output_release :: "resource \<Rightarrow> output_server \<Rightarrow> output_step" where
  "output_release r s = (s\<lparr>os_output_released := True\<rparr>, [Destroy r])"

text \<open>The version tests ask the library for the version of the new resource.\<close>

definition output_bind ::
    "wl_lib \<Rightarrow> output_consts \<Rightarrow> u32 \<Rightarrow> u32 \<Rightarrow> resource option \<Rightarrow> output_server \<Rightarrow> output_step" where
  "output_bind L C version rid new s =
     (s, create_resource new ''wl_output'' (min_version version 4) rid (\<lambda>r.
        [Send (O_Geometry r (-10) 20 600 340 (oc_subpixel_horizontal_rgb C) ''Wayring'' ''Virtual-1''
                 (transform_90 L)),
         Send (O_Mode r (oc_mode_current C OR oc_mode_preferred C) 1920 1080 60000)]
        @ (if oc_scale_since C \<le> version_of L r then [Send (O_Scale r 2)] else [])
        @ (if oc_name_since C \<le> version_of L r
           then [Send (O_Name r ''WL-1''), Send (O_Description r ''Wayring virtual output'')] else [])
        @ (if oc_done_since C \<le> version_of L r then [Send (O_Done r)] else [])))"

definition output_client_destroy :: "output_server \<Rightarrow> output_step" where
  "output_client_destroy s = (s, [Terminate])"

fun output_handle ::
    "wl_lib \<Rightarrow> output_consts \<Rightarrow> output_request \<Rightarrow> resource option \<Rightarrow> output_server \<Rightarrow> output_step" where
  "output_handle L C (O_Bind version rid) new s = output_bind L C version rid new s"
| "output_handle L C (O_Release r) new s = output_release r s"
| "output_handle L C O_Client_Destroyed new s = output_client_destroy s"

fun output_args :: "output_request \<Rightarrow> (resource \<times> string) list" where
  "output_args (O_Release r) = [(r, ''wl_output'')]"
| "output_args _ = []"

fun output_uses :: "output_event \<Rightarrow> resource option list" where
  "output_uses (O_Geometry r x y w h subpixel maker model transform) = [Some r]"
| "output_uses (O_Mode r flags w h refresh) = [Some r]"
| "output_uses (O_Scale r factor) = [Some r]"
| "output_uses (O_Name r name) = [Some r]"
| "output_uses (O_Description r description) = [Some r]"
| "output_uses (O_Done r) = [Some r]"

definition output_globals :: "(string \<times> nat) list" where
  "output_globals = [(''wl_output'', 4)]"

definition output_session :: "wl_lib \<Rightarrow> output_consts \<Rightarrow> output_request input list \<Rightarrow>
    (output_server, output_request, output_event) session option" where
  "output_session L C ins =
     serve (output_handle L C) output_args output_uses ins (start_session output_server_init)"

definition output_server_fd :: "main_env \<Rightarrow> wl_lib \<Rightarrow> output_consts \<Rightarrow> output_request input list \<Rightarrow> outcome" where
  "output_server_fd env L C ins =
     server_program env output_globals os_output_released (output_session L C ins)"

lemmas output_handler_defs = output_release_def output_bind_def output_client_destroy_def
  create_resource_def

interpretation output_safe: safe_server "output_handle L C" output_args output_uses "\<lambda>s. []" for L C
proof unfold_locales
  fix s live req new s' calls
  assume "exist (output_args req) live" and "output_handle L C req new s = (s', calls)"
  then show "\<exists>live'. exec_calls output_uses calls live = Some live' \<and> exist [] live'"
    by (cases req; cases new) (auto simp: output_handler_defs)
qed

lemma output_flag:
  assumes "output_session L C ins = Some ss"
  shows "os_output_released (ss_state ss) \<longleftrightarrow> (\<exists>(req, new) \<in> set (ss_handled ss). \<exists>r. req = O_Release r)"
  by (rule serve_flag [OF assms [unfolded output_session_def]], simp add: output_server_init_def,
      case_tac req; auto simp: output_handler_defs)

section \<open>Properties\<close>

text \<open>whatever implemented requests a client sends, the output server uses only resources that exist, and it exits
  with success if and only if it could start, the client has gone, and before that an output was
  released.\<close>

theorem output_server_safe_and_exact:
  "\<exists>ss. output_session L C ins = Some ss \<and> output_server_fd env L C ins \<noteq> Crashed \<and>
     (exits_with EXIT_SUCCESS (output_server_fd env L C ins) \<longleftrightarrow>
        env_ok env 1 \<and> terminated ss \<and>
        (\<exists>(req, new) \<in> set (ss_handled ss). \<exists>r. req = O_Release r))"
proof -
  obtain ss where ss: "output_session L C ins = Some ss"
    using output_safe.session_safe [where s = output_server_init and ins = ins]
    by (auto simp: output_session_def)
  then show ?thesis
    using output_flag [OF ss] server_program_not_crashed [of env output_globals os_output_released ss]
      server_program_success [of env output_globals os_output_released ss]
    by (simp add: output_server_fd_def output_globals_def)
qed

end
