(* ===== verification/Subsurface_Server.thy ===== *)
theory Subsurface_Server
  imports Libwayland
begin

text \<open>
  The libwayland subsurface server (\<open>src/bench/subsurface-interop-server.c\<close>): it remembers the
  first surface as parent and every later one as child, accepts one fixed use of the subsurface
  requests and counts surfaces and commits. The pointers it keeps are compared, never followed.
\<close>

record subsurface_server =
  sub_parent :: "resource option"
  sub_child :: "resource option"
  sub_surfaces_created :: int
  sub_surfaces_destroyed :: int
  sub_surface_commits :: int
  sub_subsurface_created :: bool
  sub_positioned :: bool
  sub_above :: bool
  sub_below :: bool
  sub_sync :: bool
  sub_desync :: bool
  sub_subsurface_destroyed :: bool
  sub_subcompositor_destroyed :: bool

definition subsurface_server_init :: subsurface_server where
  "subsurface_server_init = \<lparr>sub_parent = None, sub_child = None, sub_surfaces_created = 0,
     sub_surfaces_destroyed = 0, sub_surface_commits = 0, sub_subsurface_created = False,
     sub_positioned = False, sub_above = False, sub_below = False, sub_sync = False,
     sub_desync = False, sub_subsurface_destroyed = False, sub_subcompositor_destroyed = False\<rparr>"

text \<open>This server sends no events.\<close>

type_synonym subsurface_step = "subsurface_server \<times> unit wl_call list"

datatype subsurface_request =
    SS_Bind_Compositor u32 u32
  | SS_Bind_Subcompositor u32 u32
  | SS_Create_Surface resource u32
  | SS_Create_Region resource u32
  | SS_Surface_Destroy resource
  | SS_Surface_Commit resource
  | SS_Get_Subsurface resource u32 resource resource
  | SS_Subcompositor_Destroy resource
  | SS_Destroy resource
  | SS_Set_Position resource int int
  | SS_Place_Above resource resource
  | SS_Place_Below resource resource
  | SS_Set_Sync resource
  | SS_Set_Desync resource
  | SS_Client_Destroyed

section \<open>Handlers\<close>

definition subsurface_destroy :: "resource \<Rightarrow> subsurface_server \<Rightarrow> subsurface_step" where
  "subsurface_destroy r s = (s\<lparr>sub_subsurface_destroyed := True\<rparr>, [Destroy r])"

definition subsurface_set_position :: "int \<Rightarrow> int \<Rightarrow> subsurface_server \<Rightarrow> subsurface_step" where
  "subsurface_set_position x y s =
     (if x \<noteq> -7 \<or> y \<noteq> 11 then (s, [Implementation_Error ''invalid position''])
      else (s\<lparr>sub_positioned := True\<rparr>, []))"

definition subsurface_place_above :: "resource \<Rightarrow> subsurface_server \<Rightarrow> subsurface_step" where
  "subsurface_place_above sibling s =
     (if Some sibling \<noteq> sub_parent s then (s, [Implementation_Error ''invalid upper sibling''])
      else (s\<lparr>sub_above := True\<rparr>, []))"

definition subsurface_place_below :: "resource \<Rightarrow> subsurface_server \<Rightarrow> subsurface_step" where
  "subsurface_place_below sibling s =
     (if Some sibling \<noteq> sub_parent s then (s, [Implementation_Error ''invalid lower sibling''])
      else (s\<lparr>sub_below := True\<rparr>, []))"

definition subsurface_set_sync :: "subsurface_server \<Rightarrow> subsurface_step" where
  "subsurface_set_sync s = (s\<lparr>sub_sync := True\<rparr>, [])"

definition subsurface_set_desync :: "subsurface_server \<Rightarrow> subsurface_step" where
  "subsurface_set_desync s = (s\<lparr>sub_desync := True\<rparr>, [])"

definition subcompositor_destroy :: "resource \<Rightarrow> subsurface_server \<Rightarrow> subsurface_step" where
  "subcompositor_destroy r s = (s\<lparr>sub_subcompositor_destroyed := True\<rparr>, [Destroy r])"

definition subcompositor_get_subsurface ::
    "u32 \<Rightarrow> resource \<Rightarrow> resource \<Rightarrow> resource option \<Rightarrow> subsurface_server \<Rightarrow> subsurface_step" where
  "subcompositor_get_subsurface rid surface parent new s =
     (if Some surface \<noteq> sub_child s \<or> Some parent \<noteq> sub_parent s
      then (s, [Implementation_Error ''invalid subsurface pair''])
      else (if new = None then s else s\<lparr>sub_subsurface_created := True\<rparr>,
            create_resource new ''wl_subsurface'' 1 rid (\<lambda>r. [])))"

definition subsurface_bind_subcompositor ::
    "u32 \<Rightarrow> u32 \<Rightarrow> resource option \<Rightarrow> subsurface_server \<Rightarrow> subsurface_step" where
  "subsurface_bind_subcompositor version rid new s =
     (s, create_resource new ''wl_subcompositor'' (min_version version 1) rid (\<lambda>r. []))"

definition subsurface_surface_destroy :: "resource \<Rightarrow> subsurface_server \<Rightarrow> subsurface_step" where
  "subsurface_surface_destroy r s =
     (s\<lparr>sub_surfaces_destroyed := sub_surfaces_destroyed s + 1\<rparr>, [Destroy r])"

definition subsurface_surface_commit :: "subsurface_server \<Rightarrow> subsurface_step" where
  "subsurface_surface_commit s = (s\<lparr>sub_surface_commits := sub_surface_commits s + 1\<rparr>, [])"

definition subsurface_create_surface ::
    "wl_lib \<Rightarrow> resource \<Rightarrow> u32 \<Rightarrow> resource option \<Rightarrow> subsurface_server \<Rightarrow> subsurface_step" where
  "subsurface_create_surface L compositor rid new s =
     (if new = None then s
      else let s1 = s\<lparr>sub_surfaces_created := sub_surfaces_created s + 1\<rparr>
           in if sub_surfaces_created s = 0 then s1\<lparr>sub_parent := new\<rparr> else s1\<lparr>sub_child := new\<rparr>,
      create_resource new ''wl_surface'' (version_of L compositor) rid (\<lambda>r. []))"

definition subsurface_create_region :: "subsurface_server \<Rightarrow> subsurface_step" where
  "subsurface_create_region s = (s, [Implementation_Error ''unexpected region''])"

definition subsurface_bind_compositor ::
    "u32 \<Rightarrow> u32 \<Rightarrow> resource option \<Rightarrow> subsurface_server \<Rightarrow> subsurface_step" where
  "subsurface_bind_compositor version rid new s =
     (s, create_resource new ''wl_compositor'' (min_version version 4) rid (\<lambda>r. []))"

definition subsurface_client_destroy :: "subsurface_server \<Rightarrow> subsurface_step" where
  "subsurface_client_destroy s = (s, [Terminate])"

fun subsurface_handle ::
    "wl_lib \<Rightarrow> subsurface_request \<Rightarrow> resource option \<Rightarrow> subsurface_server \<Rightarrow> subsurface_step" where
  "subsurface_handle L (SS_Bind_Compositor v rid) new s = subsurface_bind_compositor v rid new s"
| "subsurface_handle L (SS_Bind_Subcompositor v rid) new s = subsurface_bind_subcompositor v rid new s"
| "subsurface_handle L (SS_Create_Surface r rid) new s = subsurface_create_surface L r rid new s"
| "subsurface_handle L (SS_Create_Region r rid) new s = subsurface_create_region s"
| "subsurface_handle L (SS_Surface_Destroy r) new s = subsurface_surface_destroy r s"
| "subsurface_handle L (SS_Surface_Commit r) new s = subsurface_surface_commit s"
| "subsurface_handle L (SS_Get_Subsurface r rid surface parent) new s =
     subcompositor_get_subsurface rid surface parent new s"
| "subsurface_handle L (SS_Subcompositor_Destroy r) new s = subcompositor_destroy r s"
| "subsurface_handle L (SS_Destroy r) new s = subsurface_destroy r s"
| "subsurface_handle L (SS_Set_Position r x y) new s = subsurface_set_position x y s"
| "subsurface_handle L (SS_Place_Above r sibling) new s = subsurface_place_above sibling s"
| "subsurface_handle L (SS_Place_Below r sibling) new s = subsurface_place_below sibling s"
| "subsurface_handle L (SS_Set_Sync r) new s = subsurface_set_sync s"
| "subsurface_handle L (SS_Set_Desync r) new s = subsurface_set_desync s"
| "subsurface_handle L SS_Client_Destroyed new s = subsurface_client_destroy s"

fun subsurface_args :: "subsurface_request \<Rightarrow> (resource \<times> string) list" where
  "subsurface_args (SS_Create_Surface r rid) = [(r, ''wl_compositor'')]"
| "subsurface_args (SS_Create_Region r rid) = [(r, ''wl_compositor'')]"
| "subsurface_args (SS_Surface_Destroy r) = [(r, ''wl_surface'')]"
| "subsurface_args (SS_Surface_Commit r) = [(r, ''wl_surface'')]"
| "subsurface_args (SS_Get_Subsurface r rid surface parent) =
     [(r, ''wl_subcompositor''), (surface, ''wl_surface''), (parent, ''wl_surface'')]"
| "subsurface_args (SS_Subcompositor_Destroy r) = [(r, ''wl_subcompositor'')]"
| "subsurface_args (SS_Destroy r) = [(r, ''wl_subsurface'')]"
| "subsurface_args (SS_Set_Position r x y) = [(r, ''wl_subsurface'')]"
| "subsurface_args (SS_Place_Above r sibling) = [(r, ''wl_subsurface''), (sibling, ''wl_surface'')]"
| "subsurface_args (SS_Place_Below r sibling) = [(r, ''wl_subsurface''), (sibling, ''wl_surface'')]"
| "subsurface_args (SS_Set_Sync r) = [(r, ''wl_subsurface'')]"
| "subsurface_args (SS_Set_Desync r) = [(r, ''wl_subsurface'')]"
| "subsurface_args _ = []"

definition subsurface_uses :: "unit \<Rightarrow> resource option list" where
  "subsurface_uses e = []"

definition subsurface_status :: "subsurface_server \<Rightarrow> bool" where
  "subsurface_status s \<longleftrightarrow>
     sub_surfaces_created s = 2 \<and> sub_surfaces_destroyed s = 2 \<and> sub_surface_commits s = 3 \<and>
     sub_subsurface_created s \<and> sub_positioned s \<and> sub_above s \<and> sub_below s \<and> sub_sync s \<and>
     sub_desync s \<and> sub_subsurface_destroyed s \<and> sub_subcompositor_destroyed s"

definition subsurface_globals :: "(string \<times> nat) list" where
  "subsurface_globals = [(''wl_compositor'', 4), (''wl_subcompositor'', 1)]"

definition subsurface_session :: "wl_lib \<Rightarrow> subsurface_request input list \<Rightarrow>
    (subsurface_server, subsurface_request, unit) session option" where
  "subsurface_session L ins = serve (subsurface_handle L) subsurface_args subsurface_uses ins
     (start_session subsurface_server_init)"

definition subsurface_server_fd :: "main_env \<Rightarrow> wl_lib \<Rightarrow> subsurface_request input list \<Rightarrow> outcome" where
  "subsurface_server_fd env L ins =
     server_program env subsurface_globals subsurface_status (subsurface_session L ins)"

lemmas subsurface_handler_defs = subsurface_destroy_def subsurface_set_position_def
  subsurface_place_above_def subsurface_place_below_def subsurface_set_sync_def
  subsurface_set_desync_def subcompositor_destroy_def subcompositor_get_subsurface_def
  subsurface_bind_subcompositor_def subsurface_surface_destroy_def subsurface_surface_commit_def
  subsurface_create_surface_def subsurface_create_region_def subsurface_bind_compositor_def
  subsurface_client_destroy_def create_resource_def

interpretation subsurface_safe: safe_server "subsurface_handle L" subsurface_args subsurface_uses "\<lambda>s. []"
  for L
proof unfold_locales
  fix s live req new s' calls
  assume "exist (subsurface_args req) live" and "subsurface_handle L req new s = (s', calls)"
  then show "\<exists>live'. exec_calls subsurface_uses calls live = Some live' \<and> exist [] live'"
    by (cases req; cases new) (auto simp: subsurface_handler_defs split: if_splits)
qed

section \<open>What the verdict means\<close>

text \<open>The surfaces a session created, in order.\<close>

fun surfaces_of :: "subsurface_request input list \<Rightarrow> resource list" where
  "surfaces_of [] = []"
| "surfaces_of ((SS_Create_Surface c rid, Some r) # ins) = r # surfaces_of ins"
| "surfaces_of (i # ins) = surfaces_of ins"

lemma surfaces_of_append [simp]: "surfaces_of (xs @ ys) = surfaces_of xs @ surfaces_of ys"
  by (induction xs rule: surfaces_of.induct) auto

text \<open>
  The parent is the first surface of the session and the child the last of the others, and the
  counters count what was handled.
\<close>

definition subsurface_tracks :: "subsurface_request input list \<Rightarrow> subsurface_server \<Rightarrow> bool" where
  "subsurface_tracks hs s \<longleftrightarrow>
     sub_surfaces_created s = int (length (surfaces_of hs)) \<and>
     sub_parent s = (case surfaces_of hs of [] \<Rightarrow> None | r # _ \<Rightarrow> Some r) \<and>
     sub_child s = (case surfaces_of hs of [] \<Rightarrow> None | [r] \<Rightarrow> None | r # rs \<Rightarrow> Some (last rs))"

lemma subsurface_tracks_step:
  "subsurface_tracks hs s \<Longrightarrow> subsurface_tracks (hs @ [(req, new)]) (fst (subsurface_handle L req new s))"
  by (cases req; cases new)
     (auto simp: subsurface_tracks_def subsurface_handler_defs Let_def split: list.splits)

lemma subsurface_session_tracks:
  "subsurface_session L ins = Some ss \<Longrightarrow> subsurface_tracks (ss_handled ss) (ss_state ss)"
  unfolding subsurface_session_def
  by (rule serve_start_invariant)
     (auto simp: subsurface_tracks_step, simp add: subsurface_tracks_def subsurface_server_init_def)

lemma subsurface_counts:
  assumes "subsurface_session L ins = Some ss"
  shows "sub_surface_commits (ss_state ss) =
      int (length (filter (\<lambda>(req, new). \<exists>r. req = SS_Surface_Commit r) (ss_handled ss)))"
    and "sub_surfaces_destroyed (ss_state ss) =
      int (length (filter (\<lambda>(req, new). \<exists>r. req = SS_Surface_Destroy r) (ss_handled ss)))"
  by (rule serve_counter [OF assms [unfolded subsurface_session_def]],
      simp add: subsurface_server_init_def,
      case_tac req; auto simp: subsurface_handler_defs Let_def)+

text \<open>What a raised flag says about the requests: the parent, once set, never changes.\<close>

lemma subsurface_parent_kept:
  "subsurface_tracks hs s \<Longrightarrow> sub_parent s = Some p \<Longrightarrow> sub_parent (fst (subsurface_handle L req new s)) = Some p"
  by (cases req; cases new)
     (auto simp: subsurface_tracks_def subsurface_handler_defs Let_def split: list.splits)

lemma subsurface_simple_flags:
  assumes "subsurface_session L ins = Some ss"
  shows "sub_positioned (ss_state ss) \<longleftrightarrow> asked (ss_handled ss) (\<lambda>q. \<exists>r. q = SS_Set_Position r (-7) 11)"
    and "sub_sync (ss_state ss) \<longleftrightarrow> asked (ss_handled ss) (\<lambda>q. \<exists>r. q = SS_Set_Sync r)"
    and "sub_desync (ss_state ss) \<longleftrightarrow> asked (ss_handled ss) (\<lambda>q. \<exists>r. q = SS_Set_Desync r)"
    and "sub_subsurface_destroyed (ss_state ss) \<longleftrightarrow> asked (ss_handled ss) (\<lambda>q. \<exists>r. q = SS_Destroy r)"
    and "sub_subcompositor_destroyed (ss_state ss) \<longleftrightarrow>
      asked (ss_handled ss) (\<lambda>q. \<exists>r. q = SS_Subcompositor_Destroy r)"
  unfolding asked_def
  by (rule serve_flag [OF assms [unfolded subsurface_session_def]],
      simp add: subsurface_server_init_def,
      case_tac req; auto simp: subsurface_handler_defs Let_def)+

text \<open>
  A flag that is raised by a request naming the parent: it implies that the parent was named.
\<close>

lemma subsurface_parent_flag:
  assumes "subsurface_session L ins = Some ss" and "\<not> flag subsurface_server_init"
    and raise: "\<And>s req new. flag (fst (subsurface_handle L req new s)) \<Longrightarrow>
      flag s \<or> (\<exists>p. sub_parent s = Some p \<and> trig p req)"
    and "flag (ss_state ss)"
  shows "\<exists>p. sub_parent (ss_state ss) = Some p \<and> asked (ss_handled ss) (trig p)"
proof -
  let ?I = "\<lambda>hs s. subsurface_tracks hs s \<and>
    (flag s \<longrightarrow> (\<exists>p. sub_parent s = Some p \<and> asked hs (trig p)))"
  have "?I (ss_handled ss) (ss_state ss)"
  proof (rule serve_start_invariant [where I = ?I, OF assms(1) [unfolded subsurface_session_def]])
    show "?I [] subsurface_server_init"
      using assms(2) by (simp add: subsurface_tracks_def subsurface_server_init_def)
  next
    fix hs s req new
    assume I: "?I hs s"
    then have tr: "subsurface_tracks hs s" by simp
    let ?s = "fst (subsurface_handle L req new s)"
    have "\<exists>p. sub_parent ?s = Some p \<and> asked (hs @ [(req, new)]) (trig p)" if "flag ?s"
      using raise [OF that] I subsurface_parent_kept [OF tr] by auto
    with subsurface_tracks_step [OF tr] show "?I (hs @ [(req, new)]) ?s" by blast
  qed
  with assms(4) show ?thesis by blast
qed

lemma subsurface_raise:
  "sub_above (fst (subsurface_handle L req new s)) \<Longrightarrow>
     sub_above s \<or> (\<exists>p. sub_parent s = Some p \<and> (\<exists>r. req = SS_Place_Above r p))"
  "sub_below (fst (subsurface_handle L req new s)) \<Longrightarrow>
     sub_below s \<or> (\<exists>p. sub_parent s = Some p \<and> (\<exists>r. req = SS_Place_Below r p))"
  by (cases req; auto simp: subsurface_handler_defs Let_def split: if_splits)+

lemma subsurface_created_pair:
  assumes "subsurface_session L ins = Some ss" and "sub_subsurface_created (ss_state ss)"
  shows "\<exists>p. sub_parent (ss_state ss) = Some p \<and> (\<exists>c \<in> set (tl (surfaces_of (ss_handled ss))).
    asked (ss_handled ss) (\<lambda>q. \<exists>r rid. q = SS_Get_Subsurface r rid c p))"
proof -
  let ?I = "\<lambda>hs s. subsurface_tracks hs s \<and> (sub_subsurface_created s \<longrightarrow>
    (\<exists>p. sub_parent s = Some p \<and> (\<exists>c \<in> set (tl (surfaces_of hs)).
       asked hs (\<lambda>q. \<exists>r rid. q = SS_Get_Subsurface r rid c p))))"
  have "?I (ss_handled ss) (ss_state ss)"
  proof (rule serve_start_invariant [where I = ?I, OF assms(1) [unfolded subsurface_session_def]])
    show "?I [] subsurface_server_init"
      by (simp add: subsurface_tracks_def subsurface_server_init_def)
  next
    fix hs s req new
    assume I: "?I hs s"
    then have tr: "subsurface_tracks hs s" by simp
    let ?s = "fst (subsurface_handle L req new s)" and ?hs = "hs @ [(req, new)]"
    have tl: "set (tl (surfaces_of hs)) \<subseteq> set (tl (surfaces_of ?hs))"
      by (cases "surfaces_of hs") auto
    have "\<exists>p. sub_parent ?s = Some p \<and> (\<exists>c \<in> set (tl (surfaces_of ?hs)).
        asked ?hs (\<lambda>q. \<exists>r rid. q = SS_Get_Subsurface r rid c p))" if c: "sub_subsurface_created ?s"
    proof (cases "sub_subsurface_created s")
      case True
      with I subsurface_parent_kept [OF tr] tl show ?thesis by auto blast
    next
      case False
      with c obtain r rid surface p where q: "req = SS_Get_Subsurface r rid surface p"
        "sub_child s = Some surface" "sub_parent s = Some p"
        by (cases req) (auto simp: subsurface_handler_defs Let_def split: if_splits)
      from tr q(2) have "surface \<in> set (tl (surfaces_of hs))"
        by (auto simp: subsurface_tracks_def split: list.splits)
      with tl have "surface \<in> set (tl (surfaces_of ?hs))" by blast
      moreover have "sub_parent ?s = Some p" by (rule subsurface_parent_kept [OF tr q(3)])
      ultimately show ?thesis using q(1) by auto
    qed
    with subsurface_tracks_step [OF tr] show "?I ?hs ?s" by blast
  qed
  with assms(2) show ?thesis by blast
qed


text \<open>The session the client of the same directory runs (\<open>subsurface-interop-client.c\<close>).\<close>

definition subsurface_demo :: "subsurface_request input list" where
  "subsurface_demo =
     [(SS_Bind_Compositor 4 3, Some 1), (SS_Bind_Subcompositor 1 4, Some 2),
      (SS_Create_Surface 1 5, Some 3), (SS_Create_Surface 1 6, Some 4),
      (SS_Get_Subsurface 2 7 4 3, Some 5), (SS_Set_Position 5 (-7) 11, None),
      (SS_Place_Above 5 3, None), (SS_Place_Below 5 3, None), (SS_Surface_Commit 4, None),
      (SS_Surface_Commit 3, None), (SS_Set_Sync 5, None), (SS_Surface_Commit 4, None),
      (SS_Set_Desync 5, None), (SS_Surface_Destroy 3, None), (SS_Destroy 5, None),
      (SS_Surface_Destroy 4, None), (SS_Subcompositor_Destroy 2, None), (SS_Client_Destroyed, None)]"

section \<open>Properties\<close>

text \<open>C15: the subsurface server never uses a NULL or dangling resource, and success is a proof of the
  whole scenario: exactly two surfaces were created, both destroyed, three commits arrived, and the
  client made the second surface a subsurface of the first, moved it to (-7, 11), stacked it above
  and below its parent, switched it to synchronised and back, and destroyed the subsurface and the
  subcompositor.\<close>

theorem subsurface_success_means_scenario:
  assumes "exits_with EXIT_SUCCESS (subsurface_server_fd env L ins)"
  shows "\<exists>ss p c. subsurface_session L ins = Some ss \<and> surfaces_of (ss_handled ss) = [p, c] \<and>
    length (filter (\<lambda>(req, new). \<exists>r. req = SS_Surface_Destroy r) (ss_handled ss)) = 2 \<and>
    length (filter (\<lambda>(req, new). \<exists>r. req = SS_Surface_Commit r) (ss_handled ss)) = 3 \<and>
    asked (ss_handled ss) (\<lambda>q. \<exists>r rid. q = SS_Get_Subsurface r rid c p) \<and>
    asked (ss_handled ss) (\<lambda>q. \<exists>r. q = SS_Set_Position r (-7) 11) \<and>
    asked (ss_handled ss) (\<lambda>q. \<exists>r. q = SS_Place_Above r p) \<and>
    asked (ss_handled ss) (\<lambda>q. \<exists>r. q = SS_Place_Below r p) \<and>
    asked (ss_handled ss) (\<lambda>q. \<exists>r. q = SS_Set_Sync r) \<and>
    asked (ss_handled ss) (\<lambda>q. \<exists>r. q = SS_Set_Desync r) \<and>
    asked (ss_handled ss) (\<lambda>q. \<exists>r. q = SS_Destroy r) \<and>
    asked (ss_handled ss) (\<lambda>q. \<exists>r. q = SS_Subcompositor_Destroy r)"
proof -
  obtain ss where ss: "subsurface_session L ins = Some ss"
    using subsurface_safe.session_safe [where s = subsurface_server_init and ins = ins]
    by (auto simp: subsurface_session_def)
  with assms have st: "subsurface_status (ss_state ss)"
    using server_program_success [of env subsurface_globals subsurface_status ss]
    by (simp add: subsurface_server_fd_def)
  note f = st [unfolded subsurface_status_def] and tr = subsurface_session_tracks [OF ss]
  from f tr have "length (surfaces_of (ss_handled ss)) = 2" by (simp add: subsurface_tracks_def)
  then obtain p c where pc: "surfaces_of (ss_handled ss) = [p, c]"
    by (auto simp: numeral_2_eq_2 length_Suc_conv)
  with tr have p: "sub_parent (ss_state ss) = Some p" by (simp add: subsurface_tracks_def)
  have above: "asked (ss_handled ss) (\<lambda>q. \<exists>r. q = SS_Place_Above r p)"
    using subsurface_parent_flag [OF ss, where flag = sub_above
        and trig = "\<lambda>p q. \<exists>r. q = SS_Place_Above r p", OF _ subsurface_raise(1)] f p
    by (auto simp: subsurface_server_init_def)
  have below: "asked (ss_handled ss) (\<lambda>q. \<exists>r. q = SS_Place_Below r p)"
    using subsurface_parent_flag [OF ss, where flag = sub_below
        and trig = "\<lambda>p q. \<exists>r. q = SS_Place_Below r p", OF _ subsurface_raise(2)] f p
    by (auto simp: subsurface_server_init_def)
  have pair: "asked (ss_handled ss) (\<lambda>q. \<exists>r rid. q = SS_Get_Subsurface r rid c p)"
    using subsurface_created_pair [OF ss] f p pc by auto
  show ?thesis
    using ss pc f above below pair subsurface_simple_flags [OF ss] subsurface_counts [OF ss]
    by (intro exI [of _ ss] exI [of _ p] exI [of _ c]) simp
qed

theorem subsurface_success_means_scenario_witness:
  "\<exists>ss p c. subsurface_session demo_lib subsurface_demo = Some ss \<and> surfaces_of (ss_handled ss) = [p, c]"
proof -
  have "exits_with EXIT_SUCCESS (subsurface_server_fd demo_env demo_lib subsurface_demo)"
    by (simp add: exits_with_def subsurface_server_fd_def server_program_def server_main_def env_ok_def
        demo_env_def subsurface_globals_def subsurface_session_def subsurface_demo_def
        start_session_def deliver_def deliverable_def terminated_def subsurface_handler_defs
        subsurface_server_init_def subsurface_status_def subsurface_uses_def Let_def)
  from subsurface_success_means_scenario [OF this] show ?thesis by blast
qed

end
