(* ===== verification/Shell_Server.thy ===== *)
theory Shell_Server
  imports Libwayland
begin

text \<open>
  The libwayland shell server (\<open>src/bench/shell-interop-server.c\<close>): a compositor and the deprecated
  shell interface. It pings and configures every shell surface it creates, accepts a title, a class
  and the toplevel role, refuses every other role, and records what the client did.
\<close>

record shell_server =
  sh_shell_surface_created :: bool
  sh_pong :: bool
  sh_title :: bool
  sh_class_name :: bool
  sh_toplevel :: bool
  sh_surface_destroyed :: bool

definition shell_server_init :: shell_server where
  "shell_server_init = \<lparr>sh_shell_surface_created = False, sh_pong = False, sh_title = False,
     sh_class_name = False, sh_toplevel = False, sh_surface_destroyed = False\<rparr>"

datatype resize_edge = Resize_None | Resize_Bottom_Right

datatype shell_event =
    SH_Ping resource u32
  | SH_Configure resource resize_edge int int
  | SH_Popup_Done resource

datatype shell_request =
    SH_Bind_Compositor u32 u32
  | SH_Bind_Shell u32 u32
  | SH_Create_Surface resource u32
  | SH_Create_Region resource u32
  | SH_Surface_Destroy resource
  | SH_Get_Shell_Surface resource u32 resource
  | SH_Pong resource u32
  | SH_Move resource resource u32
  | SH_Resize resource resource u32 u32
  | SH_Set_Toplevel resource
  | SH_Set_Transient resource resource int int u32
  | SH_Set_Fullscreen resource u32 u32 "resource option"
  | SH_Set_Popup resource resource u32 resource int int u32
  | SH_Set_Maximized resource "resource option"
  | SH_Set_Title resource string
  | SH_Set_Class resource string
  | SH_Client_Destroyed

type_synonym shell_step = "shell_server \<times> shell_event wl_call list"

section \<open>Handlers\<close>

definition shell_surface_pong :: "u32 \<Rightarrow> shell_server \<Rightarrow> shell_step" where
  "shell_surface_pong serial s = (if serial = 41 then s\<lparr>sh_pong := True\<rparr> else s, [])"

definition shell_surface_move :: "shell_server \<Rightarrow> shell_step" where
  "shell_surface_move s = (s, [Implementation_Error ''unexpected shell move''])"

definition shell_surface_resize :: "shell_server \<Rightarrow> shell_step" where
  "shell_surface_resize s = (s, [Implementation_Error ''unexpected shell resize''])"

definition shell_surface_set_toplevel :: "shell_server \<Rightarrow> shell_step" where
  "shell_surface_set_toplevel s = (s\<lparr>sh_toplevel := True\<rparr>, [])"

definition shell_surface_set_transient :: "shell_server \<Rightarrow> shell_step" where
  "shell_surface_set_transient s = (s, [Implementation_Error ''unexpected transient shell surface''])"

definition shell_surface_set_fullscreen :: "shell_server \<Rightarrow> shell_step" where
  "shell_surface_set_fullscreen s = (s, [Implementation_Error ''unexpected fullscreen shell surface''])"

definition shell_surface_set_popup :: "shell_server \<Rightarrow> shell_step" where
  "shell_surface_set_popup s = (s, [Implementation_Error ''unexpected popup shell surface''])"

definition shell_surface_set_maximized :: "shell_server \<Rightarrow> shell_step" where
  "shell_surface_set_maximized s = (s, [Implementation_Error ''unexpected maximized shell surface''])"

definition shell_surface_set_title :: "string \<Rightarrow> shell_server \<Rightarrow> shell_step" where
  "shell_surface_set_title title s =
     (if title = ''wayring-shell'' then s\<lparr>sh_title := True\<rparr> else s, [])"

definition shell_surface_set_class :: "string \<Rightarrow> shell_server \<Rightarrow> shell_step" where
  "shell_surface_set_class class_name s =
     (if class_name = ''wayring'' then s\<lparr>sh_class_name := True\<rparr> else s, [])"

definition shell_get_shell_surface :: "u32 \<Rightarrow> resource option \<Rightarrow> shell_server \<Rightarrow> shell_step" where
  "shell_get_shell_surface rid new s =
     (if new = None then s else s\<lparr>sh_shell_surface_created := True\<rparr>,
      create_resource new ''wl_shell_surface'' 1 rid (\<lambda>shell_surface.
        [Send (SH_Ping shell_surface 41),
         Send (SH_Configure shell_surface Resize_Bottom_Right 800 600),
         Send (SH_Popup_Done shell_surface)]))"

definition shell_bind_shell :: "u32 \<Rightarrow> u32 \<Rightarrow> resource option \<Rightarrow> shell_server \<Rightarrow> shell_step" where
  "shell_bind_shell version rid new s =
     (s, create_resource new ''wl_shell'' (min_version version 1) rid (\<lambda>r. []))"

definition shell_surface_destroy :: "resource \<Rightarrow> shell_server \<Rightarrow> shell_step" where
  "shell_surface_destroy r s = (s\<lparr>sh_surface_destroyed := True\<rparr>, [Destroy r])"

definition shell_create_surface ::
    "wl_lib \<Rightarrow> resource \<Rightarrow> u32 \<Rightarrow> resource option \<Rightarrow> shell_server \<Rightarrow> shell_step" where
  "shell_create_surface L compositor rid new s =
     (s, create_resource new ''wl_surface'' (version_of L compositor) rid (\<lambda>r. []))"

definition shell_create_region :: "shell_server \<Rightarrow> shell_step" where
  "shell_create_region s = (s, [Implementation_Error ''unexpected shell region''])"

definition shell_bind_compositor :: "u32 \<Rightarrow> u32 \<Rightarrow> resource option \<Rightarrow> shell_server \<Rightarrow> shell_step" where
  "shell_bind_compositor version rid new s =
     (s, create_resource new ''wl_compositor'' (min_version version 4) rid (\<lambda>r. []))"

definition shell_client_destroyed :: "shell_server \<Rightarrow> shell_step" where
  "shell_client_destroyed s = (s, [Terminate])"

fun shell_handle :: "wl_lib \<Rightarrow> shell_request \<Rightarrow> resource option \<Rightarrow> shell_server \<Rightarrow> shell_step" where
  "shell_handle L (SH_Bind_Compositor version rid) new s = shell_bind_compositor version rid new s"
| "shell_handle L (SH_Bind_Shell version rid) new s = shell_bind_shell version rid new s"
| "shell_handle L (SH_Create_Surface r rid) new s = shell_create_surface L r rid new s"
| "shell_handle L (SH_Create_Region r rid) new s = shell_create_region s"
| "shell_handle L (SH_Surface_Destroy r) new s = shell_surface_destroy r s"
| "shell_handle L (SH_Get_Shell_Surface r rid surface) new s = shell_get_shell_surface rid new s"
| "shell_handle L (SH_Pong r serial) new s = shell_surface_pong serial s"
| "shell_handle L (SH_Move r seat serial) new s = shell_surface_move s"
| "shell_handle L (SH_Resize r seat serial edges) new s = shell_surface_resize s"
| "shell_handle L (SH_Set_Toplevel r) new s = shell_surface_set_toplevel s"
| "shell_handle L (SH_Set_Transient r parent x y flags) new s = shell_surface_set_transient s"
| "shell_handle L (SH_Set_Fullscreen r method framerate output) new s = shell_surface_set_fullscreen s"
| "shell_handle L (SH_Set_Popup r seat serial parent x y flags) new s = shell_surface_set_popup s"
| "shell_handle L (SH_Set_Maximized r output) new s = shell_surface_set_maximized s"
| "shell_handle L (SH_Set_Title r title) new s = shell_surface_set_title title s"
| "shell_handle L (SH_Set_Class r class_name) new s = shell_surface_set_class class_name s"
| "shell_handle L SH_Client_Destroyed new s = shell_client_destroyed s"

fun shell_args :: "shell_request \<Rightarrow> (resource \<times> string) list" where
  "shell_args (SH_Create_Surface r rid) = [(r, ''wl_compositor'')]"
| "shell_args (SH_Create_Region r rid) = [(r, ''wl_compositor'')]"
| "shell_args (SH_Surface_Destroy r) = [(r, ''wl_surface'')]"
| "shell_args (SH_Get_Shell_Surface r rid surface) = [(r, ''wl_shell''), (surface, ''wl_surface'')]"
| "shell_args (SH_Pong r serial) = [(r, ''wl_shell_surface'')]"
| "shell_args (SH_Move r seat serial) = [(r, ''wl_shell_surface''), (seat, ''wl_seat'')]"
| "shell_args (SH_Resize r seat serial edges) = [(r, ''wl_shell_surface''), (seat, ''wl_seat'')]"
| "shell_args (SH_Set_Toplevel r) = [(r, ''wl_shell_surface'')]"
| "shell_args (SH_Set_Transient r parent x y flags) =
     [(r, ''wl_shell_surface''), (parent, ''wl_surface'')]"
| "shell_args (SH_Set_Fullscreen r method framerate output) =
     (r, ''wl_shell_surface'') # held output ''wl_output''"
| "shell_args (SH_Set_Popup r seat serial parent x y flags) =
     [(r, ''wl_shell_surface''), (seat, ''wl_seat''), (parent, ''wl_surface'')]"
| "shell_args (SH_Set_Maximized r output) = (r, ''wl_shell_surface'') # held output ''wl_output''"
| "shell_args (SH_Set_Title r title) = [(r, ''wl_shell_surface'')]"
| "shell_args (SH_Set_Class r class_name) = [(r, ''wl_shell_surface'')]"
| "shell_args _ = []"

fun shell_uses :: "shell_event \<Rightarrow> resource option list" where
  "shell_uses (SH_Ping r serial) = [Some r]"
| "shell_uses (SH_Configure r edges w h) = [Some r]"
| "shell_uses (SH_Popup_Done r) = [Some r]"

definition shell_status :: "shell_server \<Rightarrow> bool" where
  "shell_status s \<longleftrightarrow> sh_shell_surface_created s \<and> sh_pong s \<and> sh_title s \<and> sh_class_name s \<and>
     sh_toplevel s \<and> sh_surface_destroyed s"

definition shell_globals :: "(string \<times> nat) list" where
  "shell_globals = [(''wl_compositor'', 4), (''wl_shell'', 1)]"

definition shell_session :: "wl_lib \<Rightarrow> shell_request input list \<Rightarrow>
    (shell_server, shell_request, shell_event) session option" where
  "shell_session L ins = serve (shell_handle L) shell_args shell_uses ins (start_session shell_server_init)"

definition shell_server_fd :: "main_env \<Rightarrow> wl_lib \<Rightarrow> shell_request input list \<Rightarrow> outcome" where
  "shell_server_fd env L ins = server_program env shell_globals shell_status (shell_session L ins)"

lemmas shell_handler_defs = shell_surface_pong_def shell_surface_move_def shell_surface_resize_def
  shell_surface_set_toplevel_def shell_surface_set_transient_def shell_surface_set_fullscreen_def
  shell_surface_set_popup_def shell_surface_set_maximized_def shell_surface_set_title_def
  shell_surface_set_class_def shell_get_shell_surface_def shell_bind_shell_def
  shell_surface_destroy_def shell_create_surface_def shell_create_region_def
  shell_bind_compositor_def shell_client_destroyed_def create_resource_def

interpretation shell_safe: safe_server "shell_handle L" shell_args shell_uses "\<lambda>s. []" for L
proof unfold_locales
  fix s live req new s' calls
  assume "exist (shell_args req) live" and "shell_handle L req new s = (s', calls)"
  then show "\<exists>live'. exec_calls shell_uses calls live = Some live' \<and> exist [] live'"
    by (cases req; cases new) (auto simp: shell_handler_defs)
qed

lemma shell_flags:
  assumes "shell_session L ins = Some ss"
  shows "sh_shell_surface_created (ss_state ss) \<longleftrightarrow>
      (\<exists>(req, new) \<in> set (ss_handled ss). \<exists>r rid surface. req = SH_Get_Shell_Surface r rid surface \<and> new \<noteq> None)"
    and "sh_pong (ss_state ss) \<longleftrightarrow> (\<exists>(req, new) \<in> set (ss_handled ss). \<exists>r. req = SH_Pong r 41)"
    and "sh_title (ss_state ss) \<longleftrightarrow>
      (\<exists>(req, new) \<in> set (ss_handled ss). \<exists>r. req = SH_Set_Title r ''wayring-shell'')"
    and "sh_class_name (ss_state ss) \<longleftrightarrow>
      (\<exists>(req, new) \<in> set (ss_handled ss). \<exists>r. req = SH_Set_Class r ''wayring'')"
    and "sh_toplevel (ss_state ss) \<longleftrightarrow> (\<exists>(req, new) \<in> set (ss_handled ss). \<exists>r. req = SH_Set_Toplevel r)"
    and "sh_surface_destroyed (ss_state ss) \<longleftrightarrow>
      (\<exists>(req, new) \<in> set (ss_handled ss). \<exists>r. req = SH_Surface_Destroy r)"
  by (rule serve_flag [OF assms [unfolded shell_session_def]], simp add: shell_server_init_def,
      case_tac req; auto simp: shell_handler_defs)+

section \<open>Properties\<close>

text \<open>C16: whatever implemented requests a client sends, the shell server uses only resources that exist, and it exits with
  success if and only if it could start, the client has gone, and before that a shell surface was
  created, its ping answered with the serial 41, the expected title and class set, the toplevel role
  taken, and a surface destroyed.\<close>

theorem shell_server_safe_and_exact:
  "\<exists>ss. shell_session L ins = Some ss \<and> shell_server_fd env L ins \<noteq> Crashed \<and>
     (exits_with EXIT_SUCCESS (shell_server_fd env L ins) \<longleftrightarrow>
        env_ok env 2 \<and> terminated ss \<and>
        (\<exists>(req, new) \<in> set (ss_handled ss). \<exists>r rid surface. req = SH_Get_Shell_Surface r rid surface \<and> new \<noteq> None) \<and>
        (\<exists>(req, new) \<in> set (ss_handled ss). \<exists>r. req = SH_Pong r 41) \<and>
        (\<exists>(req, new) \<in> set (ss_handled ss). \<exists>r. req = SH_Set_Title r ''wayring-shell'') \<and>
        (\<exists>(req, new) \<in> set (ss_handled ss). \<exists>r. req = SH_Set_Class r ''wayring'') \<and>
        (\<exists>(req, new) \<in> set (ss_handled ss). \<exists>r. req = SH_Set_Toplevel r) \<and>
        (\<exists>(req, new) \<in> set (ss_handled ss). \<exists>r. req = SH_Surface_Destroy r))"
proof -
  obtain ss where ss: "shell_session L ins = Some ss"
    using shell_safe.session_safe [where s = shell_server_init and ins = ins]
    by (auto simp: shell_session_def)
  have two: "length shell_globals = 2" by (simp add: shell_globals_def)
  show ?thesis
    using ss server_program_not_crashed [of env shell_globals shell_status ss]
      server_program_success [of env shell_globals shell_status ss]
    unfolding shell_server_fd_def ss shell_status_def two shell_flags [OF ss] by blast
qed

end
