(* ===== verification/Xdg_Server.thy ===== *)
theory Xdg_Server
  imports Libwayland
begin

text \<open>
  The libwayland xdg-shell server (\<open>src/bench/xdg-interop-server.c\<close>): a compositor, an xdg_wm_base
  that pings, and a presentation clock. It checks that the client answers the ping, acknowledges the
  configuration, and tears its objects down in the order the protocol asks for.
\<close>

record xdg_server =
  xs_ponged :: bool
  xs_configured :: bool
  xs_toplevel_destroyed :: bool
  xs_xdg_surface_destroyed :: bool
  xs_surface_destroyed :: bool
  xs_wm_base_destroyed :: bool
  xs_presentation_destroyed :: bool
  xs_feedback_count :: int

definition xdg_server_init :: xdg_server where
  "xdg_server_init = \<lparr>xs_ponged = False, xs_configured = False, xs_toplevel_destroyed = False,
     xs_xdg_surface_destroyed = False, xs_surface_destroyed = False, xs_wm_base_destroyed = False,
     xs_presentation_destroyed = False, xs_feedback_count = 0\<rparr>"

datatype feedback_kind = Kind_Vsync

datatype xdg_event =
    XE_Presented resource u32 u32 u32 u32 u32 u32 feedback_kind
  | XE_Discarded resource
  | XE_Clock_Id resource u32
  | XE_Toplevel_Configure resource int int "u32 list"
  | XE_Surface_Configure resource u32
  | XE_Ping resource u32

datatype xdg_request =
    XR_Bind_Compositor u32 u32
  | XR_Bind_Wm_Base u32 u32
  | XR_Bind_Presentation u32 u32
  | XR_Feedback resource resource u32
  | XR_Presentation_Destroy resource
  | XR_Surface_Commit resource
  | XR_Surface_Destroy resource
  | XR_Create_Surface resource u32
  | XR_Create_Region resource u32
  | XR_Toplevel_Destroy resource
  | XR_Get_Toplevel resource u32
  | XR_Ack_Configure resource u32
  | XR_Xdg_Surface_Destroy resource
  | XR_Create_Positioner resource u32
  | XR_Get_Xdg_Surface resource u32 resource
  | XR_Pong resource u32
  | XR_Wm_Base_Destroy resource
  | XR_Client_Destroyed

type_synonym xdg_step = "xdg_server \<times> xdg_event wl_call list"

section \<open>Handlers\<close>

text \<open>
  The feedback object is created, used for one event and destroyed; it gets no implementation. The
  third and later requests post an error but are counted all the same.
\<close>

definition xdg_presentation_feedback :: "u32 \<Rightarrow> resource option \<Rightarrow> xdg_server \<Rightarrow> xdg_step" where
  "xdg_presentation_feedback rid new s =
     (case new of
        None \<Rightarrow> (s, [No_Memory])
      | Some feedback \<Rightarrow>
          let n = xs_feedback_count s + 1
          in (s\<lparr>xs_feedback_count := n\<rparr>,
              [Create feedback ''wp_presentation_feedback'' 1 rid] @
              (if n = 1 then [Send (XE_Presented feedback 1 2 3 16666667 4 5 Kind_Vsync)]
               else if n = 2 then [Send (XE_Discarded feedback)]
               else [Implementation_Error ''unexpected presentation feedback'']) @
              [Destroy feedback]))"

definition xdg_presentation_destroy :: "resource \<Rightarrow> xdg_server \<Rightarrow> xdg_step" where
  "xdg_presentation_destroy r s = (s\<lparr>xs_presentation_destroyed := True\<rparr>, [Destroy r])"

definition xdg_bind_presentation :: "u32 \<Rightarrow> u32 \<Rightarrow> resource option \<Rightarrow> xdg_server \<Rightarrow> xdg_step" where
  "xdg_bind_presentation version rid new s =
     (s, create_resource new ''wp_presentation'' (min_version version 1) rid
           (\<lambda>r. [Send (XE_Clock_Id r 1)]))"

definition xdg_surface_commit :: "xdg_server \<Rightarrow> xdg_step" where
  "xdg_surface_commit s = (s, [])"

definition xdg_wl_surface_destroy :: "resource \<Rightarrow> xdg_server \<Rightarrow> xdg_step" where
  "xdg_wl_surface_destroy r s =
     (if xs_xdg_surface_destroyed s then s\<lparr>xs_surface_destroyed := True\<rparr> else s, [Destroy r])"

definition xdg_create_surface ::
    "wl_lib \<Rightarrow> resource \<Rightarrow> u32 \<Rightarrow> resource option \<Rightarrow> xdg_server \<Rightarrow> xdg_step" where
  "xdg_create_surface L compositor rid new s =
     (s, create_resource new ''wl_surface'' (version_of L compositor) rid (\<lambda>r. []))"

definition xdg_create_region :: "xdg_server \<Rightarrow> xdg_step" where
  "xdg_create_region s = (s, [Implementation_Error ''unexpected create_region''])"

definition xdg_bind_compositor :: "u32 \<Rightarrow> u32 \<Rightarrow> resource option \<Rightarrow> xdg_server \<Rightarrow> xdg_step" where
  "xdg_bind_compositor version rid new s =
     (s, create_resource new ''wl_compositor'' (min_version version 4) rid (\<lambda>r. []))"

definition xdg_toplevel_destroy :: "resource \<Rightarrow> xdg_server \<Rightarrow> xdg_step" where
  "xdg_toplevel_destroy r s = (s\<lparr>xs_toplevel_destroyed := True\<rparr>, [Destroy r])"

definition xdg_surface_get_toplevel ::
    "wl_lib \<Rightarrow> resource \<Rightarrow> u32 \<Rightarrow> resource option \<Rightarrow> xdg_server \<Rightarrow> xdg_step" where
  "xdg_surface_get_toplevel L surface rid new s =
     (s, create_resource new ''xdg_toplevel'' (version_of L surface) rid (\<lambda>toplevel.
        [Send (XE_Toplevel_Configure toplevel 0 0 []), Send (XE_Surface_Configure surface 77)]))"

definition xdg_surface_ack_configure :: "u32 \<Rightarrow> xdg_server \<Rightarrow> xdg_step" where
  "xdg_surface_ack_configure serial s = (if serial = 77 then s\<lparr>xs_configured := True\<rparr> else s, [])"

definition xdg_surface_destroy :: "resource \<Rightarrow> xdg_server \<Rightarrow> xdg_step" where
  "xdg_surface_destroy r s =
     (if xs_toplevel_destroyed s then s\<lparr>xs_xdg_surface_destroyed := True\<rparr> else s, [Destroy r])"

definition xdg_create_positioner :: "xdg_server \<Rightarrow> xdg_step" where
  "xdg_create_positioner s = (s, [Implementation_Error ''unexpected create_positioner''])"

definition xdg_get_xdg_surface ::
    "wl_lib \<Rightarrow> resource \<Rightarrow> u32 \<Rightarrow> resource option \<Rightarrow> xdg_server \<Rightarrow> xdg_step" where
  "xdg_get_xdg_surface L wm_base rid new s =
     (s, create_resource new ''xdg_surface'' (version_of L wm_base) rid (\<lambda>r. []))"

definition xdg_wm_base_pong :: "u32 \<Rightarrow> xdg_server \<Rightarrow> xdg_step" where
  "xdg_wm_base_pong serial s = (if serial = 41 then s\<lparr>xs_ponged := True\<rparr> else s, [])"

definition xdg_wm_base_destroy :: "resource \<Rightarrow> xdg_server \<Rightarrow> xdg_step" where
  "xdg_wm_base_destroy r s =
     (if xs_surface_destroyed s then s\<lparr>xs_wm_base_destroyed := True\<rparr> else s, [Destroy r])"

definition xdg_bind_wm_base :: "u32 \<Rightarrow> u32 \<Rightarrow> resource option \<Rightarrow> xdg_server \<Rightarrow> xdg_step" where
  "xdg_bind_wm_base version rid new s =
     (s, create_resource new ''xdg_wm_base'' (min_version version 5) rid (\<lambda>r. [Send (XE_Ping r 41)]))"

definition xdg_client_destroyed :: "xdg_server \<Rightarrow> xdg_step" where
  "xdg_client_destroyed s = (s, [Terminate])"

fun xdg_handle :: "wl_lib \<Rightarrow> xdg_request \<Rightarrow> resource option \<Rightarrow> xdg_server \<Rightarrow> xdg_step" where
  "xdg_handle L (XR_Bind_Compositor v rid) new s = xdg_bind_compositor v rid new s"
| "xdg_handle L (XR_Bind_Wm_Base v rid) new s = xdg_bind_wm_base v rid new s"
| "xdg_handle L (XR_Bind_Presentation v rid) new s = xdg_bind_presentation v rid new s"
| "xdg_handle L (XR_Feedback r surface rid) new s = xdg_presentation_feedback rid new s"
| "xdg_handle L (XR_Presentation_Destroy r) new s = xdg_presentation_destroy r s"
| "xdg_handle L (XR_Surface_Commit r) new s = xdg_surface_commit s"
| "xdg_handle L (XR_Surface_Destroy r) new s = xdg_wl_surface_destroy r s"
| "xdg_handle L (XR_Create_Surface r rid) new s = xdg_create_surface L r rid new s"
| "xdg_handle L (XR_Create_Region r rid) new s = xdg_create_region s"
| "xdg_handle L (XR_Toplevel_Destroy r) new s = xdg_toplevel_destroy r s"
| "xdg_handle L (XR_Get_Toplevel r rid) new s = xdg_surface_get_toplevel L r rid new s"
| "xdg_handle L (XR_Ack_Configure r serial) new s = xdg_surface_ack_configure serial s"
| "xdg_handle L (XR_Xdg_Surface_Destroy r) new s = xdg_surface_destroy r s"
| "xdg_handle L (XR_Create_Positioner r rid) new s = xdg_create_positioner s"
| "xdg_handle L (XR_Get_Xdg_Surface r rid surface) new s = xdg_get_xdg_surface L r rid new s"
| "xdg_handle L (XR_Pong r serial) new s = xdg_wm_base_pong serial s"
| "xdg_handle L (XR_Wm_Base_Destroy r) new s = xdg_wm_base_destroy r s"
| "xdg_handle L XR_Client_Destroyed new s = xdg_client_destroyed s"

fun xdg_args :: "xdg_request \<Rightarrow> (resource \<times> string) list" where
  "xdg_args (XR_Feedback r surface rid) = [(r, ''wp_presentation''), (surface, ''wl_surface'')]"
| "xdg_args (XR_Presentation_Destroy r) = [(r, ''wp_presentation'')]"
| "xdg_args (XR_Surface_Commit r) = [(r, ''wl_surface'')]"
| "xdg_args (XR_Surface_Destroy r) = [(r, ''wl_surface'')]"
| "xdg_args (XR_Create_Surface r rid) = [(r, ''wl_compositor'')]"
| "xdg_args (XR_Create_Region r rid) = [(r, ''wl_compositor'')]"
| "xdg_args (XR_Toplevel_Destroy r) = [(r, ''xdg_toplevel'')]"
| "xdg_args (XR_Get_Toplevel r rid) = [(r, ''xdg_surface'')]"
| "xdg_args (XR_Ack_Configure r serial) = [(r, ''xdg_surface'')]"
| "xdg_args (XR_Xdg_Surface_Destroy r) = [(r, ''xdg_surface'')]"
| "xdg_args (XR_Create_Positioner r rid) = [(r, ''xdg_wm_base'')]"
| "xdg_args (XR_Get_Xdg_Surface r rid surface) = [(r, ''xdg_wm_base''), (surface, ''wl_surface'')]"
| "xdg_args (XR_Pong r serial) = [(r, ''xdg_wm_base'')]"
| "xdg_args (XR_Wm_Base_Destroy r) = [(r, ''xdg_wm_base'')]"
| "xdg_args _ = []"

fun xdg_uses :: "xdg_event \<Rightarrow> resource option list" where
  "xdg_uses (XE_Presented r hi lo nsec refresh seq_hi seq_lo kind) = [Some r]"
| "xdg_uses (XE_Discarded r) = [Some r]"
| "xdg_uses (XE_Clock_Id r clock) = [Some r]"
| "xdg_uses (XE_Toplevel_Configure r w h states) = [Some r]"
| "xdg_uses (XE_Surface_Configure r serial) = [Some r]"
| "xdg_uses (XE_Ping r serial) = [Some r]"

definition xdg_status :: "xdg_server \<Rightarrow> bool" where
  "xdg_status s \<longleftrightarrow> xs_ponged s \<and> xs_configured s \<and> xs_toplevel_destroyed s \<and>
     xs_xdg_surface_destroyed s \<and> xs_surface_destroyed s \<and> xs_wm_base_destroyed s \<and>
     xs_presentation_destroyed s \<and> xs_feedback_count s = 2"

definition xdg_globals :: "(string \<times> nat) list" where
  "xdg_globals = [(''wl_compositor'', 4), (''xdg_wm_base'', 5), (''wp_presentation'', 1)]"

definition xdg_session :: "wl_lib \<Rightarrow> xdg_request input list \<Rightarrow>
    (xdg_server, xdg_request, xdg_event) session option" where
  "xdg_session L ins = serve (xdg_handle L) xdg_args xdg_uses ins (start_session xdg_server_init)"

definition xdg_server_fd :: "main_env \<Rightarrow> wl_lib \<Rightarrow> xdg_request input list \<Rightarrow> outcome" where
  "xdg_server_fd env L ins = server_program env xdg_globals xdg_status (xdg_session L ins)"

lemmas xdg_handler_defs = xdg_presentation_feedback_def xdg_presentation_destroy_def
  xdg_bind_presentation_def xdg_surface_commit_def xdg_wl_surface_destroy_def
  xdg_create_surface_def xdg_create_region_def xdg_bind_compositor_def xdg_toplevel_destroy_def
  xdg_surface_get_toplevel_def xdg_surface_ack_configure_def xdg_surface_destroy_def
  xdg_create_positioner_def xdg_get_xdg_surface_def xdg_wm_base_pong_def xdg_wm_base_destroy_def
  xdg_bind_wm_base_def xdg_client_destroyed_def create_resource_def

interpretation xdg_safe: safe_server "xdg_handle L" xdg_args xdg_uses "\<lambda>s. []" for L
proof unfold_locales
  fix s live req new s' calls
  assume "exist (xdg_args req) live" and "\<forall>r. new = Some r \<longrightarrow> live r = None"
    and "xdg_handle L req new s = (s', calls)"
  then show "\<exists>live'. exec_calls xdg_uses calls live = Some live' \<and> exist [] live'"
    by (cases req; cases new) (auto simp: xdg_handler_defs Let_def)
qed

section \<open>What the verdict means\<close>

text \<open>The teardown flags: each is raised only after the one before it.\<close>

definition xdg_teardown :: "(xdg_request \<Rightarrow> bool) list" where
  "xdg_teardown = [\<lambda>q. \<exists>r. q = XR_Toplevel_Destroy r, \<lambda>q. \<exists>r. q = XR_Xdg_Surface_Destroy r,
     \<lambda>q. \<exists>r. q = XR_Surface_Destroy r, \<lambda>q. \<exists>r. q = XR_Wm_Base_Destroy r]"

definition xdg_teardown_tracked :: "xdg_request input list \<Rightarrow> xdg_server \<Rightarrow> bool" where
  "xdg_teardown_tracked hs s \<longleftrightarrow>
     xs_toplevel_destroyed s = in_order hs (take 1 xdg_teardown) \<and>
     xs_xdg_surface_destroyed s = in_order hs (take 2 xdg_teardown) \<and>
     xs_surface_destroyed s = in_order hs (take 3 xdg_teardown) \<and>
     xs_wm_base_destroyed s = in_order hs xdg_teardown"

lemma xdg_teardown_flags:
  assumes "xdg_session L ins = Some ss"
  shows "xdg_teardown_tracked (ss_handled ss) (ss_state ss)"
proof (rule serve_start_invariant [OF assms [unfolded xdg_session_def], where I = xdg_teardown_tracked])
  show "xdg_teardown_tracked [] xdg_server_init"
    by (simp add: xdg_teardown_tracked_def xdg_teardown_def xdg_server_init_def)
next
  fix hs s req new
  assume "xdg_teardown_tracked hs s"
  then show "xdg_teardown_tracked (hs @ [(req, new)]) (fst (xdg_handle L req new s))"
    by (cases req; cases new)
       (simp_all add: xdg_teardown_tracked_def xdg_teardown_def xdg_handler_defs Let_def)
qed

lemma xdg_flags:
  assumes "xdg_session L ins = Some ss"
  shows "xs_ponged (ss_state ss) \<longleftrightarrow> (\<exists>(req, new) \<in> set (ss_handled ss). \<exists>r. req = XR_Pong r 41)"
    and "xs_configured (ss_state ss) \<longleftrightarrow>
      (\<exists>(req, new) \<in> set (ss_handled ss). \<exists>r. req = XR_Ack_Configure r 77)"
    and "xs_presentation_destroyed (ss_state ss) \<longleftrightarrow>
      (\<exists>(req, new) \<in> set (ss_handled ss). \<exists>r. req = XR_Presentation_Destroy r)"
  by (rule serve_flag [OF assms [unfolded xdg_session_def]], simp add: xdg_server_init_def,
      case_tac req; auto simp: xdg_handler_defs Let_def split: option.splits)+

lemma xdg_feedback_counted:
  assumes "xdg_session L ins = Some ss"
  shows "xs_feedback_count (ss_state ss) = int (length (filter
     (\<lambda>(req, new). (\<exists>r surface rid. req = XR_Feedback r surface rid) \<and> new \<noteq> None) (ss_handled ss)))"
  by (rule serve_counter [OF assms [unfolded xdg_session_def]], simp add: xdg_server_init_def,
      case_tac req; auto simp: xdg_handler_defs Let_def split: option.splits)

section \<open>Properties\<close>

text \<open>C12: for every sequence of the requests it implements, the xdg-shell server uses only resources
  that exist. It exits with success if and only if it could start, the client has gone, the ping was
  answered with its serial 41 and the configuration acknowledged with its serial 77, the toplevel, the
  xdg surface, the surface and the window manager base were destroyed in that order, the presentation
  object was destroyed, and exactly two feedback objects were created.\<close>

theorem xdg_server_checks_teardown_order:
  "\<exists>ss. xdg_session L ins = Some ss \<and> xdg_server_fd env L ins \<noteq> Crashed \<and>
     (exits_with EXIT_SUCCESS (xdg_server_fd env L ins) \<longleftrightarrow>
        env_ok env 3 \<and> terminated ss \<and>
        (\<exists>(req, new) \<in> set (ss_handled ss). \<exists>r. req = XR_Pong r 41) \<and>
        (\<exists>(req, new) \<in> set (ss_handled ss). \<exists>r. req = XR_Ack_Configure r 77) \<and>
        in_order (ss_handled ss)
          [\<lambda>q. \<exists>r. q = XR_Toplevel_Destroy r, \<lambda>q. \<exists>r. q = XR_Xdg_Surface_Destroy r,
           \<lambda>q. \<exists>r. q = XR_Surface_Destroy r, \<lambda>q. \<exists>r. q = XR_Wm_Base_Destroy r] \<and>
        (\<exists>(req, new) \<in> set (ss_handled ss). \<exists>r. req = XR_Presentation_Destroy r) \<and>
        length (filter (\<lambda>(req, new). (\<exists>r surface rid. req = XR_Feedback r surface rid) \<and> new \<noteq> None)
          (ss_handled ss)) = 2)"
proof -
  obtain ss where ss: "xdg_session L ins = Some ss"
    using xdg_safe.session_safe [where s = xdg_server_init and ins = ins] by (auto simp: xdg_session_def)
  have three: "length xdg_globals = 3" by (simp add: xdg_globals_def)
  have "xdg_status (ss_state ss) \<longleftrightarrow> xs_ponged (ss_state ss) \<and> xs_configured (ss_state ss) \<and>
      xs_wm_base_destroyed (ss_state ss) \<and> xs_presentation_destroyed (ss_state ss) \<and>
      xs_feedback_count (ss_state ss) = 2"
    using xdg_teardown_flags [OF ss] in_order_prefix [of "ss_handled ss" xdg_teardown 1]
      in_order_prefix [of "ss_handled ss" xdg_teardown 2] in_order_prefix [of "ss_handled ss" xdg_teardown 3]
    by (auto simp: xdg_status_def xdg_teardown_tracked_def)
  moreover have "xs_wm_base_destroyed (ss_state ss) = in_order (ss_handled ss) xdg_teardown"
    using xdg_teardown_flags [OF ss] by (simp add: xdg_teardown_tracked_def)
  ultimately show ?thesis
    using ss server_program_not_crashed [of env xdg_globals xdg_status ss]
      server_program_success [of env xdg_globals xdg_status ss]
    unfolding xdg_server_fd_def ss three xdg_flags [OF ss] xdg_feedback_counted [OF ss] xdg_teardown_def
    by auto
qed

end
