(* ===== verification/Dmabuf_Server.thy ===== *)
theory Dmabuf_Server
  imports Libwayland
begin

text \<open>
  The libwayland dmabuf server (\<open>src/bench/dmabuf-interop-server.c\<close>): it creates buffer parameters,
  checks and closes the descriptor of every plane, and creates buffers at once or asynchronously,
  refusing those of width 2. What \<open>fcntl\<close> answers for a plane's descriptor comes with the request.
\<close>

unbundle bit_operations_syntax

definition DRM_FORMAT_ARGB8888 :: u32 where
  "DRM_FORMAT_ARGB8888 = 0x34325241"

definition DRM_FORMAT_MOD_INVALID_HI :: u32 where
  "DRM_FORMAT_MOD_INVALID_HI = 0x00ffffff"

definition DRM_FORMAT_MOD_INVALID_LO :: u32 where
  "DRM_FORMAT_MOD_INVALID_LO = 0xffffffff"

record dmabuf_server =
  db_params_created :: bool
  db_plane_added :: bool
  db_buffer_created :: bool
  db_buffer_destroyed :: bool
  db_params_destroyed :: bool
  db_dmabuf_destroyed :: bool
  db_create_failed :: bool
  db_params_created_count :: int
  db_plane_added_count :: int
  db_buffer_created_count :: int
  db_buffer_destroyed_count :: int
  db_params_destroyed_count :: int

definition dmabuf_server_init :: dmabuf_server where
  "dmabuf_server_init = \<lparr>db_params_created = False, db_plane_added = False, db_buffer_created = False,
     db_buffer_destroyed = False, db_params_destroyed = False, db_dmabuf_destroyed = False,
     db_create_failed = False, db_params_created_count = 0, db_plane_added_count = 0,
     db_buffer_created_count = 0, db_buffer_destroyed_count = 0, db_params_destroyed_count = 0\<rparr>"

datatype dmabuf_event =
    DE_Failed resource
  | DE_Created resource resource
  | DE_Modifier resource u32 u32 u32

datatype dmabuf_request =
    DR_Bind_Dmabuf u32 u32
  | DR_Buffer_Destroy resource
  | DR_Params_Destroy resource
  | DR_Add resource fd_t int u32 u32 u32 u32 u32
  | DR_Create resource int int u32 u32
  | DR_Create_Immed resource u32 int int u32 u32
  | DR_Dmabuf_Destroy resource
  | DR_Create_Params resource u32
  | DR_Client_Destroyed

type_synonym dmabuf_step = "dmabuf_server \<times> dmabuf_event wl_call list"

section \<open>Handlers\<close>

definition dmabuf_buffer_destroy :: "resource \<Rightarrow> dmabuf_server \<Rightarrow> dmabuf_step" where
  "dmabuf_buffer_destroy r s =
     (s\<lparr>db_buffer_destroyed := True, db_buffer_destroyed_count := db_buffer_destroyed_count s + 1\<rparr>,
      [Destroy r])"

definition dmabuf_params_destroy :: "resource \<Rightarrow> dmabuf_server \<Rightarrow> dmabuf_step" where
  "dmabuf_params_destroy r s =
     ((if db_buffer_destroyed s then s\<lparr>db_params_destroyed := True\<rparr> else s)
        \<lparr>db_params_destroyed_count := db_params_destroyed_count s + 1\<rparr>,
      [Destroy r])"

definition dmabuf_invalid_plane :: "int \<Rightarrow> u32 \<Rightarrow> u32 \<Rightarrow> u32 \<Rightarrow> u32 \<Rightarrow> u32 \<Rightarrow> bool" where
  "dmabuf_invalid_plane flags plane_idx offset stride modifier_hi modifier_lo \<longleftrightarrow>
     flags < 0 \<or> flags AND FD_CLOEXEC = 0 \<or> plane_idx \<noteq> 0 \<or> offset \<noteq> 0 \<or> stride \<noteq> 4 \<or>
     modifier_hi \<noteq> DRM_FORMAT_MOD_INVALID_HI \<or> modifier_lo \<noteq> DRM_FORMAT_MOD_INVALID_LO"

definition dmabuf_params_add ::
    "fd_t \<Rightarrow> int \<Rightarrow> u32 \<Rightarrow> u32 \<Rightarrow> u32 \<Rightarrow> u32 \<Rightarrow> u32 \<Rightarrow> dmabuf_server \<Rightarrow> dmabuf_step" where
  "dmabuf_params_add fd flags plane_idx offset stride modifier_hi modifier_lo s =
     (if dmabuf_invalid_plane flags plane_idx offset stride modifier_hi modifier_lo
      then (s, [Close fd, Implementation_Error ''invalid dmabuf plane''])
      else (s\<lparr>db_plane_added := True, db_plane_added_count := db_plane_added_count s + 1\<rparr>, [Close fd]))"

definition dmabuf_params_create ::
    "resource \<Rightarrow> int \<Rightarrow> int \<Rightarrow> u32 \<Rightarrow> u32 \<Rightarrow> resource option \<Rightarrow> dmabuf_server \<Rightarrow> dmabuf_step" where
  "dmabuf_params_create params width height format flags new s =
     (if \<not> db_plane_added s \<or> height \<noteq> 1 \<or> format \<noteq> DRM_FORMAT_ARGB8888 \<or> flags \<noteq> 0 \<or>
         (width \<noteq> 1 \<and> width \<noteq> 2)
      then (s, [Implementation_Error ''invalid async dmabuf buffer''])
      else if width = 2 then (s\<lparr>db_create_failed := True\<rparr>, [Send (DE_Failed params)])
      else (if new = None then s
            else s\<lparr>db_buffer_created := True, db_buffer_created_count := db_buffer_created_count s + 1\<rparr>,
            create_resource new ''wl_buffer'' 1 0 (\<lambda>buffer. [Send (DE_Created params buffer)])))"

definition dmabuf_params_create_immed ::
    "u32 \<Rightarrow> int \<Rightarrow> int \<Rightarrow> u32 \<Rightarrow> u32 \<Rightarrow> resource option \<Rightarrow> dmabuf_server \<Rightarrow> dmabuf_step" where
  "dmabuf_params_create_immed rid width height format flags new s =
     (if \<not> db_plane_added s \<or> width \<noteq> 1 \<or> height \<noteq> 1 \<or> format \<noteq> DRM_FORMAT_ARGB8888 \<or> flags \<noteq> 0
      then (s, [Implementation_Error ''invalid dmabuf buffer''])
      else (if new = None then s
            else s\<lparr>db_buffer_created := True, db_buffer_created_count := db_buffer_created_count s + 1\<rparr>,
            create_resource new ''wl_buffer'' 1 rid (\<lambda>buffer. [])))"

definition dmabuf_destroy :: "resource \<Rightarrow> dmabuf_server \<Rightarrow> dmabuf_step" where
  "dmabuf_destroy r s =
     (if db_params_destroyed s then s\<lparr>db_dmabuf_destroyed := True\<rparr> else s, [Destroy r])"

definition dmabuf_create_params ::
    "wl_lib \<Rightarrow> resource \<Rightarrow> u32 \<Rightarrow> resource option \<Rightarrow> dmabuf_server \<Rightarrow> dmabuf_step" where
  "dmabuf_create_params L dmabuf rid new s =
     (if new = None then s
      else s\<lparr>db_params_created := True, db_params_created_count := db_params_created_count s + 1\<rparr>,
      create_resource new ''zwp_linux_buffer_params_v1'' (version_of L dmabuf) rid (\<lambda>params. []))"

definition dmabuf_bind :: "u32 \<Rightarrow> u32 \<Rightarrow> resource option \<Rightarrow> dmabuf_server \<Rightarrow> dmabuf_step" where
  "dmabuf_bind version rid new s =
     (s, create_resource new ''zwp_linux_dmabuf_v1'' (min_version version 3) rid (\<lambda>r.
        [Send (DE_Modifier r DRM_FORMAT_ARGB8888 DRM_FORMAT_MOD_INVALID_HI DRM_FORMAT_MOD_INVALID_LO)]))"

definition dmabuf_client_destroy :: "dmabuf_server \<Rightarrow> dmabuf_step" where
  "dmabuf_client_destroy s = (s, [Terminate])"

fun dmabuf_handle :: "wl_lib \<Rightarrow> dmabuf_request \<Rightarrow> resource option \<Rightarrow> dmabuf_server \<Rightarrow> dmabuf_step" where
  "dmabuf_handle L (DR_Bind_Dmabuf v rid) new s = dmabuf_bind v rid new s"
| "dmabuf_handle L (DR_Buffer_Destroy r) new s = dmabuf_buffer_destroy r s"
| "dmabuf_handle L (DR_Params_Destroy r) new s = dmabuf_params_destroy r s"
| "dmabuf_handle L (DR_Add r fd flags plane offset stride hi lo) new s =
     dmabuf_params_add fd flags plane offset stride hi lo s"
| "dmabuf_handle L (DR_Create r w h format flags) new s = dmabuf_params_create r w h format flags new s"
| "dmabuf_handle L (DR_Create_Immed r rid w h format flags) new s =
     dmabuf_params_create_immed rid w h format flags new s"
| "dmabuf_handle L (DR_Dmabuf_Destroy r) new s = dmabuf_destroy r s"
| "dmabuf_handle L (DR_Create_Params r rid) new s = dmabuf_create_params L r rid new s"
| "dmabuf_handle L DR_Client_Destroyed new s = dmabuf_client_destroy s"

fun dmabuf_args :: "dmabuf_request \<Rightarrow> (resource \<times> string) list" where
  "dmabuf_args (DR_Buffer_Destroy r) = [(r, ''wl_buffer'')]"
| "dmabuf_args (DR_Params_Destroy r) = [(r, ''zwp_linux_buffer_params_v1'')]"
| "dmabuf_args (DR_Add r fd flags plane offset stride hi lo) = [(r, ''zwp_linux_buffer_params_v1'')]"
| "dmabuf_args (DR_Create r w h format flags) = [(r, ''zwp_linux_buffer_params_v1'')]"
| "dmabuf_args (DR_Create_Immed r rid w h format flags) = [(r, ''zwp_linux_buffer_params_v1'')]"
| "dmabuf_args (DR_Dmabuf_Destroy r) = [(r, ''zwp_linux_dmabuf_v1'')]"
| "dmabuf_args (DR_Create_Params r rid) = [(r, ''zwp_linux_dmabuf_v1'')]"
| "dmabuf_args _ = []"

fun dmabuf_uses :: "dmabuf_event \<Rightarrow> resource option list" where
  "dmabuf_uses (DE_Failed r) = [Some r]"
| "dmabuf_uses (DE_Created r buffer) = [Some r, Some buffer]"
| "dmabuf_uses (DE_Modifier r format hi lo) = [Some r]"

definition dmabuf_status :: "dmabuf_server \<Rightarrow> bool" where
  "dmabuf_status s \<longleftrightarrow> db_params_created s \<and> db_plane_added s \<and> db_buffer_created s \<and>
     db_buffer_destroyed s \<and> db_params_destroyed s \<and> db_dmabuf_destroyed s \<and> db_create_failed s \<and>
     db_params_created_count s = 3 \<and> db_plane_added_count s = 3 \<and> db_buffer_created_count s = 2 \<and>
     db_buffer_destroyed_count s = 2 \<and> db_params_destroyed_count s = 3"

definition dmabuf_globals :: "(string \<times> nat) list" where
  "dmabuf_globals = [(''zwp_linux_dmabuf_v1'', 3)]"

definition dmabuf_session :: "wl_lib \<Rightarrow> dmabuf_request input list \<Rightarrow>
    (dmabuf_server, dmabuf_request, dmabuf_event) session option" where
  "dmabuf_session L ins =
     serve (dmabuf_handle L) dmabuf_args dmabuf_uses ins (start_session dmabuf_server_init)"

definition dmabuf_server_fd :: "main_env \<Rightarrow> wl_lib \<Rightarrow> dmabuf_request input list \<Rightarrow> outcome" where
  "dmabuf_server_fd env L ins = server_program env dmabuf_globals dmabuf_status (dmabuf_session L ins)"

lemmas dmabuf_handler_defs = dmabuf_buffer_destroy_def dmabuf_params_destroy_def dmabuf_params_add_def
  dmabuf_params_create_def dmabuf_params_create_immed_def dmabuf_destroy_def dmabuf_create_params_def
  dmabuf_bind_def dmabuf_client_destroy_def create_resource_def

interpretation dmabuf_safe: safe_server "dmabuf_handle L" dmabuf_args dmabuf_uses "\<lambda>s. []" for L
proof unfold_locales
  fix s live req new s' calls
  assume "exist (dmabuf_args req) live" and "dmabuf_handle L req new s = (s', calls)"
  then show "\<exists>live'. exec_calls dmabuf_uses calls live = Some live' \<and> exist [] live'"
    by (cases req; cases new) (auto simp: dmabuf_handler_defs split: if_splits)
qed

section \<open>What the verdict means\<close>

fun is_plane :: "dmabuf_request \<Rightarrow> bool" where
  "is_plane (DR_Add r fd flags plane offset stride hi lo) = (\<not> dmabuf_invalid_plane flags plane offset stride hi lo)"
| "is_plane _ = False"

text \<open>The descriptors a session received.\<close>

fun plane_fds :: "dmabuf_request input list \<Rightarrow> fd_t list" where
  "plane_fds [] = []"
| "plane_fds ((DR_Add r fd flags plane offset stride hi lo, new) # ins) = fd # plane_fds ins"
| "plane_fds (i # ins) = plane_fds ins"

lemma plane_fds_append [simp]: "plane_fds (xs @ ys) = plane_fds xs @ plane_fds ys"
  by (induction xs rule: plane_fds.induct) auto

text \<open>The counters and flags against the history and the calls made.\<close>

definition dmabuf_tracked ::
    "dmabuf_request input list \<Rightarrow> dmabuf_server \<Rightarrow> dmabuf_event wl_call list \<Rightarrow> bool" where
  "dmabuf_tracked hs s cs \<longleftrightarrow>
     db_params_created_count s = created ''zwp_linux_buffer_params_v1'' cs \<and>
     db_buffer_created_count s = created ''wl_buffer'' cs \<and>
     db_params_created_count s \<ge> 0 \<and> db_buffer_created_count s \<ge> 0 \<and> db_plane_added_count s \<ge> 0 \<and>
     db_params_created s = (db_params_created_count s > 0) \<and>
     db_buffer_created s = (db_buffer_created_count s > 0) \<and>
     db_plane_added s = (db_plane_added_count s > 0) \<and>
     db_create_failed s = (\<exists>r. Send (DE_Failed r) \<in> set cs) \<and>
     closed cs = plane_fds hs"

lemma dmabuf_session_tracked:
  assumes "dmabuf_session L ins = Some ss"
  shows "dmabuf_tracked (ss_handled ss) (ss_state ss) (ss_calls ss)"
proof (rule serve_start_trace_invariant [OF assms [unfolded dmabuf_session_def], where I = dmabuf_tracked])
  show "dmabuf_tracked [] dmabuf_server_init []"
    by (simp add: dmabuf_tracked_def dmabuf_server_init_def)
next
  fix hs s cs req new
  assume "dmabuf_tracked hs s cs"
  then show "dmabuf_tracked (hs @ [(req, new)]) (fst (dmabuf_handle L req new s))
      (cs @ snd (dmabuf_handle L req new s))"
    by (cases req; cases new) (auto simp: dmabuf_tracked_def dmabuf_handler_defs)
qed

lemma dmabuf_counts:
  assumes "dmabuf_session L ins = Some ss"
  shows "db_plane_added_count (ss_state ss) = int (length (filter (\<lambda>(req, new). is_plane req) (ss_handled ss)))"
    and "db_buffer_destroyed_count (ss_state ss) =
      int (length (filter (\<lambda>(req, new). \<exists>r. req = DR_Buffer_Destroy r) (ss_handled ss)))"
    and "db_params_destroyed_count (ss_state ss) =
      int (length (filter (\<lambda>(req, new). \<exists>r. req = DR_Params_Destroy r) (ss_handled ss)))"
  by (rule serve_counter [OF assms [unfolded dmabuf_session_def]], simp add: dmabuf_server_init_def,
      case_tac req; auto simp: dmabuf_handler_defs)+

definition dmabuf_teardown :: "(dmabuf_request \<Rightarrow> bool) list" where
  "dmabuf_teardown = [\<lambda>q. \<exists>r. q = DR_Buffer_Destroy r, \<lambda>q. \<exists>r. q = DR_Params_Destroy r,
     \<lambda>q. \<exists>r. q = DR_Dmabuf_Destroy r]"

definition dmabuf_teardown_tracked :: "dmabuf_request input list \<Rightarrow> dmabuf_server \<Rightarrow> bool" where
  "dmabuf_teardown_tracked hs s \<longleftrightarrow>
     db_buffer_destroyed s = in_order hs (take 1 dmabuf_teardown) \<and>
     db_params_destroyed s = in_order hs (take 2 dmabuf_teardown) \<and>
     db_dmabuf_destroyed s = in_order hs dmabuf_teardown"

lemma dmabuf_teardown_flags:
  assumes "dmabuf_session L ins = Some ss"
  shows "dmabuf_teardown_tracked (ss_handled ss) (ss_state ss)"
proof (rule serve_start_invariant [OF assms [unfolded dmabuf_session_def], where I = dmabuf_teardown_tracked])
  show "dmabuf_teardown_tracked [] dmabuf_server_init"
    by (simp add: dmabuf_teardown_tracked_def dmabuf_teardown_def dmabuf_server_init_def)
next
  fix hs s req new
  assume "dmabuf_teardown_tracked hs s"
  then show "dmabuf_teardown_tracked (hs @ [(req, new)]) (fst (dmabuf_handle L req new s))"
    by (cases req; cases new)
       (simp_all add: dmabuf_teardown_tracked_def dmabuf_teardown_def dmabuf_handler_defs)
qed

section \<open>Properties\<close>

text \<open>C13: for every sequence of the requests it implements, the dmabuf server uses only resources that
  exist and closes every plane descriptor it is given exactly once, in order, valid or not. It exits
  with success if and only if it could start, the client has gone, three parameter objects and two
  buffers were created, three valid planes added, an asynchronous creation refused, two buffers and
  three parameter objects destroyed, and the destructions of a buffer, a parameter object and the
  dmabuf factory came in that order.\<close>

theorem dmabuf_server_closes_and_checks:
  "\<exists>ss. dmabuf_session L ins = Some ss \<and> dmabuf_server_fd env L ins \<noteq> Crashed \<and>
     closed (ss_calls ss) = plane_fds (ss_handled ss) \<and>
     (exits_with EXIT_SUCCESS (dmabuf_server_fd env L ins) \<longleftrightarrow>
        env_ok env 1 \<and> terminated ss \<and>
        created ''zwp_linux_buffer_params_v1'' (ss_calls ss) = 3 \<and>
        created ''wl_buffer'' (ss_calls ss) = 2 \<and>
        (\<exists>r. Send (DE_Failed r) \<in> set (ss_calls ss)) \<and>
        length (filter (\<lambda>(req, new). is_plane req) (ss_handled ss)) = 3 \<and>
        length (filter (\<lambda>(req, new). \<exists>r. req = DR_Buffer_Destroy r) (ss_handled ss)) = 2 \<and>
        length (filter (\<lambda>(req, new). \<exists>r. req = DR_Params_Destroy r) (ss_handled ss)) = 3 \<and>
        in_order (ss_handled ss) [\<lambda>q. \<exists>r. q = DR_Buffer_Destroy r, \<lambda>q. \<exists>r. q = DR_Params_Destroy r,
          \<lambda>q. \<exists>r. q = DR_Dmabuf_Destroy r])"
proof -
  obtain ss where ss: "dmabuf_session L ins = Some ss"
    using dmabuf_safe.session_safe [where s = dmabuf_server_init and ins = ins]
    by (auto simp: dmabuf_session_def)
  have one: "length dmabuf_globals = 1" by (simp add: dmabuf_globals_def)
  note tracked = dmabuf_session_tracked [OF ss, unfolded dmabuf_tracked_def]
  have flags: "db_dmabuf_destroyed (ss_state ss) = in_order (ss_handled ss) dmabuf_teardown"
    "db_dmabuf_destroyed (ss_state ss) \<Longrightarrow> db_params_destroyed (ss_state ss) \<and> db_buffer_destroyed (ss_state ss)"
    using dmabuf_teardown_flags [OF ss] in_order_prefix [of "ss_handled ss" dmabuf_teardown 1]
      in_order_prefix [of "ss_handled ss" dmabuf_teardown 2]
    by (auto simp: dmabuf_teardown_tracked_def)
  have "dmabuf_status (ss_state ss) \<longleftrightarrow> db_params_created_count (ss_state ss) = 3 \<and>
      db_buffer_created_count (ss_state ss) = 2 \<and> db_create_failed (ss_state ss) \<and>
      db_plane_added_count (ss_state ss) = 3 \<and> db_buffer_destroyed_count (ss_state ss) = 2 \<and>
      db_params_destroyed_count (ss_state ss) = 3 \<and> db_dmabuf_destroyed (ss_state ss)"
    using flags(2) tracked by (auto simp: dmabuf_status_def)
  moreover have "closed (ss_calls ss) = plane_fds (ss_handled ss)" using tracked by blast
  ultimately show ?thesis
    using ss server_program_not_crashed [of env dmabuf_globals dmabuf_status ss]
      server_program_success [of env dmabuf_globals dmabuf_status ss] tracked
    unfolding dmabuf_server_fd_def ss one flags(1) dmabuf_counts [OF ss] dmabuf_teardown_def
    by auto
qed

end
