(* ===== verification/Viewport_Server.thy ===== *)
theory Viewport_Server
  imports Libwayland
begin

text \<open>
  The server of the viewport benchmark (\<open>src/bench/viewport-benchmark.c\<close>, second half): a state
  machine with three phases that accepts set_source, set_destination and commit in that order only,
  with fixed arguments, and counts them in 64-bit counters.
\<close>

record viewport_server =
  vs_surface :: "resource option"
  vs_phase :: nat
  vs_sources :: u64
  vs_destinations :: u64
  vs_commits :: u64
  vs_valid :: bool
  vs_viewport_created :: bool

definition viewport_server_init :: viewport_server where
  "viewport_server_init = \<lparr>vs_surface = None, vs_phase = 0, vs_sources = 0, vs_destinations = 0,
     vs_commits = 0, vs_valid = True, vs_viewport_created = False\<rparr>"

text \<open>This server sends no events.\<close>

type_synonym viewport_step = "viewport_server \<times> unit wl_call list"

datatype viewport_request =
    VR_Bind_Compositor u32 u32
  | VR_Bind_Viewporter u32 u32
  | VR_Create_Surface resource u32
  | VR_Surface_Destroy resource
  | VR_Surface_Commit resource
  | VR_Get_Viewport resource u32 resource
  | VR_Viewporter_Destroy resource
  | VR_Viewport_Destroy resource
  | VR_Set_Source resource int int int int
  | VR_Set_Destination resource int int
  | VR_Client_Destroyed

section \<open>Handlers\<close>

definition viewport_surface_destroy :: "resource \<Rightarrow> viewport_server \<Rightarrow> viewport_step" where
  "viewport_surface_destroy r s =
     ((if vs_phase s \<noteq> 0 then s\<lparr>vs_valid := False\<rparr> else s)\<lparr>vs_surface := None\<rparr>, [Destroy r])"

definition viewport_surface_commit :: "viewport_server \<Rightarrow> viewport_step" where
  "viewport_surface_commit s =
     ((if vs_phase s \<noteq> 2 then s\<lparr>vs_valid := False\<rparr> else s\<lparr>vs_commits := vs_commits s + 1\<rparr>)
        \<lparr>vs_phase := 0\<rparr>, [])"

definition viewport_create_surface :: "u32 \<Rightarrow> resource option \<Rightarrow> viewport_server \<Rightarrow> viewport_step" where
  "viewport_create_surface rid new s =
     (if vs_surface s \<noteq> None
      then (s\<lparr>vs_valid := False\<rparr>, [Implementation_Error ''multiple surfaces''])
      else (if new = None then s else s\<lparr>vs_surface := new\<rparr>,
            create_resource new ''wl_surface'' 1 rid (\<lambda>r. [])))"

definition viewport_bind_compositor ::
    "u32 \<Rightarrow> u32 \<Rightarrow> resource option \<Rightarrow> viewport_server \<Rightarrow> viewport_step" where
  "viewport_bind_compositor version rid new s =
     (s, create_resource new ''wl_compositor'' (min_version version 1) rid (\<lambda>r. []))"

definition viewport_destroy :: "resource \<Rightarrow> viewport_server \<Rightarrow> viewport_step" where
  "viewport_destroy r s = (s, [Destroy r])"

definition viewport_set_source ::
    "wl_lib \<Rightarrow> int \<Rightarrow> int \<Rightarrow> int \<Rightarrow> int \<Rightarrow> viewport_server \<Rightarrow> viewport_step" where
  "viewport_set_source L x y width height s =
     (if vs_phase s \<noteq> 0 \<or> x \<noteq> fixed_from_int L 0 \<or> y \<noteq> fixed_from_int L 0 \<or>
         width \<noteq> fixed_from_int L 1 \<or> height \<noteq> fixed_from_int L 1
      then (s\<lparr>vs_valid := False\<rparr>, [Implementation_Error ''invalid viewport source''])
      else (s\<lparr>vs_sources := vs_sources s + 1, vs_phase := 1\<rparr>, []))"

definition viewport_set_destination :: "int \<Rightarrow> int \<Rightarrow> viewport_server \<Rightarrow> viewport_step" where
  "viewport_set_destination width height s =
     (if vs_phase s \<noteq> 1 \<or> width \<noteq> 3 \<or> height \<noteq> 4
      then (s\<lparr>vs_valid := False\<rparr>, [Implementation_Error ''invalid viewport destination''])
      else (s\<lparr>vs_destinations := vs_destinations s + 1, vs_phase := 2\<rparr>, []))"

definition viewporter_destroy :: "resource \<Rightarrow> viewport_server \<Rightarrow> viewport_step" where
  "viewporter_destroy r s = (s, [Destroy r])"

definition viewporter_get_viewport ::
    "u32 \<Rightarrow> resource \<Rightarrow> resource option \<Rightarrow> viewport_server \<Rightarrow> viewport_step" where
  "viewporter_get_viewport rid surface new s =
     (if Some surface \<noteq> vs_surface s
      then (s\<lparr>vs_valid := False\<rparr>, [Implementation_Error ''invalid viewport surface''])
      else if vs_viewport_created s
      then (s\<lparr>vs_valid := False\<rparr>, [Implementation_Error ''multiple viewports''])
      else (if new = None then s else s\<lparr>vs_viewport_created := True\<rparr>,
            create_resource new ''wp_viewport'' 1 rid (\<lambda>r. [])))"

definition viewport_bind_viewporter ::
    "u32 \<Rightarrow> u32 \<Rightarrow> resource option \<Rightarrow> viewport_server \<Rightarrow> viewport_step" where
  "viewport_bind_viewporter version rid new s =
     (s, create_resource new ''wp_viewporter'' (min_version version 1) rid (\<lambda>r. []))"

definition viewport_client_destroyed :: "viewport_server \<Rightarrow> viewport_step" where
  "viewport_client_destroyed s = (if vs_phase s \<noteq> 0 then s\<lparr>vs_valid := False\<rparr> else s, [Terminate])"

fun viewport_handle ::
    "wl_lib \<Rightarrow> viewport_request \<Rightarrow> resource option \<Rightarrow> viewport_server \<Rightarrow> viewport_step" where
  "viewport_handle L (VR_Bind_Compositor v rid) new s = viewport_bind_compositor v rid new s"
| "viewport_handle L (VR_Bind_Viewporter v rid) new s = viewport_bind_viewporter v rid new s"
| "viewport_handle L (VR_Create_Surface r rid) new s = viewport_create_surface rid new s"
| "viewport_handle L (VR_Surface_Destroy r) new s = viewport_surface_destroy r s"
| "viewport_handle L (VR_Surface_Commit r) new s = viewport_surface_commit s"
| "viewport_handle L (VR_Get_Viewport r rid surface) new s = viewporter_get_viewport rid surface new s"
| "viewport_handle L (VR_Viewporter_Destroy r) new s = viewporter_destroy r s"
| "viewport_handle L (VR_Viewport_Destroy r) new s = viewport_destroy r s"
| "viewport_handle L (VR_Set_Source r x y w h) new s = viewport_set_source L x y w h s"
| "viewport_handle L (VR_Set_Destination r w h) new s = viewport_set_destination w h s"
| "viewport_handle L VR_Client_Destroyed new s = viewport_client_destroyed s"

fun viewport_args :: "viewport_request \<Rightarrow> (resource \<times> string) list" where
  "viewport_args (VR_Create_Surface r rid) = [(r, ''wl_compositor'')]"
| "viewport_args (VR_Surface_Destroy r) = [(r, ''wl_surface'')]"
| "viewport_args (VR_Surface_Commit r) = [(r, ''wl_surface'')]"
| "viewport_args (VR_Get_Viewport r rid surface) = [(r, ''wp_viewporter''), (surface, ''wl_surface'')]"
| "viewport_args (VR_Viewporter_Destroy r) = [(r, ''wp_viewporter'')]"
| "viewport_args (VR_Viewport_Destroy r) = [(r, ''wp_viewport'')]"
| "viewport_args (VR_Set_Source r x y w h) = [(r, ''wp_viewport'')]"
| "viewport_args (VR_Set_Destination r w h) = [(r, ''wp_viewport'')]"
| "viewport_args _ = []"

definition viewport_uses :: "unit \<Rightarrow> resource option list" where
  "viewport_uses e = []"

definition viewport_status :: "viewport_server \<Rightarrow> bool" where
  "viewport_status s \<longleftrightarrow> vs_valid s \<and> vs_viewport_created s \<and> vs_sources s = vs_commits s \<and>
     vs_destinations s = vs_commits s"

definition viewport_globals :: "(string \<times> nat) list" where
  "viewport_globals = [(''wl_compositor'', 1), (''wp_viewporter'', 1)]"

definition viewport_session :: "wl_lib \<Rightarrow> viewport_request input list \<Rightarrow>
    (viewport_server, viewport_request, unit) session option" where
  "viewport_session L ins =
     serve (viewport_handle L) viewport_args viewport_uses ins (start_session viewport_server_init)"

definition viewport_server_fd :: "main_env \<Rightarrow> wl_lib \<Rightarrow> viewport_request input list \<Rightarrow> outcome" where
  "viewport_server_fd env L ins =
     server_program env viewport_globals viewport_status (viewport_session L ins)"

lemmas viewport_handler_defs = viewport_surface_destroy_def viewport_surface_commit_def
  viewport_create_surface_def viewport_bind_compositor_def viewport_destroy_def
  viewport_set_source_def viewport_set_destination_def viewporter_destroy_def
  viewporter_get_viewport_def viewport_bind_viewporter_def viewport_client_destroyed_def
  create_resource_def

interpretation viewport_safe: safe_server "viewport_handle L" viewport_args viewport_uses "\<lambda>s. []" for L
proof unfold_locales
  fix s live req new s' calls
  assume "exist (viewport_args req) live" and "viewport_handle L req new s = (s', calls)"
  then show "\<exists>live'. exec_calls viewport_uses calls live = Some live' \<and> exist [] live'"
    by (cases req; cases new) (auto simp: viewport_handler_defs split: if_splits)
qed

section \<open>The accepted traces\<close>

text \<open>
  The drawing operations of a session; \<open>Bad_Operation\<close> is one with wrong arguments.
\<close>

datatype viewport_op = Source | Destination | Commit | Bad_Operation

fun viewport_op_of :: "wl_lib \<Rightarrow> viewport_request \<Rightarrow> viewport_op list" where
  "viewport_op_of L (VR_Set_Source r x y w h) =
     [if x = fixed_from_int L 0 \<and> y = fixed_from_int L 0 \<and> w = fixed_from_int L 1 \<and>
         h = fixed_from_int L 1 then Source else Bad_Operation]"
| "viewport_op_of L (VR_Set_Destination r w h) = [if w = 3 \<and> h = 4 then Destination else Bad_Operation]"
| "viewport_op_of L (VR_Surface_Commit r) = [Commit]"
| "viewport_op_of L _ = []"

definition viewport_ops :: "wl_lib \<Rightarrow> viewport_request input list \<Rightarrow> viewport_op list" where
  "viewport_ops L hs = concat (map (viewport_op_of L \<circ> fst) hs)"

lemma viewport_ops_simps [simp]:
  "viewport_ops L [] = []"
  "viewport_ops L (i # hs) = viewport_op_of L (fst i) @ viewport_ops L hs"
  "viewport_ops L (hs @ hs') = viewport_ops L hs @ viewport_ops L hs'"
  by (simp_all add: viewport_ops_def)

definition whole_operations :: "nat \<Rightarrow> viewport_op list" where
  "whole_operations n = concat (replicate n [Source, Destination, Commit])"

lemma whole_operations_Suc: "whole_operations (Suc n) = whole_operations n @ [Source, Destination, Commit]"
  by (induction n) (simp_all add: whole_operations_def)

lemma length_whole_operations: "length (whole_operations n) = 3 * n"
  by (induction n) (simp_all add: whole_operations_def)

text \<open>
  While the server's state is valid, what it has seen is a number of whole operations and as much of
  the next one as the phase says, and the counters count them.
\<close>

definition viewport_accepted :: "wl_lib \<Rightarrow> viewport_request input list \<Rightarrow> viewport_server \<Rightarrow> bool" where
  "viewport_accepted L hs s \<longleftrightarrow> vs_phase s \<le> 2 \<and> (vs_valid s \<longrightarrow>
     (\<exists>n. viewport_ops L hs = whole_operations n @ take (vs_phase s) [Source, Destination] \<and>
       vs_sources s = of_nat n + (if vs_phase s \<ge> 1 then 1 else 0) \<and>
       vs_destinations s = of_nat n + (if vs_phase s \<ge> 2 then 1 else 0) \<and>
       vs_commits s = of_nat n))"

lemma viewport_accepted_commit:
  assumes "viewport_accepted L hs s"
  shows "viewport_accepted L (hs @ [(VR_Surface_Commit r, new)]) (fst (viewport_surface_commit s))"
proof (cases "vs_phase s = 2 \<and> vs_valid s")
  case True
  with assms obtain n where "viewport_ops L hs = whole_operations n @ [Source, Destination]"
    "vs_sources s = of_nat n + 1" "vs_destinations s = of_nat n + 1" "vs_commits s = of_nat n"
    by (auto simp: viewport_accepted_def numeral_2_eq_2)
  then have "viewport_ops L (hs @ [(VR_Surface_Commit r, new)]) = whole_operations (Suc n)"
    "vs_sources s = of_nat (Suc n)" "vs_destinations s = of_nat (Suc n)" "vs_commits s + 1 = of_nat (Suc n)"
    by (simp_all add: whole_operations_Suc)
  with True show ?thesis
    unfolding viewport_accepted_def
    by (auto simp: viewport_surface_commit_def intro!: exI [of _ "Suc n"])
next
  case False
  then show ?thesis by (auto simp: viewport_accepted_def viewport_surface_commit_def)
qed

lemma phase_cases: "p \<le> 2 \<Longrightarrow> p = 0 \<or> p = 1 \<or> p = (2::nat)"
  by auto

lemma viewport_accepted_step:
  assumes "viewport_accepted L hs s"
  shows "viewport_accepted L (hs @ [(req, new)]) (fst (viewport_handle L req new s))"
proof (cases req)
  case (VR_Surface_Commit r)
  with viewport_accepted_commit [OF assms] show ?thesis by simp
next
  case (VR_Set_Source r x y w h)
  have "vs_phase s = 0 \<or> vs_phase s = 1 \<or> vs_phase s = 2"
    using assms phase_cases by (auto simp: viewport_accepted_def)
  with VR_Set_Source assms show ?thesis
    by (auto simp: viewport_accepted_def viewport_set_source_def)
next
  case (VR_Set_Destination r w h)
  have "vs_phase s = 0 \<or> vs_phase s = 1 \<or> vs_phase s = 2"
    using assms phase_cases by (auto simp: viewport_accepted_def)
  with VR_Set_Destination assms show ?thesis
    by (auto simp: viewport_accepted_def viewport_set_destination_def numeral_2_eq_2)
qed (use assms in \<open>auto simp: viewport_accepted_def viewport_handler_defs\<close>)

lemma viewport_session_accepted:
  "viewport_session L ins = Some ss \<Longrightarrow> viewport_accepted L (ss_handled ss) (ss_state ss)"
  unfolding viewport_session_def
  by (rule serve_start_invariant)
     (simp, simp add: viewport_accepted_def viewport_server_init_def whole_operations_def,
      simp add: viewport_accepted_step)

text \<open>When the client goes away in the middle of an operation, the state is no longer valid.\<close>

definition viewport_closing ::
    "viewport_request input list \<Rightarrow> viewport_server \<Rightarrow> unit wl_call list \<Rightarrow> bool" where
  "viewport_closing hs s cs \<longleftrightarrow>
     (list_ex is_terminate cs \<and> vs_valid s \<longrightarrow> vs_phase s = 0) \<and>
     created ''wp_viewport'' cs = (if vs_viewport_created s then 1 else 0)"

lemma viewport_session_closing:
  assumes "viewport_session L ins = Some ss"
  shows "viewport_closing (ss_handled ss) (ss_state ss) (ss_calls ss)"
proof (rule serve_start_trace_invariant [OF assms [unfolded viewport_session_def], where I = viewport_closing])
  show "viewport_closing [] viewport_server_init []"
    by (simp add: viewport_closing_def viewport_server_init_def)
next
  fix hs s cs req new
  assume "viewport_closing hs s cs" and "\<not> list_ex is_terminate cs"
  then show "viewport_closing (hs @ [(req, new)]) (fst (viewport_handle L req new s))
      (cs @ snd (viewport_handle L req new s))"
    by (cases req; cases new) (auto simp: viewport_closing_def viewport_handler_defs)
qed

lemma viewport_session_exists: "\<exists>ss. viewport_session L ins = Some ss"
  using viewport_safe.session_safe [where s = viewport_server_init and ins = ins]
  by (auto simp: viewport_session_def)

definition viewport_demo :: "viewport_request input list" where
  "viewport_demo =
    [(VR_Bind_Compositor 1 3, Some 1), (VR_Bind_Viewporter 1 4, Some 2),
     (VR_Create_Surface 1 5, Some 3), (VR_Get_Viewport 2 6 3, Some 4),
     (VR_Set_Source 4 0 0 256 256, None), (VR_Set_Destination 4 3 4, None), (VR_Surface_Commit 3, None),
     (VR_Viewport_Destroy 4, None), (VR_Surface_Destroy 3, None), (VR_Viewporter_Destroy 2, None),
     (VR_Client_Destroyed, None)]"

section \<open>Properties\<close>

text \<open>C14: when the viewport benchmark server exits with success, the drawing requests it handled were
  a number of whole operations, each one set_source with the unit square, one set_destination with 3
  by 4 and one commit, in that order and with nothing else between them; its commit counter is that
  number modulo 2^64, and exactly one viewport was created.\<close>

theorem viewport_success_means_operations:
  assumes "exits_with EXIT_SUCCESS (viewport_server_fd env L ins)"
  shows "\<exists>ss n. viewport_session L ins = Some ss \<and> terminated ss \<and>
    viewport_ops L (ss_handled ss) = whole_operations n \<and> vs_commits (ss_state ss) = of_nat n \<and>
    created ''wp_viewport'' (ss_calls ss) = 1"
proof -
  obtain ss where ss: "viewport_session L ins = Some ss" using viewport_session_exists by blast
  with assms have t: "terminated ss" and f: "vs_valid (ss_state ss)" "vs_viewport_created (ss_state ss)"
    using server_program_success [of env viewport_globals viewport_status ss]
    by (auto simp: viewport_server_fd_def viewport_status_def)
  from viewport_session_closing [OF ss] t f have "vs_phase (ss_state ss) = 0"
    "created ''wp_viewport'' (ss_calls ss) = 1"
    by (auto simp: viewport_closing_def terminated_def)
  with viewport_session_accepted [OF ss] f ss t show ?thesis
    by (auto simp: viewport_accepted_def)
qed

theorem viewport_success_means_operations_witness:
  "\<exists>ss n. viewport_session demo_lib viewport_demo = Some ss \<and>
     viewport_ops demo_lib (ss_handled ss) = whole_operations n"
proof -
  have "exits_with EXIT_SUCCESS (viewport_server_fd demo_env demo_lib viewport_demo)"
    by (simp add: exits_with_def viewport_server_fd_def server_program_def server_main_def env_ok_def
        demo_env_def demo_lib_def viewport_globals_def viewport_session_def viewport_demo_def
        start_session_def deliver_def deliverable_def terminated_def viewport_handler_defs
        viewport_server_init_def viewport_status_def viewport_uses_def Let_def)
  from viewport_success_means_operations [OF this] show ?thesis by blast
qed

end
