(* ===== verification/Shm_Server.thy ===== *)
theory Shm_Server
  imports Libwayland
begin

text \<open>
  The libwayland shared-memory server (\<open>src/bench/shm-interop-server.c\<close>): pools and buffers, a surface
  with its drawing state, regions and viewports. It keeps a pointer to the last buffer, callback, region
  and surface. What \<open>fcntl\<close> answers for a pool's descriptor comes with the request.

  The pointer to the buffer is not cleared when the buffer is destroyed, and a commit sends it a release
  event: a client that commits after destroying its buffer makes the server use freed memory, and one
  that attaches NULL before there is a buffer makes it follow a NULL pointer. The theorems say so, and
  that nothing else goes wrong.
\<close>

unbundle bit_operations_syntax

record shm_server =
  sm_buffer :: "resource option"
  sm_frame :: "resource option"
  sm_region :: "resource option"
  sm_surface :: "resource option"
  sm_pool_created :: bool
  sm_buffer_created :: bool
  sm_buffer_destroyed :: bool
  sm_pool_destroyed :: bool
  sm_surface_created :: bool
  sm_surface_destroyed :: bool
  sm_attached :: bool
  sm_damaged :: bool
  sm_damaged_buffer :: bool
  sm_committed :: bool
  sm_region_added :: bool
  sm_region_subtracted :: bool
  sm_region_destroyed :: bool
  sm_opaque_region_set :: bool
  sm_input_region_set :: bool
  sm_transformed :: bool
  sm_scaled :: bool
  sm_offset :: bool
  sm_viewport_created :: bool
  sm_viewport_source :: bool
  sm_viewport_destination :: bool
  sm_viewport_destroyed :: bool

definition shm_server_init :: shm_server where
  "shm_server_init = \<lparr>sm_buffer = None, sm_frame = None, sm_region = None, sm_surface = None,
     sm_pool_created = False, sm_buffer_created = False, sm_buffer_destroyed = False,
     sm_pool_destroyed = False, sm_surface_created = False, sm_surface_destroyed = False,
     sm_attached = False, sm_damaged = False, sm_damaged_buffer = False, sm_committed = False,
     sm_region_added = False, sm_region_subtracted = False, sm_region_destroyed = False,
     sm_opaque_region_set = False, sm_input_region_set = False, sm_transformed = False,
     sm_scaled = False, sm_offset = False, sm_viewport_created = False, sm_viewport_source = False,
     sm_viewport_destination = False, sm_viewport_destroyed = False\<rparr>"

datatype shm_event =
    SE_Format resource u32
  | SE_Release "resource option"
  | SE_Done resource u32

datatype shm_request =
    SR_Bind_Shm u32 u32
  | SR_Bind_Compositor u32 u32
  | SR_Bind_Viewporter u32 u32
  | SR_Create_Pool resource u32 fd_t int int
  | SR_Create_Buffer resource u32 int int int int u32
  | SR_Pool_Destroy resource
  | SR_Pool_Resize resource int
  | SR_Buffer_Destroy resource
  | SR_Create_Surface resource u32
  | SR_Create_Region resource u32
  | SR_Surface_Destroy resource
  | SR_Attach resource "resource option" int int
  | SR_Damage resource int int int int
  | SR_Frame resource u32
  | SR_Set_Opaque_Region resource "resource option"
  | SR_Set_Input_Region resource "resource option"
  | SR_Commit resource
  | SR_Set_Buffer_Transform resource int
  | SR_Set_Buffer_Scale resource int
  | SR_Damage_Buffer resource int int int int
  | SR_Offset resource int int
  | SR_Region_Destroy resource
  | SR_Region_Add resource int int int int
  | SR_Region_Subtract resource int int int int
  | SR_Viewporter_Destroy resource
  | SR_Get_Viewport resource u32 resource
  | SR_Viewport_Destroy resource
  | SR_Viewport_Set_Source resource int int int int
  | SR_Viewport_Set_Destination resource int int
  | SR_Client_Destroyed

type_synonym shm_step = "shm_server \<times> shm_event wl_call list"

section \<open>Handlers\<close>

definition shm_buffer_destroy :: "resource \<Rightarrow> shm_server \<Rightarrow> shm_step" where
  "shm_buffer_destroy r s = (s\<lparr>sm_buffer_destroyed := True\<rparr>, [Destroy r])"

definition shm_pool_create_buffer ::
    "wl_lib \<Rightarrow> u32 \<Rightarrow> int \<Rightarrow> int \<Rightarrow> int \<Rightarrow> int \<Rightarrow> u32 \<Rightarrow> resource option \<Rightarrow> shm_server \<Rightarrow> shm_step" where
  "shm_pool_create_buffer L rid offset width height stride format new s =
     (if offset \<noteq> 0 \<or> width \<noteq> 2 \<or> height \<noteq> 2 \<or> stride \<noteq> 8 \<or> format \<noteq> shm_argb8888 L
      then (s, [Implementation_Error ''invalid shm buffer''])
      else (if new = None then s else s\<lparr>sm_buffer := new, sm_buffer_created := True\<rparr>,
            create_resource new ''wl_buffer'' 1 rid (\<lambda>r. [])))"

definition shm_pool_destroy :: "resource \<Rightarrow> shm_server \<Rightarrow> shm_step" where
  "shm_pool_destroy r s =
     (if sm_buffer_destroyed s then s\<lparr>sm_pool_destroyed := True\<rparr> else s, [Destroy r])"

definition shm_pool_resize :: "shm_server \<Rightarrow> shm_step" where
  "shm_pool_resize s = (s, [Implementation_Error ''unexpected shm pool resize''])"

definition shm_create_pool :: "u32 \<Rightarrow> fd_t \<Rightarrow> int \<Rightarrow> int \<Rightarrow> resource option \<Rightarrow> shm_server \<Rightarrow> shm_step" where
  "shm_create_pool rid fd flags sz new s =
     (if sz \<noteq> 4096 \<or> flags < 0 \<or> flags AND FD_CLOEXEC = 0
      then (s, [Close fd, Implementation_Error ''invalid shm pool''])
      else (if new = None then s else s\<lparr>sm_pool_created := True\<rparr>,
            [Close fd] @ create_resource new ''wl_shm_pool'' 1 rid (\<lambda>r. [])))"

definition shm_bind_shm :: "wl_lib \<Rightarrow> u32 \<Rightarrow> u32 \<Rightarrow> resource option \<Rightarrow> shm_server \<Rightarrow> shm_step" where
  "shm_bind_shm L version rid new s =
     (s, create_resource new ''wl_shm'' (min_version version 1) rid
           (\<lambda>r. [Send (SE_Format r (shm_argb8888 L))]))"

definition shm_surface_destroy :: "resource \<Rightarrow> shm_server \<Rightarrow> shm_step" where
  "shm_surface_destroy r s = (s\<lparr>sm_surface_destroyed := True, sm_surface := None\<rparr>, [Destroy r])"

definition shm_surface_attach :: "resource option \<Rightarrow> int \<Rightarrow> int \<Rightarrow> shm_server \<Rightarrow> shm_step" where
  "shm_surface_attach buffer x y s =
     (if buffer \<noteq> sm_buffer s \<or> x \<noteq> 0 \<or> y \<noteq> 0
      then (s, [Implementation_Error ''invalid surface attach'']) else (s\<lparr>sm_attached := True\<rparr>, []))"

definition shm_surface_damage :: "int \<Rightarrow> int \<Rightarrow> int \<Rightarrow> int \<Rightarrow> shm_server \<Rightarrow> shm_step" where
  "shm_surface_damage x y width height s =
     (if x \<noteq> 1 \<or> y \<noteq> 2 \<or> width \<noteq> 3 \<or> height \<noteq> 4
      then (s, [Implementation_Error ''invalid surface damage'']) else (s\<lparr>sm_damaged := True\<rparr>, []))"

text \<open>The callback gets no implementation, and its pointer is stored even when it is NULL.\<close>

definition shm_surface_frame :: "u32 \<Rightarrow> resource option \<Rightarrow> shm_server \<Rightarrow> shm_step" where
  "shm_surface_frame rid new s =
     (s\<lparr>sm_frame := new\<rparr>,
      case new of None \<Rightarrow> [No_Memory] | Some r \<Rightarrow> [Create r ''wl_callback'' 1 rid])"

definition shm_set_opaque_region :: "resource option \<Rightarrow> shm_server \<Rightarrow> shm_step" where
  "shm_set_opaque_region region s =
     (if region \<noteq> sm_region s then (s, [Implementation_Error ''invalid opaque region''])
      else (s\<lparr>sm_opaque_region_set := True\<rparr>, []))"

definition shm_set_input_region :: "resource option \<Rightarrow> shm_server \<Rightarrow> shm_step" where
  "shm_set_input_region region s =
     (if region \<noteq> sm_region s then (s, [Implementation_Error ''invalid input region''])
      else (s\<lparr>sm_input_region_set := True\<rparr>, []))"

definition shm_surface_commit :: "shm_server \<Rightarrow> shm_step" where
  "shm_surface_commit s =
     (if \<not> sm_attached s \<or> \<not> sm_damaged s \<or> \<not> sm_damaged_buffer s \<or> \<not> sm_viewport_source s \<or>
         \<not> sm_viewport_destination s \<or> sm_frame s = None
      then (s, [Implementation_Error ''incomplete surface commit''])
      else (s\<lparr>sm_frame := None, sm_committed := True\<rparr>,
            [Send (SE_Release (sm_buffer s)), Send (SE_Done (the (sm_frame s)) 123),
             Destroy (the (sm_frame s))]))"

definition shm_damage_buffer :: "int \<Rightarrow> int \<Rightarrow> int \<Rightarrow> int \<Rightarrow> shm_server \<Rightarrow> shm_step" where
  "shm_damage_buffer x y width height s =
     (if x \<noteq> 5 \<or> y \<noteq> 6 \<or> width \<noteq> 7 \<or> height \<noteq> 8
      then (s, [Implementation_Error ''invalid buffer damage'']) else (s\<lparr>sm_damaged_buffer := True\<rparr>, []))"

definition shm_set_buffer_transform :: "wl_lib \<Rightarrow> int \<Rightarrow> shm_server \<Rightarrow> shm_step" where
  "shm_set_buffer_transform L transform s =
     (if transform \<noteq> transform_90 L then (s, [Implementation_Error ''invalid buffer transform''])
      else (s\<lparr>sm_transformed := True\<rparr>, []))"

definition shm_set_buffer_scale :: "int \<Rightarrow> shm_server \<Rightarrow> shm_step" where
  "shm_set_buffer_scale scale s =
     (if scale \<noteq> 2 then (s, [Implementation_Error ''invalid buffer scale''])
      else (s\<lparr>sm_scaled := True\<rparr>, []))"

definition shm_surface_offset :: "int \<Rightarrow> int \<Rightarrow> shm_server \<Rightarrow> shm_step" where
  "shm_surface_offset x y s =
     (if x \<noteq> 2 \<or> y \<noteq> -3 then (s, [Implementation_Error ''invalid surface offset''])
      else (s\<lparr>sm_offset := True\<rparr>, []))"

definition shm_region_destroy :: "resource \<Rightarrow> shm_server \<Rightarrow> shm_step" where
  "shm_region_destroy r s = (s\<lparr>sm_region_destroyed := True, sm_region := None\<rparr>, [Destroy r])"

definition shm_region_add :: "int \<Rightarrow> int \<Rightarrow> int \<Rightarrow> int \<Rightarrow> shm_server \<Rightarrow> shm_step" where
  "shm_region_add x y width height s =
     (if x \<noteq> 1 \<or> y \<noteq> 2 \<or> width \<noteq> 3 \<or> height \<noteq> 4
      then (s, [Implementation_Error ''invalid region add'']) else (s\<lparr>sm_region_added := True\<rparr>, []))"

definition shm_region_subtract :: "int \<Rightarrow> int \<Rightarrow> int \<Rightarrow> int \<Rightarrow> shm_server \<Rightarrow> shm_step" where
  "shm_region_subtract x y width height s =
     (if x \<noteq> 5 \<or> y \<noteq> 6 \<or> width \<noteq> 7 \<or> height \<noteq> 8
      then (s, [Implementation_Error ''invalid region subtract'']) else (s\<lparr>sm_region_subtracted := True\<rparr>, []))"

definition shm_create_surface :: "wl_lib \<Rightarrow> resource \<Rightarrow> u32 \<Rightarrow> resource option \<Rightarrow> shm_server \<Rightarrow> shm_step" where
  "shm_create_surface L compositor rid new s =
     (if new = None then s else s\<lparr>sm_surface_created := True, sm_surface := new\<rparr>,
      create_resource new ''wl_surface'' (version_of L compositor) rid (\<lambda>r. []))"

definition shm_create_region :: "u32 \<Rightarrow> resource option \<Rightarrow> shm_server \<Rightarrow> shm_step" where
  "shm_create_region rid new s =
     (s\<lparr>sm_region := new\<rparr>, create_resource new ''wl_region'' 1 rid (\<lambda>r. []))"

definition shm_bind_compositor :: "u32 \<Rightarrow> u32 \<Rightarrow> resource option \<Rightarrow> shm_server \<Rightarrow> shm_step" where
  "shm_bind_compositor version rid new s =
     (s, create_resource new ''wl_compositor'' (min_version version 5) rid (\<lambda>r. []))"

definition shm_viewport_destroy :: "resource \<Rightarrow> shm_server \<Rightarrow> shm_step" where
  "shm_viewport_destroy r s = (s\<lparr>sm_viewport_destroyed := True\<rparr>, [Destroy r])"

definition shm_viewport_set_source ::
    "wl_lib \<Rightarrow> int \<Rightarrow> int \<Rightarrow> int \<Rightarrow> int \<Rightarrow> shm_server \<Rightarrow> shm_step" where
  "shm_viewport_set_source L x y width height s =
     (if x \<noteq> fixed_from_int L 0 \<or> y \<noteq> fixed_from_int L 0 \<or> width \<noteq> fixed_from_int L 1 \<or>
         height \<noteq> fixed_from_int L 1
      then (s, [Implementation_Error ''invalid viewport source'']) else (s\<lparr>sm_viewport_source := True\<rparr>, []))"

definition shm_viewport_set_destination :: "int \<Rightarrow> int \<Rightarrow> shm_server \<Rightarrow> shm_step" where
  "shm_viewport_set_destination width height s =
     (if width \<noteq> 3 \<or> height \<noteq> 4
      then (s, [Implementation_Error ''invalid viewport destination''])
      else (s\<lparr>sm_viewport_destination := True\<rparr>, []))"

definition shm_viewporter_destroy :: "resource \<Rightarrow> shm_server \<Rightarrow> shm_step" where
  "shm_viewporter_destroy r s = (s, [Destroy r])"

definition shm_get_viewport :: "u32 \<Rightarrow> resource \<Rightarrow> resource option \<Rightarrow> shm_server \<Rightarrow> shm_step" where
  "shm_get_viewport rid surface new s =
     (if Some surface \<noteq> sm_surface s then (s, [Implementation_Error ''invalid viewport surface''])
      else (if new = None then s else s\<lparr>sm_viewport_created := True\<rparr>,
            create_resource new ''wp_viewport'' 1 rid (\<lambda>r. [])))"

definition shm_bind_viewporter :: "u32 \<Rightarrow> u32 \<Rightarrow> resource option \<Rightarrow> shm_server \<Rightarrow> shm_step" where
  "shm_bind_viewporter version rid new s =
     (s, create_resource new ''wp_viewporter'' (min_version version 1) rid (\<lambda>r. []))"

definition shm_client_destroy :: "shm_server \<Rightarrow> shm_step" where
  "shm_client_destroy s = (s, [Terminate])"

fun shm_handle :: "wl_lib \<Rightarrow> shm_request \<Rightarrow> resource option \<Rightarrow> shm_server \<Rightarrow> shm_step" where
  "shm_handle L (SR_Bind_Shm v rid) new s = shm_bind_shm L v rid new s"
| "shm_handle L (SR_Bind_Compositor v rid) new s = shm_bind_compositor v rid new s"
| "shm_handle L (SR_Bind_Viewporter v rid) new s = shm_bind_viewporter v rid new s"
| "shm_handle L (SR_Create_Pool r rid fd flags sz) new s = shm_create_pool rid fd flags sz new s"
| "shm_handle L (SR_Create_Buffer r rid offset w h stride format) new s =
     shm_pool_create_buffer L rid offset w h stride format new s"
| "shm_handle L (SR_Pool_Destroy r) new s = shm_pool_destroy r s"
| "shm_handle L (SR_Pool_Resize r sz) new s = shm_pool_resize s"
| "shm_handle L (SR_Buffer_Destroy r) new s = shm_buffer_destroy r s"
| "shm_handle L (SR_Create_Surface r rid) new s = shm_create_surface L r rid new s"
| "shm_handle L (SR_Create_Region r rid) new s = shm_create_region rid new s"
| "shm_handle L (SR_Surface_Destroy r) new s = shm_surface_destroy r s"
| "shm_handle L (SR_Attach r buffer x y) new s = shm_surface_attach buffer x y s"
| "shm_handle L (SR_Damage r x y w h) new s = shm_surface_damage x y w h s"
| "shm_handle L (SR_Frame r rid) new s = shm_surface_frame rid new s"
| "shm_handle L (SR_Set_Opaque_Region r region) new s = shm_set_opaque_region region s"
| "shm_handle L (SR_Set_Input_Region r region) new s = shm_set_input_region region s"
| "shm_handle L (SR_Commit r) new s = shm_surface_commit s"
| "shm_handle L (SR_Set_Buffer_Transform r transform) new s = shm_set_buffer_transform L transform s"
| "shm_handle L (SR_Set_Buffer_Scale r scale) new s = shm_set_buffer_scale scale s"
| "shm_handle L (SR_Damage_Buffer r x y w h) new s = shm_damage_buffer x y w h s"
| "shm_handle L (SR_Offset r x y) new s = shm_surface_offset x y s"
| "shm_handle L (SR_Region_Destroy r) new s = shm_region_destroy r s"
| "shm_handle L (SR_Region_Add r x y w h) new s = shm_region_add x y w h s"
| "shm_handle L (SR_Region_Subtract r x y w h) new s = shm_region_subtract x y w h s"
| "shm_handle L (SR_Viewporter_Destroy r) new s = shm_viewporter_destroy r s"
| "shm_handle L (SR_Get_Viewport r rid surface) new s = shm_get_viewport rid surface new s"
| "shm_handle L (SR_Viewport_Destroy r) new s = shm_viewport_destroy r s"
| "shm_handle L (SR_Viewport_Set_Source r x y w h) new s = shm_viewport_set_source L x y w h s"
| "shm_handle L (SR_Viewport_Set_Destination r w h) new s = shm_viewport_set_destination w h s"
| "shm_handle L SR_Client_Destroyed new s = shm_client_destroy s"

fun shm_args :: "shm_request \<Rightarrow> (resource \<times> string) list" where
  "shm_args (SR_Create_Pool r rid fd flags sz) = [(r, ''wl_shm'')]"
| "shm_args (SR_Create_Buffer r rid offset w h stride format) = [(r, ''wl_shm_pool'')]"
| "shm_args (SR_Pool_Destroy r) = [(r, ''wl_shm_pool'')]"
| "shm_args (SR_Pool_Resize r sz) = [(r, ''wl_shm_pool'')]"
| "shm_args (SR_Buffer_Destroy r) = [(r, ''wl_buffer'')]"
| "shm_args (SR_Create_Surface r rid) = [(r, ''wl_compositor'')]"
| "shm_args (SR_Create_Region r rid) = [(r, ''wl_compositor'')]"
| "shm_args (SR_Surface_Destroy r) = [(r, ''wl_surface'')]"
| "shm_args (SR_Attach r buffer x y) = (r, ''wl_surface'') # held buffer ''wl_buffer''"
| "shm_args (SR_Damage r x y w h) = [(r, ''wl_surface'')]"
| "shm_args (SR_Frame r rid) = [(r, ''wl_surface'')]"
| "shm_args (SR_Set_Opaque_Region r region) = (r, ''wl_surface'') # held region ''wl_region''"
| "shm_args (SR_Set_Input_Region r region) = (r, ''wl_surface'') # held region ''wl_region''"
| "shm_args (SR_Commit r) = [(r, ''wl_surface'')]"
| "shm_args (SR_Set_Buffer_Transform r transform) = [(r, ''wl_surface'')]"
| "shm_args (SR_Set_Buffer_Scale r scale) = [(r, ''wl_surface'')]"
| "shm_args (SR_Damage_Buffer r x y w h) = [(r, ''wl_surface'')]"
| "shm_args (SR_Offset r x y) = [(r, ''wl_surface'')]"
| "shm_args (SR_Region_Destroy r) = [(r, ''wl_region'')]"
| "shm_args (SR_Region_Add r x y w h) = [(r, ''wl_region'')]"
| "shm_args (SR_Region_Subtract r x y w h) = [(r, ''wl_region'')]"
| "shm_args (SR_Viewporter_Destroy r) = [(r, ''wp_viewporter'')]"
| "shm_args (SR_Get_Viewport r rid surface) = [(r, ''wp_viewporter''), (surface, ''wl_surface'')]"
| "shm_args (SR_Viewport_Destroy r) = [(r, ''wp_viewport'')]"
| "shm_args (SR_Viewport_Set_Source r x y w h) = [(r, ''wp_viewport'')]"
| "shm_args (SR_Viewport_Set_Destination r w h) = [(r, ''wp_viewport'')]"
| "shm_args _ = []"

fun shm_uses :: "shm_event \<Rightarrow> resource option list" where
  "shm_uses (SE_Format r format) = [Some r]"
| "shm_uses (SE_Release r) = [r]"
| "shm_uses (SE_Done r time) = [Some r]"

definition shm_status :: "shm_server \<Rightarrow> bool" where
  "shm_status s \<longleftrightarrow>
     (if sm_pool_created s \<and> sm_buffer_created s \<and> sm_buffer_destroyed s \<and> sm_pool_destroyed s \<and>
         sm_surface_created s \<and> sm_surface_destroyed s \<and> sm_committed s \<and> sm_region_added s \<and>
         sm_region_subtracted s \<and> sm_region_destroyed s \<and> sm_opaque_region_set s \<and> sm_input_region_set s
      then sm_transformed s \<and> sm_scaled s \<and> sm_offset s \<and> sm_viewport_created s \<and>
           sm_viewport_source s \<and> sm_viewport_destination s \<and> sm_viewport_destroyed s
      else False)"

definition shm_globals :: "(string \<times> nat) list" where
  "shm_globals = [(''wl_shm'', 1), (''wl_compositor'', 5), (''wp_viewporter'', 1)]"

definition shm_session :: "wl_lib \<Rightarrow> shm_request input list \<Rightarrow>
    (shm_server, shm_request, shm_event) session option" where
  "shm_session L ins = serve (shm_handle L) shm_args shm_uses ins (start_session shm_server_init)"

definition shm_server_fd :: "main_env \<Rightarrow> wl_lib \<Rightarrow> shm_request input list \<Rightarrow> outcome" where
  "shm_server_fd env L ins = server_program env shm_globals shm_status (shm_session L ins)"

lemmas shm_handler_defs = shm_buffer_destroy_def shm_pool_create_buffer_def shm_pool_destroy_def
  shm_pool_resize_def shm_create_pool_def shm_bind_shm_def shm_surface_destroy_def
  shm_surface_attach_def shm_surface_damage_def shm_surface_frame_def shm_set_opaque_region_def
  shm_set_input_region_def shm_surface_commit_def shm_damage_buffer_def shm_set_buffer_transform_def
  shm_set_buffer_scale_def shm_surface_offset_def shm_region_destroy_def shm_region_add_def
  shm_region_subtract_def shm_create_surface_def shm_create_region_def shm_bind_compositor_def
  shm_viewport_destroy_def shm_viewport_set_source_def shm_viewport_set_destination_def
  shm_viewporter_destroy_def shm_get_viewport_def shm_bind_viewporter_def shm_client_destroy_def
  create_resource_def

section \<open>Memory safety up to two misuses\<close>

text \<open>
  The buffer is a pointer the server holds until a buffer is destroyed. A commit needs it: a client may
  not commit after destroying a buffer, nor attach NULL while there is none.
\<close>

definition shm_holds :: "shm_server \<Rightarrow> (resource \<times> string) list" where
  "shm_holds s = held (sm_frame s) ''wl_callback'' @
     (if sm_buffer_destroyed s then [] else held (sm_buffer s) ''wl_buffer'')"

fun shm_allowed :: "shm_server \<Rightarrow> shm_request \<Rightarrow> bool" where
  "shm_allowed s (SR_Commit r) =
     (\<not> sm_buffer_destroyed s \<and> (if sm_attached s then sm_buffer s \<noteq> None else True))"
| "shm_allowed s req = True"

interpretation shm_guarded: guarded_server "shm_handle L" shm_args shm_uses
  "\<lambda>s live. exist (shm_holds s) live" "\<lambda>s live i. shm_allowed s (fst i)" for L
proof unfold_locales
  fix s live req new s' calls
  assume "shm_allowed s (fst (req, new))" and "exist (shm_holds s) live" and "exist (shm_args req) live"
    and "\<forall>r. new = Some r \<longrightarrow> live r = None" and "shm_handle L req new s = (s', calls)"
  then show "\<exists>live'. exec_calls shm_uses calls live = Some live' \<and> exist (shm_holds s') live'"
    by (cases req; cases new)
       (auto simp: shm_handler_defs shm_holds_def split: if_splits option.splits)
qed

text \<open>The requests of a session that are one of the two misuses.\<close>

definition shm_commits_after_destroy :: "shm_request input list \<Rightarrow> bool" where
  "shm_commits_after_destroy ins \<longleftrightarrow>
     in_order ins [\<lambda>q. \<exists>r. q = SR_Buffer_Destroy r, \<lambda>q. \<exists>r. q = SR_Commit r]"

definition shm_attaches_null :: "shm_request input list \<Rightarrow> bool" where
  "shm_attaches_null ins \<longleftrightarrow> asked ins (\<lambda>q. \<exists>r x y. q = SR_Attach r None x y)"

lemma shm_no_misuse:
  assumes "serve (shm_handle L) shm_args shm_uses ins (start_session shm_server_init) = Some ss"
  shows "sm_buffer_destroyed (ss_state ss) \<longleftrightarrow> asked (ss_handled ss) (\<lambda>q. \<exists>r. q = SR_Buffer_Destroy r)"
    and "sm_attached (ss_state ss) \<Longrightarrow> sm_buffer (ss_state ss) \<noteq> None \<or> shm_attaches_null (ss_handled ss)"
proof -
  show "sm_buffer_destroyed (ss_state ss) \<longleftrightarrow> asked (ss_handled ss) (\<lambda>q. \<exists>r. q = SR_Buffer_Destroy r)"
    unfolding asked_def
    by (rule serve_flag [OF assms], simp add: shm_server_init_def, case_tac req; auto simp: shm_handler_defs)
  have "sm_attached (ss_state ss) \<longrightarrow> sm_buffer (ss_state ss) \<noteq> None \<or> shm_attaches_null (ss_handled ss)"
  proof (rule serve_start_invariant [OF assms, where
        I = "\<lambda>hs s. sm_attached s \<longrightarrow> sm_buffer s \<noteq> None \<or> shm_attaches_null hs"])
    show "sm_attached shm_server_init \<longrightarrow> sm_buffer shm_server_init \<noteq> None \<or> shm_attaches_null []"
      by (simp add: shm_server_init_def)
  next
    fix hs s req new
    assume "sm_attached (s :: shm_server) \<longrightarrow> sm_buffer s \<noteq> None \<or> shm_attaches_null hs"
    then show "sm_attached (fst (shm_handle L req new s)) \<longrightarrow>
        sm_buffer (fst (shm_handle L req new s)) \<noteq> None \<or> shm_attaches_null (hs @ [(req, new)])"
      by (cases req) (auto simp: shm_handler_defs shm_attaches_null_def)
  qed
  then show "sm_attached (ss_state ss) \<Longrightarrow>
      sm_buffer (ss_state ss) \<noteq> None \<or> shm_attaches_null (ss_handled ss)" by blast
qed

lemma shm_session_exists:
  assumes "\<not> shm_commits_after_destroy ins" and "\<not> shm_attaches_null ins"
  shows "\<exists>ss. shm_session L ins = Some ss"
  unfolding shm_session_def
proof (rule shm_guarded.session_guarded)
  show "exist (shm_holds shm_server_init) Map.empty" by (simp add: shm_holds_def shm_server_init_def)
next
  fix xs i ys and ss1 :: "(shm_server, shm_request, shm_event) session"
  assume ins: "ins = xs @ i # ys"
    and s: "serve (shm_handle L) shm_args shm_uses xs (start_session shm_server_init) = Some ss1"
  have sub: "set (ss_handled ss1) \<subseteq> set xs"
    using serve_handled [OF s] by (simp add: start_session_def)
  have null: "\<not> shm_attaches_null (ss_handled ss1)"
    using assms(2) sub ins by (fastforce simp: shm_attaches_null_def asked_def)
  show "shm_allowed (ss_state ss1) (fst i)"
  proof (cases "fst i")
    case (SR_Commit r)
    let ?D = "\<lambda>q. \<exists>r. q = SR_Buffer_Destroy r" and ?C = "\<lambda>q. \<exists>r. q = SR_Commit r"
    have "\<not> (\<exists>h \<in> set xs. ?D (fst h))"
      using assms(1) in_order_pair [of xs ?D ?C i ys] SR_Commit
      unfolding shm_commits_after_destroy_def ins by blast
    then have "\<not> sm_buffer_destroyed (ss_state ss1)"
      using shm_no_misuse(1) [OF s] sub by (fastforce simp: asked_def)
    with SR_Commit shm_no_misuse(2) [OF s] null show ?thesis by simp
  qed simp_all
qed

section \<open>What the verdict means\<close>

text \<open>The descriptors a session received, and the region that was created last and not destroyed since.\<close>

fun shm_pool_fds :: "shm_request input list \<Rightarrow> fd_t list" where
  "shm_pool_fds [] = []"
| "shm_pool_fds ((SR_Create_Pool r rid fd flags sz, new) # ins) = fd # shm_pool_fds ins"
| "shm_pool_fds (i # ins) = shm_pool_fds ins"

lemma shm_pool_fds_append [simp]: "shm_pool_fds (xs @ ys) = shm_pool_fds xs @ shm_pool_fds ys"
  by (induction xs rule: shm_pool_fds.induct) auto

fun shm_region_step :: "resource option \<Rightarrow> shm_request input \<Rightarrow> resource option" where
  "shm_region_step region (SR_Create_Region r rid, new) = new"
| "shm_region_step region (SR_Region_Destroy r, new) = None"
| "shm_region_step region i = region"

definition shm_region_after :: "shm_request input list \<Rightarrow> resource option" where
  "shm_region_after = foldl shm_region_step None"

definition shm_tracked ::
    "shm_request input list \<Rightarrow> shm_server \<Rightarrow> shm_event wl_call list \<Rightarrow> bool" where
  "shm_tracked hs s cs \<longleftrightarrow>
     closed cs = shm_pool_fds hs \<and> sm_region s = shm_region_after hs \<and>
     created ''wl_shm_pool'' cs \<ge> 0 \<and> sm_pool_created s = (created ''wl_shm_pool'' cs > 0) \<and>
     created ''wl_buffer'' cs \<ge> 0 \<and> sm_buffer_created s = (created ''wl_buffer'' cs > 0) \<and>
     created ''wl_surface'' cs \<ge> 0 \<and> sm_surface_created s = (created ''wl_surface'' cs > 0) \<and>
     created ''wp_viewport'' cs \<ge> 0 \<and> sm_viewport_created s = (created ''wp_viewport'' cs > 0) \<and>
     sm_committed s = (\<exists>r. Send (SE_Done r 123) \<in> set cs) \<and>
     sm_opaque_region_set s =
       asked_after [] hs (\<lambda>past q. \<exists>r. q = SR_Set_Opaque_Region r (shm_region_after past)) \<and>
     sm_input_region_set s =
       asked_after [] hs (\<lambda>past q. \<exists>r. q = SR_Set_Input_Region r (shm_region_after past))"

lemma shm_session_tracked:
  assumes "shm_session L ins = Some ss"
  shows "shm_tracked (ss_handled ss) (ss_state ss) (ss_calls ss)"
proof (rule serve_start_trace_invariant [OF assms [unfolded shm_session_def], where I = shm_tracked])
  show "shm_tracked [] shm_server_init []"
    by (simp add: shm_tracked_def shm_server_init_def shm_region_after_def)
next
  fix hs s cs req new
  assume "shm_tracked hs s cs"
  then show "shm_tracked (hs @ [(req, new)]) (fst (shm_handle L req new s))
      (cs @ snd (shm_handle L req new s))"
    by (cases req; cases new) (auto simp: shm_tracked_def shm_region_after_def shm_handler_defs)
qed

lemma shm_flags:
  assumes "shm_session L ins = Some ss"
  shows "sm_surface_destroyed (ss_state ss) \<longleftrightarrow> asked (ss_handled ss) (\<lambda>q. \<exists>r. q = SR_Surface_Destroy r)"
    and "sm_region_destroyed (ss_state ss) \<longleftrightarrow> asked (ss_handled ss) (\<lambda>q. \<exists>r. q = SR_Region_Destroy r)"
    and "sm_region_added (ss_state ss) \<longleftrightarrow> asked (ss_handled ss) (\<lambda>q. \<exists>r. q = SR_Region_Add r 1 2 3 4)"
    and "sm_region_subtracted (ss_state ss) \<longleftrightarrow>
      asked (ss_handled ss) (\<lambda>q. \<exists>r. q = SR_Region_Subtract r 5 6 7 8)"
    and "sm_transformed (ss_state ss) \<longleftrightarrow>
      asked (ss_handled ss) (\<lambda>q. \<exists>r. q = SR_Set_Buffer_Transform r (transform_90 L))"
    and "sm_scaled (ss_state ss) \<longleftrightarrow> asked (ss_handled ss) (\<lambda>q. \<exists>r. q = SR_Set_Buffer_Scale r 2)"
    and "sm_offset (ss_state ss) \<longleftrightarrow> asked (ss_handled ss) (\<lambda>q. \<exists>r. q = SR_Offset r 2 (-3))"
    and "sm_viewport_source (ss_state ss) \<longleftrightarrow> asked (ss_handled ss) (\<lambda>q. \<exists>r. q = SR_Viewport_Set_Source r
      (fixed_from_int L 0) (fixed_from_int L 0) (fixed_from_int L 1) (fixed_from_int L 1))"
    and "sm_viewport_destination (ss_state ss) \<longleftrightarrow>
      asked (ss_handled ss) (\<lambda>q. \<exists>r. q = SR_Viewport_Set_Destination r 3 4)"
    and "sm_viewport_destroyed (ss_state ss) \<longleftrightarrow> asked (ss_handled ss) (\<lambda>q. \<exists>r. q = SR_Viewport_Destroy r)"
  unfolding asked_def
  by (rule serve_flag [OF assms [unfolded shm_session_def]], simp add: shm_server_init_def,
      case_tac req; auto simp: shm_handler_defs)+

lemma shm_teardown_order:
  assumes "shm_session L ins = Some ss"
  shows "sm_pool_destroyed (ss_state ss) \<and> sm_buffer_destroyed (ss_state ss) \<longleftrightarrow>
    in_order (ss_handled ss) [\<lambda>q. \<exists>r. q = SR_Buffer_Destroy r, \<lambda>q. \<exists>r. q = SR_Pool_Destroy r]"
proof -
  let ?D = "\<lambda>q. \<exists>r. q = SR_Buffer_Destroy r" and ?P = "\<lambda>q. \<exists>r. q = SR_Pool_Destroy r"
  let ?I = "\<lambda>hs s. sm_buffer_destroyed s = in_order hs [?D] \<and> sm_pool_destroyed s = in_order hs [?D, ?P]"
  have I: "?I (ss_handled ss) (ss_state ss)"
  proof (rule serve_start_invariant [OF assms [unfolded shm_session_def], where I = ?I])
    show "?I [] shm_server_init" by (simp add: shm_server_init_def)
  next
    fix hs s req new
    assume "?I hs (s :: shm_server)"
    then show "?I (hs @ [(req, new)]) (fst (shm_handle L req new s))"
      by (cases req; cases new) (simp_all add: shm_handler_defs)
  qed
  with in_order_prefix [of "ss_handled ss" "[?D, ?P]" 1] show ?thesis by auto
qed

section \<open>Properties\<close>

text \<open>The two misuses, as sessions: a commit after the buffer is gone, and one of a NULL buffer.\<close>

definition shm_drawing :: "shm_request input list" where
  "shm_drawing = [(SR_Damage 2 1 2 3 4, None), (SR_Damage_Buffer 2 5 6 7 8, None),
     (SR_Bind_Viewporter 1 6, Some 3), (SR_Get_Viewport 3 7 2, Some 4),
     (SR_Viewport_Set_Source 4 0 0 256 256, None), (SR_Viewport_Set_Destination 4 3 4, None),
     (SR_Frame 2 8, Some 5)]"

definition shm_use_after_free :: "shm_request input list" where
  "shm_use_after_free = [(SR_Bind_Compositor 5 3, Some 1), (SR_Create_Surface 1 4, Some 2),
     (SR_Bind_Shm 1 5, Some 6), (SR_Create_Pool 6 9 77 1 4096, Some 7),
     (SR_Create_Buffer 7 10 0 2 2 8 0, Some 8), (SR_Attach 2 (Some 8) 0 0, None)] @ shm_drawing @
     [(SR_Buffer_Destroy 8, None), (SR_Commit 2, None)]"

definition shm_null_release :: "shm_request input list" where
  "shm_null_release = [(SR_Bind_Compositor 5 3, Some 1), (SR_Create_Surface 1 4, Some 2),
     (SR_Attach 2 None 0 0, None)] @ shm_drawing @ [(SR_Commit 2, None)]"

lemma shm_misuse_crashes:
  "shm_server_fd demo_env demo_lib shm_use_after_free = Crashed"
  "shm_server_fd demo_env demo_lib shm_null_release = Crashed"
  by (simp_all add: shm_server_fd_def server_program_def env_ok_def demo_env_def shm_session_def
      shm_use_after_free_def shm_null_release_def shm_drawing_def start_session_def deliver_def
      deliverable_def terminated_def shm_handler_defs shm_server_init_def demo_lib_def FD_CLOEXEC_def)

text \<open>C25: the shared-memory server uses only resources that exist unless the client commits after
  destroying a buffer or attaches NULL. It then closes the descriptor of every pool it is given exactly
  once, valid or not, and exits with success if and only if it could start, the client has gone, a
  pool, a buffer, a surface and a viewport were created, a pool destroyed after a buffer, a frame
  completed, and every drawing, region and viewport request arrived with the expected values, the
  two region requests naming the region that existed then.\<close>

theorem shm_server_safe_unless_misused:
  "shm_commits_after_destroy ins \<or> shm_attaches_null ins \<or>
   (\<exists>ss. shm_session L ins = Some ss \<and> shm_server_fd env L ins \<noteq> Crashed \<and>
      closed (ss_calls ss) = shm_pool_fds (ss_handled ss) \<and>
      (exits_with EXIT_SUCCESS (shm_server_fd env L ins) \<longleftrightarrow>
         env_ok env 3 \<and> terminated ss \<and>
         created ''wl_shm_pool'' (ss_calls ss) > 0 \<and> created ''wl_buffer'' (ss_calls ss) > 0 \<and>
         created ''wl_surface'' (ss_calls ss) > 0 \<and> created ''wp_viewport'' (ss_calls ss) > 0 \<and>
         in_order (ss_handled ss)
           [\<lambda>q. \<exists>r. q = SR_Buffer_Destroy r, \<lambda>q. \<exists>r. q = SR_Pool_Destroy r] \<and>
         (\<exists>r. Send (SE_Done r 123) \<in> set (ss_calls ss)) \<and>
         asked (ss_handled ss) (\<lambda>q. \<exists>r. q = SR_Surface_Destroy r) \<and>
         asked (ss_handled ss) (\<lambda>q. \<exists>r. q = SR_Region_Add r 1 2 3 4) \<and>
         asked (ss_handled ss) (\<lambda>q. \<exists>r. q = SR_Region_Subtract r 5 6 7 8) \<and>
         asked (ss_handled ss) (\<lambda>q. \<exists>r. q = SR_Region_Destroy r) \<and>
         asked_after [] (ss_handled ss)
           (\<lambda>past q. \<exists>r. q = SR_Set_Opaque_Region r (shm_region_after past)) \<and>
         asked_after [] (ss_handled ss)
           (\<lambda>past q. \<exists>r. q = SR_Set_Input_Region r (shm_region_after past)) \<and>
         asked (ss_handled ss) (\<lambda>q. \<exists>r. q = SR_Set_Buffer_Transform r (transform_90 L)) \<and>
         asked (ss_handled ss) (\<lambda>q. \<exists>r. q = SR_Set_Buffer_Scale r 2) \<and>
         asked (ss_handled ss) (\<lambda>q. \<exists>r. q = SR_Offset r 2 (-3)) \<and>
         asked (ss_handled ss) (\<lambda>q. \<exists>r. q = SR_Viewport_Set_Source r
           (fixed_from_int L 0) (fixed_from_int L 0) (fixed_from_int L 1) (fixed_from_int L 1)) \<and>
         asked (ss_handled ss) (\<lambda>q. \<exists>r. q = SR_Viewport_Set_Destination r 3 4) \<and>
         asked (ss_handled ss) (\<lambda>q. \<exists>r. q = SR_Viewport_Destroy r)))"
proof (cases "shm_commits_after_destroy ins \<or> shm_attaches_null ins")
  case False
  then obtain ss where ss: "shm_session L ins = Some ss" using shm_session_exists by blast
  have three: "length shm_globals = 3" by (simp add: shm_globals_def)
  note tracked = shm_session_tracked [OF ss, unfolded shm_tracked_def]
  have "closed (ss_calls ss) = shm_pool_fds (ss_handled ss)" using tracked by blast
  moreover have "shm_server_fd env L ins \<noteq> Crashed"
    by (simp add: shm_server_fd_def ss server_program_not_crashed)
  moreover have "exits_with EXIT_SUCCESS (shm_server_fd env L ins) \<longleftrightarrow>
      env_ok env 3 \<and> terminated ss \<and> shm_status (ss_state ss)"
    by (simp add: shm_server_fd_def ss server_program_success three)
  ultimately show ?thesis
    using ss by (intro disjI2 exI [of _ ss])
      (simp only: simp_thms shm_status_def if_bool_eq_conj shm_flags [OF ss]
        shm_teardown_order [OF ss, symmetric], use tracked in argo)
qed blast

end
