(* ===== verification/Data_Device_Server.thy ===== *)
theory Data_Device_Server
  imports Libwayland
begin

text \<open>
  The libwayland data-device server (\<open>src/bench/data-device-interop-server.c\<close>): selections, drag and
  drop, and a drag that enters when the client creates its second surface. It keeps pointers to the last
  source, device and offer and to the surfaces. What the kernel answers comes with the requests: the
  descriptor flags and the result of \<open>write\<close> when the client receives an offer, the pipe for a
  selection, and what \<open>read\<close> finds in it when the source is destroyed. A data device is created together
  with an offer, whose pointer comes with the request too.

  None of the pointers is cleared when its object is destroyed, and the second surface uses three of
  them: a client that creates it before the device, or after destroying the device, the offer or its
  first surface, makes the server use a NULL or dangling pointer. The theorems say that nothing else
  goes wrong.
\<close>

unbundle bit_operations_syntax

text \<open>The C strings with their terminators.\<close>

definition source_data :: string where
  "source_data = ''wayring-selection'' @ [CHR 0x00]"

definition offer_data :: string where
  "offer_data = ''libwayland-offer'' @ [CHR 0x00]"

record data_device_server =
  dd_source :: "resource option"
  dd_origin :: "resource option"
  dd_icon :: "resource option"
  dd_device :: "resource option"
  dd_offer :: "resource option"
  dd_source_read_fd :: fd_t
  dd_source_created :: bool
  dd_device_created :: bool
  dd_source_offered :: bool
  dd_selection_set :: bool
  dd_source_sent :: bool
  dd_offer_received :: bool
  dd_offer_destroyed :: bool
  dd_source_destroyed :: bool
  dd_device_released :: bool
  dd_seat_released :: bool
  dd_source_actions :: bool
  dd_drag_started :: bool
  dd_drag_events :: bool
  dd_surfaces_destroyed :: int
  dd_offer_accepted :: bool
  dd_offer_actions :: bool
  dd_offer_finished :: bool
  dd_destination_events :: bool

definition data_device_server_init :: data_device_server where
  "data_device_server_init = \<lparr>dd_source = None, dd_origin = None, dd_icon = None,
     dd_device = None, dd_offer = None, dd_source_read_fd = -1, dd_source_created = False,
     dd_device_created = False, dd_source_offered = False, dd_selection_set = False,
     dd_source_sent = False, dd_offer_received = False, dd_offer_destroyed = False,
     dd_source_destroyed = False, dd_device_released = False, dd_seat_released = False,
     dd_source_actions = False, dd_drag_started = False, dd_drag_events = False,
     dd_surfaces_destroyed = 0, dd_offer_accepted = False, dd_offer_actions = False,
     dd_offer_finished = False, dd_destination_events = False\<rparr>"

datatype dd_event =
    DDE_Data_Offer resource resource
  | DDE_Offer resource string
  | DDE_Source_Actions resource u32
  | DDE_Offer_Action resource u32
  | DDE_Target "resource option" "string option"
  | DDE_Source_Action "resource option" u32
  | DDE_Drop_Performed "resource option"
  | DDE_Finished "resource option"
  | DDE_Send resource string fd_t
  | DDE_Enter "resource option" u32 "resource option" int int "resource option"
  | DDE_Motion "resource option" u32 int int
  | DDE_Drop "resource option"
  | DDE_Leave "resource option"

datatype dd_request =
    DDR_Bind_Seat u32 u32
  | DDR_Bind_Manager u32 u32
  | DDR_Bind_Compositor u32 u32
  | DDR_Offer_Accept resource u32 "string option"
  | DDR_Offer_Receive resource string fd_t int int
  | DDR_Offer_Destroy resource
  | DDR_Offer_Finish resource
  | DDR_Offer_Set_Actions resource u32 u32
  | DDR_Source_Offer resource string
  | DDR_Source_Destroy resource "string option"
  | DDR_Source_Set_Actions resource u32
  | DDR_Start_Drag resource "resource option" resource "resource option" u32
  | DDR_Set_Selection resource "resource option" u32 "(fd_t \<times> fd_t) option"
  | DDR_Device_Release resource
  | DDR_Create_Source resource u32
  | DDR_Get_Device resource u32 resource "resource option"
  | DDR_Get_Pointer resource u32
  | DDR_Get_Keyboard resource u32
  | DDR_Get_Touch resource u32
  | DDR_Seat_Release resource
  | DDR_Surface_Destroy resource
  | DDR_Create_Surface resource u32
  | DDR_Create_Region resource u32
  | DDR_Client_Destroyed

type_synonym dd_step = "data_device_server \<times> dd_event wl_call list"

section \<open>Handlers\<close>

definition dd_offer_accept :: "u32 \<Rightarrow> string option \<Rightarrow> data_device_server \<Rightarrow> dd_step" where
  "dd_offer_accept serial mime_type s =
     (if serial \<noteq> 99 \<or> mime_type = None \<or> the mime_type \<noteq> ''text/plain''
      then (s, [Implementation_Error ''invalid offer acceptance''])
      else (s\<lparr>dd_offer_accepted := True\<rparr>, []))"

definition dd_offer_receive ::
    "string \<Rightarrow> fd_t \<Rightarrow> int \<Rightarrow> int \<Rightarrow> data_device_server \<Rightarrow> dd_step" where
  "dd_offer_receive mime_type fd flags written s =
     (if mime_type \<noteq> ''text/plain'' \<or> flags AND FD_CLOEXEC = 0 then (s, [Close fd])
      else (if written = int (length offer_data) then s\<lparr>dd_offer_received := True\<rparr> else s, [Close fd]))"

definition dd_offer_destroy :: "resource \<Rightarrow> data_device_server \<Rightarrow> dd_step" where
  "dd_offer_destroy r s = (s\<lparr>dd_offer_destroyed := True\<rparr>, [Destroy r])"

definition dd_offer_finish :: "data_device_server \<Rightarrow> dd_step" where
  "dd_offer_finish s = (s\<lparr>dd_offer_finished := True\<rparr>, [])"

definition dd_offer_set_actions :: "wl_lib \<Rightarrow> u32 \<Rightarrow> u32 \<Rightarrow> data_device_server \<Rightarrow> dd_step" where
  "dd_offer_set_actions L actions preferred_action s =
     (if actions \<noteq> (dnd_copy L OR dnd_move L) \<or> preferred_action \<noteq> dnd_move L
      then (s, [Implementation_Error ''invalid offer actions''])
      else (s\<lparr>dd_offer_actions := True\<rparr>, []))"

definition dd_source_offer :: "string \<Rightarrow> data_device_server \<Rightarrow> dd_step" where
  "dd_source_offer mime_type s =
     (if mime_type = ''text/plain'' then s\<lparr>dd_source_offered := True\<rparr> else s, [])"

text \<open>\<open>received\<close> is what \<open>read\<close> put into the buffer, NULL for an error.\<close>

definition dd_source_destroy :: "resource \<Rightarrow> string option \<Rightarrow> data_device_server \<Rightarrow> dd_step" where
  "dd_source_destroy r received s =
     (let s' = s\<lparr>dd_source_read_fd := -1\<rparr>
      in (if received = Some source_data then s'\<lparr>dd_source_destroyed := True\<rparr> else s',
          [Close (dd_source_read_fd s), Destroy r]))"

definition dd_source_set_actions :: "wl_lib \<Rightarrow> u32 \<Rightarrow> data_device_server \<Rightarrow> dd_step" where
  "dd_source_set_actions L actions s =
     (if actions \<noteq> (dnd_copy L OR dnd_move L)
      then (s, [Implementation_Error ''invalid data source actions''])
      else (s\<lparr>dd_source_actions := True\<rparr>, []))"

definition dd_start_drag ::
    "wl_lib \<Rightarrow> resource option \<Rightarrow> resource \<Rightarrow> resource option \<Rightarrow> u32 \<Rightarrow> data_device_server \<Rightarrow> dd_step" where
  "dd_start_drag L source origin icon serial s =
     (if \<not> dd_source_actions s \<or> source \<noteq> dd_source s \<or> Some origin \<noteq> dd_origin s \<or>
         icon \<noteq> dd_icon s \<or> serial \<noteq> 88
      then (s, [Implementation_Error ''invalid start drag''])
      else (s\<lparr>dd_drag_started := True, dd_drag_events := True\<rparr>,
            [Send (DDE_Target source (Some ''text/plain'')), Send (DDE_Source_Action source (dnd_move L)),
             Send (DDE_Drop_Performed source), Send (DDE_Finished source)]))"

definition dd_set_selection ::
    "resource option \<Rightarrow> u32 \<Rightarrow> (fd_t \<times> fd_t) option \<Rightarrow> data_device_server \<Rightarrow> dd_step" where
  "dd_set_selection source serial pipe s =
     (if source = None \<or> serial \<noteq> 77 \<or> \<not> dd_source_offered s \<or> pipe = None
      then (s, [Implementation_Error ''invalid selection''])
      else (s\<lparr>dd_source_read_fd := fst (the pipe), dd_selection_set := True, dd_source_sent := True\<rparr>,
            [Send (DDE_Send (the source) ''text/plain'' (snd (the pipe))), Close (snd (the pipe))]))"

definition dd_device_release :: "resource \<Rightarrow> data_device_server \<Rightarrow> dd_step" where
  "dd_device_release r s = (s\<lparr>dd_device_released := True\<rparr>, [Destroy r])"

definition dd_create_source ::
    "wl_lib \<Rightarrow> resource \<Rightarrow> u32 \<Rightarrow> resource option \<Rightarrow> data_device_server \<Rightarrow> dd_step" where
  "dd_create_source L manager rid new s =
     (if new = None then s else s\<lparr>dd_source := new, dd_source_created := True\<rparr>,
      create_resource new ''wl_data_source'' (version_of L manager) rid (\<lambda>r. []))"

definition dd_get_device ::
    "wl_lib \<Rightarrow> resource \<Rightarrow> u32 \<Rightarrow> resource option \<Rightarrow> resource option \<Rightarrow> data_device_server \<Rightarrow> dd_step" where
  "dd_get_device L manager rid offer new s =
     (case new of
        None \<Rightarrow> (s, [No_Memory])
      | Some d \<Rightarrow>
          (case offer of
             None \<Rightarrow> (s, [Create d ''wl_data_device'' (version_of L manager) rid, Destroy d, No_Memory])
           | Some f \<Rightarrow>
               (s\<lparr>dd_device := Some d, dd_offer := Some f, dd_device_created := True\<rparr>,
                [Create d ''wl_data_device'' (version_of L manager) rid,
                 Create f ''wl_data_offer'' (version_of L manager) 0,
                 Set_Implementation d, Set_Implementation f,
                 Send (DDE_Data_Offer d f), Send (DDE_Offer f ''text/plain''),
                 Send (DDE_Source_Actions f (dnd_copy L OR dnd_move L)),
                 Send (DDE_Offer_Action f (dnd_move L))])))"

definition dd_bind_manager :: "u32 \<Rightarrow> u32 \<Rightarrow> resource option \<Rightarrow> data_device_server \<Rightarrow> dd_step" where
  "dd_bind_manager version rid new s =
     (s, create_resource new ''wl_data_device_manager'' (min_version version 3) rid (\<lambda>r. []))"

definition dd_seat_get_pointer :: "data_device_server \<Rightarrow> dd_step" where
  "dd_seat_get_pointer s = (s, [Implementation_Error ''unexpected pointer''])"

definition dd_seat_get_keyboard :: "data_device_server \<Rightarrow> dd_step" where
  "dd_seat_get_keyboard s = (s, [Implementation_Error ''unexpected keyboard''])"

definition dd_seat_get_touch :: "data_device_server \<Rightarrow> dd_step" where
  "dd_seat_get_touch s = (s, [Implementation_Error ''unexpected touch''])"

definition dd_seat_release :: "resource \<Rightarrow> data_device_server \<Rightarrow> dd_step" where
  "dd_seat_release r s = (s\<lparr>dd_seat_released := True\<rparr>, [Destroy r])"

definition dd_bind_seat :: "u32 \<Rightarrow> u32 \<Rightarrow> resource option \<Rightarrow> data_device_server \<Rightarrow> dd_step" where
  "dd_bind_seat version rid new s =
     (s, create_resource new ''wl_seat'' (min_version version 7) rid (\<lambda>r. []))"

definition dd_surface_destroy :: "resource \<Rightarrow> data_device_server \<Rightarrow> dd_step" where
  "dd_surface_destroy r s = (s\<lparr>dd_surfaces_destroyed := dd_surfaces_destroyed s + 1\<rparr>, [Destroy r])"

text \<open>The first surface is the origin of drags, every other one their icon, on which a drag enters.\<close>

definition dd_create_surface ::
    "wl_lib \<Rightarrow> resource \<Rightarrow> u32 \<Rightarrow> resource option \<Rightarrow> data_device_server \<Rightarrow> dd_step" where
  "dd_create_surface L compositor rid new s =
     (if new = None then s
      else if dd_origin s = None then s\<lparr>dd_origin := new\<rparr>
      else s\<lparr>dd_icon := new, dd_destination_events := True\<rparr>,
      create_resource new ''wl_surface'' (version_of L compositor) rid
        (\<lambda>r. if dd_origin s = None then []
             else [Send (DDE_Enter (dd_device s) 99 (dd_origin s) (fixed_from_double L 3 1)
                     (fixed_from_int L (-2)) (dd_offer s)),
                   Send (DDE_Motion (dd_device s) 300 (fixed_from_int L 2) (fixed_from_int L 3)),
                   Send (DDE_Drop (dd_device s)),
                   Send (DDE_Leave (dd_device s))]))"

definition dd_create_region :: "data_device_server \<Rightarrow> dd_step" where
  "dd_create_region s = (s, [Implementation_Error ''unexpected region''])"

definition dd_bind_compositor :: "u32 \<Rightarrow> u32 \<Rightarrow> resource option \<Rightarrow> data_device_server \<Rightarrow> dd_step" where
  "dd_bind_compositor version rid new s =
     (s, create_resource new ''wl_compositor'' (min_version version 4) rid (\<lambda>r. []))"

definition dd_client_destroy :: "data_device_server \<Rightarrow> dd_step" where
  "dd_client_destroy s = (s, [Terminate])"

fun dd_handle :: "wl_lib \<Rightarrow> dd_request \<Rightarrow> resource option \<Rightarrow> data_device_server \<Rightarrow> dd_step" where
  "dd_handle L (DDR_Bind_Seat v rid) new s = dd_bind_seat v rid new s"
| "dd_handle L (DDR_Bind_Manager v rid) new s = dd_bind_manager v rid new s"
| "dd_handle L (DDR_Bind_Compositor v rid) new s = dd_bind_compositor v rid new s"
| "dd_handle L (DDR_Offer_Accept r serial mime_type) new s = dd_offer_accept serial mime_type s"
| "dd_handle L (DDR_Offer_Receive r mime_type fd flags written) new s =
     dd_offer_receive mime_type fd flags written s"
| "dd_handle L (DDR_Offer_Destroy r) new s = dd_offer_destroy r s"
| "dd_handle L (DDR_Offer_Finish r) new s = dd_offer_finish s"
| "dd_handle L (DDR_Offer_Set_Actions r actions preferred) new s = dd_offer_set_actions L actions preferred s"
| "dd_handle L (DDR_Source_Offer r mime_type) new s = dd_source_offer mime_type s"
| "dd_handle L (DDR_Source_Destroy r received) new s = dd_source_destroy r received s"
| "dd_handle L (DDR_Source_Set_Actions r actions) new s = dd_source_set_actions L actions s"
| "dd_handle L (DDR_Start_Drag r source origin icon serial) new s = dd_start_drag L source origin icon serial s"
| "dd_handle L (DDR_Set_Selection r source serial pipe) new s = dd_set_selection source serial pipe s"
| "dd_handle L (DDR_Device_Release r) new s = dd_device_release r s"
| "dd_handle L (DDR_Create_Source r rid) new s = dd_create_source L r rid new s"
| "dd_handle L (DDR_Get_Device r rid seat offer) new s = dd_get_device L r rid offer new s"
| "dd_handle L (DDR_Get_Pointer r rid) new s = dd_seat_get_pointer s"
| "dd_handle L (DDR_Get_Keyboard r rid) new s = dd_seat_get_keyboard s"
| "dd_handle L (DDR_Get_Touch r rid) new s = dd_seat_get_touch s"
| "dd_handle L (DDR_Seat_Release r) new s = dd_seat_release r s"
| "dd_handle L (DDR_Surface_Destroy r) new s = dd_surface_destroy r s"
| "dd_handle L (DDR_Create_Surface r rid) new s = dd_create_surface L r rid new s"
| "dd_handle L (DDR_Create_Region r rid) new s = dd_create_region s"
| "dd_handle L DDR_Client_Destroyed new s = dd_client_destroy s"

fun dd_args :: "dd_request \<Rightarrow> (resource \<times> string) list" where
  "dd_args (DDR_Offer_Accept r serial mime_type) = [(r, ''wl_data_offer'')]"
| "dd_args (DDR_Offer_Receive r mime_type fd flags written) = [(r, ''wl_data_offer'')]"
| "dd_args (DDR_Offer_Destroy r) = [(r, ''wl_data_offer'')]"
| "dd_args (DDR_Offer_Finish r) = [(r, ''wl_data_offer'')]"
| "dd_args (DDR_Offer_Set_Actions r actions preferred) = [(r, ''wl_data_offer'')]"
| "dd_args (DDR_Source_Offer r mime_type) = [(r, ''wl_data_source'')]"
| "dd_args (DDR_Source_Destroy r received) = [(r, ''wl_data_source'')]"
| "dd_args (DDR_Source_Set_Actions r actions) = [(r, ''wl_data_source'')]"
| "dd_args (DDR_Start_Drag r source origin icon serial) =
     [(r, ''wl_data_device''), (origin, ''wl_surface'')] @ held source ''wl_data_source'' @
     held icon ''wl_surface''"
| "dd_args (DDR_Set_Selection r source serial pipe) =
     (r, ''wl_data_device'') # held source ''wl_data_source''"
| "dd_args (DDR_Device_Release r) = [(r, ''wl_data_device'')]"
| "dd_args (DDR_Create_Source r rid) = [(r, ''wl_data_device_manager'')]"
| "dd_args (DDR_Get_Device r rid seat offer) = [(r, ''wl_data_device_manager''), (seat, ''wl_seat'')]"
| "dd_args (DDR_Get_Pointer r rid) = [(r, ''wl_seat'')]"
| "dd_args (DDR_Get_Keyboard r rid) = [(r, ''wl_seat'')]"
| "dd_args (DDR_Get_Touch r rid) = [(r, ''wl_seat'')]"
| "dd_args (DDR_Seat_Release r) = [(r, ''wl_seat'')]"
| "dd_args (DDR_Surface_Destroy r) = [(r, ''wl_surface'')]"
| "dd_args (DDR_Create_Surface r rid) = [(r, ''wl_compositor'')]"
| "dd_args (DDR_Create_Region r rid) = [(r, ''wl_compositor'')]"
| "dd_args _ = []"

fun dd_uses :: "dd_event \<Rightarrow> resource option list" where
  "dd_uses (DDE_Data_Offer r offer) = [Some r, Some offer]"
| "dd_uses (DDE_Offer r mime_type) = [Some r]"
| "dd_uses (DDE_Source_Actions r actions) = [Some r]"
| "dd_uses (DDE_Offer_Action r action) = [Some r]"
| "dd_uses (DDE_Target r mime_type) = [r]"
| "dd_uses (DDE_Source_Action r action) = [r]"
| "dd_uses (DDE_Drop_Performed r) = [r]"
| "dd_uses (DDE_Finished r) = [r]"
| "dd_uses (DDE_Send r mime_type fd) = [Some r]"
| "dd_uses (DDE_Enter r serial surface x y offer) = [r, surface, offer]"
| "dd_uses (DDE_Motion r time x y) = [r]"
| "dd_uses (DDE_Drop r) = [r]"
| "dd_uses (DDE_Leave r) = [r]"

definition dd_status :: "data_device_server \<Rightarrow> bool" where
  "dd_status s \<longleftrightarrow>
     dd_source_created s \<and> dd_device_created s \<and> dd_source_offered s \<and> dd_selection_set s \<and>
     dd_source_sent s \<and> dd_offer_received s \<and> dd_offer_destroyed s \<and> dd_source_destroyed s \<and>
     dd_device_released s \<and> dd_seat_released s \<and> dd_source_actions s \<and> dd_drag_started s \<and>
     dd_drag_events s \<and> dd_surfaces_destroyed s = 2 \<and> dd_offer_accepted s \<and> dd_offer_actions s \<and>
     dd_offer_finished s \<and> dd_destination_events s"

definition dd_globals :: "(string \<times> nat) list" where
  "dd_globals = [(''wl_seat'', 7), (''wl_data_device_manager'', 3), (''wl_compositor'', 4)]"

definition dd_session :: "wl_lib \<Rightarrow> dd_request input list \<Rightarrow>
    (data_device_server, dd_request, dd_event) session option" where
  "dd_session L ins = serve (dd_handle L) dd_args dd_uses ins (start_session data_device_server_init)"

definition data_device_server_fd :: "main_env \<Rightarrow> wl_lib \<Rightarrow> dd_request input list \<Rightarrow> outcome" where
  "data_device_server_fd env L ins = server_program env dd_globals dd_status (dd_session L ins)"

text \<open>The descriptors a session closes, with the one the main function closes after it.\<close>

definition dd_closes :: "(data_device_server, dd_request, dd_event) session \<Rightarrow> fd_t list" where
  "dd_closes ss = closed (ss_calls ss) @
     (if dd_source_read_fd (ss_state ss) \<ge> 0 then [dd_source_read_fd (ss_state ss)] else [])"

lemmas dd_handler_defs = dd_offer_accept_def dd_offer_receive_def dd_offer_destroy_def
  dd_offer_finish_def dd_offer_set_actions_def dd_source_offer_def dd_source_destroy_def
  dd_source_set_actions_def dd_start_drag_def dd_set_selection_def dd_device_release_def
  dd_create_source_def dd_get_device_def dd_bind_manager_def dd_seat_get_pointer_def
  dd_seat_get_keyboard_def dd_seat_get_touch_def dd_seat_release_def dd_bind_seat_def
  dd_surface_destroy_def dd_create_surface_def dd_create_region_def dd_bind_compositor_def
  dd_client_destroy_def create_resource_def Let_def

section \<open>Memory safety up to the second surface\<close>

text \<open>
  What the second surface needs of the objects that exist, and what \<open>wl_resource_create\<close> promises of
  the second resource of a request: that its pointer is not in use.
\<close>

fun dd_allowed :: "data_device_server \<Rightarrow> resources \<Rightarrow> dd_request input \<Rightarrow> bool" where
  "dd_allowed s live (DDR_Create_Surface r rid, Some new) =
     (dd_origin s = None \<or>
      (case (dd_device s, dd_offer s, dd_origin s) of
         (Some d, Some f, Some w) \<Rightarrow> live d \<noteq> None \<and> live f \<noteq> None \<and> live w \<noteq> None
       | _ \<Rightarrow> False))"
| "dd_allowed s live (DDR_Get_Device r rid seat (Some f), Some d) = (live f = None \<and> f \<noteq> d)"
| "dd_allowed s live i = True"

text \<open>A data source can only be configured after one has been created.\<close>

definition dd_inv :: "data_device_server \<Rightarrow> resources \<Rightarrow> bool" where
  "dd_inv s live \<longleftrightarrow>
     dd_source s \<noteq> None \<or> \<not> dd_source_actions s \<and> (\<forall>r. live r \<noteq> Some ''wl_data_source'')"

interpretation dd_guarded: guarded_server "dd_handle L" dd_args dd_uses dd_inv dd_allowed for L
proof unfold_locales
  fix s live req new s' calls
  assume a: "dd_allowed s live (req, new)" "dd_inv s live" "exist (dd_args req) live"
    "\<forall>r. new = Some r \<longrightarrow> live r = None" "dd_handle L req new s = (s', calls)"
  show "\<exists>live'. exec_calls dd_uses calls live = Some live' \<and> dd_inv s' live'"
  proof (cases req)
    case (DDR_Create_Surface r rid)
    with a show ?thesis by (cases new) (auto simp: dd_inv_def dd_handler_defs split: option.splits)
  next
    case (DDR_Get_Device r rid seat offer)
    with a show ?thesis by (cases new; cases offer) (auto simp: dd_inv_def dd_handler_defs)
  next
    case (DDR_Start_Drag r source origin icon serial)
    with a show ?thesis by (cases "dd_source s") (auto simp: dd_inv_def dd_handler_defs split: if_splits)
  next
    case (DDR_Set_Selection r source serial pipe)
    with a show ?thesis by (cases source) (auto simp: dd_inv_def dd_handler_defs split: if_splits)
  qed (use a in \<open>cases new; auto simp: dd_inv_def dd_handler_defs split: if_splits\<close>)+
qed

text \<open>An input that is delivered although it is not allowed.\<close>

definition dd_misused :: "wl_lib \<Rightarrow> dd_request input list \<Rightarrow> bool" where
  "dd_misused L ins \<longleftrightarrow> list_ex (\<lambda>k.
     case dd_session L (take k ins) of
       None \<Rightarrow> False
     | Some ss \<Rightarrow> deliverable dd_args (ins ! k) (ss_live ss) \<and> \<not> terminated ss \<and>
                  \<not> dd_allowed (ss_state ss) (ss_live ss) (ins ! k)) [0..<length ins]"

lemma dd_session_exists:
  assumes "\<not> dd_misused L ins"
  shows "\<exists>ss. dd_session L ins = Some ss"
  unfolding dd_session_def
proof (rule dd_guarded.session_guarded)
  show "dd_inv data_device_server_init Map.empty" by (simp add: dd_inv_def data_device_server_init_def)
next
  fix xs i ys and ss1 :: "(data_device_server, dd_request, dd_event) session"
  assume ins: "ins = xs @ i # ys"
    and s: "serve (dd_handle L) dd_args dd_uses xs (start_session data_device_server_init) = Some ss1"
    and d: "deliverable dd_args i (ss_live ss1)" "\<not> terminated ss1"
  have k: "take (length xs) ins = xs" "ins ! length xs = i" "length xs \<in> set [0..<length ins]"
    by (simp_all add: ins)
  show "dd_allowed (ss_state ss1) (ss_live ss1) i"
    using assms k(3) unfolding dd_misused_def list_ex_iff
    by (auto simp: k s [folded dd_session_def] d dest!: bspec [of _ _ "length xs"])
qed

section \<open>What the verdict means\<close>

definition dd_tracked ::
    "dd_request input list \<Rightarrow> data_device_server \<Rightarrow> dd_event wl_call list \<Rightarrow> bool" where
  "dd_tracked hs s cs \<longleftrightarrow>
     created ''wl_data_source'' cs \<ge> 0 \<and> dd_source_created s = (created ''wl_data_source'' cs > 0) \<and>
     created ''wl_data_offer'' cs \<ge> 0 \<and> dd_device_created s = (created ''wl_data_offer'' cs > 0) \<and>
     dd_source_sent s = dd_selection_set s \<and> dd_drag_events s = dd_drag_started s \<and>
     dd_selection_set s = (\<exists>r fd. Send (DDE_Send r ''text/plain'' fd) \<in> set cs) \<and>
     dd_drag_started s = (\<exists>r. Send (DDE_Finished r) \<in> set cs) \<and>
     dd_destination_events s = (\<exists>r. Send (DDE_Drop r) \<in> set cs)"

lemma dd_session_tracked:
  assumes "dd_session L ins = Some ss"
  shows "dd_tracked (ss_handled ss) (ss_state ss) (ss_calls ss)"
proof (rule serve_start_trace_invariant [OF assms [unfolded dd_session_def], where I = dd_tracked])
  show "dd_tracked [] data_device_server_init []"
    by (simp add: dd_tracked_def data_device_server_init_def)
next
  fix hs s cs req new
  assume "dd_tracked hs s cs"
  then show "dd_tracked (hs @ [(req, new)]) (fst (dd_handle L req new s))
      (cs @ snd (dd_handle L req new s))"
    by (cases req; cases new) (auto simp: dd_tracked_def dd_handler_defs split: option.split)
qed

lemma dd_flags:
  assumes "dd_session L ins = Some ss"
  shows "dd_source_offered (ss_state ss) \<longleftrightarrow>
      asked (ss_handled ss) (\<lambda>q. \<exists>r. q = DDR_Source_Offer r ''text/plain'')"
    and "dd_offer_received (ss_state ss) \<longleftrightarrow> asked (ss_handled ss) (\<lambda>q. \<exists>r fd flags.
      q = DDR_Offer_Receive r ''text/plain'' fd flags (int (length offer_data)) \<and> flags AND FD_CLOEXEC \<noteq> 0)"
    and "dd_offer_destroyed (ss_state ss) \<longleftrightarrow> asked (ss_handled ss) (\<lambda>q. \<exists>r. q = DDR_Offer_Destroy r)"
    and "dd_source_destroyed (ss_state ss) \<longleftrightarrow>
      asked (ss_handled ss) (\<lambda>q. \<exists>r. q = DDR_Source_Destroy r (Some source_data))"
    and "dd_device_released (ss_state ss) \<longleftrightarrow> asked (ss_handled ss) (\<lambda>q. \<exists>r. q = DDR_Device_Release r)"
    and "dd_seat_released (ss_state ss) \<longleftrightarrow> asked (ss_handled ss) (\<lambda>q. \<exists>r. q = DDR_Seat_Release r)"
    and "dd_source_actions (ss_state ss) \<longleftrightarrow>
      asked (ss_handled ss) (\<lambda>q. \<exists>r. q = DDR_Source_Set_Actions r (dnd_copy L OR dnd_move L))"
    and "dd_offer_accepted (ss_state ss) \<longleftrightarrow>
      asked (ss_handled ss) (\<lambda>q. \<exists>r. q = DDR_Offer_Accept r 99 (Some ''text/plain''))"
    and "dd_offer_actions (ss_state ss) \<longleftrightarrow> asked (ss_handled ss)
      (\<lambda>q. \<exists>r. q = DDR_Offer_Set_Actions r (dnd_copy L OR dnd_move L) (dnd_move L))"
    and "dd_offer_finished (ss_state ss) \<longleftrightarrow> asked (ss_handled ss) (\<lambda>q. \<exists>r. q = DDR_Offer_Finish r)"
  unfolding asked_def
  by (rule serve_flag [OF assms [unfolded dd_session_def]], simp add: data_device_server_init_def,
      case_tac req; force simp: dd_handler_defs split: option.split)+

lemma dd_surfaces_counted:
  assumes "dd_session L ins = Some ss"
  shows "dd_surfaces_destroyed (ss_state ss) =
    int (length (filter (\<lambda>(req, new). \<exists>r. req = DDR_Surface_Destroy r) (ss_handled ss)))"
  by (rule serve_counter [OF assms [unfolded dd_session_def]], simp add: data_device_server_init_def,
      case_tac req; auto simp: dd_handler_defs split: option.split)

text \<open>The descriptors the client passes.\<close>

fun dd_received_fds :: "dd_request input list \<Rightarrow> fd_t list" where
  "dd_received_fds [] = []"
| "dd_received_fds ((DDR_Offer_Receive r mime_type fd flags written, new) # ins) = fd # dd_received_fds ins"
| "dd_received_fds (i # ins) = dd_received_fds ins"

lemma dd_received_fds_append [simp]:
  "dd_received_fds (xs @ ys) = dd_received_fds xs @ dd_received_fds ys"
  by (induction xs rule: dd_received_fds.induct) auto

lemma dd_closes_received:
  assumes "dd_session L ins = Some ss"
  shows "set (dd_received_fds (ss_handled ss)) \<subseteq> set (closed (ss_calls ss))"
proof (rule serve_start_trace_invariant [OF assms [unfolded dd_session_def],
      where I = "\<lambda>hs s cs. set (dd_received_fds hs) \<subseteq> set (closed cs)"])
  fix hs s req new and cs :: "dd_event wl_call list"
  assume "set (dd_received_fds hs) \<subseteq> set (closed cs)"
  then show "set (dd_received_fds (hs @ [(req, new)])) \<subseteq>
      set (closed (cs @ snd (dd_handle L req new s)))"
    by (cases req) (auto simp: dd_handler_defs)
qed simp

section \<open>Properties\<close>

text \<open>
  A second surface before there is a device; one after its first surface is gone; and two selections,
  whose first pipe is never closed at its read end.
\<close>

definition dd_null_enter :: "dd_request input list" where
  "dd_null_enter = [(DDR_Bind_Compositor 4 3, Some 1), (DDR_Create_Surface 1 4, Some 2),
     (DDR_Create_Surface 1 5, Some 3)]"

definition dd_opening :: "dd_request input list" where
  "dd_opening = [(DDR_Bind_Compositor 4 3, Some 1), (DDR_Bind_Seat 7 4, Some 2),
     (DDR_Bind_Manager 3 5, Some 3), (DDR_Create_Source 3 6, Some 4),
     (DDR_Source_Offer 4 ''text/plain'', None), (DDR_Get_Device 3 7 2 (Some 6), Some 5)]"

definition dd_dangling_enter :: "dd_request input list" where
  "dd_dangling_enter = dd_opening @ [(DDR_Create_Surface 1 8, Some 7), (DDR_Surface_Destroy 7, None),
     (DDR_Create_Surface 1 9, Some 8)]"

definition dd_two_selections :: "dd_request input list" where
  "dd_two_selections = dd_opening @ [(DDR_Set_Selection 5 (Some 4) 77 (Some (10, 11)), None),
     (DDR_Set_Selection 5 (Some 4) 77 (Some (12, 13)), None),
     (DDR_Source_Destroy 4 (Some source_data), None), (DDR_Client_Destroyed, None)]"

lemmas dd_run_defs = data_device_server_fd_def server_program_def env_ok_def demo_env_def
  dd_session_def start_session_def deliver_def deliverable_def terminated_def dd_handler_defs
  data_device_server_init_def

lemma dd_misuse_crashes:
  "data_device_server_fd demo_env L dd_null_enter = Crashed"
  "data_device_server_fd demo_env L dd_dangling_enter = Crashed"
  by (simp_all add: dd_run_defs dd_null_enter_def dd_dangling_enter_def dd_opening_def)

lemma dd_selection_leak:
  "map_option (\<lambda>ss. (terminated ss, dd_closes ss)) (dd_session L dd_two_selections) =
     Some (True, [11, 13, 12])"
  by (simp add: dd_run_defs dd_closes_def dd_two_selections_def dd_opening_def)

text \<open>C27: as long as every second surface comes while the device, the offer and the first surface
  exist, and the library never hands out a pointer in use, the data-device server uses only resources
  that exist and closes every descriptor the client passes. It then exits with success if and only if
  it could start, the client has gone, a source and a device with its offer were created, the source
  offered text with both drag actions and its data arrived whole, a selection was asked for, a drag
  finished, a drag entered and dropped, the offer was accepted, configured, received with a
  close-on-exec descriptor into which its data went whole, finished and destroyed, two surfaces were
  destroyed, and the device and the seat released.\<close>

theorem data_device_server_safe_unless_misused:
  "dd_misused L ins \<or>
   (\<exists>ss. dd_session L ins = Some ss \<and> data_device_server_fd env L ins \<noteq> Crashed \<and>
      set (dd_received_fds (ss_handled ss)) \<subseteq> set (closed (ss_calls ss)) \<and>
      (exits_with EXIT_SUCCESS (data_device_server_fd env L ins) \<longleftrightarrow>
         env_ok env 3 \<and> terminated ss \<and>
         created ''wl_data_source'' (ss_calls ss) > 0 \<and> created ''wl_data_offer'' (ss_calls ss) > 0 \<and>
         asked (ss_handled ss) (\<lambda>q. \<exists>r. q = DDR_Source_Offer r ''text/plain'') \<and>
         asked (ss_handled ss) (\<lambda>q. \<exists>r. q = DDR_Source_Set_Actions r (dnd_copy L OR dnd_move L)) \<and>
         asked (ss_handled ss) (\<lambda>q. \<exists>r. q = DDR_Source_Destroy r (Some source_data)) \<and>
         (\<exists>r fd. Send (DDE_Send r ''text/plain'' fd) \<in> set (ss_calls ss)) \<and>
         (\<exists>r. Send (DDE_Finished r) \<in> set (ss_calls ss)) \<and>
         (\<exists>r. Send (DDE_Drop r) \<in> set (ss_calls ss)) \<and>
         asked (ss_handled ss) (\<lambda>q. \<exists>r. q = DDR_Offer_Accept r 99 (Some ''text/plain'')) \<and>
         asked (ss_handled ss)
           (\<lambda>q. \<exists>r. q = DDR_Offer_Set_Actions r (dnd_copy L OR dnd_move L) (dnd_move L)) \<and>
         asked (ss_handled ss) (\<lambda>q. \<exists>r fd flags.
           q = DDR_Offer_Receive r ''text/plain'' fd flags (int (length offer_data)) \<and>
           flags AND FD_CLOEXEC \<noteq> 0) \<and>
         asked (ss_handled ss) (\<lambda>q. \<exists>r. q = DDR_Offer_Finish r) \<and>
         asked (ss_handled ss) (\<lambda>q. \<exists>r. q = DDR_Offer_Destroy r) \<and>
         length (filter (\<lambda>(req, new). \<exists>r. req = DDR_Surface_Destroy r) (ss_handled ss)) = 2 \<and>
         asked (ss_handled ss) (\<lambda>q. \<exists>r. q = DDR_Device_Release r) \<and>
         asked (ss_handled ss) (\<lambda>q. \<exists>r. q = DDR_Seat_Release r)))"
proof (cases "dd_misused L ins")
  case False
  then obtain ss where ss: "dd_session L ins = Some ss" using dd_session_exists by blast
  have three: "length dd_globals = 3" by (simp add: dd_globals_def)
  note tracked = dd_session_tracked [OF ss, unfolded dd_tracked_def]
  have two: "length (filter (\<lambda>(req, new). \<exists>r. req = DDR_Surface_Destroy r) (ss_handled ss)) = 2 \<longleftrightarrow>
      dd_surfaces_destroyed (ss_state ss) = 2"
    by (simp add: dd_surfaces_counted [OF ss])
  have "data_device_server_fd env L ins \<noteq> Crashed"
    by (simp add: data_device_server_fd_def ss server_program_not_crashed)
  moreover have "exits_with EXIT_SUCCESS (data_device_server_fd env L ins) \<longleftrightarrow>
      env_ok env 3 \<and> terminated ss \<and> dd_status (ss_state ss)"
    by (simp add: data_device_server_fd_def ss server_program_success three)
  ultimately show ?thesis
    using ss dd_closes_received [OF ss] by (intro disjI2 exI [of _ ss])
      (simp only: simp_thms dd_status_def dd_flags [OF ss] two, use tracked in argo)
qed blast

end
