(* ===== verification/Wayland_Client.thy ===== *)
theory Wayland_Client
  imports Libwayland
begin

text \<open>
  The libwayland client library as the C programs of \<open>src/bench\<close> use it, and the shape of those
  programs. A program is a list of steps, one per statement of the C function in its order; a step
  that fails is a condition followed by \<open>goto cleanup\<close>. Local pointers and the state shared with the
  listeners are one record, all fields NULL or 0 at the start, as in the C code.

  What the library answers is an argument (\<open>client_env\<close>): whether the connection exists, which
  objects it manages to create, and what the other side does when a round trip or a dispatch waits
  for it. Objects are named by their order of creation, so a destroyed object is never confused with
  a later one.
\<close>

type_synonym proxy = nat

text \<open>What was asked of the library; requests carry the objects they use.\<close>

datatype 'req cl_call =
    Get_Registry proxy
  | Bind u32 string u32 proxy
  | Construct 'req "proxy list" proxy
  | Request 'req "proxy list"
  | Adopt proxy
  | Listen proxy
  | Destroy_Proxy "'req option" proxy
  | Sync
  | Flush
  | Disconnect
  | Close_Fd fd_t

datatype 'ev cl_event = Global u32 string u32 | Event 'ev

record ('st, 'req, 'p) client =
  cl_state :: 'st
  cl_live :: "proxy \<Rightarrow> string option"
  cl_next :: nat
  cl_pending :: "'req cl_call list"
  cl_calls :: "'req cl_call list"
  cl_peer :: 'p

text \<open>
  \<open>ce_peer\<close> is the other end: given what was sent since the last time, it answers with the events
  that arrive and whether the round trip succeeded.
\<close>

record ('req, 'ev, 'p) client_env =
  ce_display :: bool
  ce_created :: "nat \<Rightarrow> bool"
  ce_peer :: "'req cl_call list \<Rightarrow> 'p \<Rightarrow> 'ev cl_event list \<times> bool \<times> 'p"

text \<open>
  \<open>Client_Crashed\<close> is a call with a NULL pointer or an object that no longer exists, or an event that the
  listener has no function for; \<open>Client_Stuck\<close> is a dispatch loop that did not end within its fuel.
\<close>

datatype ('st, 'req, 'p) run = Client_Crashed | Client_Stuck | Ran bool "('st, 'req, 'p) client"

type_synonym ('st, 'req, 'p) cstep = "('st, 'req, 'p) client \<Rightarrow> ('st, 'req, 'p) run"

section \<open>Steps\<close>

definition start_client :: "'st \<Rightarrow> 'p \<Rightarrow> ('st, 'req, 'p) client" where
  "start_client st p = \<lparr>cl_state = st, cl_live = Map.empty, cl_next = 0, cl_pending = [], cl_calls = [],
     cl_peer = p\<rparr>"

definition log_call :: "'req cl_call \<Rightarrow> ('st, 'req, 'p) client \<Rightarrow> ('st, 'req, 'p) client" where
  "log_call q c = c\<lparr>cl_pending := cl_pending c @ [q], cl_calls := cl_calls c @ [q]\<rparr>"

text \<open>All pointers are objects that exist.\<close>

definition usable :: "('st, 'req, 'p) client \<Rightarrow> proxy option list \<Rightarrow> bool" where
  "usable c xs \<longleftrightarrow> list_all (\<lambda>x. case x of None \<Rightarrow> False | Some p \<Rightarrow> cl_live c p \<noteq> None) xs"

fun attempt :: "('st, 'req, 'p) cstep list \<Rightarrow> ('st, 'req, 'p) cstep" where
  "attempt [] c = Ran True c"
| "attempt (p # ps) c = (case p c of Ran True c' \<Rightarrow> attempt ps c' | r \<Rightarrow> r)"

definition require :: "('st \<Rightarrow> bool) \<Rightarrow> ('st, 'req, 'p) cstep" where
  "require P c = Ran (P (cl_state c)) c"

text \<open>\<open>pointer != NULL\<close>.\<close>

definition require_set :: "('st \<Rightarrow> proxy option) \<Rightarrow> ('st, 'req, 'p) cstep" where
  "require_set sel = require (\<lambda>s. sel s \<noteq> None)"

definition assign :: "('st \<Rightarrow> 'st) \<Rightarrow> ('st, 'req, 'p) cstep" where
  "assign f c = Ran True (c\<lparr>cl_state := f (cl_state c)\<rparr>)"

text \<open>\<open>if (condition) { ... }\<close>\<close>

definition when_state :: "('st \<Rightarrow> bool) \<Rightarrow> ('st, 'req, 'p) cstep list \<Rightarrow> ('st, 'req, 'p) cstep" where
  "when_state P ps c = (if P (cl_state c) then attempt ps c else Ran True c)"

text \<open>\<open>pointer = NULL;\<close> while the object lives on.\<close>

definition forget :: "('st \<Rightarrow> 'st) \<Rightarrow> ('st, 'req, 'p) cstep" where
  "forget = assign"

text \<open>\<open>*place = library_constructor(...)\<close>: the result, an object or NULL, is stored.\<close>

definition obtain_proxy ::
    "('req, 'ev, 'p) client_env \<Rightarrow> string \<Rightarrow> (proxy \<Rightarrow> 'req cl_call) \<Rightarrow> (proxy option \<Rightarrow> 'st \<Rightarrow> 'st) \<Rightarrow>
     ('st, 'req, 'p) cstep" where
  "obtain_proxy env interface q place c =
     (let p = cl_next c; c1 = c\<lparr>cl_next := Suc p\<rparr>
      in if ce_created env p
         then Ran True (log_call (q p) (c1\<lparr>cl_state := place (Some p) (cl_state c1),
                                           cl_live := (cl_live c1)(p \<mapsto> interface)\<rparr>))
         else Ran True (c1\<lparr>cl_state := place None (cl_state c1)\<rparr>))"

definition get_registry ::
    "('req, 'ev, 'p) client_env \<Rightarrow> (proxy option \<Rightarrow> 'st \<Rightarrow> 'st) \<Rightarrow> ('st, 'req, 'p) cstep" where
  "get_registry env = obtain_proxy env ''wl_registry'' Get_Registry"

definition construct_of ::
    "('req, 'ev, 'p) client_env \<Rightarrow> string \<Rightarrow> ('st \<Rightarrow> 'req) \<Rightarrow> ('st \<Rightarrow> proxy option list) \<Rightarrow>
     (proxy option \<Rightarrow> 'st \<Rightarrow> 'st) \<Rightarrow> ('st, 'req, 'p) cstep" where
  "construct_of env interface q objs place c =
     (if usable c (objs (cl_state c))
      then obtain_proxy env interface (Construct (q (cl_state c)) (map the (objs (cl_state c)))) place c
      else Client_Crashed)"

definition construct ::
    "('req, 'ev, 'p) client_env \<Rightarrow> string \<Rightarrow> 'req \<Rightarrow> ('st \<Rightarrow> proxy option list) \<Rightarrow>
     (proxy option \<Rightarrow> 'st \<Rightarrow> 'st) \<Rightarrow> ('st, 'req, 'p) cstep" where
  "construct env interface q = construct_of env interface (\<lambda>s. q)"

text \<open>\<open>wl_registry_bind(registry, name, &interface, version < limit ? version : limit)\<close>.\<close>

definition bind_global ::
    "('req, 'ev, 'p) client_env \<Rightarrow> u32 \<Rightarrow> string \<Rightarrow> u32 \<Rightarrow> (proxy option \<Rightarrow> 'st \<Rightarrow> 'st) \<Rightarrow>
     ('st, 'req, 'p) cstep" where
  "bind_global env name interface version = obtain_proxy env interface (Bind name interface version)"

definition capped :: "u32 \<Rightarrow> u32 \<Rightarrow> u32" where
  "capped version limit = (if version < limit then version else limit)"

definition request_of ::
    "('st \<Rightarrow> 'req) \<Rightarrow> ('st \<Rightarrow> proxy option list) \<Rightarrow> ('st, 'req, 'p) cstep" where
  "request_of q objs c =
     (if usable c (objs (cl_state c))
      then Ran True (log_call (Request (q (cl_state c)) (map the (objs (cl_state c)))) c)
      else Client_Crashed)"

definition request :: "'req \<Rightarrow> ('st \<Rightarrow> proxy option list) \<Rightarrow> ('st, 'req, 'p) cstep" where
  "request q = request_of (\<lambda>s. q)"

text \<open>
  An event that carries a new object: the other end has chosen its name. The library refuses a name
  that is not new.
\<close>

definition adopt_proxy ::
    "('req, 'ev, 'p) client_env \<Rightarrow> proxy \<Rightarrow> string \<Rightarrow> (proxy option \<Rightarrow> 'st \<Rightarrow> 'st) \<Rightarrow>
     ('st, 'req, 'p) cstep" where
  "adopt_proxy env p interface place c =
     (if cl_next c \<le> p \<and> ce_created env p
      then Ran True (log_call (Adopt p) (c\<lparr>cl_next := Suc p, cl_state := place (Some p) (cl_state c),
                                             cl_live := (cl_live c)(p \<mapsto> interface)\<rparr>))
      else Ran False c)"

definition add_listener :: "('st \<Rightarrow> proxy option) \<Rightarrow> ('st, 'req, 'p) cstep" where
  "add_listener sel c =
     (case sel (cl_state c) of
        None \<Rightarrow> Client_Crashed
      | Some p \<Rightarrow> if cl_live c p \<noteq> None then Ran True (log_call (Listen p) c) else Client_Crashed)"

text \<open>An event whose function in the listener is NULL: the library aborts the program.\<close>

definition no_listener :: "('st, 'req, 'p) cstep" where
  "no_listener c = Client_Crashed"

text \<open>A destructor; some of them also send a request.\<close>

definition destroy_proxy :: "'req option \<Rightarrow> ('st \<Rightarrow> proxy option) \<Rightarrow> ('st, 'req, 'p) cstep" where
  "destroy_proxy q sel c =
     (case sel (cl_state c) of
        None \<Rightarrow> Client_Crashed
      | Some p \<Rightarrow>
          if cl_live c p \<noteq> None
          then Ran True (log_call (Destroy_Proxy q p) (c\<lparr>cl_live := (cl_live c)(p := None)\<rparr>))
          else Client_Crashed)"

text \<open>\<open>if (pointer != NULL) destructor(pointer);\<close>\<close>

definition destroy_if :: "'req option \<Rightarrow> ('st \<Rightarrow> proxy option) \<Rightarrow> ('st, 'req, 'p) cstep" where
  "destroy_if q sel c = (if sel (cl_state c) = None then Ran True c else destroy_proxy q sel c)"

definition plain :: "'req cl_call \<Rightarrow> ('st, 'req, 'p) cstep" where
  "plain q c = Ran True (log_call q c)"

text \<open>\<open>close(fd)\<close> and \<open>if (fd >= 0) close(fd);\<close>\<close>

definition close_fd :: "('st \<Rightarrow> fd_t) \<Rightarrow> ('st, 'req, 'p) cstep" where
  "close_fd sel c = Ran True (log_call (Close_Fd (sel (cl_state c))) c)"

definition close_if :: "('st \<Rightarrow> fd_t) \<Rightarrow> ('st, 'req, 'p) cstep" where
  "close_if sel c = (if sel (cl_state c) \<ge> 0 then close_fd sel c else Ran True c)"

text \<open>
  Events run their listeners in order. \<open>targets\<close> are the objects an event names: the library drops an
  event for an object that no longer exists.
\<close>

fun deliver_events ::
    "('ev cl_event \<Rightarrow> proxy list) \<Rightarrow> ('ev cl_event \<Rightarrow> ('st, 'req, 'p) cstep list) \<Rightarrow>
     'ev cl_event list \<Rightarrow> ('st, 'req, 'p) cstep" where
  "deliver_events targets listeners [] c = Ran True c"
| "deliver_events targets listeners (e # es) c =
     (if usable c (map Some (targets e))
      then (case attempt (listeners e) c of
              Ran b c' \<Rightarrow> deliver_events targets listeners es c'
            | r \<Rightarrow> r)
      else deliver_events targets listeners es c)"

text \<open>
  Send what is pending, with \<open>q\<close>, and run the listeners of what arrives:
  \<open>wl_display_roundtrip(display) >= 0\<close> asks for an answer to everything sent,
  \<open>wl_display_dispatch(display) >= 0\<close> waits for the next events only.
\<close>

definition await ::
    "'req cl_call \<Rightarrow> ('req, 'ev, 'p) client_env \<Rightarrow> ('ev cl_event \<Rightarrow> proxy list) \<Rightarrow>
     ('ev cl_event \<Rightarrow> ('st, 'req, 'p) cstep list) \<Rightarrow> ('st, 'req, 'p) cstep" where
  "await q env targets listeners c =
     (case ce_peer env (cl_pending c @ [q]) (cl_peer c) of
        (evs, ok, p') \<Rightarrow>
          (case deliver_events targets listeners evs
                  (c\<lparr>cl_pending := [], cl_calls := cl_calls c @ [q], cl_peer := p'\<rparr>) of
             Ran b c' \<Rightarrow> Ran ok c'
           | r \<Rightarrow> r))"

definition trip ::
    "('req, 'ev, 'p) client_env \<Rightarrow> ('ev cl_event \<Rightarrow> proxy list) \<Rightarrow>
     ('ev cl_event \<Rightarrow> ('st, 'req, 'p) cstep list) \<Rightarrow> ('st, 'req, 'p) cstep" where
  "trip = await Sync"

definition dispatch ::
    "('req, 'ev, 'p) client_env \<Rightarrow> ('ev cl_event \<Rightarrow> proxy list) \<Rightarrow>
     ('ev cl_event \<Rightarrow> ('st, 'req, 'p) cstep list) \<Rightarrow> ('st, 'req, 'p) cstep" where
  "dispatch = await Flush"

text \<open>\<open>while (!done) if (wl_display_dispatch(display) < 0) goto cleanup;\<close>\<close>

fun dispatch_until ::
    "nat \<Rightarrow> ('st \<Rightarrow> bool) \<Rightarrow> ('st, 'req, 'p) cstep \<Rightarrow> ('st, 'req, 'p) cstep" where
  "dispatch_until fuel P step c =
     (if P (cl_state c) then Ran True c
      else case fuel of
             0 \<Rightarrow> Client_Stuck
           | Suc n \<Rightarrow> (case step c of Ran True c' \<Rightarrow> dispatch_until n P step c' | r \<Rightarrow> r))"

declare dispatch_until.simps [simp del]

text \<open>The whole program: exit code and final state.\<close>

datatype ('st, 'req, 'p) client_exit =
  Exit_Crashed | Exit_Stuck | Exit_Client int "('st, 'req, 'p) client"

definition client_program ::
    "('req, 'ev, 'p) client_env \<Rightarrow> ('st, 'req, 'p) cstep list \<Rightarrow> ('st, 'req, 'p) cstep list \<Rightarrow>
     ('st, 'req, 'p) client \<Rightarrow> ('st, 'req, 'p) client_exit" where
  "client_program env body cleanup c =
     (if \<not> ce_display env then Exit_Client EXIT_FAILURE c
      else case attempt body c of
             Client_Crashed \<Rightarrow> Exit_Crashed
           | Client_Stuck \<Rightarrow> Exit_Stuck
           | Ran ok c' \<Rightarrow>
               (case attempt cleanup c' of
                  Client_Crashed \<Rightarrow> Exit_Crashed
                | Client_Stuck \<Rightarrow> Exit_Stuck
                | Ran b c'' \<Rightarrow> Exit_Client (if ok then EXIT_SUCCESS else EXIT_FAILURE) c''))"

section \<open>A server as the other end\<close>

text \<open>
  The peer a server model makes: the requests it has received so far, and for every new call the
  inputs it amounts to. Object names are the same on both sides, as on the wire.
\<close>

fun announce :: "nat \<Rightarrow> (string \<times> nat) list \<Rightarrow> 'ev cl_event list" where
  "announce k [] = []"
| "announce k ((interface, version) # gs) =
     Global (of_nat k) interface (of_nat version) # announce (Suc k) gs"

fun is_get_registry :: "'req cl_call \<Rightarrow> bool" where
  "is_get_registry (Get_Registry p) = True"
| "is_get_registry _ = False"

fun is_error :: "'ev wl_call \<Rightarrow> bool" where
  "is_error (Implementation_Error m) = True"
| "is_error No_Memory = True"
| "is_error _ = False"

fun sent :: "'ev wl_call list \<Rightarrow> 'ev list" where
  "sent [] = []"
| "sent (Send e # cs) = e # sent cs"
| "sent (c # cs) = sent cs"

lemma sent_append [simp]: "sent (xs @ ys) = sent xs @ sent ys"
  by (induction xs rule: sent.induct) auto

definition server_peer ::
    "('sreq input list \<Rightarrow> ('s, 'sreq, 'sev) session option) \<Rightarrow> (string \<times> nat) list \<Rightarrow>
     ('req cl_call \<Rightarrow> 'sreq input list) \<Rightarrow> ('sev \<Rightarrow> 'ev list) \<Rightarrow>
     'req cl_call list \<Rightarrow> 'sreq input list \<Rightarrow> 'ev cl_event list \<times> bool \<times> 'sreq input list" where
  "server_peer session globals translate back calls ins =
     (let ins' = ins @ concat (map translate calls) in
      case (session ins, session ins') of
        (Some ss, Some ss') \<Rightarrow>
          (let cs = drop (length (ss_calls ss)) (ss_calls ss') in
           ((if list_ex is_get_registry calls then announce 1 globals else []) @
            map Event (concat (map back (sent cs))), \<not> list_ex is_error cs, ins'))
      | _ \<Rightarrow> ([], False, ins'))"

section \<open>Events that never arrive\<close>

text \<open>The other end less the events that do not satisfy \<open>keep\<close>, and listeners that ignore them.\<close>

definition filtered ::
    "('ev cl_event \<Rightarrow> bool) \<Rightarrow> ('c \<Rightarrow> 'p \<Rightarrow> 'ev cl_event list \<times> bool \<times> 'p) \<Rightarrow>
     'c \<Rightarrow> 'p \<Rightarrow> 'ev cl_event list \<times> bool \<times> 'p" where
  "filtered keep peer calls p = (case peer calls p of (evs, ok, p') \<Rightarrow> (filter keep evs, ok, p'))"

definition quiet ::
    "('ev cl_event \<Rightarrow> bool) \<Rightarrow> ('ev cl_event \<Rightarrow> ('st, 'req, 'p) cstep list) \<Rightarrow>
     'ev cl_event \<Rightarrow> ('st, 'req, 'p) cstep list" where
  "quiet keep listeners e = (if keep e then listeners e else [])"

lemma deliver_events_filter:
  "deliver_events targets listeners (filter keep es) c =
     deliver_events targets (quiet keep listeners) (filter keep es) c"
  by (induction es arbitrary: c) (auto simp: quiet_def split: run.splits)

section \<open>Memory files\<close>

text \<open>
  What the kernel answers to the successive \<open>memfd_create\<close> calls of a program, and whether
  \<open>ftruncate\<close> succeeds on the file.
\<close>

record memory_os =
  os_memfd :: "nat \<Rightarrow> fd_t"
  os_truncated :: "nat \<Rightarrow> bool"

text \<open>A kernel that makes every memory file.\<close>

definition good_memory :: "(nat \<Rightarrow> nat) \<Rightarrow> memory_os" where
  "good_memory m = \<lparr>os_memfd = (\<lambda>k. int (m k)), os_truncated = (\<lambda>k. True)\<rparr>"

section \<open>Symbolic execution\<close>

lemmas client_step_defs = require_set_def require_def assign_def forget_def when_state_def obtain_proxy_def get_registry_def construct_of_def construct_def
  bind_global_def request_of_def request_def adopt_proxy_def add_listener_def destroy_proxy_def
  destroy_if_def close_fd_def close_if_def plain_def log_call_def usable_def

text \<open>What evaluates a whole run of a client and its server.\<close>

lemmas client_run_defs = client_program_def start_client_def client_step_defs await_def trip_def dispatch_def server_peer_def
  capped_def start_session_def deliver_def deliverable_def terminated_def min_version_def Let_def
  exits_with_def server_program_def server_main_def env_ok_def demo_env_def

end
