(* ===== verification/Client_Safety.thy ===== *)
theory Client_Safety
  imports Wayland_Client
begin

text \<open>
  A small program logic for the client programs: which of their pointers are set, and that every
  pointer they use is an object that exists. \<open>ptrs\<close> lists the pointers of a program's state, and the
  assertion \<open>fields_ok ptrs N D c\<close> says that those in \<open>N\<close> are not NULL, that no two are the same
  object, and that all but those in \<open>D\<close>, which the cleanup has destroyed, exist.

  \<open>safe_body T N ps M\<close> is the triple for a list of steps whose pointers \<open>N\<close> are set at the start and
  \<open>M\<close> at every exit, \<open>T\<close> being objects the library vouches for while a listener runs; \<open>safe_cleanup N D
  ps\<close> is the one for the statements behind the label \<open>cleanup\<close>.
\<close>

definition fields_ok ::
    "('st \<Rightarrow> proxy option list) \<Rightarrow> nat set \<Rightarrow> nat set \<Rightarrow> ('st, 'req, 'p) client \<Rightarrow> bool" where
  "fields_ok ptrs N D c \<longleftrightarrow>
     (\<forall>i p. i < length (ptrs (cl_state c)) \<and> ptrs (cl_state c) ! i = Some p \<longrightarrow>
        p < cl_next c \<and> (i \<notin> D \<longrightarrow> cl_live c p \<noteq> None)) \<and>
     (\<forall>i j p. i < length (ptrs (cl_state c)) \<and> j < length (ptrs (cl_state c)) \<and> i \<noteq> j \<and>
        ptrs (cl_state c) ! i = Some p \<longrightarrow> ptrs (cl_state c) ! j \<noteq> Some p) \<and>
     (\<forall>i \<in> N. i < length (ptrs (cl_state c)) \<and> ptrs (cl_state c) ! i \<noteq> None)"

definition exist_all :: "proxy set \<Rightarrow> ('st, 'req, 'p) client \<Rightarrow> bool" where
  "exist_all T c \<longleftrightarrow> (\<forall>p \<in> T. cl_live c p \<noteq> None)"

text \<open>The outcome of some steps is no crash, and a state where \<open>Q\<close> holds if it is one.\<close>

fun fine :: "(('st, 'req, 'p) client \<Rightarrow> bool) \<Rightarrow> ('st, 'req, 'p) run \<Rightarrow> bool" where
  "fine Q Client_Crashed = False"
| "fine Q Client_Stuck = True"
| "fine Q (Ran b c) = Q c"

definition safe_body ::
    "('st \<Rightarrow> proxy option list) \<Rightarrow> proxy set \<Rightarrow> nat set \<Rightarrow> ('st, 'req, 'p) cstep list \<Rightarrow> nat set \<Rightarrow> bool" where
  "safe_body ptrs T N ps M \<longleftrightarrow>
     (\<forall>c. fields_ok ptrs N {} c \<and> exist_all T c \<longrightarrow> fine (fields_ok ptrs M {}) (attempt ps c))"

definition safe_cleanup ::
    "('st \<Rightarrow> proxy option list) \<Rightarrow> nat set \<Rightarrow> nat set \<Rightarrow> ('st, 'req, 'p) cstep list \<Rightarrow> bool" where
  "safe_cleanup ptrs N D ps \<longleftrightarrow>
     (\<forall>c. fields_ok ptrs N D c \<longrightarrow> fine (\<lambda>c'. True) (attempt ps c))"

lemma safe_bodyD:
  "safe_body ptrs T N ps M \<Longrightarrow> fields_ok ptrs N {} c \<Longrightarrow> exist_all T c \<Longrightarrow>
     fine (fields_ok ptrs M {}) (attempt ps c)"
  by (simp add: safe_body_def)

lemma exist_all_empty [simp]: "exist_all {} c"
  by (simp add: exist_all_def)

lemma fields_ok_subset: "fields_ok ptrs N D c \<Longrightarrow> M \<subseteq> N \<Longrightarrow> fields_ok ptrs M D c"
  unfolding fields_ok_def by blast

lemma fields_okI:
  assumes "ptrs (cl_state c) = xs" and "cl_live c = live" and "cl_next c = n"
    and "\<And>j p. j < length xs \<Longrightarrow> xs ! j = Some p \<Longrightarrow> p < n \<and> (j \<notin> D \<longrightarrow> live p \<noteq> None)"
    and "\<And>j k p. j < length xs \<Longrightarrow> k < length xs \<Longrightarrow> j \<noteq> k \<Longrightarrow> xs ! j = Some p \<Longrightarrow> xs ! k \<noteq> Some p"
    and "\<And>j. j \<in> N \<Longrightarrow> j < length xs \<and> xs ! j \<noteq> None"
  shows "fields_ok ptrs N D c"
  unfolding fields_ok_def assms(1-3) using assms(4-6) by blast

lemma fields_ok_live:
  "fields_ok ptrs N D c \<Longrightarrow> i < length (ptrs (cl_state c)) \<Longrightarrow> ptrs (cl_state c) ! i = Some p \<Longrightarrow>
     i \<notin> D \<Longrightarrow> cl_live c p \<noteq> None"
  unfolding fields_ok_def by blast

lemma fields_ok_set:
  assumes "fields_ok ptrs N D c" and "i \<in> N"
  obtains p where "i < length (ptrs (cl_state c))" and "ptrs (cl_state c) ! i = Some p"
  using assms unfolding fields_ok_def by blast

text \<open>The assertion depends on the pointers, the objects and the next name only.\<close>

lemma fields_ok_cong:
  "ptrs (cl_state c') = ptrs (cl_state c) \<Longrightarrow> cl_live c' = cl_live c \<Longrightarrow> cl_next c' = cl_next c \<Longrightarrow>
     fields_ok ptrs N D c' \<longleftrightarrow> fields_ok ptrs N D c"
  by (simp only: fields_ok_def)

lemma fields_ok_insert:
  "fields_ok ptrs N D c \<Longrightarrow> i < length (ptrs (cl_state c)) \<Longrightarrow> ptrs (cl_state c) ! i \<noteq> None \<Longrightarrow>
     fields_ok ptrs (insert i N) D c"
  unfolding fields_ok_def by blast

lemma fields_ok_more_dead: "fields_ok ptrs N D c \<Longrightarrow> fields_ok ptrs N (insert i D) c"
  unfolding fields_ok_def by blast

section \<open>How the steps change the assertion\<close>

lemma fields_ok_log [simp]: "fields_ok ptrs N D (log_call q c) \<longleftrightarrow> fields_ok ptrs N D c"
  by (rule fields_ok_cong) (simp_all add: log_call_def)

lemma exist_all_log [simp]: "exist_all T (log_call q c) \<longleftrightarrow> exist_all T c"
  by (simp add: exist_all_def log_call_def)

text \<open>A new object is none of the old ones.\<close>

lemma fields_ok_obtain:
  assumes "fields_ok ptrs N D c"
    and place: "ptrs (place (Some n) (cl_state c)) = (ptrs (cl_state c))[i := Some n]"
    and "i < length (ptrs (cl_state c))" and "cl_next c \<le> n"
  shows "fields_ok ptrs (insert i N) (D - {i})
    (c\<lparr>cl_next := Suc n, cl_state := place (Some n) (cl_state c), cl_live := (cl_live c)(n \<mapsto> interface)\<rparr>)"
proof -
  let ?xs = "ptrs (cl_state c)" and ?n = n
  have old: "p < ?n" if "j < length ?xs" "?xs ! j = Some p" for j p
  proof -
    from assms(1) that have "p < cl_next c" unfolding fields_ok_def by blast
    with \<open>cl_next c \<le> n\<close> show ?thesis by simp
  qed
  have live: "cl_live c p \<noteq> None" if "j < length ?xs" "?xs ! j = Some p" "j \<notin> D" for j p
    using assms(1) that unfolding fields_ok_def by blast
  have differ: "?xs ! k \<noteq> Some p" if "j < length ?xs" "k < length ?xs" "j \<noteq> k" "?xs ! j = Some p" for j k p
    using assms(1) that unfolding fields_ok_def by blast
  have set: "j < length ?xs \<and> ?xs ! j \<noteq> None" if "j \<in> N" for j
    using assms(1) that unfolding fields_ok_def by blast
  have new: "(?xs[i := Some ?n]) ! j = (if j = i then Some ?n else ?xs ! j)" if "j < length ?xs" for j
    using that by (simp add: nth_list_update)
  show ?thesis
  proof (rule fields_okI)
    fix j p assume j: "j < length (?xs[i := Some ?n])" and p: "(?xs[i := Some ?n]) ! j = Some p"
    show "p < Suc ?n \<and> (j \<notin> D - {i} \<longrightarrow> ((cl_live c)(?n \<mapsto> interface)) p \<noteq> None)"
      using j p old [of j p] live [of j p] by (cases "j = i") (simp_all add: new)
  next
    fix j k p assume j: "j < length (?xs[i := Some ?n])" "k < length (?xs[i := Some ?n])" "j \<noteq> k"
      and p: "(?xs[i := Some ?n]) ! j = Some p"
    show "(?xs[i := Some ?n]) ! k \<noteq> Some p"
      using j p old [of j p] old [of k p] differ [of j k p] by (cases "j = i"; cases "k = i") (auto simp: new)
  next
    fix j assume "j \<in> insert i N"
    then show "j < length (?xs[i := Some ?n]) \<and> (?xs[i := Some ?n]) ! j \<noteq> None"
      using set [of j] assms(3) by (cases "j = i") (simp_all add: new)
  qed (simp_all add: place fun_eq_iff)
qed

lemma fields_ok_dead:
  assumes ok: "fields_ok ptrs N D c" and p: "ptrs (cl_state c) ! i = Some p"
    and i: "i < length (ptrs (cl_state c))"
  shows "fields_ok ptrs N (insert i D) (c\<lparr>cl_live := (cl_live c)(p := None)\<rparr>)"
proof -
  have "q \<noteq> p" if "j < length (ptrs (cl_state c))" "j \<noteq> i" "ptrs (cl_state c) ! j = Some q" for j q
    using ok i p that unfolding fields_ok_def by blast
  then show ?thesis
    using ok unfolding fields_ok_def by (simp del: not_None_eq) blast
qed

lemma fields_ok_clear:
  assumes ok: "fields_ok ptrs N {} c" and f: "ptrs (f (cl_state c)) = (ptrs (cl_state c))[i := None]"
    and p: "ptrs (cl_state c) ! i = Some p" and i: "i < length (ptrs (cl_state c))"
  shows "fields_ok ptrs (N - {i}) {} (c\<lparr>cl_state := f (cl_state c), cl_live := (cl_live c)(p := None)\<rparr>)"
proof -
  let ?xs = "ptrs (cl_state c)"
  have new: "(?xs[i := None]) ! j = (if j = i then None else ?xs ! j)" if "j < length ?xs" for j
    using that by (simp add: nth_list_update)
  show ?thesis
  proof (rule fields_okI)
    fix j q assume j: "j < length (?xs[i := None])" and q: "(?xs[i := None]) ! j = Some q"
    then have "j \<noteq> i" "?xs ! j = Some q" by (auto simp: new split: if_splits)
    with j i p ok have "q \<noteq> p" "q < cl_next c" "cl_live c q \<noteq> None" unfolding fields_ok_def by auto
    then show "q < cl_next c \<and> (j \<notin> {} \<longrightarrow> ((cl_live c)(p := None)) q \<noteq> None)" by simp
  next
    fix j k q assume j: "j < length (?xs[i := None])" "k < length (?xs[i := None])" "j \<noteq> k"
      and q: "(?xs[i := None]) ! j = Some q"
    then have "?xs ! j = Some q" by (auto simp: new split: if_splits)
    with j ok have "?xs ! k \<noteq> Some q" unfolding fields_ok_def by auto
    with j show "(?xs[i := None]) ! k \<noteq> Some q" by (simp add: new)
  next
    fix j assume j: "j \<in> N - {i}"
    with ok obtain q where "j < length ?xs" "?xs ! j = Some q" by (blast elim: fields_ok_set)
    with j show "j < length (?xs[i := None]) \<and> (?xs[i := None]) ! j \<noteq> None" by (simp add: new)
  qed (simp_all add: f fun_eq_iff)
qed

lemma usable_fields:
  assumes ok: "fields_ok ptrs N {} c" and objs: "objs (cl_state c) = map (\<lambda>i. ptrs (cl_state c) ! i) ks"
    and "set ks \<subseteq> N"
  shows "usable c (objs (cl_state c))"
proof -
  have "case ptrs (cl_state c) ! i of None \<Rightarrow> False | Some p \<Rightarrow> cl_live c p \<noteq> None" if "i \<in> set ks" for i
  proof -
    from that assms(3) have "i \<in> N" by blast
    from fields_ok_set [OF ok this] obtain p where
      p: "i < length (ptrs (cl_state c))" "ptrs (cl_state c) ! i = Some p" .
    from fields_ok_live [OF ok p] p show ?thesis by simp
  qed
  with objs show ?thesis by (simp add: usable_def list_all_iff)
qed

section \<open>Rules for the body\<close>

named_theorems client_safe \<open>rules of the client program logic\<close>

lemma safe_body_nil [client_safe]: "M \<subseteq> N \<Longrightarrow> safe_body ptrs T N [] M"
  unfolding safe_body_def using fields_ok_subset by (auto simp del: fields_ok_log)

lemma safe_body_require [client_safe]:
  fixes ps :: "('st, 'req, 'p) cstep list"
  assumes "safe_body ptrs T N ps M" and "M \<subseteq> N"
  shows "safe_body ptrs T N (require P # ps) M"
  unfolding safe_body_def
proof (intro allI impI)
  fix c :: "('st, 'req, 'p) client"
  assume c: "fields_ok ptrs N {} c \<and> exist_all T c"
  with safe_bodyD [OF assms(1)] fields_ok_subset [OF _ assms(2), of ptrs "{}" c]
  show "fine (fields_ok ptrs M {}) (attempt (require P # ps) c)"
    by (cases "P (cl_state c)") (auto simp: require_def)
qed

lemma safe_body_require_set [client_safe]:
  fixes ps :: "('st, 'req, 'p) cstep list"
  assumes sel: "\<And>s. sel s = ptrs s ! i" and len: "\<And>s. i < length (ptrs s)"
    and ps: "safe_body ptrs T (insert i N) ps M" and "M \<subseteq> N"
  shows "safe_body ptrs T N (require_set sel # ps) M"
  unfolding safe_body_def
proof (intro allI impI)
  fix c :: "('st, 'req, 'p) client"
  assume c: "fields_ok ptrs N {} c \<and> exist_all T c"
  show "fine (fields_ok ptrs M {}) (attempt (require_set sel # ps) c)"
  proof (cases "sel (cl_state c) \<noteq> None")
    case True
    with c sel [of "cl_state c"] len [of "cl_state c"] have "fields_ok ptrs (insert i N) {} c"
      by (intro fields_ok_insert) auto
    with safe_bodyD [OF ps] c True show ?thesis by (auto simp: require_set_def require_def)
  next
    case False
    with c \<open>M \<subseteq> N\<close> show ?thesis by (auto simp: require_set_def require_def fields_ok_subset)
  qed
qed

lemma safe_body_assign [client_safe]:
  fixes ps :: "('st, 'req, 'p) cstep list"
  assumes f: "\<And>s. ptrs (f s) = ptrs s" and ps: "safe_body ptrs T N ps M"
  shows "safe_body ptrs T N (assign f # ps) M"
  unfolding safe_body_def
proof (intro allI impI)
  fix c :: "('st, 'req, 'p) client"
  assume "fields_ok ptrs N {} c \<and> exist_all T c"
  with f have "fields_ok ptrs N {} (c\<lparr>cl_state := f (cl_state c)\<rparr>)"
    "exist_all T (c\<lparr>cl_state := f (cl_state c)\<rparr>)"
    using fields_ok_cong [of ptrs "c\<lparr>cl_state := f (cl_state c)\<rparr>" c] by (simp_all add: exist_all_def)
  with safe_bodyD [OF ps] show "fine (fields_ok ptrs M {}) (attempt (assign f # ps) c)"
    by (simp add: assign_def)
qed

lemma safe_body_obtain:
  fixes ps :: "('st, 'req, 'p) cstep list"
  assumes place: "\<And>x s. ptrs (place x s) = (ptrs s)[i := x]" and len: "\<And>s. i < length (ptrs s)"
    and "\<And>k. ce_created env k" and ps: "safe_body ptrs T (insert i N) ps M"
  shows "safe_body ptrs T N (obtain_proxy env interface q place # ps) M"
  unfolding safe_body_def
proof (intro allI impI)
  fix c :: "('st, 'req, 'p) client"
  assume c: "fields_ok ptrs N {} c \<and> exist_all T c"
  define c' where "c' = c\<lparr>cl_next := Suc (cl_next c), cl_state := place (Some (cl_next c)) (cl_state c),
    cl_live := (cl_live c)(cl_next c \<mapsto> interface)\<rparr>"
  have "fields_ok ptrs (insert i N) {} c'"
    using fields_ok_obtain [of ptrs N "{}" c place "cl_next c" i interface] c place len by (simp add: c'_def)
  moreover have "exist_all T c'" using c by (auto simp: exist_all_def c'_def)
  ultimately have "fine (fields_ok ptrs M {}) (attempt ps (log_call (q (cl_next c)) c'))"
    using safe_bodyD [OF ps, of "log_call (q (cl_next c)) c'"] by simp
  with \<open>ce_created env (cl_next c)\<close>
  show "fine (fields_ok ptrs M {}) (attempt (obtain_proxy env interface q place # ps) c)"
    by (simp add: obtain_proxy_def Let_def c'_def)
qed

lemma safe_body_get_registry [client_safe]:
  "(\<And>x s. ptrs (place x s) = (ptrs s)[i := x]) \<Longrightarrow> (\<And>s. i < length (ptrs s)) \<Longrightarrow>
     (\<And>k. ce_created env k) \<Longrightarrow> safe_body ptrs T (insert i N) ps M \<Longrightarrow>
     safe_body ptrs T N (get_registry env place # ps) M"
  unfolding get_registry_def by (rule safe_body_obtain)

lemma safe_body_bind [client_safe]:
  "(\<And>x s. ptrs (place x s) = (ptrs s)[i := x]) \<Longrightarrow> (\<And>s. i < length (ptrs s)) \<Longrightarrow>
     (\<And>k. ce_created env k) \<Longrightarrow> safe_body ptrs T (insert i N) ps M \<Longrightarrow>
     safe_body ptrs T N (bind_global env name interface version place # ps) M"
  unfolding bind_global_def by (rule safe_body_obtain)

lemma safe_body_construct_of [client_safe]:
  fixes ps :: "('st, 'req, 'p) cstep list"
  assumes place: "\<And>x s. ptrs (place x s) = (ptrs s)[i := x]"
    and objs: "\<And>s. objs s = map (\<lambda>i. ptrs s ! i) ks" "set ks \<subseteq> N"
    and len: "\<And>s. i < length (ptrs s)" and created: "\<And>k. ce_created env k"
    and ps: "safe_body ptrs T (insert i N) ps M"
  shows "safe_body ptrs T N (construct_of env interface q objs place # ps) M"
  unfolding safe_body_def
proof (intro allI impI)
  fix c :: "('st, 'req, 'p) client"
  assume c: "fields_ok ptrs N {} c \<and> exist_all T c"
  with objs have "usable c (objs (cl_state c))" by (intro usable_fields) auto
  with safe_bodyD [OF safe_body_obtain [OF place len created ps]] c
  show "fine (fields_ok ptrs M {}) (attempt (construct_of env interface q objs place # ps) c)"
    by (simp add: construct_of_def)
qed

lemmas safe_body_construct [client_safe] = safe_body_construct_of [where q = "\<lambda>s. q" for q, folded construct_def]

lemma safe_body_request_of [client_safe]:
  fixes ps :: "('st, 'req, 'p) cstep list"
  assumes objs: "\<And>s. objs s = map (\<lambda>i. ptrs s ! i) ks" "set ks \<subseteq> N"
    and ps: "safe_body ptrs T N ps M"
  shows "safe_body ptrs T N (request_of q objs # ps) M"
  unfolding safe_body_def
proof (intro allI impI)
  fix c :: "('st, 'req, 'p) client"
  assume c: "fields_ok ptrs N {} c \<and> exist_all T c"
  with objs have "usable c (objs (cl_state c))" by (intro usable_fields) auto
  with safe_bodyD [OF ps] c show "fine (fields_ok ptrs M {}) (attempt (request_of q objs # ps) c)"
    by (simp add: request_of_def)
qed

lemma safe_body_request [client_safe]:
  "(\<And>s. objs s = map (\<lambda>i. ptrs s ! i) ks) \<Longrightarrow> set ks \<subseteq> N \<Longrightarrow> safe_body ptrs T N ps M \<Longrightarrow>
     safe_body ptrs T N (request q objs # ps) M"
  unfolding request_def by (rule safe_body_request_of)

text \<open>An object the other end created.\<close>

lemma safe_body_adopt [client_safe]:
  fixes ps :: "('st, 'req, 'p) cstep list"
  assumes place: "\<And>x s. ptrs (place x s) = (ptrs s)[i := x]" and len: "\<And>s. i < length (ptrs s)"
    and "M \<subseteq> N" and ps: "safe_body ptrs T (insert i N) ps M"
  shows "safe_body ptrs T N (adopt_proxy env p interface place # ps) M"
  unfolding safe_body_def
proof (intro allI impI)
  fix c :: "('st, 'req, 'p) client"
  assume c: "fields_ok ptrs N {} c \<and> exist_all T c"
  show "fine (fields_ok ptrs M {}) (attempt (adopt_proxy env p interface place # ps) c)"
  proof (cases "cl_next c \<le> p \<and> ce_created env p")
    case True
    define c' where "c' = c\<lparr>cl_next := Suc p, cl_state := place (Some p) (cl_state c),
      cl_live := (cl_live c)(p \<mapsto> interface)\<rparr>"
    have "fields_ok ptrs (insert i N) {} c'"
      using fields_ok_obtain [of ptrs N "{}" c place p i interface] c place len True by (simp add: c'_def)
    moreover have "exist_all T c'" using c by (auto simp: exist_all_def c'_def)
    ultimately have "fine (fields_ok ptrs M {}) (attempt ps (log_call (Adopt p) c'))"
      using safe_bodyD [OF ps, of "log_call (Adopt p) c'"] by simp
    with True show ?thesis by (simp add: adopt_proxy_def c'_def)
  next
    case False
    with c \<open>M \<subseteq> N\<close> show ?thesis by (auto simp: adopt_proxy_def fields_ok_subset)
  qed
qed

lemma safe_body_close_fd [client_safe]:
  "safe_body ptrs T N ps M \<Longrightarrow> safe_body ptrs T N (close_fd sel # ps) M"
  by (simp add: safe_body_def close_fd_def)

text \<open>A request on the object an event is for.\<close>

lemma safe_body_request_target:
  fixes ps :: "('st, 'req, 'p) cstep list"
  assumes ps: "safe_body ptrs T N ps M" and "p \<in> T"
  shows "safe_body ptrs T N (request q (\<lambda>s. [Some p]) # ps) M"
  unfolding safe_body_def
proof (intro allI impI)
  fix c :: "('st, 'req, 'p) client"
  assume c: "fields_ok ptrs N {} c \<and> exist_all T c"
  with assms(2) have "usable c [Some p]" by (auto simp: usable_def exist_all_def)
  with safe_bodyD [OF ps] c
  show "fine (fields_ok ptrs M {}) (attempt (request q (\<lambda>s. [Some p]) # ps) c)"
    by (simp add: request_def request_of_def)
qed

lemma safe_body_listen [client_safe]:
  fixes ps :: "('st, 'req, 'p) cstep list"
  assumes sel: "\<And>s. sel s = ptrs s ! i" "i \<in> N" and ps: "safe_body ptrs T N ps M"
  shows "safe_body ptrs T N (add_listener sel # ps) M"
  unfolding safe_body_def
proof (intro allI impI)
  fix c :: "('st, 'req, 'p) client"
  assume c: "fields_ok ptrs N {} c \<and> exist_all T c"
  with sel obtain p where "sel (cl_state c) = Some p" "cl_live c p \<noteq> None"
    by (metis fields_ok_set fields_ok_live empty_iff)
  with safe_bodyD [OF ps] c show "fine (fields_ok ptrs M {}) (attempt (add_listener sel # ps) c)"
    by (auto simp: add_listener_def)
qed

lemma safe_body_plain [client_safe]:
  "safe_body ptrs T N ps M \<Longrightarrow> safe_body ptrs T N (plain q # ps) M"
  by (simp add: safe_body_def plain_def)

text \<open>\<open>destructor(pointer); pointer = NULL;\<close>\<close>

lemma safe_body_destroy_clear [client_safe]:
  fixes ps :: "('st, 'req, 'p) cstep list"
  assumes sel: "\<And>s. sel s = ptrs s ! i" "i \<in> N" and f: "\<And>s. ptrs (f s) = (ptrs s)[i := None]"
    and ps: "safe_body ptrs {} (N - {i}) ps M"
  shows "safe_body ptrs T N (destroy_proxy q sel # assign f # ps) M"
  unfolding safe_body_def
proof (intro allI impI)
  fix c :: "('st, 'req, 'p) client"
  assume c: "fields_ok ptrs N {} c \<and> exist_all T c"
  with sel obtain p where p: "sel (cl_state c) = Some p" "cl_live c p \<noteq> None"
    "ptrs (cl_state c) ! i = Some p" "i < length (ptrs (cl_state c))"
    by (metis fields_ok_set fields_ok_live empty_iff)
  have "fields_ok ptrs (N - {i}) {} (c\<lparr>cl_state := f (cl_state c), cl_live := (cl_live c)(p := None)\<rparr>)"
    using fields_ok_clear [of ptrs N c f i p] c f p by auto
  then have "fields_ok ptrs (N - {i}) {} ((log_call (Destroy_Proxy q p)
      (c\<lparr>cl_live := (cl_live c)(p := None)\<rparr>))\<lparr>cl_state := f (cl_state c)\<rparr>)"
    by (subst fields_ok_cong) (simp_all add: log_call_def)
  with safe_bodyD [OF ps] p
  show "fine (fields_ok ptrs M {}) (attempt (destroy_proxy q sel # assign f # ps) c)"
    by (auto simp: destroy_proxy_def assign_def log_call_def)
qed

lemma fields_ok_forget:
  assumes ok: "fields_ok ptrs N {} c" and f: "ptrs (f (cl_state c)) = (ptrs (cl_state c))[i := None]"
  shows "fields_ok ptrs (N - {i}) {} (c\<lparr>cl_state := f (cl_state c)\<rparr>)"
proof -
  let ?xs = "ptrs (cl_state c)"
  have new: "(?xs[i := None]) ! j = (if j = i then None else ?xs ! j)" if "j < length ?xs" for j
    using that by (simp add: nth_list_update)
  show ?thesis
  proof (rule fields_okI)
    fix j q assume "j < length (?xs[i := None])" and "(?xs[i := None]) ! j = Some q"
    then have "j < length ?xs" "?xs ! j = Some q" by (auto simp: new split: if_splits)
    with ok show "q < cl_next c \<and> (j \<notin> {} \<longrightarrow> cl_live c q \<noteq> None)" unfolding fields_ok_def by blast
  next
    fix j k q assume j: "j < length (?xs[i := None])" "k < length (?xs[i := None])" "j \<noteq> k"
      and q: "(?xs[i := None]) ! j = Some q"
    then have "?xs ! j = Some q" by (auto simp: new split: if_splits)
    with j ok have "?xs ! k \<noteq> Some q" unfolding fields_ok_def by auto
    with j show "(?xs[i := None]) ! k \<noteq> Some q" by (simp add: new)
  next
    fix j assume j: "j \<in> N - {i}"
    with ok obtain q where "j < length ?xs" "?xs ! j = Some q" by (blast elim: fields_ok_set)
    with j show "j < length (?xs[i := None]) \<and> (?xs[i := None]) ! j \<noteq> None" by (simp add: new)
  qed (simp_all add: f)
qed

lemma safe_body_forget [client_safe]:
  fixes ps :: "('st, 'req, 'p) cstep list"
  assumes f: "\<And>s. ptrs (f s) = (ptrs s)[i := None]" and ps: "safe_body ptrs T (N - {i}) ps M"
  shows "safe_body ptrs T N (forget f # ps) M"
  unfolding safe_body_def
proof (intro allI impI)
  fix c :: "('st, 'req, 'p) client"
  assume c: "fields_ok ptrs N {} c \<and> exist_all T c"
  have "fields_ok ptrs (N - {i}) {} (c\<lparr>cl_state := f (cl_state c)\<rparr>)"
    using fields_ok_forget [of ptrs N c f i] c f by blast
  with safe_bodyD [OF ps] c show "fine (fields_ok ptrs M {}) (attempt (forget f # ps) c)"
    by (simp add: forget_def assign_def exist_all_def)
qed

lemma safe_body_weaken: "safe_body ptrs T N ps M \<Longrightarrow> N \<subseteq> N' \<Longrightarrow> safe_body ptrs T N' ps M"
  unfolding safe_body_def using fields_ok_subset by blast

text \<open>Sequences.\<close>

lemma attempt_append:
  "attempt (xs @ ys) c = (case attempt xs c of Ran True c' \<Rightarrow> attempt ys c' | r \<Rightarrow> r)"
  by (induction xs arbitrary: c) (simp_all split: run.split bool.split)

lemma safe_body_append:
  fixes xs :: "('st, 'req, 'p) cstep list"
  assumes xs: "safe_body ptrs {} N xs N" and ys: "safe_body ptrs {} N ys N"
  shows "safe_body ptrs {} N (xs @ ys) N"
  unfolding safe_body_def
proof (intro allI impI)
  fix c :: "('st, 'req, 'p) client"
  assume "fields_ok ptrs N {} c \<and> exist_all {} c"
  with safe_bodyD [OF xs] have "fine (fields_ok ptrs N {}) (attempt xs c)" by blast
  then show "fine (fields_ok ptrs N {}) (attempt (xs @ ys) c)"
    using safe_bodyD [OF ys] by (cases "attempt xs c") (auto simp: attempt_append split: bool.split)
qed

lemma safe_body_shrink:
  assumes "safe_body ptrs {} N' ps N'" and "N' \<subseteq> N" and "M \<subseteq> N'"
  shows "safe_body ptrs T N ps M"
proof -
  have "fine (fields_ok ptrs M {}) r" if "fine (fields_ok ptrs N' {}) r" for r :: "('a, 'b, 'c) run"
    using that fields_ok_subset assms(3) by (cases r) auto
  with assms(1,2) show ?thesis
    unfolding safe_body_def by (meson exist_all_empty fields_ok_subset)
qed

text \<open>Steps behind a condition that says a pointer is set.\<close>

lemma safe_body_when:
  fixes ps :: "('st, 'req, 'p) cstep list"
  assumes P: "\<And>s. P s \<Longrightarrow> ptrs s ! i \<noteq> None" and len: "\<And>s. i < length (ptrs s)"
    and qs: "safe_body ptrs T (insert i N) qs N" and ps: "safe_body ptrs {} N ps M" and "M \<subseteq> N"
  shows "safe_body ptrs T N (when_state P qs # ps) M"
  unfolding safe_body_def
proof (intro allI impI)
  fix c :: "('st, 'req, 'p) client"
  assume c: "fields_ok ptrs N {} c \<and> exist_all T c"
  show "fine (fields_ok ptrs M {}) (attempt (when_state P qs # ps) c)"
  proof (cases "P (cl_state c)")
    case True
    with c P len have "fields_ok ptrs (insert i N) {} c" by (intro fields_ok_insert) auto
    with safe_bodyD [OF qs] c have q: "fine (fields_ok ptrs N {}) (attempt qs c)" by blast
    show ?thesis
    proof (cases "attempt qs c")
      case (Ran b c')
      with q have "fields_ok ptrs N {} c'" by simp
      with Ran True safe_bodyD [OF ps, of c'] fields_ok_subset [OF _ \<open>M \<subseteq> N\<close>] show ?thesis
        by (cases b) (auto simp: when_state_def)
    qed (use q True in \<open>auto simp: when_state_def\<close>)
  next
    case False
    with c safe_bodyD [OF ps, of c] show ?thesis by (simp add: when_state_def)
  qed
qed

section \<open>The contract of listeners\<close>

text \<open>
  A listener may use the objects its event is for and the pointers that are set, and leaves set every
  pointer it found set. Then waiting for events is as safe as any other step.
\<close>

locale safe_listeners =
  fixes ptrs :: "'st \<Rightarrow> proxy option list"
    and targets :: "'ev cl_event \<Rightarrow> proxy list"
    and listeners :: "'ev cl_event \<Rightarrow> ('st, 'req, 'p) cstep list"
  assumes listener_safe: "safe_body ptrs (set (targets e)) N (listeners e) N"
begin

lemma deliver_events_fine:
  assumes "fields_ok ptrs N {} c"
  shows "fine (fields_ok ptrs N {}) (deliver_events targets listeners es c)"
  using assms
proof (induction es arbitrary: c)
  case Nil
  then show ?case by simp
next
  case (Cons e es)
  show ?case
  proof (cases "usable c (map Some (targets e))")
    case True
    then have "exist_all (set (targets e)) c"
      by (auto simp: usable_def exist_all_def list_all_iff)
    from safe_bodyD [OF listener_safe Cons.prems this] True Cons.IH show ?thesis
      by (cases "attempt (listeners e) c") auto
  next
    case False
    with Cons show ?thesis by simp
  qed
qed

lemma await_fine:
  assumes "fields_ok ptrs N {} c"
  shows "fine (fields_ok ptrs N {}) (await q env targets listeners c)"
proof (cases "ce_peer env (cl_pending c @ [q]) (cl_peer c)")
  case (fields evs ok p')
  define c1 where "c1 = c\<lparr>cl_pending := [], cl_calls := cl_calls c @ [q], cl_peer := p'\<rparr>"
  have "fields_ok ptrs N {} c1 \<longleftrightarrow> fields_ok ptrs N {} c"
    by (rule fields_ok_cong) (simp_all add: c1_def)
  with assms have "fields_ok ptrs N {} c1" by simp
  from deliver_events_fine [OF this, of evs] fields show ?thesis
    by (cases "deliver_events targets listeners evs c1") (auto simp: await_def c1_def)
qed

lemma safe_body_trip:
  assumes ps: "safe_body ptrs {} N ps M" and "M \<subseteq> N"
  shows "safe_body ptrs T N (trip env targets listeners # ps) M"
  unfolding safe_body_def
proof (intro allI impI)
  fix c :: "('st, 'req, 'p) client"
  assume "fields_ok ptrs N {} c \<and> exist_all T c"
  with await_fine [of N c Sync env] have t: "fine (fields_ok ptrs N {}) (trip env targets listeners c)"
    by (auto simp: trip_def)
  show "fine (fields_ok ptrs M {}) (attempt (trip env targets listeners # ps) c)"
  proof (cases "trip env targets listeners c")
    case (Ran b c')
    with t have "fields_ok ptrs N {} c'" by simp
    with Ran safe_bodyD [OF ps, of c'] fields_ok_subset [OF _ \<open>M \<subseteq> N\<close>] show ?thesis
      by (cases b) auto
  qed (use t in auto)
qed

lemma dispatch_until_fine:
  "fields_ok ptrs N {} c \<Longrightarrow>
     fine (fields_ok ptrs N {}) (dispatch_until fuel P (dispatch env targets listeners) c)"
proof (induction fuel arbitrary: c)
  case 0
  then show ?case by (simp add: dispatch_until.simps)
next
  case (Suc fuel)
  from await_fine [OF Suc.prems, of Flush env] Suc show ?case
    by (cases "await Flush env targets listeners c")
       (auto simp: dispatch_def dispatch_until.simps [of "Suc fuel"] split: bool.split)
qed

lemma safe_body_dispatch:
  assumes ps: "safe_body ptrs {} N ps M" and "M \<subseteq> N"
  shows "safe_body ptrs T N (dispatch_until fuel P (dispatch env targets listeners) # ps) M"
  unfolding safe_body_def
proof (intro allI impI)
  fix c :: "('st, 'req, 'p) client"
  assume "fields_ok ptrs N {} c \<and> exist_all T c"
  with dispatch_until_fine [of N c fuel P env]
  have t: "fine (fields_ok ptrs N {}) (dispatch_until fuel P (dispatch env targets listeners) c)" by blast
  show "fine (fields_ok ptrs M {}) (attempt (dispatch_until fuel P (dispatch env targets listeners) # ps) c)"
  proof (cases "dispatch_until fuel P (dispatch env targets listeners) c")
    case (Ran b c')
    with t have "fields_ok ptrs N {} c'" by simp
    with Ran safe_bodyD [OF ps, of c'] fields_ok_subset [OF _ \<open>M \<subseteq> N\<close>] show ?thesis
      by (cases b) auto
  qed (use t in auto)
qed

text \<open>A loop that waits for a pointer to be set.\<close>

lemma dispatch_until_exit:
  "dispatch_until fuel P step c = Ran True c' \<Longrightarrow> P (cl_state c')"
proof (induction fuel arbitrary: c)
  case 0
  then show ?case by (simp add: dispatch_until.simps split: if_splits)
next
  case (Suc fuel)
  then show ?case
    by (auto simp: dispatch_until.simps [of "Suc fuel"] split: if_splits run.splits bool.splits)
qed

lemma safe_body_dispatch_set:
  assumes sel: "\<And>s. sel s = ptrs s ! i" and len: "\<And>s. i < length (ptrs s)" and "M \<subseteq> N"
    and ps: "safe_body ptrs {} (insert i N) ps M"
  shows "safe_body ptrs T N (dispatch_until fuel (\<lambda>s. sel s \<noteq> None) (dispatch env targets listeners) # ps) M"
  unfolding safe_body_def
proof (intro allI impI)
  let ?loop = "dispatch_until fuel (\<lambda>s. sel s \<noteq> None) (dispatch env targets listeners)"
  fix c :: "('st, 'req, 'p) client"
  assume "fields_ok ptrs N {} c \<and> exist_all T c"
  with dispatch_until_fine [of N c fuel "\<lambda>s. sel s \<noteq> None" env]
  have t: "fine (fields_ok ptrs N {}) (?loop c)" by blast
  show "fine (fields_ok ptrs M {}) (attempt (?loop # ps) c)"
  proof (cases "?loop c")
    case (Ran b c')
    with t have ok: "fields_ok ptrs N {} c'" by simp
    show ?thesis
    proof (cases b)
      case True
      with Ran dispatch_until_exit [of fuel "\<lambda>s. sel s \<noteq> None" "dispatch env targets listeners" c c'] sel
      have "ptrs (cl_state c') ! i \<noteq> None" by simp
      with fields_ok_insert [OF ok] len have "fields_ok ptrs (insert i N) {} c'" by blast
      with Ran True safe_bodyD [OF ps, of c'] show ?thesis by simp
    next
      case False
      with Ran fields_ok_subset [OF ok \<open>M \<subseteq> N\<close>] show ?thesis by simp
    qed
  qed (use t in auto)
qed

end

section \<open>Rules for the cleanup\<close>

lemma safe_cleanup_nil [client_safe]: "safe_cleanup ptrs N D []"
  by (simp add: safe_cleanup_def)

lemma safe_cleanup_plain [client_safe]:
  "safe_cleanup ptrs N D ps \<Longrightarrow> safe_cleanup ptrs N D (plain q # ps)"
  by (simp add: safe_cleanup_def plain_def)

lemma safe_cleanup_destroy [client_safe]:
  fixes ps :: "('st, 'req, 'p) cstep list"
  assumes sel: "\<And>s. sel s = ptrs s ! i" and "i \<in> N" "i \<notin> D"
    and ps: "safe_cleanup ptrs N (insert i D) ps"
  shows "safe_cleanup ptrs N D (destroy_proxy q sel # ps)"
  unfolding safe_cleanup_def
proof (intro allI impI)
  fix c :: "('st, 'req, 'p) client"
  assume c: "fields_ok ptrs N D c"
  with assms obtain p where p: "sel (cl_state c) = Some p" "cl_live c p \<noteq> None"
    "ptrs (cl_state c) ! i = Some p" "i < length (ptrs (cl_state c))"
    by (metis fields_ok_set fields_ok_live)
  with fields_ok_dead [OF c, of i p] ps show "fine (\<lambda>c'. True) (attempt (destroy_proxy q sel # ps) c)"
    by (auto simp: safe_cleanup_def destroy_proxy_def)
qed

lemma safe_cleanup_destroy_if [client_safe]:
  fixes ps :: "('st, 'req, 'p) cstep list"
  assumes sel: "\<And>s. sel s = ptrs s ! i" and len: "\<And>s. i < length (ptrs s)" and "i \<notin> D"
    and ps: "safe_cleanup ptrs N (insert i D) ps"
  shows "safe_cleanup ptrs N D (destroy_if q sel # ps)"
  unfolding safe_cleanup_def
proof (intro allI impI)
  fix c :: "('st, 'req, 'p) client"
  assume c: "fields_ok ptrs N D c"
  show "fine (\<lambda>c'. True) (attempt (destroy_if q sel # ps) c)"
  proof (cases "sel (cl_state c)")
    case None
    from c have "fields_ok ptrs N (insert i D) c" by (rule fields_ok_more_dead)
    with ps None show ?thesis by (simp add: safe_cleanup_def destroy_if_def)
  next
    case (Some p)
    with c sel len \<open>i \<notin> D\<close> have "cl_live c p \<noteq> None" "ptrs (cl_state c) ! i = Some p"
      using fields_ok_live [OF c, of i p] by simp_all
    with fields_ok_dead [OF c, of i p] ps len Some
    show ?thesis by (auto simp: safe_cleanup_def destroy_if_def destroy_proxy_def)
  qed
qed

lemma safe_cleanup_close_if [client_safe]:
  "safe_cleanup ptrs N D ps \<Longrightarrow> safe_cleanup ptrs N D (close_if sel # ps)"
  by (simp add: safe_cleanup_def close_if_def close_fd_def)

section \<open>The whole program\<close>

text \<open>A library that creates every object asked for.\<close>

definition reliable ::
    "bool \<Rightarrow> ('req cl_call list \<Rightarrow> 'p \<Rightarrow> 'ev cl_event list \<times> bool \<times> 'p) \<Rightarrow> ('req, 'ev, 'p) client_env" where
  "reliable display peer = \<lparr>ce_display = display, ce_created = (\<lambda>k. True), ce_peer = peer\<rparr>"

lemma reliable_simps [simp]:
  "ce_display (reliable display peer) = display" "ce_created (reliable display peer) k"
  "ce_peer (reliable display peer) = peer"
  by (simp_all add: reliable_def)

lemma client_program_safe:
  fixes body :: "('st, 'req, 'p) cstep list"
  assumes "safe_body ptrs {} {} body M" and "safe_cleanup ptrs M {} cleanup"
    and "list_all (\<lambda>x. x = None) (ptrs st)"
  shows "client_program env body cleanup (start_client st p) \<noteq> Exit_Crashed"
proof -
  define c :: "('st, 'req, 'p) client" where "c = start_client st p"
  have "fields_ok ptrs {} {} c"
    using assms(3) by (auto simp: fields_ok_def c_def start_client_def list_all_length)
  with safe_bodyD [OF assms(1)] have b: "fine (fields_ok ptrs M {}) (attempt body c)" by simp
  have "fine (\<lambda>c'. True) (attempt cleanup c')" if "fields_ok ptrs M {} c'" for c' :: "('st, 'req, 'p) client"
    using assms(2) that by (simp add: safe_cleanup_def)
  then have "\<And>c'. fields_ok ptrs M {} c' \<Longrightarrow> attempt cleanup c' \<noteq> Client_Crashed" by force
  with b show ?thesis
    unfolding client_program_def c_def [symmetric]
    by (cases "attempt body c") (auto split: run.splits)
qed

text \<open>Listeners may ignore what never arrives.\<close>

lemma trip_filtered:
  "trip (reliable d (filtered keep peer)) targets listeners =
     trip (reliable d (filtered keep peer)) targets (quiet keep listeners)"
  using deliver_events_filter [of targets listeners keep]
  by (auto simp: fun_eq_iff trip_def await_def filtered_def split: prod.split)

end
