(* ===== verification/Touch_Client.thy ===== *)
theory Touch_Client
  imports Client_Safety Touch_Server
begin

text \<open>
  The libwayland touch client (\<open>src/bench/touch-interop-client.c\<close>): it binds the compositor and the
  seat, creates a surface and a touch object, and checks the events that arrive against the fixed
  sequence the servers send. The events are those of the server's theory.
\<close>

record touch_client =
  tc_compositor :: "proxy option"
  tc_seat :: "proxy option"
  tc_capabilities :: bool
  tc_name :: bool
  tc_down :: int
  tc_motion :: bool
  tc_shape :: bool
  tc_orientation :: bool
  tc_up :: bool
  tc_frames :: int
  tc_cancel :: bool
  tc_registry :: "proxy option"
  tc_surface :: "proxy option"
  tc_touch :: "proxy option"

definition touch_client_init :: touch_client where
  "touch_client_init = \<lparr>tc_compositor = None, tc_seat = None, tc_capabilities = False, tc_name = False,
     tc_down = 0, tc_motion = False, tc_shape = False, tc_orientation = False, tc_up = False,
     tc_frames = 0, tc_cancel = False, tc_registry = None, tc_surface = None, tc_touch = None\<rparr>"

datatype touch_call =
  TC_Create_Surface | TC_Surface_Destroy | TC_Get_Touch | TC_Touch_Release | TC_Seat_Release

section \<open>Listeners\<close>

definition tc_seat_capabilities :: "wl_lib \<Rightarrow> u32 \<Rightarrow> touch_client \<Rightarrow> touch_client" where
  "tc_seat_capabilities L capabilities s =
     (if capabilities = cap_touch L then s\<lparr>tc_capabilities := True\<rparr> else s)"

definition tc_seat_name :: "string \<Rightarrow> touch_client \<Rightarrow> touch_client" where
  "tc_seat_name name s = (if name = ''wayring-seat'' then s\<lparr>tc_name := True\<rparr> else s)"

definition tc_touch_down ::
    "wl_lib \<Rightarrow> u32 \<Rightarrow> u32 \<Rightarrow> resource option \<Rightarrow> int \<Rightarrow> int \<Rightarrow> int \<Rightarrow> touch_client \<Rightarrow> touch_client" where
  "tc_touch_down L serial time surface tid x y s =
     (if (tc_down s = 0 \<and> serial = 51 \<and> time = 200 \<and> tid = 7 \<and> x = fixed_from_double L 3 1 \<and>
            y = fixed_from_int L (-2) \<or>
          tc_down s = 1 \<and> serial = 53 \<and> time = 203 \<and> tid = 8 \<and> x = 0 \<and> y = 0) \<and> surface \<noteq> None
      then s\<lparr>tc_down := tc_down s + 1\<rparr> else s)"

definition tc_touch_up :: "u32 \<Rightarrow> u32 \<Rightarrow> int \<Rightarrow> touch_client \<Rightarrow> touch_client" where
  "tc_touch_up serial time tid s =
     (if serial = 52 \<and> time = 202 \<and> tid = 7 then s\<lparr>tc_up := True\<rparr> else s)"

definition tc_touch_motion :: "wl_lib \<Rightarrow> u32 \<Rightarrow> int \<Rightarrow> int \<Rightarrow> int \<Rightarrow> touch_client \<Rightarrow> touch_client" where
  "tc_touch_motion L time tid x y s =
     (if time = 201 \<and> tid = 7 \<and> x = fixed_from_int L 3 \<and> y = fixed_from_int L 4
      then s\<lparr>tc_motion := True\<rparr> else s)"

definition tc_touch_frame :: "touch_client \<Rightarrow> touch_client" where
  "tc_touch_frame s = s\<lparr>tc_frames := tc_frames s + 1\<rparr>"

definition tc_touch_cancel :: "touch_client \<Rightarrow> touch_client" where
  "tc_touch_cancel s = (if tc_down s = 2 then s\<lparr>tc_cancel := True\<rparr> else s)"

definition tc_touch_shape :: "wl_lib \<Rightarrow> int \<Rightarrow> int \<Rightarrow> int \<Rightarrow> touch_client \<Rightarrow> touch_client" where
  "tc_touch_shape L tid major minor s =
     (if tid = 7 \<and> major = fixed_from_int L 5 \<and> minor = fixed_from_int L 2
      then s\<lparr>tc_shape := True\<rparr> else s)"

definition tc_touch_orientation :: "wl_lib \<Rightarrow> int \<Rightarrow> int \<Rightarrow> touch_client \<Rightarrow> touch_client" where
  "tc_touch_orientation L tid orientation s =
     (if tid = 7 \<and> orientation = fixed_from_int L (-45) then s\<lparr>tc_orientation := True\<rparr> else s)"

definition tc_registry_global ::
    "(touch_call, touch_event, 'p) client_env \<Rightarrow> u32 \<Rightarrow> string \<Rightarrow> u32 \<Rightarrow>
     (touch_client, touch_call, 'p) cstep list" where
  "tc_registry_global env name interface version =
     (if interface = ''wl_compositor'' then
        [bind_global env name ''wl_compositor'' (capped version 4) (\<lambda>p s. s\<lparr>tc_compositor := p\<rparr>)]
      else if interface = ''wl_seat'' then
        [bind_global env name ''wl_seat'' (capped version 8) (\<lambda>p s. s\<lparr>tc_seat := p\<rparr>),
         add_listener tc_seat]
      else [])"

fun tc_listeners ::
    "wl_lib \<Rightarrow> (touch_call, touch_event, 'p) client_env \<Rightarrow> touch_event cl_event \<Rightarrow>
     (touch_client, touch_call, 'p) cstep list" where
  "tc_listeners L env (Global name interface version) = tc_registry_global env name interface version"
| "tc_listeners L env (Event (T_Seat (Seat_Capabilities r caps))) = [assign (tc_seat_capabilities L caps)]"
| "tc_listeners L env (Event (T_Seat (Seat_Name r name))) = [assign (tc_seat_name name)]"
| "tc_listeners L env (Event (T_Down r serial time surface i x y)) =
     [assign (tc_touch_down L serial time surface i x y)]"
| "tc_listeners L env (Event (T_Motion r time i x y)) = [assign (tc_touch_motion L time i x y)]"
| "tc_listeners L env (Event (T_Shape r i major minor)) = [assign (tc_touch_shape L i major minor)]"
| "tc_listeners L env (Event (T_Orientation r i angle)) = [assign (tc_touch_orientation L i angle)]"
| "tc_listeners L env (Event (T_Frame r)) = [assign tc_touch_frame]"
| "tc_listeners L env (Event (T_Up r serial time i)) = [assign (tc_touch_up serial time i)]"
| "tc_listeners L env (Event (T_Cancel r)) = [assign tc_touch_cancel]"

text \<open>The object an event is for; a surface that is gone arrives as NULL and drops nothing.\<close>

fun tc_targets :: "touch_event cl_event \<Rightarrow> proxy list" where
  "tc_targets (Global name interface version) = []"
| "tc_targets (Event e) = map the (take 1 (touch_uses e))"

section \<open>The program\<close>

abbreviation tc_roundtrip ::
    "wl_lib \<Rightarrow> (touch_call, touch_event, 'p) client_env \<Rightarrow> (touch_client, touch_call, 'p) cstep" where
  "tc_roundtrip L env \<equiv> trip env tc_targets (tc_listeners L env)"

definition touch_client_body ::
    "wl_lib \<Rightarrow> (touch_call, touch_event, 'p) client_env \<Rightarrow> (touch_client, touch_call, 'p) cstep list" where
  "touch_client_body L env =
    [get_registry env (\<lambda>p s. s\<lparr>tc_registry := p\<rparr>),
     add_listener tc_registry,
     tc_roundtrip L env,
     require_set tc_compositor,
     require_set tc_seat,
     tc_roundtrip L env,
     require tc_capabilities,
     require tc_name,
     construct env ''wl_surface'' TC_Create_Surface (\<lambda>s. [tc_compositor s]) (\<lambda>p s. s\<lparr>tc_surface := p\<rparr>),
     construct env ''wl_touch'' TC_Get_Touch (\<lambda>s. [tc_seat s]) (\<lambda>p s. s\<lparr>tc_touch := p\<rparr>),
     require_set tc_surface,
     require_set tc_touch,
     add_listener tc_touch,
     tc_roundtrip L env,
     require (\<lambda>s. tc_down s = 2),
     require tc_motion,
     require tc_shape,
     require tc_orientation,
     require tc_up,
     require (\<lambda>s. tc_frames s = 2),
     require tc_cancel]"

definition touch_client_cleanup :: "(touch_client, touch_call, 'p) cstep list" where
  "touch_client_cleanup =
    [destroy_if (Some TC_Touch_Release) tc_touch,
     destroy_if (Some TC_Surface_Destroy) tc_surface,
     destroy_if (Some TC_Seat_Release) tc_seat,
     destroy_if None tc_compositor,
     destroy_proxy None tc_registry,
     plain Flush,
     plain Disconnect]"

definition touch_client_fd ::
    "wl_lib \<Rightarrow> (touch_call, touch_event, 'p) client_env \<Rightarrow> 'p \<Rightarrow>
     (touch_client, touch_call, 'p) client_exit" where
  "touch_client_fd L env p = client_program env (touch_client_body L env) touch_client_cleanup
     (start_client touch_client_init p)"

section \<open>Against the server\<close>

text \<open>What a call of the client is to the server.\<close>

fun touch_translate :: "touch_call cl_call \<Rightarrow> touch_request input list" where
  "touch_translate (Bind name interface version p) =
     (if interface = ''wl_compositor'' then [(T_Bind_Compositor version (of_nat p), Some p)]
      else if interface = ''wl_seat'' then [(T_Bind_Seat version (of_nat p), Some p)]
      else [])"
| "touch_translate (Construct TC_Create_Surface [r] p) = [(T_Create_Surface r (of_nat p), Some p)]"
| "touch_translate (Construct TC_Get_Touch [r] p) = [(T_Get_Touch r (of_nat p), Some p)]"
| "touch_translate (Destroy_Proxy (Some TC_Touch_Release) p) = [(T_Touch_Release p, None)]"
| "touch_translate (Destroy_Proxy (Some TC_Surface_Destroy) p) = [(T_Surface_Destroy p, None)]"
| "touch_translate (Destroy_Proxy (Some TC_Seat_Release) p) = [(T_Seat_Release p, None)]"
| "touch_translate Disconnect = [(T_Client_Destroyed, None)]"
| "touch_translate _ = []"

definition touch_env :: "wl_lib \<Rightarrow> (touch_call, touch_event, touch_request input list) client_env" where
  "touch_env L = reliable True (server_peer (touch_session L) touch_globals touch_translate (\<lambda>e. [e]))"

lemmas touch_client_defs = touch_client_init_def tc_seat_capabilities_def tc_seat_name_def
  tc_touch_down_def tc_touch_up_def tc_touch_motion_def tc_touch_frame_def tc_touch_cancel_def
  tc_touch_shape_def tc_touch_orientation_def tc_registry_global_def

section \<open>No crash, whatever the server sends\<close>

definition tc_ptrs :: "touch_client \<Rightarrow> proxy option list" where
  "tc_ptrs s = [tc_registry s, tc_compositor s, tc_seat s, tc_surface s, tc_touch s]"

lemma tc_ptrs_read:
  "tc_registry s = tc_ptrs s ! 0" "tc_compositor s = tc_ptrs s ! 1" "tc_seat s = tc_ptrs s ! 2"
  "tc_surface s = tc_ptrs s ! 3" "tc_touch s = tc_ptrs s ! 4"
  by (simp_all add: tc_ptrs_def)

lemma tc_ptrs_write:
  "tc_ptrs (s\<lparr>tc_registry := x\<rparr>) = (tc_ptrs s)[0 := x]"
  "tc_ptrs (s\<lparr>tc_compositor := x\<rparr>) = (tc_ptrs s)[1 := x]"
  "tc_ptrs (s\<lparr>tc_seat := x\<rparr>) = (tc_ptrs s)[2 := x]"
  "tc_ptrs (s\<lparr>tc_surface := x\<rparr>) = (tc_ptrs s)[3 := x]"
  "tc_ptrs (s\<lparr>tc_touch := x\<rparr>) = (tc_ptrs s)[4 := x]"
  by (simp_all add: tc_ptrs_def)

lemma tc_ptrs_objs:
  "[tc_compositor s] = map (\<lambda>i. tc_ptrs s ! i) [1]" "[tc_seat s] = map (\<lambda>i. tc_ptrs s ! i) [2]"
  by (simp_all add: tc_ptrs_def)

lemma tc_registry_safe:
  "safe_body tc_ptrs T N (tc_registry_global (reliable d peer) name interface version) N"
  unfolding tc_registry_global_def
  by (rule client_safe tc_ptrs_write tc_ptrs_read conjI impI | split if_split
     | simp add: tc_ptrs_def subset_insertI2; fail)+

lemma tc_listener_safe:
  "safe_body tc_ptrs (set (tc_targets e)) N (tc_listeners L (reliable d peer) e) N"
  by (cases "(L, reliable d peer, e)" rule: tc_listeners.cases; simp add: tc_registry_safe;
      (rule client_safe | simp add: tc_ptrs_def touch_client_defs; fail)+)

interpretation touch_listening: safe_listeners tc_ptrs tc_targets "tc_listeners L (reliable d peer)" for L d peer
  by unfold_locales (rule tc_listener_safe)

lemma touch_client_safe: "touch_client_fd L (reliable d peer) p \<noteq> Exit_Crashed"
  unfolding touch_client_fd_def
proof (rule client_program_safe)
  show "safe_body tc_ptrs {} {} (touch_client_body L (reliable d peer)) {0}"
    unfolding touch_client_body_def
    by (rule client_safe touch_listening.safe_body_trip tc_ptrs_write tc_ptrs_read tc_ptrs_objs
        | simp add: tc_ptrs_def; fail)+
  show "safe_cleanup tc_ptrs {0} {} touch_client_cleanup"
    unfolding touch_client_cleanup_def
    by (rule client_safe tc_ptrs_read | simp add: tc_ptrs_def; fail)+
qed (simp add: touch_client_init_def tc_ptrs_def)

section \<open>Properties\<close>

text \<open>C17: with a library that creates every object, the touch client never uses a NULL or destroyed
  object, whatever events the other side sends, in whatever order. Against the touch server it exits
  with success and has destroyed every object it created, and the server, given the requests the
  client sent and then its disconnection, exits with success too.\<close>

theorem touch_client_safe_and_interoperates:
  "touch_client_fd L (reliable display peer) p \<noteq> Exit_Crashed \<and>
   (\<exists>c. touch_client_fd L (touch_env L) [] = Exit_Client EXIT_SUCCESS c \<and> cl_live c = Map.empty \<and>
      exits_with EXIT_SUCCESS (touch_server_fd demo_env L (concat (map touch_translate (cl_calls c)))))"
proof (intro conjI)
  show "\<exists>c. touch_client_fd L (touch_env L) [] = Exit_Client EXIT_SUCCESS c \<and> cl_live c = Map.empty \<and>
      exits_with EXIT_SUCCESS (touch_server_fd demo_env L (concat (map touch_translate (cl_calls c))))"
    by (simp add: client_run_defs touch_client_fd_def touch_env_def touch_client_body_def
        touch_client_cleanup_def touch_client_defs touch_session_def touch_globals_def touch_handler_defs
        touch_server_init_def touch_server_fd_def touch_status_def)
qed (rule touch_client_safe)

end
