(* ===== verification/Pointer_Client.thy ===== *)
theory Pointer_Client
  imports Client_Safety Pointer_Server
begin

text \<open>
  The libwayland pointer client (\<open>src/bench/pointer-interop-client.c\<close>): it binds the compositor and
  the seat, creates a surface and a pointer, and checks the events that arrive against the fixed
  sequence the servers send. The events are those of the server's theory.
\<close>

record pointer_client =
  pc_compositor :: "proxy option"
  pc_seat :: "proxy option"
  pc_capabilities :: bool
  pc_name :: bool
  pc_enter :: bool
  pc_motion :: bool
  pc_button :: bool
  pc_axis :: bool
  pc_axis_source :: bool
  pc_axis_stop :: bool
  pc_axis_discrete :: bool
  pc_axis_value120 :: bool
  pc_frame :: bool
  pc_registry :: "proxy option"
  pc_surface :: "proxy option"
  pc_pointer :: "proxy option"

definition pointer_client_init :: pointer_client where
  "pointer_client_init = \<lparr>pc_compositor = None, pc_seat = None, pc_capabilities = False,
     pc_name = False, pc_enter = False, pc_motion = False, pc_button = False, pc_axis = False,
     pc_axis_source = False, pc_axis_stop = False, pc_axis_discrete = False,
     pc_axis_value120 = False, pc_frame = False, pc_registry = None, pc_surface = None,
     pc_pointer = None\<rparr>"

datatype pointer_call =
  PC_Create_Surface | PC_Surface_Destroy | PC_Get_Pointer | PC_Pointer_Release | PC_Seat_Release

section \<open>Listeners\<close>

definition pc_seat_capabilities :: "wl_lib \<Rightarrow> u32 \<Rightarrow> pointer_client \<Rightarrow> pointer_client" where
  "pc_seat_capabilities L capabilities s =
     (if capabilities = cap_pointer L then s\<lparr>pc_capabilities := True\<rparr> else s)"

definition pc_seat_name :: "string \<Rightarrow> pointer_client \<Rightarrow> pointer_client" where
  "pc_seat_name name s = (if name = ''wayring-seat'' then s\<lparr>pc_name := True\<rparr> else s)"

definition pc_pointer_enter ::
    "wl_lib \<Rightarrow> u32 \<Rightarrow> resource option \<Rightarrow> int \<Rightarrow> int \<Rightarrow> pointer_client \<Rightarrow> pointer_client" where
  "pc_pointer_enter L serial surface x y s =
     (if serial = 41 \<and> surface \<noteq> None \<and> x = fixed_from_double L 7 1 \<and> y = fixed_from_double L (-9) 2
      then s\<lparr>pc_enter := True\<rparr> else s)"

definition pc_pointer_motion :: "wl_lib \<Rightarrow> u32 \<Rightarrow> int \<Rightarrow> int \<Rightarrow> pointer_client \<Rightarrow> pointer_client" where
  "pc_pointer_motion L time x y s =
     (if time = 100 \<and> x = fixed_from_int L 4 \<and> y = fixed_from_int L 5
      then s\<lparr>pc_motion := True\<rparr> else s)"

definition pc_pointer_button ::
    "wl_lib \<Rightarrow> u32 \<Rightarrow> u32 \<Rightarrow> u32 \<Rightarrow> u32 \<Rightarrow> pointer_client \<Rightarrow> pointer_client" where
  "pc_pointer_button L serial time button button_state s =
     (if serial = 42 \<and> time = 101 \<and> button = 0x110 \<and> button_state = button_pressed L
      then s\<lparr>pc_button := True\<rparr> else s)"

definition pc_pointer_axis :: "wl_lib \<Rightarrow> u32 \<Rightarrow> u32 \<Rightarrow> int \<Rightarrow> pointer_client \<Rightarrow> pointer_client" where
  "pc_pointer_axis L time ax v s =
     (if time = 102 \<and> ax = axis_vertical L \<and> v = fixed_from_int L (-1)
      then s\<lparr>pc_axis := True\<rparr> else s)"

definition pc_pointer_frame :: "pointer_client \<Rightarrow> pointer_client" where
  "pc_pointer_frame s = s\<lparr>pc_frame := True\<rparr>"

definition pc_pointer_axis_source :: "wl_lib \<Rightarrow> u32 \<Rightarrow> pointer_client \<Rightarrow> pointer_client" where
  "pc_pointer_axis_source L source s =
     (if source = axis_wheel L then s\<lparr>pc_axis_source := True\<rparr> else s)"

definition pc_pointer_axis_stop :: "wl_lib \<Rightarrow> u32 \<Rightarrow> u32 \<Rightarrow> pointer_client \<Rightarrow> pointer_client" where
  "pc_pointer_axis_stop L time ax s =
     (if time = 103 \<and> ax = axis_vertical L then s\<lparr>pc_axis_stop := True\<rparr> else s)"

definition pc_pointer_axis_discrete :: "wl_lib \<Rightarrow> u32 \<Rightarrow> int \<Rightarrow> pointer_client \<Rightarrow> pointer_client" where
  "pc_pointer_axis_discrete L ax discrete s =
     (if ax = axis_vertical L \<and> discrete = -1 then s\<lparr>pc_axis_discrete := True\<rparr> else s)"

definition pc_pointer_axis_value120 :: "wl_lib \<Rightarrow> u32 \<Rightarrow> int \<Rightarrow> pointer_client \<Rightarrow> pointer_client" where
  "pc_pointer_axis_value120 L ax value120 s =
     (if ax = axis_vertical L \<and> value120 = -120 then s\<lparr>pc_axis_value120 := True\<rparr> else s)"

definition pc_registry_global ::
    "(pointer_call, pointer_event, 'p) client_env \<Rightarrow> u32 \<Rightarrow> string \<Rightarrow> u32 \<Rightarrow>
     (pointer_client, pointer_call, 'p) cstep list" where
  "pc_registry_global env name interface version =
     (if interface = ''wl_compositor'' then
        [bind_global env name ''wl_compositor'' (capped version 4) (\<lambda>p s. s\<lparr>pc_compositor := p\<rparr>)]
      else if interface = ''wl_seat'' then
        [bind_global env name ''wl_seat'' (capped version 8) (\<lambda>p s. s\<lparr>pc_seat := p\<rparr>),
         add_listener pc_seat]
      else [])"

text \<open>
  The listener for \<open>leave\<close> does nothing. \<open>pointer_listener\<close> has no functions for the two events that came
  after version 8, up to which the client binds the seat.
\<close>

fun pc_listeners ::
    "wl_lib \<Rightarrow> (pointer_call, pointer_event, 'p) client_env \<Rightarrow> pointer_event cl_event \<Rightarrow>
     (pointer_client, pointer_call, 'p) cstep list" where
  "pc_listeners L env (Global name interface version) = pc_registry_global env name interface version"
| "pc_listeners L env (Event (P_Seat (Seat_Capabilities r caps))) = [assign (pc_seat_capabilities L caps)]"
| "pc_listeners L env (Event (P_Seat (Seat_Name r name))) = [assign (pc_seat_name name)]"
| "pc_listeners L env (Event (P_Enter r serial surface x y)) =
     [assign (pc_pointer_enter L serial surface x y)]"
| "pc_listeners L env (Event (P_Leave r serial surface)) = []"
| "pc_listeners L env (Event (P_Motion r time x y)) = [assign (pc_pointer_motion L time x y)]"
| "pc_listeners L env (Event (P_Button r serial time button st)) =
     [assign (pc_pointer_button L serial time button st)]"
| "pc_listeners L env (Event (P_Axis_Source r source)) = [assign (pc_pointer_axis_source L source)]"
| "pc_listeners L env (Event (P_Axis r time ax v)) = [assign (pc_pointer_axis L time ax v)]"
| "pc_listeners L env (Event (P_Axis_Discrete r ax v)) = [assign (pc_pointer_axis_discrete L ax v)]"
| "pc_listeners L env (Event (P_Axis_Value120 r ax v)) = [assign (pc_pointer_axis_value120 L ax v)]"
| "pc_listeners L env (Event (P_Axis_Stop r time ax)) = [assign (pc_pointer_axis_stop L time ax)]"
| "pc_listeners L env (Event (P_Frame r)) = [assign pc_pointer_frame]"
| "pc_listeners L env (Event (P_Axis_Relative_Direction r)) = [no_listener]"
| "pc_listeners L env (Event (P_Warp r)) = [no_listener]"

fun pc_targets :: "pointer_event cl_event \<Rightarrow> proxy list" where
  "pc_targets (Global name interface version) = []"
| "pc_targets (Event e) = map the (take 1 (pointer_uses e))"

section \<open>The program\<close>

definition pointer_client_body ::
    "wl_lib \<Rightarrow> (pointer_call, pointer_event, 'p) client_env \<Rightarrow>
     (pointer_client, pointer_call, 'p) cstep list" where
  "pointer_client_body L env =
    [get_registry env (\<lambda>p s. s\<lparr>pc_registry := p\<rparr>),
     add_listener pc_registry,
     trip env pc_targets (pc_listeners L env),
     require_set pc_compositor,
     require_set pc_seat,
     trip env pc_targets (pc_listeners L env),
     require pc_capabilities,
     require pc_name,
     construct env ''wl_surface'' PC_Create_Surface (\<lambda>s. [pc_compositor s]) (\<lambda>p s. s\<lparr>pc_surface := p\<rparr>),
     construct env ''wl_pointer'' PC_Get_Pointer (\<lambda>s. [pc_seat s]) (\<lambda>p s. s\<lparr>pc_pointer := p\<rparr>),
     require_set pc_surface,
     require_set pc_pointer,
     add_listener pc_pointer,
     trip env pc_targets (pc_listeners L env),
     require pc_enter,
     require pc_motion,
     require pc_button,
     require pc_axis,
     require pc_axis_source,
     require pc_axis_stop,
     require pc_axis_discrete,
     require pc_axis_value120,
     require pc_frame]"

definition pointer_client_cleanup :: "(pointer_client, pointer_call, 'p) cstep list" where
  "pointer_client_cleanup =
    [destroy_if (Some PC_Pointer_Release) pc_pointer,
     destroy_if (Some PC_Surface_Destroy) pc_surface,
     destroy_if (Some PC_Seat_Release) pc_seat,
     destroy_if None pc_compositor,
     destroy_proxy None pc_registry,
     plain Flush,
     plain Disconnect]"

definition pointer_client_fd ::
    "wl_lib \<Rightarrow> (pointer_call, pointer_event, 'p) client_env \<Rightarrow> 'p \<Rightarrow>
     (pointer_client, pointer_call, 'p) client_exit" where
  "pointer_client_fd L env p = client_program env (pointer_client_body L env) pointer_client_cleanup
     (start_client pointer_client_init p)"

section \<open>Against the server\<close>

fun pointer_translate :: "pointer_call cl_call \<Rightarrow> pointer_request input list" where
  "pointer_translate (Bind name interface version p) =
     (if interface = ''wl_compositor'' then [(P_Bind_Compositor version (of_nat p), Some p)]
      else if interface = ''wl_seat'' then [(P_Bind_Seat version (of_nat p), Some p)]
      else [])"
| "pointer_translate (Construct PC_Create_Surface [r] p) = [(P_Create_Surface r (of_nat p), Some p)]"
| "pointer_translate (Construct PC_Get_Pointer [r] p) = [(P_Get_Pointer r (of_nat p), Some p)]"
| "pointer_translate (Destroy_Proxy (Some PC_Pointer_Release) p) = [(P_Pointer_Release p, None)]"
| "pointer_translate (Destroy_Proxy (Some PC_Surface_Destroy) p) = [(P_Surface_Destroy p, None)]"
| "pointer_translate (Destroy_Proxy (Some PC_Seat_Release) p) = [(P_Seat_Release p, None)]"
| "pointer_translate Disconnect = [(P_Client_Destroyed, None)]"
| "pointer_translate _ = []"

text \<open>The server as it is, and one that also sends an event of a version the client does not ask for.\<close>

definition pointer_env :: "wl_lib \<Rightarrow> (pointer_call, pointer_event, pointer_request input list) client_env" where
  "pointer_env L = reliable True (server_peer (pointer_session L) pointer_globals pointer_translate (\<lambda>e. [e]))"

fun with_newer :: "(resource \<Rightarrow> pointer_event) \<Rightarrow> pointer_event \<Rightarrow> pointer_event list" where
  "with_newer newer (P_Frame r) = [newer r, P_Frame r]"
| "with_newer newer e = [e]"

definition pointer_newer_env ::
    "wl_lib \<Rightarrow> (resource \<Rightarrow> pointer_event) \<Rightarrow> (pointer_call, pointer_event, pointer_request input list) client_env" where
  "pointer_newer_env L newer =
     reliable True (server_peer (pointer_session L) pointer_globals pointer_translate (with_newer newer))"

lemmas pointer_client_defs = pointer_client_init_def pc_seat_capabilities_def pc_seat_name_def
  pc_pointer_enter_def pc_pointer_motion_def pc_pointer_button_def pc_pointer_axis_def
  pc_pointer_frame_def pc_pointer_axis_source_def pc_pointer_axis_stop_def pc_pointer_axis_discrete_def
  pc_pointer_axis_value120_def pc_registry_global_def

section \<open>No crash without an event of a newer version\<close>

text \<open>What another end sends, less the events that came after version 8.\<close>

fun after_version_8 :: "pointer_event cl_event \<Rightarrow> bool" where
  "after_version_8 (Event (P_Axis_Relative_Direction r)) = True"
| "after_version_8 (Event (P_Warp r)) = True"
| "after_version_8 e = False"

definition up_to_version_8 ::
    "('c \<Rightarrow> 'p \<Rightarrow> pointer_event cl_event list \<times> bool \<times> 'p) \<Rightarrow> 'c \<Rightarrow> 'p \<Rightarrow> pointer_event cl_event list \<times> bool \<times> 'p" where
  "up_to_version_8 = filtered (\<lambda>e. \<not> after_version_8 e)"

definition pc_ptrs :: "pointer_client \<Rightarrow> proxy option list" where
  "pc_ptrs s = [pc_registry s, pc_compositor s, pc_seat s, pc_surface s, pc_pointer s]"

lemma pc_ptrs_read:
  "pc_registry s = pc_ptrs s ! 0" "pc_compositor s = pc_ptrs s ! 1" "pc_seat s = pc_ptrs s ! 2"
  "pc_surface s = pc_ptrs s ! 3" "pc_pointer s = pc_ptrs s ! 4"
  by (simp_all add: pc_ptrs_def)

lemma pc_ptrs_write:
  "pc_ptrs (s\<lparr>pc_registry := x\<rparr>) = (pc_ptrs s)[0 := x]"
  "pc_ptrs (s\<lparr>pc_compositor := x\<rparr>) = (pc_ptrs s)[1 := x]"
  "pc_ptrs (s\<lparr>pc_seat := x\<rparr>) = (pc_ptrs s)[2 := x]"
  "pc_ptrs (s\<lparr>pc_surface := x\<rparr>) = (pc_ptrs s)[3 := x]"
  "pc_ptrs (s\<lparr>pc_pointer := x\<rparr>) = (pc_ptrs s)[4 := x]"
  by (simp_all add: pc_ptrs_def)

lemma pc_ptrs_objs:
  "[pc_compositor s] = map (\<lambda>i. pc_ptrs s ! i) [1]"
  "[pc_seat s] = map (\<lambda>i. pc_ptrs s ! i) [2]"
  by (simp_all add: pc_ptrs_def)

lemma pc_registry_safe:
  "safe_body pc_ptrs T N (pc_registry_global (reliable d peer) name interface version) N"
  unfolding pc_registry_global_def
  by (rule client_safe pc_ptrs_write pc_ptrs_read conjI impI | split if_split
     | simp add: pc_ptrs_def subset_insertI2; fail)+

lemma pc_listener_safe:
  "safe_body pc_ptrs (set (pc_targets e)) N (quiet (\<lambda>e. \<not> after_version_8 e) (pc_listeners L (reliable d peer)) e) N"
  unfolding quiet_def
  by (cases "(L, reliable d peer, e)" rule: pc_listeners.cases; simp add: pc_registry_safe;
      (rule client_safe | simp add: pc_ptrs_def pointer_client_defs; fail)+)

interpretation pointer_listening: safe_listeners pc_ptrs pc_targets
  "quiet (\<lambda>e. \<not> after_version_8 e) (pc_listeners L (reliable d peer))"
  for L d peer
  by unfold_locales (rule pc_listener_safe)

lemma pointer_client_safe: "pointer_client_fd L (reliable d (up_to_version_8 peer)) p \<noteq> Exit_Crashed"
  unfolding pointer_client_fd_def
proof (rule client_program_safe)
  show "safe_body pc_ptrs {} {} (pointer_client_body L (reliable d (up_to_version_8 peer))) {0}"
    unfolding pointer_client_body_def up_to_version_8_def
      trip_filtered [where listeners = "pc_listeners L env" for env]
    by (rule client_safe pointer_listening.safe_body_trip pc_ptrs_write pc_ptrs_read pc_ptrs_objs
        | simp add: pc_ptrs_def; fail)+
  show "safe_cleanup pc_ptrs {0} {} pointer_client_cleanup"
    unfolding pointer_client_cleanup_def
    by (rule client_safe pc_ptrs_read | simp add: pc_ptrs_def; fail)+
qed (simp add: pointer_client_init_def pc_ptrs_def)

section \<open>Properties\<close>

lemma pointer_client_run:
  "\<exists>c. pointer_client_fd L (pointer_env L) [] = Exit_Client EXIT_SUCCESS c \<and> cl_live c = Map.empty \<and>
      exits_with EXIT_SUCCESS (pointer_server_fd demo_env L (concat (map pointer_translate (cl_calls c))))"
  by (simp add: client_run_defs pointer_client_fd_def pointer_env_def pointer_client_body_def
      pointer_client_cleanup_def pointer_client_defs pointer_session_def pointer_globals_def
      pointer_handler_defs pointer_server_init_def pointer_server_fd_def pointer_status_def)

lemma pointer_client_aborts:
  assumes "newer = P_Axis_Relative_Direction \<or> newer = P_Warp"
  shows "pointer_client_fd L (pointer_newer_env L newer) [] = Exit_Crashed"
  using assms
  by (auto simp: client_run_defs pointer_client_fd_def pointer_newer_env_def pointer_client_body_def
      pointer_client_cleanup_def pointer_client_defs pointer_session_def pointer_globals_def
      pointer_handler_defs pointer_server_init_def no_listener_def)

text \<open>C18: with a library that creates every object, the pointer client never uses a NULL or destroyed
  object and is never aborted by the library, whatever events up to version 8 of the seat, which is as far
  as it binds, the other side sends, in whatever order. Against the pointer server it exits
  with success and has destroyed every object it created, and the server, given the requests the
  client sent and then its disconnection, exits with success too. A server that sends
  \<open>axis_relative_direction\<close> or \<open>warp\<close> before its frame all the same aborts the client, whose listener has no
  function for them.\<close>

theorem pointer_client_safe_and_interoperates:
  "pointer_client_fd L (reliable display (up_to_version_8 peer)) p \<noteq> Exit_Crashed \<and>
   (\<exists>c. pointer_client_fd L (pointer_env L) [] = Exit_Client EXIT_SUCCESS c \<and> cl_live c = Map.empty \<and>
      exits_with EXIT_SUCCESS (pointer_server_fd demo_env L (concat (map pointer_translate (cl_calls c))))) \<and>
   pointer_client_fd L (pointer_newer_env L P_Axis_Relative_Direction) [] = Exit_Crashed \<and>
   pointer_client_fd L (pointer_newer_env L P_Warp) [] = Exit_Crashed"
  by (intro conjI pointer_client_safe pointer_client_run pointer_client_aborts) simp_all

end
