(* ===== verification/Keyboard_Client.thy ===== *)
theory Keyboard_Client
  imports Client_Safety Keyboard_Server
begin

text \<open>
  The libwayland keyboard client (\<open>src/bench/keyboard-interop-client.c\<close>): it reads the keymap it is
  sent from its descriptor and checks that the keyboard events follow each other as they should. What
  the kernel answers for the received descriptor (\<open>read\<close>, \<open>fcntl\<close>) comes with the keymap event; the
  other events are those of the server's theory. \<open>xkb_v1\<close> is the keymap format of that name.
\<close>

unbundle bit_operations_syntax

text \<open>\<open>expected_keymap\<close> with the terminating zero.\<close>

definition expected_keymap :: string where
  "expected_keymap = ''xkb_keymap {}'' @ [CHR 0x00]"

record keyboard_client =
  kc_compositor :: "proxy option"
  kc_seat :: "proxy option"
  kc_capabilities :: bool
  kc_name :: bool
  kc_keymap :: bool
  kc_enter :: bool
  kc_modifiers :: bool
  kc_key :: bool
  kc_repeat_info :: bool
  kc_leave :: bool
  kc_registry :: "proxy option"
  kc_surface :: "proxy option"
  kc_keyboard :: "proxy option"

definition keyboard_client_init :: keyboard_client where
  "keyboard_client_init = \<lparr>kc_compositor = None, kc_seat = None, kc_capabilities = False,
     kc_name = False, kc_keymap = False, kc_enter = False, kc_modifiers = False, kc_key = False,
     kc_repeat_info = False, kc_leave = False, kc_registry = None, kc_surface = None,
     kc_keyboard = None\<rparr>"

datatype keyboard_call =
  KC_Create_Surface | KC_Surface_Destroy | KC_Get_Keyboard | KC_Keyboard_Release | KC_Seat_Release

text \<open>Format, descriptor, size; the count and bytes of \<open>read\<close>; the flags of \<open>fcntl\<close>.\<close>

datatype keyboard_cevent =
    KC_Keymap resource u32 fd_t u32 int string int
  | KC_Event keyboard_event

section \<open>Listeners\<close>

definition kc_seat_capabilities :: "wl_lib \<Rightarrow> u32 \<Rightarrow> keyboard_client \<Rightarrow> keyboard_client" where
  "kc_seat_capabilities L capabilities s =
     (if capabilities = cap_keyboard L then s\<lparr>kc_capabilities := True\<rparr> else s)"

definition kc_seat_name :: "string \<Rightarrow> keyboard_client \<Rightarrow> keyboard_client" where
  "kc_seat_name name s = (if name = ''wayring-seat'' then s\<lparr>kc_name := True\<rparr> else s)"

definition kc_keyboard_keymap ::
    "u32 \<Rightarrow> u32 \<Rightarrow> u32 \<Rightarrow> int \<Rightarrow> string \<Rightarrow> int \<Rightarrow> keyboard_client \<Rightarrow> keyboard_client" where
  "kc_keyboard_keymap xkb_v1 format bytesize count bytes flags s =
     (if format = xkb_v1 \<and> bytesize = of_nat (length expected_keymap) \<and>
         count = int (length expected_keymap) \<and> bytes = expected_keymap \<and> flags AND FD_CLOEXEC \<noteq> 0
      then s\<lparr>kc_keymap := True\<rparr> else s)"

definition kc_keyboard_enter ::
    "u32 \<Rightarrow> resource option \<Rightarrow> u32 list \<Rightarrow> keyboard_client \<Rightarrow> keyboard_client" where
  "kc_keyboard_enter serial surface keys s =
     (if kc_keymap s \<and> serial = 41 \<and> surface \<noteq> None \<and> keys = [30, 31]
      then s\<lparr>kc_enter := True\<rparr> else s)"

definition kc_keyboard_leave :: "u32 \<Rightarrow> resource option \<Rightarrow> keyboard_client \<Rightarrow> keyboard_client" where
  "kc_keyboard_leave serial surface s =
     (if kc_key s \<and> serial = 44 \<and> surface \<noteq> None then s\<lparr>kc_leave := True\<rparr> else s)"

definition kc_keyboard_key ::
    "wl_lib \<Rightarrow> u32 \<Rightarrow> u32 \<Rightarrow> u32 \<Rightarrow> u32 \<Rightarrow> keyboard_client \<Rightarrow> keyboard_client" where
  "kc_keyboard_key L serial time key key_state s =
     (if kc_repeat_info s \<and> kc_modifiers s \<and> serial = 43 \<and> time = 100 \<and> key = 30 \<and>
         key_state = key_pressed L
      then s\<lparr>kc_key := True\<rparr> else s)"

definition kc_keyboard_modifiers ::
    "u32 \<Rightarrow> u32 \<Rightarrow> u32 \<Rightarrow> u32 \<Rightarrow> u32 \<Rightarrow> keyboard_client \<Rightarrow> keyboard_client" where
  "kc_keyboard_modifiers serial depressed latched locked grp s =
     (if kc_enter s \<and> serial = 42 \<and> depressed = 1 \<and> latched = 2 \<and> locked = 4 \<and> grp = 3
      then s\<lparr>kc_modifiers := True\<rparr> else s)"

definition kc_keyboard_repeat_info :: "int \<Rightarrow> int \<Rightarrow> keyboard_client \<Rightarrow> keyboard_client" where
  "kc_keyboard_repeat_info rate delay s =
     (if rate = 25 \<and> delay = 600 then s\<lparr>kc_repeat_info := True\<rparr> else s)"

definition kc_registry_global ::
    "(keyboard_call, keyboard_cevent, 'p) client_env \<Rightarrow> u32 \<Rightarrow> string \<Rightarrow> u32 \<Rightarrow>
     (keyboard_client, keyboard_call, 'p) cstep list" where
  "kc_registry_global env name interface version =
     (if interface = ''wl_compositor'' then
        [bind_global env name ''wl_compositor'' (capped version 4) (\<lambda>p s. s\<lparr>kc_compositor := p\<rparr>)]
      else if interface = ''wl_seat'' then
        [bind_global env name ''wl_seat'' (capped version 8) (\<lambda>p s. s\<lparr>kc_seat := p\<rparr>),
         add_listener kc_seat]
      else [])"

text \<open>
  A keymap without the answers of the kernel (\<open>KC_Event (K_Keymap ...)\<close>) never reaches the listener.
\<close>

fun kc_listeners ::
    "u32 \<Rightarrow> wl_lib \<Rightarrow> (keyboard_call, keyboard_cevent, 'p) client_env \<Rightarrow> keyboard_cevent cl_event \<Rightarrow>
     (keyboard_client, keyboard_call, 'p) cstep list" where
  "kc_listeners xkb_v1 L env (Global name interface version) = kc_registry_global env name interface version"
| "kc_listeners xkb_v1 L env (Event (KC_Event (K_Seat (Seat_Capabilities r caps)))) =
     [assign (kc_seat_capabilities L caps)]"
| "kc_listeners xkb_v1 L env (Event (KC_Event (K_Seat (Seat_Name r name)))) = [assign (kc_seat_name name)]"
| "kc_listeners xkb_v1 L env (Event (KC_Keymap r format fd sz count bytes flags)) =
     [assign (kc_keyboard_keymap xkb_v1 format sz count bytes flags), plain (Close_Fd fd)]"
| "kc_listeners xkb_v1 L env (Event (KC_Event (K_Enter r serial surface keys))) =
     [assign (kc_keyboard_enter serial surface keys)]"
| "kc_listeners xkb_v1 L env (Event (KC_Event (K_Leave r serial surface))) =
     [assign (kc_keyboard_leave serial surface)]"
| "kc_listeners xkb_v1 L env (Event (KC_Event (K_Key r serial time key st))) =
     [assign (kc_keyboard_key L serial time key st)]"
| "kc_listeners xkb_v1 L env (Event (KC_Event (K_Modifiers r serial depressed latched locked grp))) =
     [assign (kc_keyboard_modifiers serial depressed latched locked grp)]"
| "kc_listeners xkb_v1 L env (Event (KC_Event (K_Repeat_Info r rate delay))) =
     [assign (kc_keyboard_repeat_info rate delay)]"
| "kc_listeners xkb_v1 L env (Event (KC_Event (K_Keymap r fd sz))) = []"

fun kc_targets :: "keyboard_cevent cl_event \<Rightarrow> proxy list" where
  "kc_targets (Global name interface version) = []"
| "kc_targets (Event (KC_Keymap r format fd sz count bytes flags)) = [r]"
| "kc_targets (Event (KC_Event e)) = map the (take 1 (keyboard_uses e))"

section \<open>The program\<close>

definition keyboard_client_body ::
    "u32 \<Rightarrow> wl_lib \<Rightarrow> (keyboard_call, keyboard_cevent, 'p) client_env \<Rightarrow>
     (keyboard_client, keyboard_call, 'p) cstep list" where
  "keyboard_client_body xkb_v1 L env =
    [get_registry env (\<lambda>p s. s\<lparr>kc_registry := p\<rparr>),
     add_listener kc_registry,
     trip env kc_targets (kc_listeners xkb_v1 L env),
     require_set kc_compositor,
     require_set kc_seat,
     trip env kc_targets (kc_listeners xkb_v1 L env),
     require kc_capabilities,
     require kc_name,
     construct env ''wl_surface'' KC_Create_Surface (\<lambda>s. [kc_compositor s]) (\<lambda>p s. s\<lparr>kc_surface := p\<rparr>),
     construct env ''wl_keyboard'' KC_Get_Keyboard (\<lambda>s. [kc_seat s]) (\<lambda>p s. s\<lparr>kc_keyboard := p\<rparr>),
     require_set kc_surface,
     require_set kc_keyboard,
     add_listener kc_keyboard,
     trip env kc_targets (kc_listeners xkb_v1 L env),
     require kc_keymap,
     require kc_enter,
     require kc_modifiers,
     require kc_key,
     require kc_repeat_info,
     require kc_leave]"

definition keyboard_client_cleanup :: "(keyboard_client, keyboard_call, 'p) cstep list" where
  "keyboard_client_cleanup =
    [destroy_if (Some KC_Keyboard_Release) kc_keyboard,
     destroy_if (Some KC_Surface_Destroy) kc_surface,
     destroy_if (Some KC_Seat_Release) kc_seat,
     destroy_if None kc_compositor,
     destroy_proxy None kc_registry,
     plain Flush,
     plain Disconnect]"

definition keyboard_client_fd ::
    "u32 \<Rightarrow> wl_lib \<Rightarrow> (keyboard_call, keyboard_cevent, 'p) client_env \<Rightarrow> 'p \<Rightarrow>
     (keyboard_client, keyboard_call, 'p) client_exit" where
  "keyboard_client_fd xkb_v1 L env p = client_program env (keyboard_client_body xkb_v1 L env)
     keyboard_client_cleanup (start_client keyboard_client_init p)"

section \<open>Against the server\<close>

text \<open>The server's keymap file is one the kernel made for it without a failure.\<close>

definition good_keymap_file :: "fd_t \<Rightarrow> keymap_file" where
  "good_keymap_file fd = \<lparr>kf_fd = fd, kf_written = int keymap_size, kf_seek = 0\<rparr>"

fun keyboard_translate :: "fd_t \<Rightarrow> keyboard_call cl_call \<Rightarrow> keyboard_request input list" where
  "keyboard_translate fd (Bind name interface version p) =
     (if interface = ''wl_compositor'' then [(K_Bind_Compositor version (of_nat p), Some p)]
      else if interface = ''wl_seat'' then [(K_Bind_Seat version (of_nat p), Some p)]
      else [])"
| "keyboard_translate fd (Construct KC_Create_Surface [r] p) =
     [(K_Create_Surface r (of_nat p), Some p)]"
| "keyboard_translate fd (Construct KC_Get_Keyboard [r] p) =
     [(K_Get_Keyboard r (of_nat p) (good_keymap_file fd), Some p)]"
| "keyboard_translate fd (Destroy_Proxy (Some KC_Keyboard_Release) p) = [(K_Keyboard_Release p, None)]"
| "keyboard_translate fd (Destroy_Proxy (Some KC_Surface_Destroy) p) = [(K_Surface_Destroy p, None)]"
| "keyboard_translate fd (Destroy_Proxy (Some KC_Seat_Release) p) = [(K_Seat_Release p, None)]"
| "keyboard_translate fd Disconnect = [(K_Client_Destroyed, None)]"
| "keyboard_translate fd _ = []"

text \<open>
  A keymap arrives as a descriptor of its own, close-on-exec, from which the whole file can be read.
\<close>

fun keyboard_back :: "u32 \<Rightarrow> fd_t \<Rightarrow> keyboard_event \<Rightarrow> keyboard_cevent list" where
  "keyboard_back xkb_v1 cfd (K_Keymap r fd sz) =
     [KC_Keymap r xkb_v1 cfd sz (int keymap_size) (keymap_text @ [CHR 0x00]) FD_CLOEXEC]"
| "keyboard_back xkb_v1 cfd e = [KC_Event e]"

definition keyboard_env :: "u32 \<Rightarrow> wl_lib \<Rightarrow> fd_t \<Rightarrow> fd_t \<Rightarrow>
    (keyboard_call, keyboard_cevent, keyboard_request input list) client_env" where
  "keyboard_env xkb_v1 L fd cfd = reliable True (server_peer (keyboard_session L) keyboard_globals
     (keyboard_translate fd) (keyboard_back xkb_v1 cfd))"

lemmas keyboard_client_defs = keyboard_client_init_def kc_seat_capabilities_def kc_seat_name_def
  kc_keyboard_keymap_def kc_keyboard_enter_def kc_keyboard_leave_def kc_keyboard_key_def
  kc_keyboard_modifiers_def kc_keyboard_repeat_info_def kc_registry_global_def

section \<open>No crash, whatever the server sends\<close>

definition kc_ptrs :: "keyboard_client \<Rightarrow> proxy option list" where
  "kc_ptrs s = [kc_registry s, kc_compositor s, kc_seat s, kc_surface s, kc_keyboard s]"

lemma kc_ptrs_read:
  "kc_registry s = kc_ptrs s ! 0" "kc_compositor s = kc_ptrs s ! 1" "kc_seat s = kc_ptrs s ! 2"
  "kc_surface s = kc_ptrs s ! 3" "kc_keyboard s = kc_ptrs s ! 4"
  by (simp_all add: kc_ptrs_def)

lemma kc_ptrs_write:
  "kc_ptrs (s\<lparr>kc_registry := x\<rparr>) = (kc_ptrs s)[0 := x]"
  "kc_ptrs (s\<lparr>kc_compositor := x\<rparr>) = (kc_ptrs s)[1 := x]"
  "kc_ptrs (s\<lparr>kc_seat := x\<rparr>) = (kc_ptrs s)[2 := x]"
  "kc_ptrs (s\<lparr>kc_surface := x\<rparr>) = (kc_ptrs s)[3 := x]"
  "kc_ptrs (s\<lparr>kc_keyboard := x\<rparr>) = (kc_ptrs s)[4 := x]"
  by (simp_all add: kc_ptrs_def)

lemma kc_ptrs_objs:
  "[kc_compositor s] = map (\<lambda>i. kc_ptrs s ! i) [1]"
  "[kc_seat s] = map (\<lambda>i. kc_ptrs s ! i) [2]"
  by (simp_all add: kc_ptrs_def)

lemma kc_registry_safe:
  "safe_body kc_ptrs T N (kc_registry_global (reliable d peer) name interface version) N"
  unfolding kc_registry_global_def
  by (rule client_safe kc_ptrs_write kc_ptrs_read conjI impI | split if_split
     | simp add: kc_ptrs_def subset_insertI2; fail)+

lemma kc_listener_safe:
  "safe_body kc_ptrs (set (kc_targets e)) N (kc_listeners xkb_v1 L (reliable d peer) e) N"
  by (cases "(xkb_v1, L, reliable d peer, e)" rule: kc_listeners.cases; simp add: kc_registry_safe;
      (rule client_safe | simp add: kc_ptrs_def keyboard_client_defs; fail)+)

interpretation keyboard_listening: safe_listeners kc_ptrs kc_targets "kc_listeners xkb_v1 L (reliable d peer)"
  for xkb_v1 L d peer
  by unfold_locales (rule kc_listener_safe)

lemma keyboard_client_safe: "keyboard_client_fd xkb_v1 L (reliable d peer) p \<noteq> Exit_Crashed"
  unfolding keyboard_client_fd_def
proof (rule client_program_safe)
  show "safe_body kc_ptrs {} {} (keyboard_client_body xkb_v1 L (reliable d peer)) {0}"
    unfolding keyboard_client_body_def
    by (rule client_safe keyboard_listening.safe_body_trip kc_ptrs_write kc_ptrs_read kc_ptrs_objs
        | simp add: kc_ptrs_def; fail)+
  show "safe_cleanup kc_ptrs {0} {} keyboard_client_cleanup"
    unfolding keyboard_client_cleanup_def
    by (rule client_safe kc_ptrs_read | simp add: kc_ptrs_def; fail)+
qed (simp add: keyboard_client_init_def kc_ptrs_def)

section \<open>Properties\<close>

text \<open>C19: with a library that creates every object, the keyboard client never uses a NULL or destroyed
  object, whatever events the other side sends, in whatever order. Against the keyboard server, with a
  kernel that makes and passes the keymap file, it exits with success, has destroyed every object it
  created and closed the descriptor it received once, and the server, given the requests the client
  sent and then its disconnection, exits with success too.\<close>

theorem keyboard_client_safe_and_interoperates:
  "keyboard_client_fd xkb_v1 L (reliable display peer) p \<noteq> Exit_Crashed \<and>
   (\<exists>c. keyboard_client_fd xkb_v1 L (keyboard_env xkb_v1 L (int fd) (int cfd)) [] = Exit_Client EXIT_SUCCESS c \<and>
      cl_live c = Map.empty \<and> count_list (cl_calls c) (Close_Fd (int cfd)) = 1 \<and>
      exits_with EXIT_SUCCESS
        (keyboard_server_fd demo_env L (concat (map (keyboard_translate (int fd)) (cl_calls c)))))"
proof (intro conjI)
  show "\<exists>c. keyboard_client_fd xkb_v1 L (keyboard_env xkb_v1 L (int fd) (int cfd)) [] = Exit_Client EXIT_SUCCESS c \<and>
      cl_live c = Map.empty \<and> count_list (cl_calls c) (Close_Fd (int cfd)) = 1 \<and>
      exits_with EXIT_SUCCESS
        (keyboard_server_fd demo_env L (concat (map (keyboard_translate (int fd)) (cl_calls c))))"
    by (simp add: client_run_defs keyboard_client_fd_def keyboard_env_def keyboard_client_body_def
        keyboard_client_cleanup_def keyboard_client_defs keyboard_session_def keyboard_globals_def
        keyboard_handler_defs keyboard_server_init_def keyboard_server_fd_def keyboard_status_def
        good_keymap_file_def keymap_size_def keymap_text_def expected_keymap_def FD_CLOEXEC_def)
qed (rule keyboard_client_safe)

end
