(* ===== verification/Output_Client.thy ===== *)
theory Output_Client
  imports Client_Safety Output_Server
begin

text \<open>
  The libwayland output client (\<open>src/bench/output-interop-client.c\<close>): it binds the output and checks
  the description it gets. The events are those of the server's theory.
\<close>

unbundle bit_operations_syntax

record output_client =
  out_output :: "proxy option"
  out_geometry :: bool
  out_mode :: bool
  out_scale :: bool
  out_name :: bool
  out_description :: bool
  out_done :: bool
  out_registry :: "proxy option"

definition output_client_init :: output_client where
  "output_client_init = \<lparr>out_output = None, out_geometry = False, out_mode = False,
     out_scale = False, out_name = False, out_description = False, out_done = False,
     out_registry = None\<rparr>"

datatype output_call = OUT_Release

section \<open>Listeners\<close>

definition out_output_geometry ::
    "wl_lib \<Rightarrow> output_consts \<Rightarrow> int \<Rightarrow> int \<Rightarrow> int \<Rightarrow> int \<Rightarrow> int \<Rightarrow> string \<Rightarrow> string \<Rightarrow> int \<Rightarrow>
     output_client \<Rightarrow> output_client" where
  "out_output_geometry L C x y physical_width physical_height subpixel maker model transform s =
     (if x = -10 \<and> y = 20 \<and> physical_width = 600 \<and> physical_height = 340 \<and>
         subpixel = oc_subpixel_horizontal_rgb C \<and> maker = ''Wayring'' \<and> model = ''Virtual-1'' \<and>
         transform = transform_90 L
      then s\<lparr>out_geometry := True\<rparr> else s)"

definition out_output_mode ::
    "output_consts \<Rightarrow> u32 \<Rightarrow> int \<Rightarrow> int \<Rightarrow> int \<Rightarrow> output_client \<Rightarrow> output_client" where
  "out_output_mode C flags width height refresh s =
     (if flags = oc_mode_current C OR oc_mode_preferred C \<and> width = 1920 \<and> height = 1080 \<and> refresh = 60000
      then s\<lparr>out_mode := True\<rparr> else s)"

definition out_output_done :: "output_client \<Rightarrow> output_client" where
  "out_output_done s = s\<lparr>out_done := True\<rparr>"

definition out_output_scale :: "int \<Rightarrow> output_client \<Rightarrow> output_client" where
  "out_output_scale factor s = (if factor = 2 then s\<lparr>out_scale := True\<rparr> else s)"

definition out_output_name :: "string \<Rightarrow> output_client \<Rightarrow> output_client" where
  "out_output_name name s = (if name = ''WL-1'' then s\<lparr>out_name := True\<rparr> else s)"

definition out_output_description :: "string \<Rightarrow> output_client \<Rightarrow> output_client" where
  "out_output_description description s =
     (if description = ''Wayring virtual output'' then s\<lparr>out_description := True\<rparr> else s)"

definition out_registry_global ::
    "(output_call, output_event, 'p) client_env \<Rightarrow> u32 \<Rightarrow> string \<Rightarrow> u32 \<Rightarrow>
     (output_client, output_call, 'p) cstep list" where
  "out_registry_global env name interface version =
     (if interface \<noteq> ''wl_output'' then []
      else [bind_global env name ''wl_output'' (capped version 4) (\<lambda>p s. s\<lparr>out_output := p\<rparr>),
            add_listener out_output])"

fun out_listeners ::
    "wl_lib \<Rightarrow> output_consts \<Rightarrow> (output_call, output_event, 'p) client_env \<Rightarrow> output_event cl_event \<Rightarrow>
     (output_client, output_call, 'p) cstep list" where
  "out_listeners L C env (Global name interface version) = out_registry_global env name interface version"
| "out_listeners L C env (Event (O_Geometry r x y w h subpixel maker model transform)) =
     [assign (out_output_geometry L C x y w h subpixel maker model transform)]"
| "out_listeners L C env (Event (O_Mode r flags w h refresh)) = [assign (out_output_mode C flags w h refresh)]"
| "out_listeners L C env (Event (O_Scale r factor)) = [assign (out_output_scale factor)]"
| "out_listeners L C env (Event (O_Name r name)) = [assign (out_output_name name)]"
| "out_listeners L C env (Event (O_Description r description)) = [assign (out_output_description description)]"
| "out_listeners L C env (Event (O_Done r)) = [assign out_output_done]"

fun out_targets :: "output_event cl_event \<Rightarrow> proxy list" where
  "out_targets (Global name interface version) = []"
| "out_targets (Event e) = map the (take 1 (output_uses e))"

section \<open>The program\<close>

definition output_client_body ::
    "wl_lib \<Rightarrow> output_consts \<Rightarrow> (output_call, output_event, 'p) client_env \<Rightarrow>
     (output_client, output_call, 'p) cstep list" where
  "output_client_body L C env =
    [get_registry env (\<lambda>p s. s\<lparr>out_registry := p\<rparr>),
     add_listener out_registry,
     trip env out_targets (out_listeners L C env),
     require_set out_output,
     trip env out_targets (out_listeners L C env),
     require out_geometry,
     require out_mode,
     require out_scale,
     require out_name,
     require out_description,
     require out_done]"

definition output_client_cleanup :: "(output_client, output_call, 'p) cstep list" where
  "output_client_cleanup =
    [destroy_if (Some OUT_Release) out_output,
     destroy_proxy None out_registry,
     plain Flush,
     plain Disconnect]"

definition output_client_fd ::
    "wl_lib \<Rightarrow> output_consts \<Rightarrow> (output_call, output_event, 'p) client_env \<Rightarrow> 'p \<Rightarrow>
     (output_client, output_call, 'p) client_exit" where
  "output_client_fd L C env p = client_program env (output_client_body L C env) output_client_cleanup
     (start_client output_client_init p)"

section \<open>Against the server\<close>

fun output_translate :: "output_call cl_call \<Rightarrow> output_request input list" where
  "output_translate (Bind name interface version p) =
     (if interface = ''wl_output'' then [(O_Bind version (of_nat p), Some p)] else [])"
| "output_translate (Destroy_Proxy (Some OUT_Release) p) = [(O_Release p, None)]"
| "output_translate Disconnect = [(O_Client_Destroyed, None)]"
| "output_translate _ = []"

definition output_env ::
    "wl_lib \<Rightarrow> output_consts \<Rightarrow> (output_call, output_event, output_request input list) client_env" where
  "output_env L C = reliable True (server_peer (output_session L C) output_globals output_translate (\<lambda>e. [e]))"

text \<open>Version 4 of \<open>wl_output\<close>: every event has been introduced by then.\<close>

definition output_v4 :: "wl_lib \<Rightarrow> wl_lib" where
  "output_v4 L = L\<lparr>version_of := (\<lambda>r. 4)\<rparr>"

definition output_since :: "output_consts \<Rightarrow> output_consts" where
  "output_since C = C\<lparr>oc_scale_since := 2, oc_name_since := 4, oc_done_since := 2\<rparr>"

lemmas output_client_defs = output_client_init_def out_output_geometry_def out_output_mode_def
  out_output_done_def out_output_scale_def out_output_name_def out_output_description_def
  out_registry_global_def

section \<open>No crash, whatever the server sends\<close>

definition out_ptrs :: "output_client \<Rightarrow> proxy option list" where
  "out_ptrs s = [out_registry s, out_output s]"

lemma out_ptrs_read:
  "out_registry s = out_ptrs s ! 0" "out_output s = out_ptrs s ! 1"
  by (simp_all add: out_ptrs_def)

lemma out_ptrs_write:
  "out_ptrs (s\<lparr>out_registry := x\<rparr>) = (out_ptrs s)[0 := x]"
  "out_ptrs (s\<lparr>out_output := x\<rparr>) = (out_ptrs s)[1 := x]"
  by (simp_all add: out_ptrs_def)

lemma out_registry_safe:
  "safe_body out_ptrs T N (out_registry_global (reliable d peer) name interface version) N"
  unfolding out_registry_global_def
  by (rule client_safe out_ptrs_write out_ptrs_read conjI impI | split if_split
     | simp add: out_ptrs_def subset_insertI2; fail)+

lemma out_listener_safe:
  "safe_body out_ptrs (set (out_targets e)) N (out_listeners L C (reliable d peer) e) N"
  by (cases "(L, C, reliable d peer, e)" rule: out_listeners.cases; simp add: out_registry_safe;
      (rule client_safe | simp add: out_ptrs_def output_client_defs; fail)+)

interpretation output_listening: safe_listeners out_ptrs out_targets "out_listeners L C (reliable d peer)"
  for L C d peer
  by unfold_locales (rule out_listener_safe)

lemma output_client_safe: "output_client_fd L C (reliable d peer) p \<noteq> Exit_Crashed"
  unfolding output_client_fd_def
proof (rule client_program_safe)
  show "safe_body out_ptrs {} {} (output_client_body L C (reliable d peer)) {0}"
    unfolding output_client_body_def
    by (rule client_safe output_listening.safe_body_trip out_ptrs_write out_ptrs_read
        | simp add: out_ptrs_def; fail)+
  show "safe_cleanup out_ptrs {0} {} output_client_cleanup"
    unfolding output_client_cleanup_def
    by (rule client_safe out_ptrs_read | simp add: out_ptrs_def; fail)+
qed (simp add: output_client_init_def out_ptrs_def)

section \<open>Properties\<close>

text \<open>C20: with a library that creates every object, the output client never uses a NULL or destroyed
  object, whatever events the other side sends, in whatever order. Against the output server at version
  4 of the interface it exits with success and has destroyed every object it created, and the server,
  given the requests the client sent and then its disconnection, exits with success too.\<close>

theorem output_client_safe_and_interoperates:
  "output_client_fd L C (reliable display peer) p \<noteq> Exit_Crashed \<and>
   (\<exists>c. output_client_fd (output_v4 L) (output_since C) (output_env (output_v4 L) (output_since C)) [] =
          Exit_Client EXIT_SUCCESS c \<and> cl_live c = Map.empty \<and>
      exits_with EXIT_SUCCESS (output_server_fd demo_env (output_v4 L) (output_since C)
        (concat (map output_translate (cl_calls c)))))"
proof (intro conjI)
  show "\<exists>c. output_client_fd (output_v4 L) (output_since C) (output_env (output_v4 L) (output_since C)) [] =
          Exit_Client EXIT_SUCCESS c \<and> cl_live c = Map.empty \<and>
      exits_with EXIT_SUCCESS (output_server_fd demo_env (output_v4 L) (output_since C)
        (concat (map output_translate (cl_calls c))))"
    by (simp add: client_run_defs output_client_fd_def output_env_def output_client_body_def
        output_client_cleanup_def output_client_defs output_session_def output_globals_def
        output_handler_defs output_server_init_def output_server_fd_def
        output_v4_def output_since_def)
qed (rule output_client_safe)

end
