(* ===== verification/Shell_Client.thy ===== *)
theory Shell_Client
  imports Client_Safety Shell_Server
begin

text \<open>
  The libwayland shell client (\<open>src/bench/shell-interop-client.c\<close>): it gives a surface the toplevel
  role of the deprecated shell, answers the ping, checks the events it gets, and destroys the role
  before the surface. The events are those of the server's theory.
\<close>

record shell_client =
  shc_compositor :: "proxy option"
  shc_shell :: "proxy option"
  shc_ping :: bool
  shc_configure :: bool
  shc_popup_done :: bool
  shc_registry :: "proxy option"
  shc_surface :: "proxy option"
  shc_shell_surface :: "proxy option"

definition shell_client_init :: shell_client where
  "shell_client_init = \<lparr>shc_compositor = None, shc_shell = None, shc_ping = False,
     shc_configure = False, shc_popup_done = False, shc_registry = None, shc_surface = None,
     shc_shell_surface = None\<rparr>"

datatype shell_call =
    SHC_Create_Surface | SHC_Surface_Destroy | SHC_Get_Shell_Surface | SHC_Set_Title string
  | SHC_Set_Class string | SHC_Set_Toplevel | SHC_Pong u32

section \<open>Listeners\<close>

definition shc_shell_surface_ping :: "proxy \<Rightarrow> u32 \<Rightarrow> (shell_client, shell_call, 'p) cstep list" where
  "shc_shell_surface_ping surface serial =
     (if serial = 41
      then [request (SHC_Pong serial) (\<lambda>s. [Some surface]), assign (\<lambda>s. s\<lparr>shc_ping := True\<rparr>)]
      else [])"

definition shc_shell_surface_configure :: "resize_edge \<Rightarrow> int \<Rightarrow> int \<Rightarrow> shell_client \<Rightarrow> shell_client" where
  "shc_shell_surface_configure edges width height s =
     (if edges = Resize_Bottom_Right \<and> width = 800 \<and> height = 600
      then s\<lparr>shc_configure := True\<rparr> else s)"

definition shc_shell_surface_popup_done :: "shell_client \<Rightarrow> shell_client" where
  "shc_shell_surface_popup_done s = s\<lparr>shc_popup_done := True\<rparr>"

definition shc_registry_global ::
    "(shell_call, shell_event, 'p) client_env \<Rightarrow> u32 \<Rightarrow> string \<Rightarrow> u32 \<Rightarrow>
     (shell_client, shell_call, 'p) cstep list" where
  "shc_registry_global env name interface version =
     (if interface = ''wl_compositor'' then
        [bind_global env name ''wl_compositor'' (capped version 4) (\<lambda>p s. s\<lparr>shc_compositor := p\<rparr>)]
      else if interface = ''wl_shell'' then
        [bind_global env name ''wl_shell'' 1 (\<lambda>p s. s\<lparr>shc_shell := p\<rparr>)]
      else [])"

fun shc_listeners ::
    "(shell_call, shell_event, 'p) client_env \<Rightarrow> shell_event cl_event \<Rightarrow>
     (shell_client, shell_call, 'p) cstep list" where
  "shc_listeners env (Global name interface version) = shc_registry_global env name interface version"
| "shc_listeners env (Event (SH_Ping r serial)) = shc_shell_surface_ping r serial"
| "shc_listeners env (Event (SH_Configure r edges w h)) = [assign (shc_shell_surface_configure edges w h)]"
| "shc_listeners env (Event (SH_Popup_Done r)) = [assign shc_shell_surface_popup_done]"

fun shc_targets :: "shell_event cl_event \<Rightarrow> proxy list" where
  "shc_targets (Global name interface version) = []"
| "shc_targets (Event e) = map the (take 1 (shell_uses e))"

section \<open>The program\<close>

definition shell_client_body ::
    "(shell_call, shell_event, 'p) client_env \<Rightarrow> (shell_client, shell_call, 'p) cstep list" where
  "shell_client_body env =
    [get_registry env (\<lambda>p s. s\<lparr>shc_registry := p\<rparr>),
     add_listener shc_registry,
     trip env shc_targets (shc_listeners env),
     require_set shc_compositor,
     require_set shc_shell,
     construct env ''wl_surface'' SHC_Create_Surface (\<lambda>s. [shc_compositor s]) (\<lambda>p s. s\<lparr>shc_surface := p\<rparr>),
     construct env ''wl_shell_surface'' SHC_Get_Shell_Surface (\<lambda>s. [shc_shell s, shc_surface s])
       (\<lambda>p s. s\<lparr>shc_shell_surface := p\<rparr>),
     require_set shc_surface,
     require_set shc_shell_surface,
     add_listener shc_shell_surface,
     request (SHC_Set_Title ''wayring-shell'') (\<lambda>s. [shc_shell_surface s]),
     request (SHC_Set_Class ''wayring'') (\<lambda>s. [shc_shell_surface s]),
     request SHC_Set_Toplevel (\<lambda>s. [shc_shell_surface s]),
     trip env shc_targets (shc_listeners env),
     require shc_ping,
     require shc_configure,
     require shc_popup_done,
     destroy_proxy None shc_shell_surface,
     assign (\<lambda>s. s\<lparr>shc_shell_surface := None\<rparr>),
     destroy_proxy (Some SHC_Surface_Destroy) shc_surface,
     assign (\<lambda>s. s\<lparr>shc_surface := None\<rparr>),
     trip env shc_targets (shc_listeners env)]"

definition shell_client_cleanup :: "(shell_client, shell_call, 'p) cstep list" where
  "shell_client_cleanup =
    [destroy_if None shc_shell_surface,
     destroy_if (Some SHC_Surface_Destroy) shc_surface,
     destroy_if None shc_shell,
     destroy_if None shc_compositor,
     destroy_proxy None shc_registry,
     plain Flush,
     plain Disconnect]"

definition shell_client_fd ::
    "(shell_call, shell_event, 'p) client_env \<Rightarrow> 'p \<Rightarrow> (shell_client, shell_call, 'p) client_exit" where
  "shell_client_fd env p = client_program env (shell_client_body env) shell_client_cleanup
     (start_client shell_client_init p)"

section \<open>Against the server\<close>

fun shell_translate :: "shell_call cl_call \<Rightarrow> shell_request input list" where
  "shell_translate (Bind name interface version p) =
     (if interface = ''wl_compositor'' then [(SH_Bind_Compositor version (of_nat p), Some p)]
      else if interface = ''wl_shell'' then [(SH_Bind_Shell version (of_nat p), Some p)]
      else [])"
| "shell_translate (Construct SHC_Create_Surface [r] p) = [(SH_Create_Surface r (of_nat p), Some p)]"
| "shell_translate (Construct SHC_Get_Shell_Surface [r, surface] p) =
     [(SH_Get_Shell_Surface r (of_nat p) surface, Some p)]"
| "shell_translate (Request (SHC_Set_Title title) [r]) = [(SH_Set_Title r title, None)]"
| "shell_translate (Request (SHC_Set_Class class_name) [r]) = [(SH_Set_Class r class_name, None)]"
| "shell_translate (Request SHC_Set_Toplevel [r]) = [(SH_Set_Toplevel r, None)]"
| "shell_translate (Request (SHC_Pong serial) [r]) = [(SH_Pong r serial, None)]"
| "shell_translate (Destroy_Proxy (Some SHC_Surface_Destroy) p) = [(SH_Surface_Destroy p, None)]"
| "shell_translate Disconnect = [(SH_Client_Destroyed, None)]"
| "shell_translate _ = []"

definition shell_env :: "wl_lib \<Rightarrow> (shell_call, shell_event, shell_request input list) client_env" where
  "shell_env L = reliable True (server_peer (shell_session L) shell_globals shell_translate (\<lambda>e. [e]))"

lemmas shell_client_defs = shell_client_init_def shc_shell_surface_ping_def
  shc_shell_surface_configure_def shc_shell_surface_popup_done_def shc_registry_global_def

section \<open>No crash, whatever the server sends\<close>

definition shc_ptrs :: "shell_client \<Rightarrow> proxy option list" where
  "shc_ptrs s = [shc_registry s, shc_compositor s, shc_shell s, shc_surface s, shc_shell_surface s]"

lemma shc_ptrs_read:
  "shc_registry s = shc_ptrs s ! 0" "shc_compositor s = shc_ptrs s ! 1"
  "shc_shell s = shc_ptrs s ! 2" "shc_surface s = shc_ptrs s ! 3"
  "shc_shell_surface s = shc_ptrs s ! 4"
  by (simp_all add: shc_ptrs_def)

lemma shc_ptrs_write:
  "shc_ptrs (s\<lparr>shc_registry := x\<rparr>) = (shc_ptrs s)[0 := x]"
  "shc_ptrs (s\<lparr>shc_compositor := x\<rparr>) = (shc_ptrs s)[1 := x]"
  "shc_ptrs (s\<lparr>shc_shell := x\<rparr>) = (shc_ptrs s)[2 := x]"
  "shc_ptrs (s\<lparr>shc_surface := x\<rparr>) = (shc_ptrs s)[3 := x]"
  "shc_ptrs (s\<lparr>shc_shell_surface := x\<rparr>) = (shc_ptrs s)[4 := x]"
  by (simp_all add: shc_ptrs_def)

lemma shc_ptrs_objs:
  "[shc_compositor s] = map (\<lambda>i. shc_ptrs s ! i) [1]"
  "[shc_shell s, shc_surface s] = map (\<lambda>i. shc_ptrs s ! i) [2, 3]"
  "[shc_shell_surface s] = map (\<lambda>i. shc_ptrs s ! i) [4]"
  by (simp_all add: shc_ptrs_def)

lemma shc_registry_safe:
  "safe_body shc_ptrs T N (shc_registry_global (reliable d peer) name interface version) N"
  unfolding shc_registry_global_def
  by (rule client_safe shc_ptrs_write shc_ptrs_read conjI impI | split if_split
     | simp add: shc_ptrs_def subset_insertI2; fail)+

lemma shc_listener_safe:
  "safe_body shc_ptrs (set (shc_targets e)) N (shc_listeners (reliable d peer) e) N"
  by (cases "(reliable d peer, e)" rule: shc_listeners.cases; simp add: shc_registry_safe shc_shell_surface_ping_def;
      (rule client_safe safe_body_request_target conjI impI | split if_split
        | simp add: shc_ptrs_def shell_client_defs; fail)+)

interpretation shell_listening: safe_listeners shc_ptrs shc_targets "shc_listeners (reliable d peer)"
  for d peer
  by unfold_locales (rule shc_listener_safe)

lemma shell_client_safe: "shell_client_fd (reliable d peer) p \<noteq> Exit_Crashed"
  unfolding shell_client_fd_def
proof (rule client_program_safe)
  show "safe_body shc_ptrs {} {} (shell_client_body (reliable d peer)) {0}"
    unfolding shell_client_body_def
    by (rule client_safe shell_listening.safe_body_trip shc_ptrs_write shc_ptrs_read shc_ptrs_objs
        | simp add: shc_ptrs_def; fail)+
  show "safe_cleanup shc_ptrs {0} {} shell_client_cleanup"
    unfolding shell_client_cleanup_def
    by (rule client_safe shc_ptrs_read | simp add: shc_ptrs_def; fail)+
qed (simp add: shell_client_init_def shc_ptrs_def)

section \<open>Properties\<close>

text \<open>C23: with a library that creates every object, the shell client never uses a NULL or destroyed
  object, whatever events the other side sends, in whatever order. Against the shell server it exits
  with success and has destroyed every object it created, and the server, given the requests the
  client sent and then its disconnection, exits with success too.\<close>

theorem shell_client_safe_and_interoperates:
  "shell_client_fd (reliable display peer) p \<noteq> Exit_Crashed \<and>
   (\<exists>c. shell_client_fd (shell_env L) [] = Exit_Client EXIT_SUCCESS c \<and> cl_live c = Map.empty \<and>
      exits_with EXIT_SUCCESS (shell_server_fd demo_env L (concat (map shell_translate (cl_calls c)))))"
proof (intro conjI)
  show "\<exists>c. shell_client_fd (shell_env L) [] = Exit_Client EXIT_SUCCESS c \<and> cl_live c = Map.empty \<and>
      exits_with EXIT_SUCCESS (shell_server_fd demo_env L (concat (map shell_translate (cl_calls c))))"
    by (simp add: client_run_defs shell_client_fd_def shell_env_def shell_client_body_def
        shell_client_cleanup_def shell_client_defs shell_session_def shell_globals_def
        shell_handler_defs shell_server_init_def shell_server_fd_def shell_status_def)
qed (rule shell_client_safe)

end
