(* ===== verification/Subsurface_Client.thy ===== *)
theory Subsurface_Client
  imports Client_Safety Subsurface_Server
begin

text \<open>
  The libwayland subsurface client (\<open>src/bench/subsurface-interop-client.c\<close>): it plays the scenario the
  server looks for, with the parent surface destroyed before the subsurface. It gets no events but the
  announcement of the globals.
\<close>

record subsurface_client =
  suc_compositor :: "proxy option"
  suc_subcompositor :: "proxy option"
  suc_registry :: "proxy option"
  suc_parent :: "proxy option"
  suc_child :: "proxy option"
  suc_subsurface :: "proxy option"

definition subsurface_client_init :: subsurface_client where
  "subsurface_client_init = \<lparr>suc_compositor = None, suc_subcompositor = None,
     suc_registry = None, suc_parent = None, suc_child = None, suc_subsurface = None\<rparr>"

datatype subsurface_call =
    SUC_Create_Surface | SUC_Surface_Destroy | SUC_Surface_Commit | SUC_Get_Subsurface
  | SUC_Set_Position int int | SUC_Place_Above | SUC_Place_Below | SUC_Set_Sync | SUC_Set_Desync
  | SUC_Subsurface_Destroy | SUC_Subcompositor_Destroy

definition suc_registry_global ::
    "(subsurface_call, unit, 'p) client_env \<Rightarrow> u32 \<Rightarrow> string \<Rightarrow> u32 \<Rightarrow>
     (subsurface_client, subsurface_call, 'p) cstep list" where
  "suc_registry_global env name interface version =
     (if interface = ''wl_compositor'' then
        [bind_global env name ''wl_compositor'' (capped version 4) (\<lambda>p s. s\<lparr>suc_compositor := p\<rparr>)]
      else if interface = ''wl_subcompositor'' then
        [bind_global env name ''wl_subcompositor'' 1 (\<lambda>p s. s\<lparr>suc_subcompositor := p\<rparr>)]
      else [])"

fun suc_listeners ::
    "(subsurface_call, unit, 'p) client_env \<Rightarrow> unit cl_event \<Rightarrow>
     (subsurface_client, subsurface_call, 'p) cstep list" where
  "suc_listeners env (Global name interface version) = suc_registry_global env name interface version"
| "suc_listeners env (Event e) = []"

definition suc_targets :: "unit cl_event \<Rightarrow> proxy list" where
  "suc_targets e = []"

section \<open>The program\<close>

definition subsurface_client_body ::
    "(subsurface_call, unit, 'p) client_env \<Rightarrow> (subsurface_client, subsurface_call, 'p) cstep list" where
  "subsurface_client_body env =
    [get_registry env (\<lambda>p s. s\<lparr>suc_registry := p\<rparr>),
     add_listener suc_registry,
     trip env suc_targets (suc_listeners env),
     require_set suc_compositor,
     require_set suc_subcompositor,
     construct env ''wl_surface'' SUC_Create_Surface (\<lambda>s. [suc_compositor s]) (\<lambda>p s. s\<lparr>suc_parent := p\<rparr>),
     construct env ''wl_surface'' SUC_Create_Surface (\<lambda>s. [suc_compositor s]) (\<lambda>p s. s\<lparr>suc_child := p\<rparr>),
     require_set suc_parent,
     require_set suc_child,
     construct env ''wl_subsurface'' SUC_Get_Subsurface
       (\<lambda>s. [suc_subcompositor s, suc_child s, suc_parent s]) (\<lambda>p s. s\<lparr>suc_subsurface := p\<rparr>),
     require_set suc_subsurface,
     request (SUC_Set_Position (-7) 11) (\<lambda>s. [suc_subsurface s]),
     request SUC_Place_Above (\<lambda>s. [suc_subsurface s, suc_parent s]),
     request SUC_Place_Below (\<lambda>s. [suc_subsurface s, suc_parent s]),
     request SUC_Surface_Commit (\<lambda>s. [suc_child s]),
     request SUC_Surface_Commit (\<lambda>s. [suc_parent s]),
     request SUC_Set_Sync (\<lambda>s. [suc_subsurface s]),
     request SUC_Surface_Commit (\<lambda>s. [suc_child s]),
     request SUC_Set_Desync (\<lambda>s. [suc_subsurface s]),
     destroy_proxy (Some SUC_Surface_Destroy) suc_parent,
     assign (\<lambda>s. s\<lparr>suc_parent := None\<rparr>),
     trip env suc_targets (suc_listeners env)]"

definition subsurface_client_cleanup :: "(subsurface_client, subsurface_call, 'p) cstep list" where
  "subsurface_client_cleanup =
    [destroy_if (Some SUC_Subsurface_Destroy) suc_subsurface,
     destroy_if (Some SUC_Surface_Destroy) suc_child,
     destroy_if (Some SUC_Surface_Destroy) suc_parent,
     destroy_if (Some SUC_Subcompositor_Destroy) suc_subcompositor,
     destroy_if None suc_compositor,
     destroy_proxy None suc_registry,
     plain Flush,
     plain Disconnect]"

definition subsurface_client_fd ::
    "(subsurface_call, unit, 'p) client_env \<Rightarrow> 'p \<Rightarrow>
     (subsurface_client, subsurface_call, 'p) client_exit" where
  "subsurface_client_fd env p = client_program env (subsurface_client_body env) subsurface_client_cleanup
     (start_client subsurface_client_init p)"

section \<open>Against the server\<close>

fun subsurface_translate :: "subsurface_call cl_call \<Rightarrow> subsurface_request input list" where
  "subsurface_translate (Bind name interface version p) =
     (if interface = ''wl_compositor'' then [(SS_Bind_Compositor version (of_nat p), Some p)]
      else if interface = ''wl_subcompositor'' then [(SS_Bind_Subcompositor version (of_nat p), Some p)]
      else [])"
| "subsurface_translate (Construct SUC_Create_Surface [r] p) = [(SS_Create_Surface r (of_nat p), Some p)]"
| "subsurface_translate (Construct SUC_Get_Subsurface [r, surface, parent] p) =
     [(SS_Get_Subsurface r (of_nat p) surface parent, Some p)]"
| "subsurface_translate (Request (SUC_Set_Position x y) [r]) = [(SS_Set_Position r x y, None)]"
| "subsurface_translate (Request SUC_Place_Above [r, sibling]) = [(SS_Place_Above r sibling, None)]"
| "subsurface_translate (Request SUC_Place_Below [r, sibling]) = [(SS_Place_Below r sibling, None)]"
| "subsurface_translate (Request SUC_Surface_Commit [r]) = [(SS_Surface_Commit r, None)]"
| "subsurface_translate (Request SUC_Set_Sync [r]) = [(SS_Set_Sync r, None)]"
| "subsurface_translate (Request SUC_Set_Desync [r]) = [(SS_Set_Desync r, None)]"
| "subsurface_translate (Destroy_Proxy (Some SUC_Subsurface_Destroy) p) = [(SS_Destroy p, None)]"
| "subsurface_translate (Destroy_Proxy (Some SUC_Surface_Destroy) p) = [(SS_Surface_Destroy p, None)]"
| "subsurface_translate (Destroy_Proxy (Some SUC_Subcompositor_Destroy) p) =
     [(SS_Subcompositor_Destroy p, None)]"
| "subsurface_translate Disconnect = [(SS_Client_Destroyed, None)]"
| "subsurface_translate _ = []"

definition subsurface_env ::
    "wl_lib \<Rightarrow> (subsurface_call, unit, subsurface_request input list) client_env" where
  "subsurface_env L =
     reliable True (server_peer (subsurface_session L) subsurface_globals subsurface_translate (\<lambda>e. [e]))"

lemmas subsurface_client_defs = subsurface_client_init_def suc_registry_global_def

section \<open>No crash, whatever the server sends\<close>

definition suc_ptrs :: "subsurface_client \<Rightarrow> proxy option list" where
  "suc_ptrs s = [suc_registry s, suc_compositor s, suc_subcompositor s, suc_parent s, suc_child s, suc_subsurface s]"

lemma suc_ptrs_read:
  "suc_registry s = suc_ptrs s ! 0" "suc_compositor s = suc_ptrs s ! 1"
  "suc_subcompositor s = suc_ptrs s ! 2" "suc_parent s = suc_ptrs s ! 3"
  "suc_child s = suc_ptrs s ! 4" "suc_subsurface s = suc_ptrs s ! 5"
  by (simp_all add: suc_ptrs_def)

lemma suc_ptrs_write:
  "suc_ptrs (s\<lparr>suc_registry := x\<rparr>) = (suc_ptrs s)[0 := x]"
  "suc_ptrs (s\<lparr>suc_compositor := x\<rparr>) = (suc_ptrs s)[1 := x]"
  "suc_ptrs (s\<lparr>suc_subcompositor := x\<rparr>) = (suc_ptrs s)[2 := x]"
  "suc_ptrs (s\<lparr>suc_parent := x\<rparr>) = (suc_ptrs s)[3 := x]"
  "suc_ptrs (s\<lparr>suc_child := x\<rparr>) = (suc_ptrs s)[4 := x]"
  "suc_ptrs (s\<lparr>suc_subsurface := x\<rparr>) = (suc_ptrs s)[5 := x]"
  by (simp_all add: suc_ptrs_def)

lemma suc_ptrs_objs:
  "[suc_compositor s] = map (\<lambda>i. suc_ptrs s ! i) [1]"
  "[suc_subcompositor s, suc_child s, suc_parent s] = map (\<lambda>i. suc_ptrs s ! i) [2, 4, 3]"
  "[suc_subsurface s] = map (\<lambda>i. suc_ptrs s ! i) [5]"
  "[suc_subsurface s, suc_parent s] = map (\<lambda>i. suc_ptrs s ! i) [5, 3]"
  "[suc_child s] = map (\<lambda>i. suc_ptrs s ! i) [4]"
  "[suc_parent s] = map (\<lambda>i. suc_ptrs s ! i) [3]"
  by (simp_all add: suc_ptrs_def)

lemma suc_registry_safe:
  "safe_body suc_ptrs T N (suc_registry_global (reliable d peer) name interface version) N"
  unfolding suc_registry_global_def
  by (rule client_safe suc_ptrs_write suc_ptrs_read conjI impI | split if_split
     | simp add: suc_ptrs_def subset_insertI2; fail)+

lemma suc_listener_safe:
  "safe_body suc_ptrs (set (suc_targets e)) N (suc_listeners (reliable d peer) e) N"
  by (cases "(reliable d peer, e)" rule: suc_listeners.cases; simp add: suc_registry_safe;
      (rule client_safe | simp add: suc_ptrs_def subsurface_client_defs; fail)+)

interpretation subsurface_listening: safe_listeners suc_ptrs suc_targets "suc_listeners (reliable d peer)"
  for d peer
  by unfold_locales (rule suc_listener_safe)

lemma subsurface_client_safe: "subsurface_client_fd (reliable d peer) p \<noteq> Exit_Crashed"
  unfolding subsurface_client_fd_def
proof (rule client_program_safe)
  show "safe_body suc_ptrs {} {} (subsurface_client_body (reliable d peer)) {0}"
    unfolding subsurface_client_body_def
    by (rule client_safe subsurface_listening.safe_body_trip suc_ptrs_write suc_ptrs_read suc_ptrs_objs
        | simp add: suc_ptrs_def; fail)+
  show "safe_cleanup suc_ptrs {0} {} subsurface_client_cleanup"
    unfolding subsurface_client_cleanup_def
    by (rule client_safe suc_ptrs_read | simp add: suc_ptrs_def; fail)+
qed (simp add: subsurface_client_init_def suc_ptrs_def)

section \<open>Properties\<close>

text \<open>C24: with a library that creates every object, the subsurface client never uses a NULL or destroyed
  object, whatever globals the other side announces and whenever. Against the subsurface server it exits
  with success and has destroyed every object it created, and the server, given the requests the
  client sent and then its disconnection, exits with success too.\<close>

theorem subsurface_client_safe_and_interoperates:
  "subsurface_client_fd (reliable display peer) p \<noteq> Exit_Crashed \<and>
   (\<exists>c. subsurface_client_fd (subsurface_env L) [] = Exit_Client EXIT_SUCCESS c \<and> cl_live c = Map.empty \<and>
      exits_with EXIT_SUCCESS
        (subsurface_server_fd demo_env L (concat (map subsurface_translate (cl_calls c)))))"
proof (intro conjI)
  show "\<exists>c. subsurface_client_fd (subsurface_env L) [] = Exit_Client EXIT_SUCCESS c \<and> cl_live c = Map.empty \<and>
      exits_with EXIT_SUCCESS
        (subsurface_server_fd demo_env L (concat (map subsurface_translate (cl_calls c))))"
    by (simp add: client_run_defs subsurface_client_fd_def subsurface_env_def subsurface_client_body_def
        subsurface_client_cleanup_def subsurface_client_defs subsurface_session_def subsurface_globals_def
        subsurface_handler_defs subsurface_server_init_def subsurface_server_fd_def subsurface_status_def
        suc_targets_def)
qed (rule subsurface_client_safe)

end
