(* ===== verification/Xdg_Client.thy ===== *)
theory Xdg_Client
  imports Client_Safety Xdg_Server
begin

text \<open>
  The libwayland xdg-shell client (\<open>src/bench/xdg-interop-client.c\<close>): it answers the ping, maps a
  toplevel, asks twice for presentation feedback and waits for it, and destroys everything in the order
  the protocol asks for. The events are those of the server's theory; the listeners of the toplevel
  and \<open>sync_output\<close> do nothing. \<open>fuel\<close> bounds the number of turns of each of the two waiting loops.
\<close>

record xdg_client =
  xc_compositor :: "proxy option"
  xc_wm_base :: "proxy option"
  xc_presentation :: "proxy option"
  xc_pinged :: bool
  xc_configured :: bool
  xc_clock_seen :: bool
  xc_presented :: bool
  xc_discarded :: bool
  xc_registry :: "proxy option"
  xc_surface :: "proxy option"
  xc_xdg_surface :: "proxy option"
  xc_toplevel :: "proxy option"
  xc_feedback :: "proxy option"

definition xdg_client_init :: xdg_client where
  "xdg_client_init = \<lparr>xc_compositor = None, xc_wm_base = None, xc_presentation = None,
     xc_pinged = False, xc_configured = False, xc_clock_seen = False, xc_presented = False,
     xc_discarded = False, xc_registry = None, xc_surface = None, xc_xdg_surface = None,
     xc_toplevel = None, xc_feedback = None\<rparr>"

datatype xdg_call =
    XC_Create_Surface | XC_Surface_Destroy | XC_Surface_Commit | XC_Get_Xdg_Surface
  | XC_Xdg_Surface_Destroy | XC_Get_Toplevel | XC_Toplevel_Destroy | XC_Ack_Configure u32
  | XC_Pong u32 | XC_Wm_Base_Destroy | XC_Feedback | XC_Presentation_Destroy

section \<open>Listeners\<close>

definition xc_clock_id :: "u32 \<Rightarrow> xdg_client \<Rightarrow> xdg_client" where
  "xc_clock_id clock_id s = (if clock_id = 1 then s\<lparr>xc_clock_seen := True\<rparr> else s)"

definition xc_feedback_presented ::
    "u32 \<Rightarrow> u32 \<Rightarrow> u32 \<Rightarrow> u32 \<Rightarrow> u32 \<Rightarrow> u32 \<Rightarrow> feedback_kind \<Rightarrow> xdg_client \<Rightarrow> xdg_client" where
  "xc_feedback_presented tv_sec_hi tv_sec_lo tv_nsec refresh seq_hi seq_lo flags s =
     (if tv_sec_hi = 1 \<and> tv_sec_lo = 2 \<and> tv_nsec = 3 \<and> refresh = 16666667 \<and> seq_hi = 4 \<and>
         seq_lo = 5 \<and> flags = Kind_Vsync
      then s\<lparr>xc_presented := True\<rparr> else s)"

definition xc_feedback_discarded :: "xdg_client \<Rightarrow> xdg_client" where
  "xc_feedback_discarded s = s\<lparr>xc_discarded := True\<rparr>"

definition xc_ping :: "proxy \<Rightarrow> u32 \<Rightarrow> (xdg_client, xdg_call, 'p) cstep list" where
  "xc_ping wm_base serial =
     [assign (\<lambda>s. s\<lparr>xc_pinged := True\<rparr>), request (XC_Pong serial) (\<lambda>s. [Some wm_base])]"

definition xc_surface_configure :: "proxy \<Rightarrow> u32 \<Rightarrow> (xdg_client, xdg_call, 'p) cstep list" where
  "xc_surface_configure surface serial =
     [request (XC_Ack_Configure serial) (\<lambda>s. [Some surface]), assign (\<lambda>s. s\<lparr>xc_configured := True\<rparr>)]"

definition xc_registry_global ::
    "(xdg_call, xdg_event, 'p) client_env \<Rightarrow> u32 \<Rightarrow> string \<Rightarrow> u32 \<Rightarrow>
     (xdg_client, xdg_call, 'p) cstep list" where
  "xc_registry_global env name interface version =
     (if interface = ''wl_compositor'' then
        [bind_global env name ''wl_compositor'' (capped version 4) (\<lambda>p s. s\<lparr>xc_compositor := p\<rparr>)]
      else if interface = ''xdg_wm_base'' then
        [bind_global env name ''xdg_wm_base'' (capped version 5) (\<lambda>p s. s\<lparr>xc_wm_base := p\<rparr>),
         add_listener xc_wm_base]
      else if interface = ''wp_presentation'' then
        [bind_global env name ''wp_presentation'' 1 (\<lambda>p s. s\<lparr>xc_presentation := p\<rparr>),
         add_listener xc_presentation]
      else [])"

fun xc_listeners ::
    "(xdg_call, xdg_event, 'p) client_env \<Rightarrow> xdg_event cl_event \<Rightarrow>
     (xdg_client, xdg_call, 'p) cstep list" where
  "xc_listeners env (Global name interface version) = xc_registry_global env name interface version"
| "xc_listeners env (Event (XE_Presented r sec_hi sec_lo nsec refresh seq_hi seq_lo kind)) =
     [assign (xc_feedback_presented sec_hi sec_lo nsec refresh seq_hi seq_lo kind)]"
| "xc_listeners env (Event (XE_Discarded r)) = [assign xc_feedback_discarded]"
| "xc_listeners env (Event (XE_Clock_Id r clock_id)) = [assign (xc_clock_id clock_id)]"
| "xc_listeners env (Event (XE_Toplevel_Configure r w h states)) = []"
| "xc_listeners env (Event (XE_Surface_Configure r serial)) = xc_surface_configure r serial"
| "xc_listeners env (Event (XE_Ping r serial)) = xc_ping r serial"

fun xc_targets :: "xdg_event cl_event \<Rightarrow> proxy list" where
  "xc_targets (Global name interface version) = []"
| "xc_targets (Event e) = map the (take 1 (xdg_uses e))"

section \<open>The program\<close>

definition xdg_client_body ::
    "nat \<Rightarrow> (xdg_call, xdg_event, 'p) client_env \<Rightarrow> (xdg_client, xdg_call, 'p) cstep list" where
  "xdg_client_body fuel env =
    [get_registry env (\<lambda>p s. s\<lparr>xc_registry := p\<rparr>),
     add_listener xc_registry,
     trip env xc_targets (xc_listeners env),
     require_set xc_compositor,
     require_set xc_wm_base,
     require_set xc_presentation,
     trip env xc_targets (xc_listeners env),
     require xc_pinged,
     require xc_clock_seen,
     construct env ''wl_surface'' XC_Create_Surface (\<lambda>s. [xc_compositor s]) (\<lambda>p s. s\<lparr>xc_surface := p\<rparr>),
     construct env ''xdg_surface'' XC_Get_Xdg_Surface (\<lambda>s. [xc_wm_base s, xc_surface s])
       (\<lambda>p s. s\<lparr>xc_xdg_surface := p\<rparr>),
     require_set xc_surface,
     require_set xc_xdg_surface,
     add_listener xc_xdg_surface,
     construct env ''xdg_toplevel'' XC_Get_Toplevel (\<lambda>s. [xc_xdg_surface s]) (\<lambda>p s. s\<lparr>xc_toplevel := p\<rparr>),
     require_set xc_toplevel,
     add_listener xc_toplevel,
     construct env ''wp_presentation_feedback'' XC_Feedback (\<lambda>s. [xc_presentation s, xc_surface s])
       (\<lambda>p s. s\<lparr>xc_feedback := p\<rparr>),
     require_set xc_feedback,
     add_listener xc_feedback,
     request XC_Surface_Commit (\<lambda>s. [xc_surface s]),
     dispatch_until fuel (\<lambda>s. xc_configured s \<and> xc_presented s) (dispatch env xc_targets (xc_listeners env)),
     construct env ''wp_presentation_feedback'' XC_Feedback (\<lambda>s. [xc_presentation s, xc_surface s])
       (\<lambda>p s. s\<lparr>xc_feedback := p\<rparr>),
     require_set xc_feedback,
     add_listener xc_feedback,
     request XC_Surface_Commit (\<lambda>s. [xc_surface s]),
     dispatch_until fuel xc_discarded (dispatch env xc_targets (xc_listeners env)),
     trip env xc_targets (xc_listeners env)]"

text \<open>
  Both labels: on \<open>goto cleanup_registry\<close> the pointers \<open>cleanup_toplevel\<close> tests are still NULL.
\<close>

definition xdg_client_cleanup :: "(xdg_client, xdg_call, 'p) cstep list" where
  "xdg_client_cleanup =
    [destroy_if (Some XC_Toplevel_Destroy) xc_toplevel,
     destroy_if (Some XC_Xdg_Surface_Destroy) xc_xdg_surface,
     destroy_if (Some XC_Surface_Destroy) xc_surface,
     destroy_if (Some XC_Wm_Base_Destroy) xc_wm_base,
     destroy_if (Some XC_Presentation_Destroy) xc_presentation,
     destroy_if None xc_compositor,
     destroy_proxy None xc_registry,
     plain Flush,
     plain Disconnect]"

definition xdg_client_fd ::
    "nat \<Rightarrow> (xdg_call, xdg_event, 'p) client_env \<Rightarrow> 'p \<Rightarrow> (xdg_client, xdg_call, 'p) client_exit" where
  "xdg_client_fd fuel env p = client_program env (xdg_client_body fuel env) xdg_client_cleanup
     (start_client xdg_client_init p)"

section \<open>Against the server\<close>

fun xdg_translate :: "xdg_call cl_call \<Rightarrow> xdg_request input list" where
  "xdg_translate (Bind name interface version p) =
     (if interface = ''wl_compositor'' then [(XR_Bind_Compositor version (of_nat p), Some p)]
      else if interface = ''xdg_wm_base'' then [(XR_Bind_Wm_Base version (of_nat p), Some p)]
      else if interface = ''wp_presentation'' then [(XR_Bind_Presentation version (of_nat p), Some p)]
      else [])"
| "xdg_translate (Construct XC_Create_Surface [r] p) = [(XR_Create_Surface r (of_nat p), Some p)]"
| "xdg_translate (Construct XC_Get_Xdg_Surface [r, surface] p) =
     [(XR_Get_Xdg_Surface r (of_nat p) surface, Some p)]"
| "xdg_translate (Construct XC_Get_Toplevel [r] p) = [(XR_Get_Toplevel r (of_nat p), Some p)]"
| "xdg_translate (Construct XC_Feedback [r, surface] p) = [(XR_Feedback r surface (of_nat p), Some p)]"
| "xdg_translate (Request XC_Surface_Commit [r]) = [(XR_Surface_Commit r, None)]"
| "xdg_translate (Request (XC_Ack_Configure serial) [r]) = [(XR_Ack_Configure r serial, None)]"
| "xdg_translate (Request (XC_Pong serial) [r]) = [(XR_Pong r serial, None)]"
| "xdg_translate (Destroy_Proxy (Some XC_Toplevel_Destroy) p) = [(XR_Toplevel_Destroy p, None)]"
| "xdg_translate (Destroy_Proxy (Some XC_Xdg_Surface_Destroy) p) = [(XR_Xdg_Surface_Destroy p, None)]"
| "xdg_translate (Destroy_Proxy (Some XC_Surface_Destroy) p) = [(XR_Surface_Destroy p, None)]"
| "xdg_translate (Destroy_Proxy (Some XC_Wm_Base_Destroy) p) = [(XR_Wm_Base_Destroy p, None)]"
| "xdg_translate (Destroy_Proxy (Some XC_Presentation_Destroy) p) = [(XR_Presentation_Destroy p, None)]"
| "xdg_translate Disconnect = [(XR_Client_Destroyed, None)]"
| "xdg_translate _ = []"

definition xdg_env :: "wl_lib \<Rightarrow> (xdg_call, xdg_event, xdg_request input list) client_env" where
  "xdg_env L = reliable True (server_peer (xdg_session L) xdg_globals xdg_translate (\<lambda>e. [e]))"

lemmas xdg_client_defs = xdg_client_init_def xc_clock_id_def xc_feedback_presented_def
  xc_feedback_discarded_def xc_ping_def xc_surface_configure_def xc_registry_global_def

section \<open>No crash, whatever the server sends\<close>

definition xc_ptrs :: "xdg_client \<Rightarrow> proxy option list" where
  "xc_ptrs s = [xc_registry s, xc_compositor s, xc_wm_base s, xc_presentation s, xc_surface s, xc_xdg_surface s, xc_toplevel s, xc_feedback s]"

lemma xc_ptrs_read:
  "xc_registry s = xc_ptrs s ! 0" "xc_compositor s = xc_ptrs s ! 1" "xc_wm_base s = xc_ptrs s ! 2"
  "xc_presentation s = xc_ptrs s ! 3" "xc_surface s = xc_ptrs s ! 4"
  "xc_xdg_surface s = xc_ptrs s ! 5" "xc_toplevel s = xc_ptrs s ! 6"
  "xc_feedback s = xc_ptrs s ! 7"
  by (simp_all add: xc_ptrs_def)

lemma xc_ptrs_write:
  "xc_ptrs (s\<lparr>xc_registry := x\<rparr>) = (xc_ptrs s)[0 := x]"
  "xc_ptrs (s\<lparr>xc_compositor := x\<rparr>) = (xc_ptrs s)[1 := x]"
  "xc_ptrs (s\<lparr>xc_wm_base := x\<rparr>) = (xc_ptrs s)[2 := x]"
  "xc_ptrs (s\<lparr>xc_presentation := x\<rparr>) = (xc_ptrs s)[3 := x]"
  "xc_ptrs (s\<lparr>xc_surface := x\<rparr>) = (xc_ptrs s)[4 := x]"
  "xc_ptrs (s\<lparr>xc_xdg_surface := x\<rparr>) = (xc_ptrs s)[5 := x]"
  "xc_ptrs (s\<lparr>xc_toplevel := x\<rparr>) = (xc_ptrs s)[6 := x]"
  "xc_ptrs (s\<lparr>xc_feedback := x\<rparr>) = (xc_ptrs s)[7 := x]"
  by (simp_all add: xc_ptrs_def)

lemma xc_ptrs_objs:
  "[xc_compositor s] = map (\<lambda>i. xc_ptrs s ! i) [1]"
  "[xc_wm_base s, xc_surface s] = map (\<lambda>i. xc_ptrs s ! i) [2, 4]"
  "[xc_xdg_surface s] = map (\<lambda>i. xc_ptrs s ! i) [5]"
  "[xc_presentation s, xc_surface s] = map (\<lambda>i. xc_ptrs s ! i) [3, 4]"
  "[xc_surface s] = map (\<lambda>i. xc_ptrs s ! i) [4]"
  by (simp_all add: xc_ptrs_def)

lemma xc_registry_safe:
  "safe_body xc_ptrs T N (xc_registry_global (reliable d peer) name interface version) N"
  unfolding xc_registry_global_def
  by (rule client_safe xc_ptrs_write xc_ptrs_read conjI impI | split if_split
     | simp add: xc_ptrs_def subset_insertI2; fail)+

lemma xc_listener_safe:
  "safe_body xc_ptrs (set (xc_targets e)) N (xc_listeners (reliable d peer) e) N"
  by (cases "(reliable d peer, e)" rule: xc_listeners.cases; simp add: xc_registry_safe xc_ping_def xc_surface_configure_def;
      (rule client_safe safe_body_request_target | simp add: xc_ptrs_def xdg_client_defs; fail)+)

interpretation xdg_listening: safe_listeners xc_ptrs xc_targets "xc_listeners (reliable d peer)"
  for d peer
  by unfold_locales (rule xc_listener_safe)

lemma xdg_client_safe: "xdg_client_fd fuel (reliable d peer) p \<noteq> Exit_Crashed"
  unfolding xdg_client_fd_def
proof (rule client_program_safe)
  show "safe_body xc_ptrs {} {} (xdg_client_body fuel (reliable d peer)) {0}"
    unfolding xdg_client_body_def
    by (rule client_safe xdg_listening.safe_body_trip xdg_listening.safe_body_dispatch xc_ptrs_write xc_ptrs_read xc_ptrs_objs
        | simp add: xc_ptrs_def; fail)+
  show "safe_cleanup xc_ptrs {0} {} xdg_client_cleanup"
    unfolding xdg_client_cleanup_def
    by (rule client_safe xc_ptrs_read | simp add: xc_ptrs_def; fail)+
qed (simp add: xdg_client_init_def xc_ptrs_def)

section \<open>Properties\<close>

text \<open>C21: with a library that creates every object, the xdg-shell client never uses a NULL or destroyed
  object, whatever events the other side sends, in whatever order, and however long it waits. Against
  the xdg-shell server neither of its loops turns more than once; it exits with success, the only objects
  it has not destroyed are its two feedback objects, and the server, given the requests the client
  sent and then its disconnection, exits with success too.\<close>

theorem xdg_client_safe_and_interoperates:
  "xdg_client_fd fuel (reliable display peer) p \<noteq> Exit_Crashed \<and>
   (\<exists>c. xdg_client_fd (Suc n) (xdg_env L) [] = Exit_Client EXIT_SUCCESS c \<and>
      cl_live c = [7 \<mapsto> ''wp_presentation_feedback'', 8 \<mapsto> ''wp_presentation_feedback''] \<and>
      exits_with EXIT_SUCCESS (xdg_server_fd demo_env L (concat (map xdg_translate (cl_calls c)))))"
proof (intro conjI)
  show "\<exists>c. xdg_client_fd (Suc n) (xdg_env L) [] = Exit_Client EXIT_SUCCESS c \<and>
      cl_live c = [7 \<mapsto> ''wp_presentation_feedback'', 8 \<mapsto> ''wp_presentation_feedback''] \<and>
      exits_with EXIT_SUCCESS (xdg_server_fd demo_env L (concat (map xdg_translate (cl_calls c))))"
    by (simp add: client_run_defs xdg_client_fd_def xdg_env_def xdg_client_body_def
        xdg_client_cleanup_def xdg_client_defs xdg_session_def xdg_globals_def dispatch_until.simps
        xdg_handler_defs xdg_server_init_def xdg_server_fd_def xdg_status_def fun_eq_iff eval_nat_numeral)
qed (rule xdg_client_safe)

end
