(* ===== verification/Dmabuf_Client.thy ===== *)
theory Dmabuf_Client
  imports Client_Safety Dmabuf_Server
begin

text \<open>
  The libwayland dmabuf client (\<open>src/bench/dmabuf-interop-client.c\<close>): it creates a buffer at once, one
  asynchronously, and one the server refuses, each from a memory file of its own. What the kernel
  answers for the files comes in \<open>memory_os\<close>; \<open>fuel\<close> bounds the turns of each of the two waiting
  loops. The events are those of the server's theory; the format event does nothing.
\<close>

record dmabuf_client =
  dc_dmabuf :: "proxy option"
  dc_async_buffer :: "proxy option"
  dc_modifier_seen :: bool
  dc_create_failed :: bool
  dc_registry :: "proxy option"
  dc_params :: "proxy option"
  dc_buffer :: "proxy option"
  dc_memory_fd :: fd_t

definition dmabuf_client_init :: dmabuf_client where
  "dmabuf_client_init = \<lparr>dc_dmabuf = None, dc_async_buffer = None, dc_modifier_seen = False,
     dc_create_failed = False, dc_registry = None, dc_params = None, dc_buffer = None,
     dc_memory_fd = -1\<rparr>"

datatype dmabuf_call =
    DC_Create_Params | DC_Params_Destroy | DC_Add fd_t u32 u32 u32 u32 u32
  | DC_Create int int u32 u32 | DC_Create_Immed int int u32 u32 | DC_Buffer_Destroy | DC_Dmabuf_Destroy

section \<open>Listeners\<close>

definition dc_modifier :: "u32 \<Rightarrow> u32 \<Rightarrow> u32 \<Rightarrow> dmabuf_client \<Rightarrow> dmabuf_client" where
  "dc_modifier format modifier_hi modifier_lo s =
     (if format = DRM_FORMAT_ARGB8888 \<and> modifier_hi = DRM_FORMAT_MOD_INVALID_HI \<and>
         modifier_lo = DRM_FORMAT_MOD_INVALID_LO
      then s\<lparr>dc_modifier_seen := True\<rparr> else s)"

definition dc_params_created ::
    "(dmabuf_call, dmabuf_event, 'p) client_env \<Rightarrow> proxy \<Rightarrow> (dmabuf_client, dmabuf_call, 'p) cstep list" where
  "dc_params_created env buffer =
     [adopt_proxy env buffer ''wl_buffer'' (\<lambda>p s. s\<lparr>dc_async_buffer := p\<rparr>)]"

definition dc_params_failed :: "dmabuf_client \<Rightarrow> dmabuf_client" where
  "dc_params_failed s = s\<lparr>dc_create_failed := True\<rparr>"

definition dc_registry_global ::
    "(dmabuf_call, dmabuf_event, 'p) client_env \<Rightarrow> u32 \<Rightarrow> string \<Rightarrow> u32 \<Rightarrow>
     (dmabuf_client, dmabuf_call, 'p) cstep list" where
  "dc_registry_global env name interface version =
     (if interface \<noteq> ''zwp_linux_dmabuf_v1'' then []
      else [bind_global env name ''zwp_linux_dmabuf_v1'' (capped version 3) (\<lambda>p s. s\<lparr>dc_dmabuf := p\<rparr>),
            add_listener dc_dmabuf])"

fun dc_listeners ::
    "(dmabuf_call, dmabuf_event, 'p) client_env \<Rightarrow> dmabuf_event cl_event \<Rightarrow>
     (dmabuf_client, dmabuf_call, 'p) cstep list" where
  "dc_listeners env (Global name interface version) = dc_registry_global env name interface version"
| "dc_listeners env (Event (DE_Modifier r format hi lo)) = [assign (dc_modifier format hi lo)]"
| "dc_listeners env (Event (DE_Created r buffer)) = dc_params_created env buffer"
| "dc_listeners env (Event (DE_Failed r)) = [assign dc_params_failed]"

fun dc_targets :: "dmabuf_event cl_event \<Rightarrow> proxy list" where
  "dc_targets (Global name interface version) = []"
| "dc_targets (Event e) = map the (take 1 (dmabuf_uses e))"

section \<open>The program\<close>

text \<open>
  The opening that the three stages share: a memory file of 4096 bytes, parameters, and, once a
  listener has been set on them where there is one, the plane added and the file closed.
\<close>

definition dc_open_plane ::
    "memory_os \<Rightarrow> nat \<Rightarrow> (dmabuf_call, dmabuf_event, 'p) client_env \<Rightarrow>
     (dmabuf_client, dmabuf_call, 'p) cstep list" where
  "dc_open_plane os k env =
    [assign (\<lambda>s. s\<lparr>dc_memory_fd := os_memfd os k\<rparr>),
     require (\<lambda>s. \<not> dc_memory_fd s < 0 \<and> os_truncated os k),
     construct env ''zwp_linux_buffer_params_v1'' DC_Create_Params (\<lambda>s. [dc_dmabuf s])
       (\<lambda>p s. s\<lparr>dc_params := p\<rparr>),
     require_set dc_params]"

definition dc_add_plane :: "(dmabuf_client, dmabuf_call, 'p) cstep list" where
  "dc_add_plane =
    [request_of (\<lambda>s. DC_Add (dc_memory_fd s) 0 0 4 DRM_FORMAT_MOD_INVALID_HI DRM_FORMAT_MOD_INVALID_LO)
       (\<lambda>s. [dc_params s]),
     close_fd dc_memory_fd,
     assign (\<lambda>s. s\<lparr>dc_memory_fd := -1\<rparr>)]"

definition dmabuf_client_body ::
    "nat \<Rightarrow> memory_os \<Rightarrow> (dmabuf_call, dmabuf_event, 'p) client_env \<Rightarrow>
     (dmabuf_client, dmabuf_call, 'p) cstep list" where
  "dmabuf_client_body fuel os env =
    [get_registry env (\<lambda>p s. s\<lparr>dc_registry := p\<rparr>),
     add_listener dc_registry,
     trip env dc_targets (dc_listeners env),
     require_set dc_dmabuf,
     trip env dc_targets (dc_listeners env),
     require dc_modifier_seen]
    @ dc_open_plane os 0 env @ dc_add_plane @
    [construct env ''wl_buffer'' (DC_Create_Immed 1 1 DRM_FORMAT_ARGB8888 0) (\<lambda>s. [dc_params s])
       (\<lambda>p s. s\<lparr>dc_buffer := p\<rparr>),
     require_set dc_buffer,
     trip env dc_targets (dc_listeners env),
     destroy_proxy (Some DC_Buffer_Destroy) dc_buffer,
     assign (\<lambda>s. s\<lparr>dc_buffer := None\<rparr>),
     destroy_proxy (Some DC_Params_Destroy) dc_params,
     assign (\<lambda>s. s\<lparr>dc_params := None\<rparr>),
     trip env dc_targets (dc_listeners env)]
    @ dc_open_plane os 1 env @ [add_listener dc_params] @ dc_add_plane @
    [request (DC_Create 1 1 DRM_FORMAT_ARGB8888 0) (\<lambda>s. [dc_params s]),
     dispatch_until fuel (\<lambda>s. dc_async_buffer s \<noteq> None) (dispatch env dc_targets (dc_listeners env)),
     destroy_proxy (Some DC_Buffer_Destroy) dc_async_buffer,
     assign (\<lambda>s. s\<lparr>dc_async_buffer := None\<rparr>),
     destroy_proxy (Some DC_Params_Destroy) dc_params,
     assign (\<lambda>s. s\<lparr>dc_params := None\<rparr>),
     trip env dc_targets (dc_listeners env)]
    @ dc_open_plane os 2 env @ [add_listener dc_params] @ dc_add_plane @
    [request (DC_Create 2 1 DRM_FORMAT_ARGB8888 0) (\<lambda>s. [dc_params s]),
     dispatch_until fuel dc_create_failed (dispatch env dc_targets (dc_listeners env)),
     destroy_proxy (Some DC_Params_Destroy) dc_params,
     assign (\<lambda>s. s\<lparr>dc_params := None\<rparr>),
     trip env dc_targets (dc_listeners env)]"

definition dmabuf_client_cleanup :: "(dmabuf_client, dmabuf_call, 'p) cstep list" where
  "dmabuf_client_cleanup =
    [close_if dc_memory_fd,
     destroy_if (Some DC_Buffer_Destroy) dc_buffer,
     destroy_if (Some DC_Buffer_Destroy) dc_async_buffer,
     destroy_if (Some DC_Params_Destroy) dc_params,
     destroy_if (Some DC_Dmabuf_Destroy) dc_dmabuf,
     destroy_proxy None dc_registry,
     plain Flush,
     plain Disconnect]"

definition dmabuf_client_fd ::
    "nat \<Rightarrow> memory_os \<Rightarrow> (dmabuf_call, dmabuf_event, 'p) client_env \<Rightarrow> 'p \<Rightarrow>
     (dmabuf_client, dmabuf_call, 'p) client_exit" where
  "dmabuf_client_fd fuel os env p = client_program env (dmabuf_client_body fuel os env) dmabuf_client_cleanup
     (start_client dmabuf_client_init p)"

section \<open>Against the server\<close>

text \<open>
  Passed descriptors arrive close-on-exec. The name of a buffer the server creates by itself is 1000,
  above every name the client uses before.
\<close>

fun dmabuf_translate :: "dmabuf_call cl_call \<Rightarrow> dmabuf_request input list" where
  "dmabuf_translate (Bind name interface version p) =
     (if interface = ''zwp_linux_dmabuf_v1'' then [(DR_Bind_Dmabuf version (of_nat p), Some p)] else [])"
| "dmabuf_translate (Construct DC_Create_Params [r] p) = [(DR_Create_Params r (of_nat p), Some p)]"
| "dmabuf_translate (Construct (DC_Create_Immed w h format flags) [r] p) =
     [(DR_Create_Immed r (of_nat p) w h format flags, Some p)]"
| "dmabuf_translate (Request (DC_Add fd plane offset stride hi lo) [r]) =
     [(DR_Add r fd FD_CLOEXEC plane offset stride hi lo, None)]"
| "dmabuf_translate (Request (DC_Create w h format flags) [r]) =
     [(DR_Create r w h format flags, Some 1000)]"
| "dmabuf_translate (Destroy_Proxy (Some DC_Buffer_Destroy) p) = [(DR_Buffer_Destroy p, None)]"
| "dmabuf_translate (Destroy_Proxy (Some DC_Params_Destroy) p) = [(DR_Params_Destroy p, None)]"
| "dmabuf_translate (Destroy_Proxy (Some DC_Dmabuf_Destroy) p) = [(DR_Dmabuf_Destroy p, None)]"
| "dmabuf_translate Disconnect = [(DR_Client_Destroyed, None)]"
| "dmabuf_translate _ = []"

definition dmabuf_env :: "wl_lib \<Rightarrow> (dmabuf_call, dmabuf_event, dmabuf_request input list) client_env" where
  "dmabuf_env L = reliable True (server_peer (dmabuf_session L) dmabuf_globals dmabuf_translate (\<lambda>e. [e]))"

lemmas dmabuf_client_defs = dmabuf_client_init_def dc_modifier_def dc_params_failed_def
  dc_params_created_def dc_registry_global_def dc_open_plane_def dc_add_plane_def

section \<open>No crash, whatever the server sends\<close>

definition dc_ptrs :: "dmabuf_client \<Rightarrow> proxy option list" where
  "dc_ptrs s = [dc_registry s, dc_dmabuf s, dc_params s, dc_buffer s, dc_async_buffer s]"

lemma dc_ptrs_read:
  "dc_registry s = dc_ptrs s ! 0" "dc_dmabuf s = dc_ptrs s ! 1" "dc_params s = dc_ptrs s ! 2"
  "dc_buffer s = dc_ptrs s ! 3" "dc_async_buffer s = dc_ptrs s ! 4"
  by (simp_all add: dc_ptrs_def)

lemma dc_ptrs_write:
  "dc_ptrs (s\<lparr>dc_registry := x\<rparr>) = (dc_ptrs s)[0 := x]"
  "dc_ptrs (s\<lparr>dc_dmabuf := x\<rparr>) = (dc_ptrs s)[1 := x]"
  "dc_ptrs (s\<lparr>dc_params := x\<rparr>) = (dc_ptrs s)[2 := x]"
  "dc_ptrs (s\<lparr>dc_buffer := x\<rparr>) = (dc_ptrs s)[3 := x]"
  "dc_ptrs (s\<lparr>dc_async_buffer := x\<rparr>) = (dc_ptrs s)[4 := x]"
  by (simp_all add: dc_ptrs_def)

lemma dc_ptrs_objs:
  "[dc_dmabuf s] = map (\<lambda>i. dc_ptrs s ! i) [1]"
  "[dc_params s] = map (\<lambda>i. dc_ptrs s ! i) [2]"
  by (simp_all add: dc_ptrs_def)

lemma dc_registry_safe:
  "safe_body dc_ptrs T N (dc_registry_global (reliable d peer) name interface version) N"
  unfolding dc_registry_global_def
  by (rule client_safe dc_ptrs_write dc_ptrs_read conjI impI | split if_split
     | simp add: dc_ptrs_def subset_insertI2; fail)+

lemma dc_listener_safe:
  "safe_body dc_ptrs (set (dc_targets e)) N (dc_listeners (reliable d peer) e) N"
  by (cases "(reliable d peer, e)" rule: dc_listeners.cases; simp add: dc_registry_safe dc_params_created_def;
      (rule client_safe dc_ptrs_write | simp add: dc_ptrs_def dmabuf_client_defs subset_insertI2; fail)+)

interpretation dmabuf_listening: safe_listeners dc_ptrs dc_targets "dc_listeners (reliable d peer)"
  for d peer
  by unfold_locales (rule dc_listener_safe)

lemma dmabuf_client_safe: "dmabuf_client_fd fuel os (reliable d peer) p \<noteq> Exit_Crashed"
  unfolding dmabuf_client_fd_def
proof (rule client_program_safe)
  show "safe_body dc_ptrs {} {} (dmabuf_client_body fuel os (reliable d peer)) {0}"
    unfolding dmabuf_client_body_def dc_open_plane_def dc_add_plane_def append.simps
    by (rule client_safe dmabuf_listening.safe_body_trip
        dmabuf_listening.safe_body_dispatch_set dmabuf_listening.safe_body_dispatch dc_ptrs_write dc_ptrs_read dc_ptrs_objs
        | simp add: dc_ptrs_def; fail)+
  show "safe_cleanup dc_ptrs {0} {} dmabuf_client_cleanup"
    unfolding dmabuf_client_cleanup_def
    by (rule client_safe dc_ptrs_read | simp add: dc_ptrs_def; fail)+
qed (simp add: dmabuf_client_init_def dc_ptrs_def)

section \<open>Properties\<close>

text \<open>C22: with a library that creates every object, the dmabuf client never uses a NULL or destroyed
  object, whatever the kernel answers, whatever events the other side sends, in whatever order, and
  however long it waits. Against the dmabuf server, with a kernel that makes its files, neither of its
  loops turns more than once; it exits with success, has destroyed every object and closed every file
  once, and the server, given the requests the client sent and then its disconnection, exits with
  success too.\<close>

theorem dmabuf_client_safe_and_interoperates:
  "dmabuf_client_fd fuel os (reliable display peer) p \<noteq> Exit_Crashed \<and>
   (\<exists>c. dmabuf_client_fd (Suc n) (good_memory m) (dmabuf_env L) [] = Exit_Client EXIT_SUCCESS c \<and>
      cl_live c = Map.empty \<and>
      filter (\<lambda>q. \<exists>fd. q = Close_Fd fd) (cl_calls c) = map (\<lambda>k. Close_Fd (int (m k))) [0, 1, 2] \<and>
      exits_with EXIT_SUCCESS (dmabuf_server_fd demo_env L (concat (map dmabuf_translate (cl_calls c)))))"
proof (intro conjI)
  show "\<exists>c. dmabuf_client_fd (Suc n) (good_memory m) (dmabuf_env L) [] = Exit_Client EXIT_SUCCESS c \<and>
      cl_live c = Map.empty \<and>
      filter (\<lambda>q. \<exists>fd. q = Close_Fd fd) (cl_calls c) = map (\<lambda>k. Close_Fd (int (m k))) [0, 1, 2] \<and>
      exits_with EXIT_SUCCESS (dmabuf_server_fd demo_env L (concat (map dmabuf_translate (cl_calls c))))"
    by (simp add: client_run_defs dmabuf_client_fd_def dmabuf_env_def dmabuf_client_body_def
        dmabuf_client_cleanup_def dmabuf_client_defs dmabuf_session_def dmabuf_globals_def
        dispatch_until.simps dmabuf_handler_defs dmabuf_server_init_def dmabuf_server_fd_def
        dmabuf_status_def dmabuf_invalid_plane_def good_memory_def FD_CLOEXEC_def)
qed (rule dmabuf_client_safe)

end
