(* ===== verification/Viewport_Client.thy ===== *)
theory Viewport_Client
  imports Client_Safety Viewport_Server
begin

text \<open>
  The client of the viewport benchmark (\<open>src/bench/viewport-benchmark.c\<close>, first half): it sets up a
  surface with a viewport and sends any number of operations, waiting for the server after every
  \<open>batch\<close> of them. The two readings of the clock are answers of the kernel (seconds and nanoseconds,
  or a failure).
\<close>

record viewport_client =
  vc_compositor :: "proxy option"
  vc_viewporter :: "proxy option"
  vc_registry :: "proxy option"
  vc_surface :: "proxy option"
  vc_viewport :: "proxy option"
  vc_start :: u64
  vc_end :: u64
  vc_elapsed_ns :: u64
  vc_operations :: u64

definition viewport_client_init :: viewport_client where
  "viewport_client_init = \<lparr>vc_compositor = None, vc_viewporter = None, vc_registry = None,
     vc_surface = None, vc_viewport = None, vc_start = 0, vc_end = 0, vc_elapsed_ns = 0,
     vc_operations = 0\<rparr>"

datatype viewport_call =
    VC_Create_Surface | VC_Surface_Destroy | VC_Surface_Commit | VC_Get_Viewport | VC_Viewport_Destroy
  | VC_Viewporter_Destroy | VC_Set_Source int int int int | VC_Set_Destination int int

section \<open>The program\<close>

definition vc_registry_global ::
    "(viewport_call, unit, 'p) client_env \<Rightarrow> u32 \<Rightarrow> string \<Rightarrow> u32 \<Rightarrow>
     (viewport_client, viewport_call, 'p) cstep list" where
  "vc_registry_global env name interface version =
     (if interface = ''wl_compositor'' then
        [bind_global env name ''wl_compositor'' (capped version 1) (\<lambda>p s. s\<lparr>vc_compositor := p\<rparr>)]
      else if interface = ''wp_viewporter'' then
        [bind_global env name ''wp_viewporter'' (capped version 1) (\<lambda>p s. s\<lparr>vc_viewporter := p\<rparr>)]
      else [])"

fun vc_listeners ::
    "(viewport_call, unit, 'p) client_env \<Rightarrow> unit cl_event \<Rightarrow>
     (viewport_client, viewport_call, 'p) cstep list" where
  "vc_listeners env (Global name interface version) = vc_registry_global env name interface version"
| "vc_listeners env (Event e) = []"

definition vc_targets :: "unit cl_event \<Rightarrow> proxy list" where
  "vc_targets e = []"

text \<open>One turn of the loop of \<open>send_operations\<close>, and the loop.\<close>

definition send_operation ::
    "wl_lib \<Rightarrow> (viewport_call, unit, 'p) client_env \<Rightarrow> nat \<Rightarrow> nat \<Rightarrow>
     (viewport_client, viewport_call, 'p) cstep list" where
  "send_operation L env batch i =
    [request (VC_Set_Source (fixed_from_int L 0) (fixed_from_int L 0) (fixed_from_int L 1)
       (fixed_from_int L 1)) (\<lambda>s. [vc_viewport s]),
     request (VC_Set_Destination 3 4) (\<lambda>s. [vc_viewport s]),
     request VC_Surface_Commit (\<lambda>s. [vc_surface s])]
    @ (if (i + 1) mod batch = 0 then [trip env vc_targets (vc_listeners env)] else [])"

definition send_operations ::
    "wl_lib \<Rightarrow> (viewport_call, unit, 'p) client_env \<Rightarrow> u64 \<Rightarrow> u32 \<Rightarrow>
     (viewport_client, viewport_call, 'p) cstep list" where
  "send_operations L env count batch =
     concat (map (send_operation L env (unat batch)) [0..<unat count])
     @ (if unat count mod unat batch \<noteq> 0 then [trip env vc_targets (vc_listeners env)] else [])"

text \<open>\<open>monotonic_ns(&value)\<close>, in 64-bit arithmetic.\<close>

definition monotonic_value :: "int \<times> int \<Rightarrow> u64" where
  "monotonic_value t = word_of_int (fst t) * 1000000000 + word_of_int (snd t)"

definition monotonic_ns ::
    "(int \<times> int) option \<Rightarrow> (u64 \<Rightarrow> viewport_client \<Rightarrow> viewport_client) \<Rightarrow>
     (viewport_client, viewport_call, 'p) cstep list" where
  "monotonic_ns clock place =
     (case clock of
        None \<Rightarrow> [require (\<lambda>s. False)]
      | Some t \<Rightarrow> [assign (place (monotonic_value t))])"

definition viewport_setup ::
    "(viewport_call, unit, 'p) client_env \<Rightarrow> (viewport_client, viewport_call, 'p) cstep list" where
  "viewport_setup env =
    [get_registry env (\<lambda>p s. s\<lparr>vc_registry := p\<rparr>),
     require_set vc_registry,
     add_listener vc_registry,
     trip env vc_targets (vc_listeners env),
     require_set vc_compositor,
     require_set vc_viewporter,
     construct env ''wl_surface'' VC_Create_Surface (\<lambda>s. [vc_compositor s]) (\<lambda>p s. s\<lparr>vc_surface := p\<rparr>),
     require_set vc_surface,
     construct env ''wp_viewport'' VC_Get_Viewport (\<lambda>s. [vc_viewporter s, vc_surface s])
       (\<lambda>p s. s\<lparr>vc_viewport := p\<rparr>),
     require_set vc_viewport,
     trip env vc_targets (vc_listeners env)]"

definition viewport_client_body ::
    "wl_lib \<Rightarrow> (int \<times> int) option \<Rightarrow> (int \<times> int) option \<Rightarrow> u64 \<Rightarrow> u32 \<Rightarrow> u64 \<Rightarrow>
     (viewport_call, unit, 'p) client_env \<Rightarrow> (viewport_client, viewport_call, 'p) cstep list" where
  "viewport_client_body L clock1 clock2 operations batch warmup env =
    viewport_setup env
    @ send_operations L env warmup batch
    @ monotonic_ns clock1 (\<lambda>t s. s\<lparr>vc_start := t\<rparr>)
    @ send_operations L env operations batch
    @ monotonic_ns clock2 (\<lambda>t s. s\<lparr>vc_end := t\<rparr>)
    @ [assign (\<lambda>s. s\<lparr>vc_elapsed_ns := vc_end s - vc_start s\<rparr>),
       assign (\<lambda>s. s\<lparr>vc_operations := operations\<rparr>)]"

text \<open>The cleanup does not flush before it disconnects.\<close>

definition viewport_client_cleanup :: "(viewport_client, viewport_call, 'p) cstep list" where
  "viewport_client_cleanup =
    [destroy_if (Some VC_Viewport_Destroy) vc_viewport,
     destroy_if (Some VC_Surface_Destroy) vc_surface,
     destroy_if (Some VC_Viewporter_Destroy) vc_viewporter,
     destroy_if None vc_compositor,
     destroy_if None vc_registry,
     plain Disconnect]"

definition viewport_benchmark_client_fd ::
    "wl_lib \<Rightarrow> (int \<times> int) option \<Rightarrow> (int \<times> int) option \<Rightarrow> u64 \<Rightarrow> u32 \<Rightarrow> u64 \<Rightarrow> bool \<Rightarrow>
     (viewport_call, unit, 'p) client_env \<Rightarrow> 'p \<Rightarrow> (viewport_client, viewport_call, 'p) client_exit" where
  "viewport_benchmark_client_fd L clock1 clock2 operations batch warmup has_result env p =
     (if batch = 0 \<or> \<not> has_result then Exit_Client EXIT_FAILURE (start_client viewport_client_init p)
      else client_program env (viewport_client_body L clock1 clock2 operations batch warmup env)
             viewport_client_cleanup (start_client viewport_client_init p))"

section \<open>No crash, whatever the server sends\<close>

definition vc_ptrs :: "viewport_client \<Rightarrow> proxy option list" where
  "vc_ptrs s = [vc_registry s, vc_compositor s, vc_viewporter s, vc_surface s, vc_viewport s]"

lemma vc_ptrs_read:
  "vc_registry s = vc_ptrs s ! 0" "vc_compositor s = vc_ptrs s ! 1"
  "vc_viewporter s = vc_ptrs s ! 2" "vc_surface s = vc_ptrs s ! 3" "vc_viewport s = vc_ptrs s ! 4"
  by (simp_all add: vc_ptrs_def)

lemma vc_ptrs_write:
  "vc_ptrs (s\<lparr>vc_registry := x\<rparr>) = (vc_ptrs s)[0 := x]"
  "vc_ptrs (s\<lparr>vc_compositor := x\<rparr>) = (vc_ptrs s)[1 := x]"
  "vc_ptrs (s\<lparr>vc_viewporter := x\<rparr>) = (vc_ptrs s)[2 := x]"
  "vc_ptrs (s\<lparr>vc_surface := x\<rparr>) = (vc_ptrs s)[3 := x]"
  "vc_ptrs (s\<lparr>vc_viewport := x\<rparr>) = (vc_ptrs s)[4 := x]"
  by (simp_all add: vc_ptrs_def)

lemma vc_ptrs_objs:
  "[vc_compositor s] = map (\<lambda>i. vc_ptrs s ! i) [1]"
  "[vc_viewporter s, vc_surface s] = map (\<lambda>i. vc_ptrs s ! i) [2, 3]"
  "[vc_surface s] = map (\<lambda>i. vc_ptrs s ! i) [3]"
  "[vc_viewport s] = map (\<lambda>i. vc_ptrs s ! i) [4]"
  by (simp_all add: vc_ptrs_def)

lemma vc_registry_safe:
  "safe_body vc_ptrs T N (vc_registry_global (reliable d peer) name interface version) N"
  unfolding vc_registry_global_def
  by (rule client_safe vc_ptrs_write vc_ptrs_read conjI impI | split if_split
     | simp add: vc_ptrs_def subset_insertI2; fail)+

lemma vc_listener_safe:
  "safe_body vc_ptrs (set (vc_targets e)) N (vc_listeners (reliable d peer) e) N"
  by (cases "(reliable d peer, e)" rule: vc_listeners.cases; simp add: vc_registry_safe;
      (rule client_safe | simp add: vc_ptrs_def; fail)+)

interpretation viewport_listening: safe_listeners vc_ptrs vc_targets "vc_listeners (reliable d peer)"
  for d peer
  by unfold_locales (rule vc_listener_safe)

lemma vc_ptrs_other:
  "vc_ptrs (s\<lparr>vc_start := t\<rparr>) = vc_ptrs s" "vc_ptrs (s\<lparr>vc_end := t\<rparr>) = vc_ptrs s"
  "vc_ptrs (s\<lparr>vc_elapsed_ns := t\<rparr>) = vc_ptrs s" "vc_ptrs (s\<lparr>vc_operations := t\<rparr>) = vc_ptrs s"
  by (simp_all add: vc_ptrs_def)

lemma send_operation_safe:
  "{3, 4} \<subseteq> N \<Longrightarrow> safe_body vc_ptrs {} N (send_operation L (reliable d peer) batch i) N"
  unfolding send_operation_def append.simps
  by (rule client_safe viewport_listening.safe_body_trip vc_ptrs_read vc_ptrs_objs conjI impI | split if_split
     | simp; fail)+

lemma send_operations_safe:
  assumes "{3, 4} \<subseteq> N"
  shows "safe_body vc_ptrs {} N (send_operations L (reliable d peer) count batch) N"
proof -
  have "safe_body vc_ptrs {} N (concat (map (send_operation L (reliable d peer) b) [0..<n])) N" for b n
    by (induction n) (auto intro: safe_body_append send_operation_safe [OF assms] safe_body_nil)
  moreover have "safe_body vc_ptrs {} N [trip (reliable d peer) vc_targets (vc_listeners (reliable d peer))] N"
    by (rule viewport_listening.safe_body_trip client_safe | simp; fail)+
  ultimately show ?thesis
    unfolding send_operations_def by (auto intro: safe_body_append safe_body_nil)
qed

lemma monotonic_safe:
  assumes "\<And>t s. vc_ptrs (place t s) = vc_ptrs s"
  shows "safe_body vc_ptrs {} N (monotonic_ns clock place) N"
  using assms unfolding monotonic_ns_def
  by (cases clock) (auto intro!: safe_body_require safe_body_assign safe_body_nil)

lemma viewport_client_safe:
  "viewport_benchmark_client_fd L clock1 clock2 operations batch warmup has_result (reliable d peer) p
     \<noteq> Exit_Crashed"
proof -
  have tail: "safe_body vc_ptrs {} {4, 3, 2, 1, 0} (send_operations L (reliable d peer) warmup batch
    @ monotonic_ns clock1 (\<lambda>t s. s\<lparr>vc_start := t\<rparr>)
    @ send_operations L (reliable d peer) operations batch
    @ monotonic_ns clock2 (\<lambda>t s. s\<lparr>vc_end := t\<rparr>)
    @ [assign (\<lambda>s. s\<lparr>vc_elapsed_ns := vc_end s - vc_start s\<rparr>),
       assign (\<lambda>s. s\<lparr>vc_operations := operations\<rparr>)]) {4, 3, 2, 1, 0}"
    by (intro safe_body_append send_operations_safe monotonic_safe safe_body_assign safe_body_nil)
       (simp_all add: vc_ptrs_other)
  have "safe_body vc_ptrs {} {}
     (viewport_client_body L clock1 clock2 operations batch warmup (reliable d peer)) {}"
    unfolding viewport_client_body_def viewport_setup_def append.simps
    by (rule safe_body_shrink [OF tail] client_safe viewport_listening.safe_body_trip vc_ptrs_write
          vc_ptrs_read vc_ptrs_objs
       | simp add: vc_ptrs_def; fail)+
  moreover have "safe_cleanup vc_ptrs {} {} viewport_client_cleanup"
    unfolding viewport_client_cleanup_def
    by (rule client_safe vc_ptrs_read | simp add: vc_ptrs_def; fail)+
  ultimately have "client_program (reliable d peer) (viewport_client_body L clock1 clock2 operations batch
      warmup (reliable d peer)) viewport_client_cleanup (start_client viewport_client_init p) \<noteq> Exit_Crashed"
    by (rule client_program_safe) (simp add: viewport_client_init_def vc_ptrs_def)
  then show ?thesis by (simp add: viewport_benchmark_client_fd_def)
qed

section \<open>Against the server\<close>

fun viewport_translate :: "viewport_call cl_call \<Rightarrow> viewport_request input list" where
  "viewport_translate (Bind name interface version p) =
     (if interface = ''wl_compositor'' then [(VR_Bind_Compositor version (of_nat p), Some p)]
      else if interface = ''wp_viewporter'' then [(VR_Bind_Viewporter version (of_nat p), Some p)]
      else [])"
| "viewport_translate (Construct VC_Create_Surface [r] p) = [(VR_Create_Surface r (of_nat p), Some p)]"
| "viewport_translate (Construct VC_Get_Viewport [r, surface] p) =
     [(VR_Get_Viewport r (of_nat p) surface, Some p)]"
| "viewport_translate (Request (VC_Set_Source x y w h) [r]) = [(VR_Set_Source r x y w h, None)]"
| "viewport_translate (Request (VC_Set_Destination w h) [r]) = [(VR_Set_Destination r w h, None)]"
| "viewport_translate (Request VC_Surface_Commit [r]) = [(VR_Surface_Commit r, None)]"
| "viewport_translate (Destroy_Proxy (Some VC_Viewport_Destroy) p) = [(VR_Viewport_Destroy p, None)]"
| "viewport_translate (Destroy_Proxy (Some VC_Surface_Destroy) p) = [(VR_Surface_Destroy p, None)]"
| "viewport_translate (Destroy_Proxy (Some VC_Viewporter_Destroy) p) = [(VR_Viewporter_Destroy p, None)]"
| "viewport_translate _ = []"

definition viewport_env ::
    "wl_lib \<Rightarrow> (viewport_call, unit, viewport_request input list) client_env" where
  "viewport_env L =
     reliable True (server_peer (viewport_session L) viewport_globals viewport_translate (\<lambda>e. [e]))"

text \<open>What one operation is to the server, and a server that has served \<open>n\<close> of them.\<close>

definition operation_inputs :: "wl_lib \<Rightarrow> viewport_request input list" where
  "operation_inputs L =
    [(VR_Set_Source 4 (fixed_from_int L 0) (fixed_from_int L 0) (fixed_from_int L 1) (fixed_from_int L 1), None),
     (VR_Set_Destination 4 3 4, None), (VR_Surface_Commit 3, None)]"

definition viewport_ready ::
    "nat \<Rightarrow> (viewport_server, viewport_request, unit) session \<Rightarrow> bool" where
  "viewport_ready n ss \<longleftrightarrow>
     ss_live ss 2 = Some ''wp_viewporter'' \<and> ss_live ss 3 = Some ''wl_surface'' \<and>
     ss_live ss 4 = Some ''wp_viewport'' \<and> \<not> terminated ss \<and>
     ss_state ss = \<lparr>vs_surface = Some 3, vs_phase = 0, vs_sources = of_nat n, vs_destinations = of_nat n,
       vs_commits = of_nat n, vs_valid = True, vs_viewport_created = True\<rparr>"

lemma viewport_session_append:
  "viewport_session L (xs @ ys) = (case viewport_session L xs of None \<Rightarrow> None
     | Some ss \<Rightarrow> serve (viewport_handle L) viewport_args viewport_uses ys ss)"
  by (simp add: viewport_session_def serve_append)

lemma viewport_ready_operation:
  assumes "viewport_ready n ss"
  shows "\<exists>ss'. serve (viewport_handle L) viewport_args viewport_uses (operation_inputs L) ss = Some ss' \<and>
    viewport_ready (Suc n) ss' \<and> ss_calls ss' = ss_calls ss"
  using assms
  by (simp add: viewport_ready_def operation_inputs_def deliver_def deliverable_def terminated_def
      viewport_set_source_def viewport_set_destination_def viewport_surface_commit_def add.commute)

text \<open>
  The client between two operations: its surface is object 3 and its viewport object 4, everything it
  has sent makes the server ready, and the server has answered nothing since the last round trip.
\<close>

definition between_operations ::
    "wl_lib \<Rightarrow> nat \<Rightarrow> (viewport_client, viewport_call, viewport_request input list) client \<Rightarrow> bool" where
  "between_operations L n c \<longleftrightarrow>
     vc_registry (cl_state c) = Some 0 \<and> vc_compositor (cl_state c) = Some 1 \<and>
     vc_viewporter (cl_state c) = Some 2 \<and> vc_surface (cl_state c) = Some 3 \<and>
     vc_viewport (cl_state c) = Some 4 \<and>
     cl_live c = [0 \<mapsto> ''wl_registry'', 1 \<mapsto> ''wl_compositor'', 2 \<mapsto> ''wp_viewporter'',
       3 \<mapsto> ''wl_surface'', 4 \<mapsto> ''wp_viewport''] \<and>
     list_all (\<lambda>q. \<not> is_get_registry q) (cl_pending c) \<and>
     (\<exists>ss0 ss. viewport_session L (cl_peer c) = Some ss0 \<and>
        viewport_session L (cl_peer c @ concat (map viewport_translate (cl_pending c))) = Some ss \<and>
        ss_calls ss = ss_calls ss0 \<and> viewport_ready n ss)"

definition send_requests ::
    "wl_lib \<Rightarrow> (viewport_client, viewport_call, viewport_request input list) cstep list" where
  "send_requests L =
    [request (VC_Set_Source (fixed_from_int L 0) (fixed_from_int L 0) (fixed_from_int L 1)
       (fixed_from_int L 1)) (\<lambda>s. [vc_viewport s]),
     request (VC_Set_Destination 3 4) (\<lambda>s. [vc_viewport s]),
     request VC_Surface_Commit (\<lambda>s. [vc_surface s])]"

lemma send_requests_step:
  assumes "between_operations L n c"
  shows "\<exists>c'. attempt (send_requests L) c = Ran True c' \<and> between_operations L (Suc n) c'"
proof -
  define qs where "qs =
    [Request (VC_Set_Source (fixed_from_int L 0) (fixed_from_int L 0) (fixed_from_int L 1)
       (fixed_from_int L 1)) [4], Request (VC_Set_Destination 3 4) [4], Request VC_Surface_Commit [3]]"
  define c' where "c' = c\<lparr>cl_pending := cl_pending c @ qs, cl_calls := cl_calls c @ qs\<rparr>"
  have run: "attempt (send_requests L) c = Ran True c'"
    using assms by (simp add: send_requests_def between_operations_def client_step_defs c'_def qs_def)
  have tr: "concat (map viewport_translate qs) = operation_inputs L"
    by (simp add: qs_def operation_inputs_def)
  from assms obtain ss0 ss where ss: "viewport_session L (cl_peer c) = Some ss0"
    "viewport_session L (cl_peer c @ concat (map viewport_translate (cl_pending c))) = Some ss"
    "ss_calls ss = ss_calls ss0" "viewport_ready n ss"
    by (auto simp: between_operations_def)
  from viewport_ready_operation [OF ss(4), of L] obtain ss' where
    "serve (viewport_handle L) viewport_args viewport_uses (operation_inputs L) ss = Some ss'"
    "viewport_ready (Suc n) ss'" "ss_calls ss' = ss_calls ss" by blast
  with ss tr have "viewport_session L (cl_peer c @ concat (map viewport_translate (cl_pending c')))
      = Some ss'" "ss_calls ss' = ss_calls ss0"
    using viewport_session_append [of L "cl_peer c @ concat (map viewport_translate (cl_pending c))"
        "operation_inputs L"]
    by (simp_all add: c'_def)
  moreover have "list_all (\<lambda>q. \<not> is_get_registry q) (cl_pending c')"
    using assms by (simp add: between_operations_def c'_def qs_def)
  ultimately have "between_operations L (Suc n) c'"
    using assms ss \<open>viewport_ready (Suc n) ss'\<close> by (auto simp: between_operations_def c'_def)
  with run show ?thesis by blast
qed

lemma send_trip_step:
  assumes "between_operations L n c"
  shows "\<exists>c'. trip (viewport_env L) vc_targets (vc_listeners (viewport_env L)) c = Ran True c' \<and>
    between_operations L n c' \<and> cl_pending c' = []"
proof -
  define ins where "ins = cl_peer c @ concat (map viewport_translate (cl_pending c))"
  define c' where "c' = c\<lparr>cl_pending := [], cl_calls := cl_calls c @ [Sync], cl_peer := ins\<rparr>"
  from assms obtain ss0 ss where ss: "viewport_session L (cl_peer c) = Some ss0"
    "viewport_session L ins = Some ss" "ss_calls ss = ss_calls ss0" "viewport_ready n ss"
    by (auto simp: between_operations_def ins_def)
  have "\<not> list_ex is_get_registry (cl_pending c @ [Sync])"
    using assms by (auto simp: between_operations_def list_ex_iff list_all_iff)
  then have "ce_peer (viewport_env L) (cl_pending c @ [Sync]) (cl_peer c) = ([], True, ins)"
    using ss by (simp add: viewport_env_def server_peer_def Let_def ins_def)
  then have "trip (viewport_env L) vc_targets (vc_listeners (viewport_env L)) c = Ran True c'"
    by (simp add: trip_def await_def c'_def)
  moreover have "between_operations L n c'"
    using assms ss by (auto simp: between_operations_def c'_def)
  ultimately show ?thesis by (auto simp: c'_def)
qed

text \<open>The loop: after \<open>k\<close> turns \<open>k\<close> more operations are sent, and nothing is pending after a full batch.\<close>

lemma send_loop:
  assumes "between_operations L n c" and "cl_pending c = []" and "batch > 0"
  shows "\<exists>c'. attempt (concat (map (send_operation L (viewport_env L) batch) [0..<k])) c = Ran True c' \<and>
    between_operations L (n + k) c' \<and> (k mod batch = 0 \<longrightarrow> cl_pending c' = [])"
proof (induction k)
  case 0
  with assms show ?case by simp
next
  case (Suc k)
  then obtain c1 where c1:
    "attempt (concat (map (send_operation L (viewport_env L) batch) [0..<k])) c = Ran True c1"
    "between_operations L (n + k) c1" by blast
  from send_requests_step [OF c1(2)] obtain c2 where c2: "attempt (send_requests L) c1 = Ran True c2"
    "between_operations L (n + Suc k) c2" by auto
  from send_trip_step [OF c2(2)] obtain c3 where
    c3: "trip (viewport_env L) vc_targets (vc_listeners (viewport_env L)) c2 = Ran True c3"
    "between_operations L (n + Suc k) c3" "cl_pending c3 = []" by blast
  define f where "f = send_operation L (viewport_env L) batch"
  define t where "t = trip (viewport_env L) vc_targets (vc_listeners (viewport_env L))"
  have op: "f k = send_requests L @ (if Suc k mod batch = 0 then [t] else [])"
    by (simp only: f_def t_def send_operation_def send_requests_def Suc_eq_plus1)
  have "concat (map f [0..<Suc k]) = concat (map f [0..<k]) @ f k" by simp
  then have "attempt (concat (map f [0..<Suc k])) c = attempt (f k) c1"
    using c1(1) by (simp only: attempt_append f_def) simp
  also have "\<dots> = attempt (if Suc k mod batch = 0 then [t] else []) c2"
    using c2(1) by (simp only: op attempt_append) simp
  finally show ?case
    using c2(2) c3 unfolding f_def [symmetric] t_def [symmetric]
    by (cases "Suc k mod batch = 0") simp_all
qed

lemma send_operations_run:
  assumes "between_operations L n c" and "cl_pending c = []" and "batch \<noteq> 0"
  shows "\<exists>c'. attempt (send_operations L (viewport_env L) count batch) c = Ran True c' \<and>
    between_operations L (n + unat count) c' \<and> cl_pending c' = []"
proof -
  have "unat batch > 0" using assms(3) by (simp add: unat_gt_0)
  from send_loop [OF assms(1,2) this, of "unat count"] obtain c1 where
    c1: "attempt (concat (map (send_operation L (viewport_env L) (unat batch)) [0..<unat count])) c = Ran True c1"
    "between_operations L (n + unat count) c1" "unat count mod unat batch = 0 \<longrightarrow> cl_pending c1 = []"
    by (elim exE conjE) (rule that)
  from send_trip_step [OF c1(2)] obtain c2 where
    c2: "trip (viewport_env L) vc_targets (vc_listeners (viewport_env L)) c1 = Ran True c2"
    "between_operations L (n + unat count) c2" "cl_pending c2 = []" by blast
  define t where "t = trip (viewport_env L) vc_targets (vc_listeners (viewport_env L))"
  define r where "r = unat count mod unat batch"
  have "attempt (send_operations L (viewport_env L) count batch) c =
      attempt (if r \<noteq> 0 then [t] else []) c1"
    using c1(1) by (simp only: send_operations_def attempt_append r_def t_def) simp
  then show ?thesis
    using c1(2,3) c2 unfolding t_def [symmetric] r_def [symmetric] by (cases "r = 0") simp_all
qed

lemma viewport_setup_run:
  "\<exists>c. attempt (viewport_setup (viewport_env L)) (start_client viewport_client_init []) = Ran True c \<and>
     between_operations L 0 c \<and> cl_pending c = []"
  by (simp add: client_run_defs viewport_setup_def viewport_env_def viewport_client_init_def
      vc_registry_global_def vc_targets_def viewport_session_def viewport_globals_def
      viewport_handler_defs viewport_server_init_def between_operations_def viewport_ready_def
      fun_eq_iff numeral_2_eq_2 numeral_3_eq_3 eval_nat_numeral)

text \<open>A setter that leaves the pointers alone leaves the client between two operations.\<close>

lemma between_operations_assign:
  assumes "between_operations L n c" and "\<And>s. vc_ptrs (f s) = vc_ptrs s"
  shows "between_operations L n (c\<lparr>cl_state := f (cl_state c)\<rparr>)"
  using assms(1) assms(2) [of "cl_state c"] by (simp add: between_operations_def vc_ptrs_def)

lemma viewport_body_run:
  assumes "batch \<noteq> 0"
  shows "\<exists>c. attempt (viewport_client_body L (Some t1) (Some t2) operations batch warmup (viewport_env L))
      (start_client viewport_client_init []) = Ran True c \<and>
    between_operations L (unat warmup + unat operations) c \<and> cl_pending c = [] \<and>
    vc_operations (cl_state c) = operations"
proof -
  let ?env = "viewport_env L"
  from viewport_setup_run obtain c0 where c0:
    "attempt (viewport_setup ?env) (start_client viewport_client_init []) = Ran True c0"
    "between_operations L 0 c0" "cl_pending c0 = []" by blast
  from send_operations_run [OF c0(2,3) assms, of warmup] obtain c1 where c1:
    "attempt (send_operations L ?env warmup batch) c0 = Ran True c1"
    "between_operations L (unat warmup) c1" "cl_pending c1 = []" by auto
  define c2 where "c2 = c1\<lparr>cl_state := (cl_state c1)\<lparr>vc_start := monotonic_value t1\<rparr>\<rparr>"
  have c2: "attempt (monotonic_ns (Some t1) (\<lambda>t s. s\<lparr>vc_start := t\<rparr>)) c1 = Ran True c2"
    "between_operations L (unat warmup) c2" "cl_pending c2 = []"
    using c1 between_operations_assign [OF c1(2), of "\<lambda>s. s\<lparr>vc_start := monotonic_value t1\<rparr>"]
    by (simp_all add: c2_def monotonic_ns_def assign_def vc_ptrs_other)
  from send_operations_run [OF c2(2,3) assms, of operations] obtain c3 where c3:
    "attempt (send_operations L ?env operations batch) c2 = Ran True c3"
    "between_operations L (unat warmup + unat operations) c3" "cl_pending c3 = []" by auto
  define f :: "viewport_client \<Rightarrow> viewport_client" where "f = (\<lambda>s. s\<lparr>vc_end := monotonic_value t2,
    vc_elapsed_ns := monotonic_value t2 - vc_start s, vc_operations := operations\<rparr>)"
  have c4: "attempt (monotonic_ns (Some t2) (\<lambda>t s. s\<lparr>vc_end := t\<rparr>) @
      [assign (\<lambda>s. s\<lparr>vc_elapsed_ns := vc_end s - vc_start s\<rparr>), assign (\<lambda>s. s\<lparr>vc_operations := operations\<rparr>)])
      c3 = Ran True (c3\<lparr>cl_state := f (cl_state c3)\<rparr>)"
    by (simp add: monotonic_ns_def assign_def f_def)
  have "between_operations L (unat warmup + unat operations) (c3\<lparr>cl_state := f (cl_state c3)\<rparr>)"
    by (rule between_operations_assign [OF c3(2)]) (simp add: f_def vc_ptrs_def)
  moreover have "attempt (viewport_client_body L (Some t1) (Some t2) operations batch warmup ?env)
      (start_client viewport_client_init []) = Ran True (c3\<lparr>cl_state := f (cl_state c3)\<rparr>)"
    unfolding viewport_client_body_def attempt_append
    using c0(1) c1(1) c2(1) c3(1) c4 [unfolded attempt_append] by simp
  ultimately show ?thesis using c3(3) by (auto simp: f_def)
qed

text \<open>The cleanup, and a server that gets any part of what it sends before the connection is gone.\<close>

lemma viewport_cleanup_run:
  assumes "between_operations L n c" and "cl_pending c = []"
  shows "\<exists>c'. attempt viewport_client_cleanup c = Ran True c' \<and> cl_live c' = Map.empty \<and>
    cl_state c' = cl_state c \<and> cl_peer c' = cl_peer c \<and>
    concat (map viewport_translate (cl_pending c')) =
      [(VR_Viewport_Destroy 4, None), (VR_Surface_Destroy 3, None), (VR_Viewporter_Destroy 2, None)]"
  using assms
  by (simp add: viewport_client_cleanup_def between_operations_def client_step_defs fun_eq_iff)

lemma viewport_server_finishes:
  assumes "viewport_session L ins = Some ss" and "viewport_ready n ss"
  shows "exits_with EXIT_SUCCESS (viewport_server_fd demo_env L (ins @
    take k [(VR_Viewport_Destroy 4, None), (VR_Surface_Destroy 3, None), (VR_Viewporter_Destroy 2, None)] @
    [(VR_Client_Destroyed, None)]))"
proof -
  have "k = 0 \<or> k = 1 \<or> k = 2 \<or> k \<ge> 3" by auto
  then show ?thesis
    using assms
    by (elim disjE)
       (simp_all add: viewport_server_fd_def viewport_session_append viewport_ready_def deliver_def
          deliverable_def terminated_def viewport_handler_defs exits_with_def server_program_def
          server_main_def env_ok_def demo_env_def viewport_globals_def viewport_status_def
          numeral_2_eq_2)
qed

section \<open>Properties\<close>

text \<open>C11: for every number of operations, of warm-up operations and every batch size: with a batch of
  0 the benchmark client fails at once; otherwise, against the benchmark server, it exits with success
  and destroys every object it created, and it reports the operations it was asked for; the server has
  then counted the warm-up and the measured operations, modulo 2^64, and exits with success however
  much of the client's last destructor requests it still receives. And whatever the server sends, the
  clock answers or the numbers are, the client never uses a NULL or destroyed object.\<close>

theorem viewport_benchmark_interoperates:
  "viewport_benchmark_client_fd L clock1 clock2 operations batch warmup has_result (reliable display peer) p
     \<noteq> Exit_Crashed \<and>
   (if batch = 0
    then viewport_benchmark_client_fd L clock1 clock2 operations batch warmup has_result env q
           = Exit_Client EXIT_FAILURE (start_client viewport_client_init q)
    else \<exists>c ss. viewport_benchmark_client_fd L (Some t1) (Some t2) operations batch warmup True
             (viewport_env L) [] = Exit_Client EXIT_SUCCESS c \<and>
           cl_live c = Map.empty \<and> vc_operations (cl_state c) = operations \<and>
           viewport_session L (cl_peer c) = Some ss \<and> vs_commits (ss_state ss) = warmup + operations \<and>
           (\<forall>k. exits_with EXIT_SUCCESS (viewport_server_fd demo_env L
              (cl_peer c @ take k (concat (map viewport_translate (cl_pending c))) @
               [(VR_Client_Destroyed, None)]))))"
proof (cases "batch = 0")
  case True
  then show ?thesis
    using viewport_client_safe by (simp add: viewport_benchmark_client_fd_def)
next
  case False
  from viewport_body_run [OF this] obtain c where c:
    "attempt (viewport_client_body L (Some t1) (Some t2) operations batch warmup (viewport_env L))
      (start_client viewport_client_init []) = Ran True c"
    "between_operations L (unat warmup + unat operations) c" "cl_pending c = []"
    "vc_operations (cl_state c) = operations" by blast
  from viewport_cleanup_run [OF c(2,3)] obtain c' where c': "attempt viewport_client_cleanup c = Ran True c'"
    "cl_live c' = Map.empty" "cl_state c' = cl_state c" "cl_peer c' = cl_peer c"
    "concat (map viewport_translate (cl_pending c')) =
      [(VR_Viewport_Destroy 4, None), (VR_Surface_Destroy 3, None), (VR_Viewporter_Destroy 2, None)]"
    by blast
  from c(2,3) obtain ss where ss: "viewport_session L (cl_peer c) = Some ss"
    "viewport_ready (unat warmup + unat operations) ss"
    by (auto simp: between_operations_def)
  then have "vs_commits (ss_state ss) = warmup + operations" by (simp add: viewport_ready_def)
  moreover have "viewport_benchmark_client_fd L (Some t1) (Some t2) operations batch warmup True
      (viewport_env L) [] = Exit_Client EXIT_SUCCESS c'"
    using False c(1) c'(1) by (simp add: viewport_benchmark_client_fd_def client_program_def viewport_env_def)
  ultimately show ?thesis
    using False ss(1) c' c(4) viewport_server_finishes [OF ss]
      viewport_client_safe [of L clock1 clock2 operations batch warmup has_result display peer p]
    by auto
qed

end
