(* ===== verification/Shm_Client.thy ===== *)
theory Shm_Client
  imports Client_Safety Shm_Server
begin

text \<open>
  The libwayland shared-memory client (\<open>src/bench/shm-interop-client.c\<close>): it draws one frame with a
  buffer in a memory file and waits for the buffer's release and the frame's callback, destroys
  everything, and leaves a second pool and buffer for the disconnection to clean up. \<open>memory_os\<close> is what
  the kernel answers for the files and \<open>flushed\<close> whether the last flush succeeds.

  The listener of the frame callback destroys it, but the program forgets the callback only after its
  checks: when one of them fails the cleanup destroys the callback again.
\<close>

record shm_client =
  smc_shm :: "proxy option"
  smc_compositor :: "proxy option"
  smc_viewporter :: "proxy option"
  smc_format_seen :: bool
  smc_buffer_released :: bool
  smc_frame_done :: bool
  smc_registry :: "proxy option"
  smc_pool :: "proxy option"
  smc_buffer :: "proxy option"
  smc_surface :: "proxy option"
  smc_region :: "proxy option"
  smc_frame :: "proxy option"
  smc_viewport :: "proxy option"
  smc_memory_fd :: fd_t

definition shm_client_init :: shm_client where
  "shm_client_init = \<lparr>smc_shm = None, smc_compositor = None, smc_viewporter = None,
     smc_format_seen = False, smc_buffer_released = False, smc_frame_done = False, smc_registry = None,
     smc_pool = None, smc_buffer = None, smc_surface = None, smc_region = None, smc_frame = None,
     smc_viewport = None, smc_memory_fd = -1\<rparr>"

datatype shm_call =
    SC_Create_Pool fd_t int | SC_Pool_Destroy | SC_Create_Buffer int int int int u32
  | SC_Buffer_Destroy | SC_Create_Surface | SC_Surface_Destroy | SC_Get_Viewport
  | SC_Viewport_Destroy | SC_Viewporter_Destroy | SC_Set_Source int int int int
  | SC_Set_Destination int int | SC_Create_Region | SC_Region_Destroy
  | SC_Region_Add int int int int | SC_Region_Subtract int int int int | SC_Attach int int
  | SC_Damage int int int int | SC_Damage_Buffer int int int int | SC_Set_Opaque_Region
  | SC_Set_Input_Region | SC_Set_Transform int | SC_Set_Scale int | SC_Offset int int | SC_Frame
  | SC_Commit

section \<open>Listeners\<close>

definition smc_buffer_release :: "shm_client \<Rightarrow> shm_client" where
  "smc_buffer_release s = s\<lparr>smc_buffer_released := True\<rparr>"

definition smc_frame_callback :: "proxy \<Rightarrow> u32 \<Rightarrow> (shm_client, shm_call, 'p) cstep list" where
  "smc_frame_callback callback time =
     [assign (\<lambda>s. if time = 123 then s\<lparr>smc_frame_done := True\<rparr> else s),
      destroy_proxy None (\<lambda>s. Some callback)]"

definition smc_shm_format :: "wl_lib \<Rightarrow> u32 \<Rightarrow> shm_client \<Rightarrow> shm_client" where
  "smc_shm_format L format s = (if format = shm_argb8888 L then s\<lparr>smc_format_seen := True\<rparr> else s)"

definition smc_registry_global ::
    "(shm_call, shm_event, 'p) client_env \<Rightarrow> u32 \<Rightarrow> string \<Rightarrow> u32 \<Rightarrow>
     (shm_client, shm_call, 'p) cstep list" where
  "smc_registry_global env name interface version =
     (if interface = ''wl_shm'' then
        [bind_global env name ''wl_shm'' (capped version 1) (\<lambda>p s. s\<lparr>smc_shm := p\<rparr>),
         add_listener smc_shm]
      else if interface = ''wl_compositor'' then
        [bind_global env name ''wl_compositor'' (capped version 5) (\<lambda>p s. s\<lparr>smc_compositor := p\<rparr>)]
      else if interface = ''wp_viewporter'' then
        [bind_global env name ''wp_viewporter'' (capped version 1) (\<lambda>p s. s\<lparr>smc_viewporter := p\<rparr>)]
      else [])"

fun smc_listeners ::
    "wl_lib \<Rightarrow> (shm_call, shm_event, 'p) client_env \<Rightarrow> shm_event cl_event \<Rightarrow>
     (shm_client, shm_call, 'p) cstep list" where
  "smc_listeners L env (Global name interface version) = smc_registry_global env name interface version"
| "smc_listeners L env (Event (SE_Format r format)) = [assign (smc_shm_format L format)]"
| "smc_listeners L env (Event (SE_Release r)) = [assign smc_buffer_release]"
| "smc_listeners L env (Event (SE_Done r time)) = smc_frame_callback r time"

fun smc_targets :: "shm_event cl_event \<Rightarrow> proxy list" where
  "smc_targets (Global name interface version) = []"
| "smc_targets (Event e) = map the (shm_uses e)"

section \<open>The program\<close>

text \<open>The opening of the two stages: a memory file of 4096 bytes and a pool on it.\<close>

definition smc_open_pool ::
    "memory_os \<Rightarrow> nat \<Rightarrow> (shm_call, shm_event, 'p) client_env \<Rightarrow> (shm_client, shm_call, 'p) cstep list" where
  "smc_open_pool os k env =
    [assign (\<lambda>s. s\<lparr>smc_memory_fd := os_memfd os k\<rparr>),
     require (\<lambda>s. \<not> smc_memory_fd s < 0 \<and> os_truncated os k),
     construct_of env ''wl_shm_pool'' (\<lambda>s. SC_Create_Pool (smc_memory_fd s) 4096) (\<lambda>s. [smc_shm s])
       (\<lambda>p s. s\<lparr>smc_pool := p\<rparr>),
     close_fd smc_memory_fd,
     assign (\<lambda>s. s\<lparr>smc_memory_fd := -1\<rparr>),
     require_set smc_pool]"

definition shm_client_body ::
    "wl_lib \<Rightarrow> memory_os \<Rightarrow> bool \<Rightarrow> (shm_call, shm_event, 'p) client_env \<Rightarrow>
     (shm_client, shm_call, 'p) cstep list" where
  "shm_client_body L os flushed env =
    [get_registry env (\<lambda>p s. s\<lparr>smc_registry := p\<rparr>),
     add_listener smc_registry,
     trip env smc_targets (smc_listeners L env),
     require_set smc_shm,
     require_set smc_compositor,
     require_set smc_viewporter,
     trip env smc_targets (smc_listeners L env),
     require smc_format_seen]
    @ smc_open_pool os 0 env @
    [construct env ''wl_buffer'' (SC_Create_Buffer 0 2 2 8 (shm_argb8888 L)) (\<lambda>s. [smc_pool s])
       (\<lambda>p s. s\<lparr>smc_buffer := p\<rparr>),
     construct env ''wl_surface'' SC_Create_Surface (\<lambda>s. [smc_compositor s]) (\<lambda>p s. s\<lparr>smc_surface := p\<rparr>),
     require_set smc_buffer,
     require_set smc_surface,
     construct env ''wp_viewport'' SC_Get_Viewport (\<lambda>s. [smc_viewporter s, smc_surface s])
       (\<lambda>p s. s\<lparr>smc_viewport := p\<rparr>),
     require_set smc_viewport,
     add_listener smc_buffer,
     construct env ''wl_region'' SC_Create_Region (\<lambda>s. [smc_compositor s]) (\<lambda>p s. s\<lparr>smc_region := p\<rparr>),
     require_set smc_region,
     request (SC_Region_Add 1 2 3 4) (\<lambda>s. [smc_region s]),
     request (SC_Region_Subtract 5 6 7 8) (\<lambda>s. [smc_region s]),
     request (SC_Attach 0 0) (\<lambda>s. [smc_surface s, smc_buffer s]),
     request (SC_Damage 1 2 3 4) (\<lambda>s. [smc_surface s]),
     request SC_Set_Opaque_Region (\<lambda>s. [smc_surface s, smc_region s]),
     request SC_Set_Input_Region (\<lambda>s. [smc_surface s, smc_region s]),
     request (SC_Set_Transform (transform_90 L)) (\<lambda>s. [smc_surface s]),
     request (SC_Set_Scale 2) (\<lambda>s. [smc_surface s]),
     request (SC_Set_Source (fixed_from_int L 0) (fixed_from_int L 0) (fixed_from_int L 1)
       (fixed_from_int L 1)) (\<lambda>s. [smc_viewport s]),
     request (SC_Set_Destination 3 4) (\<lambda>s. [smc_viewport s]),
     request (SC_Offset 2 (-3)) (\<lambda>s. [smc_surface s]),
     construct env ''wl_callback'' SC_Frame (\<lambda>s. [smc_surface s]) (\<lambda>p s. s\<lparr>smc_frame := p\<rparr>),
     require_set smc_frame,
     add_listener smc_frame,
     request (SC_Damage_Buffer 5 6 7 8) (\<lambda>s. [smc_surface s]),
     request SC_Commit (\<lambda>s. [smc_surface s]),
     trip env smc_targets (smc_listeners L env),
     require (\<lambda>s. smc_buffer_released s \<and> smc_frame_done s),
     forget (\<lambda>s. s\<lparr>smc_frame := None\<rparr>),
     destroy_proxy (Some SC_Region_Destroy) smc_region,
     assign (\<lambda>s. s\<lparr>smc_region := None\<rparr>),
     destroy_proxy (Some SC_Viewport_Destroy) smc_viewport,
     assign (\<lambda>s. s\<lparr>smc_viewport := None\<rparr>),
     destroy_proxy (Some SC_Surface_Destroy) smc_surface,
     assign (\<lambda>s. s\<lparr>smc_surface := None\<rparr>),
     destroy_proxy (Some SC_Buffer_Destroy) smc_buffer,
     assign (\<lambda>s. s\<lparr>smc_buffer := None\<rparr>),
     destroy_proxy (Some SC_Pool_Destroy) smc_pool,
     assign (\<lambda>s. s\<lparr>smc_pool := None\<rparr>),
     trip env smc_targets (smc_listeners L env)]
    @ smc_open_pool os 1 env @
    [construct env ''wl_buffer'' (SC_Create_Buffer 0 2 2 8 (shm_argb8888 L)) (\<lambda>s. [smc_pool s])
       (\<lambda>p s. s\<lparr>smc_buffer := p\<rparr>),
     require_set smc_buffer,
     plain Flush,
     require (\<lambda>s. flushed),
     forget (\<lambda>s. s\<lparr>smc_buffer := None\<rparr>),
     forget (\<lambda>s. s\<lparr>smc_pool := None\<rparr>)]"

definition shm_client_cleanup :: "(shm_client, shm_call, 'p) cstep list" where
  "shm_client_cleanup =
    [close_if smc_memory_fd,
     destroy_if (Some SC_Buffer_Destroy) smc_buffer,
     destroy_if (Some SC_Pool_Destroy) smc_pool,
     destroy_if None smc_frame,
     destroy_if (Some SC_Viewport_Destroy) smc_viewport,
     destroy_if (Some SC_Surface_Destroy) smc_surface,
     destroy_if (Some SC_Region_Destroy) smc_region,
     destroy_if None smc_shm,
     destroy_if None smc_compositor,
     destroy_if (Some SC_Viewporter_Destroy) smc_viewporter,
     destroy_proxy None smc_registry,
     plain Flush,
     plain Disconnect]"

definition shm_client_fd ::
    "wl_lib \<Rightarrow> memory_os \<Rightarrow> bool \<Rightarrow> (shm_call, shm_event, 'p) client_env \<Rightarrow> 'p \<Rightarrow>
     (shm_client, shm_call, 'p) client_exit" where
  "shm_client_fd L os flushed env p = client_program env (shm_client_body L os flushed env)
     shm_client_cleanup (start_client shm_client_init p)"

section \<open>Against the server\<close>

fun shm_constructed :: "shm_call \<Rightarrow> resource list \<Rightarrow> proxy \<Rightarrow> shm_request input list" where
  "shm_constructed (SC_Create_Pool fd sz) rs p = [(SR_Create_Pool (rs ! 0) (of_nat p) fd FD_CLOEXEC sz, Some p)]"
| "shm_constructed (SC_Create_Buffer offset w h stride format) rs p =
     [(SR_Create_Buffer (rs ! 0) (of_nat p) offset w h stride format, Some p)]"
| "shm_constructed SC_Create_Surface rs p = [(SR_Create_Surface (rs ! 0) (of_nat p), Some p)]"
| "shm_constructed SC_Get_Viewport rs p = [(SR_Get_Viewport (rs ! 0) (of_nat p) (rs ! 1), Some p)]"
| "shm_constructed SC_Create_Region rs p = [(SR_Create_Region (rs ! 0) (of_nat p), Some p)]"
| "shm_constructed SC_Frame rs p = [(SR_Frame (rs ! 0) (of_nat p), Some p)]"
| "shm_constructed _ rs p = []"

fun shm_requested :: "shm_call \<Rightarrow> resource list \<Rightarrow> shm_request list" where
  "shm_requested (SC_Region_Add x y w h) rs = [SR_Region_Add (rs ! 0) x y w h]"
| "shm_requested (SC_Region_Subtract x y w h) rs = [SR_Region_Subtract (rs ! 0) x y w h]"
| "shm_requested (SC_Attach x y) rs = [SR_Attach (rs ! 0) (Some (rs ! 1)) x y]"
| "shm_requested (SC_Damage x y w h) rs = [SR_Damage (rs ! 0) x y w h]"
| "shm_requested (SC_Damage_Buffer x y w h) rs = [SR_Damage_Buffer (rs ! 0) x y w h]"
| "shm_requested SC_Set_Opaque_Region rs = [SR_Set_Opaque_Region (rs ! 0) (Some (rs ! 1))]"
| "shm_requested SC_Set_Input_Region rs = [SR_Set_Input_Region (rs ! 0) (Some (rs ! 1))]"
| "shm_requested (SC_Set_Transform t) rs = [SR_Set_Buffer_Transform (rs ! 0) t]"
| "shm_requested (SC_Set_Scale sc) rs = [SR_Set_Buffer_Scale (rs ! 0) sc]"
| "shm_requested (SC_Set_Source x y w h) rs = [SR_Viewport_Set_Source (rs ! 0) x y w h]"
| "shm_requested (SC_Set_Destination w h) rs = [SR_Viewport_Set_Destination (rs ! 0) w h]"
| "shm_requested (SC_Offset x y) rs = [SR_Offset (rs ! 0) x y]"
| "shm_requested SC_Commit rs = [SR_Commit (rs ! 0)]"
| "shm_requested SC_Region_Destroy rs = [SR_Region_Destroy (rs ! 0)]"
| "shm_requested SC_Viewport_Destroy rs = [SR_Viewport_Destroy (rs ! 0)]"
| "shm_requested SC_Surface_Destroy rs = [SR_Surface_Destroy (rs ! 0)]"
| "shm_requested SC_Buffer_Destroy rs = [SR_Buffer_Destroy (rs ! 0)]"
| "shm_requested SC_Pool_Destroy rs = [SR_Pool_Destroy (rs ! 0)]"
| "shm_requested SC_Viewporter_Destroy rs = [SR_Viewporter_Destroy (rs ! 0)]"
| "shm_requested _ rs = []"

fun shm_translate :: "shm_call cl_call \<Rightarrow> shm_request input list" where
  "shm_translate (Bind name interface version p) =
     (if interface = ''wl_shm'' then [(SR_Bind_Shm version (of_nat p), Some p)]
      else if interface = ''wl_compositor'' then [(SR_Bind_Compositor version (of_nat p), Some p)]
      else if interface = ''wp_viewporter'' then [(SR_Bind_Viewporter version (of_nat p), Some p)]
      else [])"
| "shm_translate (Construct q rs p) = shm_constructed q rs p"
| "shm_translate (Request q rs) = map (\<lambda>req. (req, None)) (shm_requested q rs)"
| "shm_translate (Destroy_Proxy (Some q) p) = map (\<lambda>req. (req, None)) (shm_requested q [p])"
| "shm_translate Disconnect = [(SR_Client_Destroyed, None)]"
| "shm_translate _ = []"

text \<open>The server as it is, and one whose frames are done at another time.\<close>

definition shm_env :: "wl_lib \<Rightarrow> (shm_call, shm_event, shm_request input list) client_env" where
  "shm_env L = reliable True (server_peer (shm_session L) shm_globals shm_translate (\<lambda>e. [e]))"

fun retimed :: "shm_event \<Rightarrow> shm_event list" where
  "retimed (SE_Done r time) = [SE_Done r (time + 1)]"
| "retimed e = [e]"

definition shm_late_env :: "wl_lib \<Rightarrow> (shm_call, shm_event, shm_request input list) client_env" where
  "shm_late_env L = reliable True (server_peer (shm_session L) shm_globals shm_translate retimed)"

lemmas shm_client_defs = shm_client_init_def smc_buffer_release_def smc_frame_callback_def
  smc_shm_format_def smc_registry_global_def smc_open_pool_def

section \<open>No crash without a frame event\<close>

text \<open>What another end sends, less the frame events.\<close>

fun is_frame_done :: "shm_event cl_event \<Rightarrow> bool" where
  "is_frame_done (Event (SE_Done r time)) = True"
| "is_frame_done e = False"

definition without_frames ::
    "('c \<Rightarrow> 'p \<Rightarrow> shm_event cl_event list \<times> bool \<times> 'p) \<Rightarrow> 'c \<Rightarrow> 'p \<Rightarrow> shm_event cl_event list \<times> bool \<times> 'p" where
  "without_frames = filtered (\<lambda>e. \<not> is_frame_done e)"

definition smc_ptrs :: "shm_client \<Rightarrow> proxy option list" where
  "smc_ptrs s = [smc_registry s, smc_shm s, smc_compositor s, smc_viewporter s, smc_pool s, smc_buffer s, smc_surface s, smc_region s, smc_frame s, smc_viewport s]"

lemma smc_ptrs_read:
  "smc_registry s = smc_ptrs s ! 0" "smc_shm s = smc_ptrs s ! 1"
  "smc_compositor s = smc_ptrs s ! 2" "smc_viewporter s = smc_ptrs s ! 3"
  "smc_pool s = smc_ptrs s ! 4" "smc_buffer s = smc_ptrs s ! 5" "smc_surface s = smc_ptrs s ! 6"
  "smc_region s = smc_ptrs s ! 7" "smc_frame s = smc_ptrs s ! 8" "smc_viewport s = smc_ptrs s ! 9"
  by (simp_all add: smc_ptrs_def)

lemma smc_ptrs_write:
  "smc_ptrs (s\<lparr>smc_registry := x\<rparr>) = (smc_ptrs s)[0 := x]"
  "smc_ptrs (s\<lparr>smc_shm := x\<rparr>) = (smc_ptrs s)[1 := x]"
  "smc_ptrs (s\<lparr>smc_compositor := x\<rparr>) = (smc_ptrs s)[2 := x]"
  "smc_ptrs (s\<lparr>smc_viewporter := x\<rparr>) = (smc_ptrs s)[3 := x]"
  "smc_ptrs (s\<lparr>smc_pool := x\<rparr>) = (smc_ptrs s)[4 := x]"
  "smc_ptrs (s\<lparr>smc_buffer := x\<rparr>) = (smc_ptrs s)[5 := x]"
  "smc_ptrs (s\<lparr>smc_surface := x\<rparr>) = (smc_ptrs s)[6 := x]"
  "smc_ptrs (s\<lparr>smc_region := x\<rparr>) = (smc_ptrs s)[7 := x]"
  "smc_ptrs (s\<lparr>smc_frame := x\<rparr>) = (smc_ptrs s)[8 := x]"
  "smc_ptrs (s\<lparr>smc_viewport := x\<rparr>) = (smc_ptrs s)[9 := x]"
  by (simp_all add: smc_ptrs_def)

lemma smc_ptrs_objs:
  "[smc_shm s] = map (\<lambda>i. smc_ptrs s ! i) [1]"
  "[smc_pool s] = map (\<lambda>i. smc_ptrs s ! i) [4]"
  "[smc_compositor s] = map (\<lambda>i. smc_ptrs s ! i) [2]"
  "[smc_viewporter s, smc_surface s] = map (\<lambda>i. smc_ptrs s ! i) [3, 6]"
  "[smc_region s] = map (\<lambda>i. smc_ptrs s ! i) [7]"
  "[smc_surface s, smc_buffer s] = map (\<lambda>i. smc_ptrs s ! i) [6, 5]"
  "[smc_surface s, smc_region s] = map (\<lambda>i. smc_ptrs s ! i) [6, 7]"
  "[smc_surface s] = map (\<lambda>i. smc_ptrs s ! i) [6]"
  "[smc_viewport s] = map (\<lambda>i. smc_ptrs s ! i) [9]"
  by (simp_all add: smc_ptrs_def)

lemma smc_registry_safe:
  "safe_body smc_ptrs T N (smc_registry_global (reliable d peer) name interface version) N"
  unfolding smc_registry_global_def
  by (rule client_safe smc_ptrs_write smc_ptrs_read conjI impI | split if_split
     | simp add: smc_ptrs_def subset_insertI2; fail)+

lemma smc_listener_safe:
  "safe_body smc_ptrs (set (smc_targets e)) N (quiet (\<lambda>e. \<not> is_frame_done e) (smc_listeners L (reliable d peer)) e) N"
  unfolding quiet_def
  by (cases "(L, reliable d peer, e)" rule: smc_listeners.cases; simp add: smc_registry_safe;
      (rule client_safe | simp add: smc_ptrs_def shm_client_defs; fail)+)

interpretation shm_listening: safe_listeners smc_ptrs smc_targets
  "quiet (\<lambda>e. \<not> is_frame_done e) (smc_listeners L (reliable d peer))"
  for L d peer
  by unfold_locales (rule smc_listener_safe)

lemma shm_client_safe: "shm_client_fd L os flushed (reliable d (without_frames peer)) p \<noteq> Exit_Crashed"
  unfolding shm_client_fd_def
proof (rule client_program_safe)
  show "safe_body smc_ptrs {} {} (shm_client_body L os flushed (reliable d (without_frames peer))) {0}"
    unfolding shm_client_body_def smc_open_pool_def append.simps without_frames_def
      trip_filtered [where listeners = "smc_listeners L env" for env]
    by (rule client_safe shm_listening.safe_body_trip smc_ptrs_write smc_ptrs_read smc_ptrs_objs
        | simp add: smc_ptrs_def; fail)+
  show "safe_cleanup smc_ptrs {0} {} shm_client_cleanup"
    unfolding shm_client_cleanup_def
    by (rule client_safe smc_ptrs_read | simp add: smc_ptrs_def; fail)+
qed (simp add: shm_client_init_def smc_ptrs_def)

section \<open>Properties\<close>

lemma shm_client_run:
  "\<exists>c. shm_client_fd L (good_memory m) True (shm_env L) [] = Exit_Client EXIT_SUCCESS c \<and>
      cl_live c = [10 \<mapsto> ''wl_shm_pool'', 11 \<mapsto> ''wl_buffer''] \<and>
      filter (\<lambda>q. \<exists>fd. q = Close_Fd fd) (cl_calls c) = map (\<lambda>k. Close_Fd (int (m k))) [0, 1] \<and>
      exits_with EXIT_SUCCESS (shm_server_fd demo_env L (concat (map shm_translate (cl_calls c))))"
  by (simp add: client_run_defs shm_client_fd_def shm_env_def shm_client_body_def
      shm_client_cleanup_def shm_client_defs shm_session_def shm_globals_def
      shm_handler_defs shm_server_init_def shm_server_fd_def shm_status_def good_memory_def
      FD_CLOEXEC_def fun_eq_iff eval_nat_numeral)

lemma shm_client_double_destroy:
  "shm_client_fd L (good_memory m) flushed (shm_late_env L) [] = Exit_Crashed"
  by (simp add: client_run_defs shm_client_fd_def shm_late_env_def shm_client_body_def
      shm_client_cleanup_def shm_client_defs shm_session_def shm_globals_def
      shm_handler_defs shm_server_init_def good_memory_def FD_CLOEXEC_def)

text \<open>C26: with a library that creates every object, the shared-memory client never uses a NULL or
  destroyed object as long as the other side sends no frame event, whatever else it sends, in whatever
  order, and whatever the kernel answers. Against the server, with a kernel that makes its files and a
  flush that succeeds, it exits with success, has closed both files once and destroyed every object but
  the second pool and buffer, which it leaves on purpose, and the server, given the requests the client
  sent and then its disconnection, exits with success too. Against a server whose frame event carries
  another time the client destroys the callback twice.\<close>

theorem shm_client_safe_and_interoperates:
  "shm_client_fd L os flushed (reliable display (without_frames peer)) p \<noteq> Exit_Crashed \<and>
   (\<exists>c. shm_client_fd L (good_memory m) True (shm_env L) [] = Exit_Client EXIT_SUCCESS c \<and>
      cl_live c = [10 \<mapsto> ''wl_shm_pool'', 11 \<mapsto> ''wl_buffer''] \<and>
      filter (\<lambda>q. \<exists>fd. q = Close_Fd fd) (cl_calls c) = map (\<lambda>k. Close_Fd (int (m k))) [0, 1] \<and>
      exits_with EXIT_SUCCESS (shm_server_fd demo_env L (concat (map shm_translate (cl_calls c))))) \<and>
   shm_client_fd L (good_memory m) flushed (shm_late_env L) [] = Exit_Crashed"
  by (intro conjI shm_client_safe shm_client_run shm_client_double_destroy)

end
