(* ===== verification/Data_Device_Client.thy ===== *)
theory Data_Device_Client
  imports Client_Safety Data_Device_Server
begin

text \<open>
  The libwayland data-device client (\<open>src/bench/data-device-interop-client.c\<close>): it offers a selection,
  starts a drag, and receives the drag that the other side makes enter its surface. An event comes with
  what the kernel answers while its listener runs, and \<open>received\<close> is what the program reads from the
  pipe of the drop at the end.

  The listeners of \<open>enter\<close> and \<open>drop\<close> use the last offer without a check that there is one: a drop
  before any offer makes the client follow a NULL pointer. The theorems show it, and that nothing else
  goes wrong.
\<close>

unbundle bit_operations_syntax

definition selection_data :: string where
  "selection_data = ''libwayland-selection'' @ [CHR 0x00]"

definition drag_offer_data :: string where
  "drag_offer_data = ''wayring-drag-offer'' @ [CHR 0x00]"

record data_device_client =
  ddc_seat :: "proxy option"
  ddc_manager :: "proxy option"
  ddc_compositor :: "proxy option"
  ddc_sent :: bool
  ddc_target :: bool
  ddc_drop_performed :: bool
  ddc_finished :: bool
  ddc_action :: bool
  ddc_offer :: "proxy option"
  ddc_offer_read_fd :: fd_t
  ddc_offer_mime :: bool
  ddc_offer_source_actions :: bool
  ddc_offer_action :: bool
  ddc_enter :: bool
  ddc_motion :: bool
  ddc_drop :: bool
  ddc_leave :: bool
  ddc_registry :: "proxy option"
  ddc_source :: "proxy option"
  ddc_device :: "proxy option"
  ddc_origin :: "proxy option"
  ddc_icon :: "proxy option"

definition data_device_client_init :: data_device_client where
  "data_device_client_init = \<lparr>ddc_seat = None, ddc_manager = None, ddc_compositor = None,
     ddc_sent = False, ddc_target = False, ddc_drop_performed = False, ddc_finished = False,
     ddc_action = False, ddc_offer = None, ddc_offer_read_fd = -1, ddc_offer_mime = False,
     ddc_offer_source_actions = False, ddc_offer_action = False, ddc_enter = False,
     ddc_motion = False, ddc_drop = False, ddc_leave = False, ddc_registry = None,
     ddc_source = None, ddc_device = None, ddc_origin = None, ddc_icon = None\<rparr>"

text \<open>The descriptor flags and the result of \<open>write\<close> for a descriptor that is received, and the pipe.\<close>

record dd_kernel =
  dk_flags :: int
  dk_written :: int
  dk_pipe :: "(fd_t \<times> fd_t) option"

type_synonym dd_client_event = "dd_event \<times> dd_kernel"

datatype dd_call =
    DDC_Create_Source | DDC_Source_Offer string | DDC_Source_Set_Actions u32 | DDC_Source_Destroy
  | DDC_Get_Device | DDC_Set_Selection u32 | DDC_Start_Drag u32 | DDC_Device_Release
  | DDC_Create_Surface | DDC_Surface_Destroy | DDC_Offer_Accept u32 string
  | DDC_Offer_Set_Actions u32 u32 | DDC_Offer_Receive string fd_t | DDC_Offer_Finish
  | DDC_Offer_Destroy | DDC_Seat_Release

section \<open>Listeners\<close>

definition ddc_offer_mime_type :: "string \<Rightarrow> data_device_client \<Rightarrow> data_device_client" where
  "ddc_offer_mime_type mime_type s = (if mime_type = ''text/plain'' then s\<lparr>ddc_offer_mime := True\<rparr> else s)"

definition ddc_offer_actions :: "wl_lib \<Rightarrow> u32 \<Rightarrow> data_device_client \<Rightarrow> data_device_client" where
  "ddc_offer_actions L actions s =
     (if actions = (dnd_copy L OR dnd_move L) then s\<lparr>ddc_offer_source_actions := True\<rparr> else s)"

definition ddc_offer_chosen :: "wl_lib \<Rightarrow> u32 \<Rightarrow> data_device_client \<Rightarrow> data_device_client" where
  "ddc_offer_chosen L action s = (if action = dnd_move L then s\<lparr>ddc_offer_action := True\<rparr> else s)"

definition ddc_source_target :: "string option \<Rightarrow> data_device_client \<Rightarrow> data_device_client" where
  "ddc_source_target mime_type s = (if mime_type = Some ''text/plain'' then s\<lparr>ddc_target := True\<rparr> else s)"

definition ddc_source_send ::
    "dd_kernel \<Rightarrow> string \<Rightarrow> fd_t \<Rightarrow> (data_device_client, dd_call, 'p) cstep list" where
  "ddc_source_send k mime_type fd =
     (if mime_type \<noteq> ''text/plain'' \<or> dk_flags k AND FD_CLOEXEC = 0 then [close_fd (\<lambda>s. fd)]
      else [close_fd (\<lambda>s. fd),
            assign (\<lambda>s. if dk_written k = int (length selection_data) then s\<lparr>ddc_sent := True\<rparr> else s)])"

definition ddc_source_drop_performed :: "data_device_client \<Rightarrow> data_device_client" where
  "ddc_source_drop_performed s = s\<lparr>ddc_drop_performed := True\<rparr>"

definition ddc_source_finished :: "data_device_client \<Rightarrow> data_device_client" where
  "ddc_source_finished s = s\<lparr>ddc_finished := True\<rparr>"

definition ddc_source_action :: "wl_lib \<Rightarrow> u32 \<Rightarrow> data_device_client \<Rightarrow> data_device_client" where
  "ddc_source_action L action s = (if action = dnd_move L then s\<lparr>ddc_action := True\<rparr> else s)"

definition ddc_device_data_offer ::
    "(dd_call, dd_client_event, 'p) client_env \<Rightarrow> proxy \<Rightarrow> (data_device_client, dd_call, 'p) cstep list" where
  "ddc_device_data_offer env offer =
     [adopt_proxy env offer ''wl_data_offer'' (\<lambda>p s. s\<lparr>ddc_offer := p\<rparr>), add_listener ddc_offer]"

definition ddc_device_enter ::
    "wl_lib \<Rightarrow> u32 \<Rightarrow> resource option \<Rightarrow> int \<Rightarrow> int \<Rightarrow> proxy option \<Rightarrow>
     (data_device_client, dd_call, 'p) cstep list" where
  "ddc_device_enter L serial surface x y offer =
     [when_state
        (\<lambda>s. serial = 99 \<and> surface \<noteq> None \<and> x = fixed_from_double L 3 1 \<and>
             y = fixed_from_int L (-2) \<and> offer = ddc_offer s)
        [request (DDC_Offer_Accept serial ''text/plain'') (\<lambda>s. [ddc_offer s]),
         request (DDC_Offer_Set_Actions (dnd_copy L OR dnd_move L) (dnd_move L)) (\<lambda>s. [ddc_offer s]),
         assign (\<lambda>s. s\<lparr>ddc_enter := True\<rparr>)]]"

definition ddc_device_leave :: "data_device_client \<Rightarrow> data_device_client" where
  "ddc_device_leave s = s\<lparr>ddc_leave := True\<rparr>"

definition ddc_device_motion ::
    "wl_lib \<Rightarrow> u32 \<Rightarrow> int \<Rightarrow> int \<Rightarrow> data_device_client \<Rightarrow> data_device_client" where
  "ddc_device_motion L time x y s =
     (if time = 300 \<and> x = fixed_from_int L 2 \<and> y = fixed_from_int L 3
      then s\<lparr>ddc_motion := True\<rparr> else s)"

definition ddc_device_drop :: "dd_kernel \<Rightarrow> (data_device_client, dd_call, 'p) cstep list" where
  "ddc_device_drop k =
     (case dk_pipe k of
        None \<Rightarrow> []
      | Some (read_end, write_end) \<Rightarrow>
          [assign (\<lambda>s. s\<lparr>ddc_offer_read_fd := read_end\<rparr>),
           request (DDC_Offer_Receive ''text/plain'' write_end) (\<lambda>s. [ddc_offer s]),
           close_fd (\<lambda>s. write_end),
           request DDC_Offer_Finish (\<lambda>s. [ddc_offer s]),
           assign (\<lambda>s. s\<lparr>ddc_drop := True\<rparr>)])"

definition ddc_registry_global ::
    "(dd_call, dd_client_event, 'p) client_env \<Rightarrow> u32 \<Rightarrow> string \<Rightarrow> u32 \<Rightarrow>
     (data_device_client, dd_call, 'p) cstep list" where
  "ddc_registry_global env name interface version =
     (if interface = ''wl_seat'' then
        [bind_global env name ''wl_seat'' (capped version 7) (\<lambda>p s. s\<lparr>ddc_seat := p\<rparr>)]
      else if interface = ''wl_data_device_manager'' then
        [bind_global env name ''wl_data_device_manager'' (capped version 3) (\<lambda>p s. s\<lparr>ddc_manager := p\<rparr>)]
      else if interface = ''wl_compositor'' then
        [bind_global env name ''wl_compositor'' (capped version 4) (\<lambda>p s. s\<lparr>ddc_compositor := p\<rparr>)]
      else [])"

fun ddc_listen ::
    "wl_lib \<Rightarrow> (dd_call, dd_client_event, 'p) client_env \<Rightarrow> dd_kernel \<Rightarrow> dd_event \<Rightarrow>
     (data_device_client, dd_call, 'p) cstep list" where
  "ddc_listen L env k (DDE_Data_Offer r offer) = ddc_device_data_offer env offer"
| "ddc_listen L env k (DDE_Offer r mime_type) = [assign (ddc_offer_mime_type mime_type)]"
| "ddc_listen L env k (DDE_Source_Actions r actions) = [assign (ddc_offer_actions L actions)]"
| "ddc_listen L env k (DDE_Offer_Action r action) = [assign (ddc_offer_chosen L action)]"
| "ddc_listen L env k (DDE_Target r mime_type) = [assign (ddc_source_target mime_type)]"
| "ddc_listen L env k (DDE_Source_Action r action) = [assign (ddc_source_action L action)]"
| "ddc_listen L env k (DDE_Drop_Performed r) = [assign ddc_source_drop_performed]"
| "ddc_listen L env k (DDE_Finished r) = [assign ddc_source_finished]"
| "ddc_listen L env k (DDE_Send r mime_type fd) = ddc_source_send k mime_type fd"
| "ddc_listen L env k (DDE_Enter r serial surface x y offer) = ddc_device_enter L serial surface x y offer"
| "ddc_listen L env k (DDE_Motion r time x y) = [assign (ddc_device_motion L time x y)]"
| "ddc_listen L env k (DDE_Drop r) = ddc_device_drop k"
| "ddc_listen L env k (DDE_Leave r) = [assign ddc_device_leave]"

fun ddc_listeners ::
    "wl_lib \<Rightarrow> (dd_call, dd_client_event, 'p) client_env \<Rightarrow> dd_client_event cl_event \<Rightarrow>
     (data_device_client, dd_call, 'p) cstep list" where
  "ddc_listeners L env (Global name interface version) = ddc_registry_global env name interface version"
| "ddc_listeners L env (Event (e, k)) = ddc_listen L env k e"

fun ddc_targets :: "dd_client_event cl_event \<Rightarrow> proxy list" where
  "ddc_targets (Global name interface version) = []"
| "ddc_targets (Event (e, k)) = map the (take 1 (dd_uses e))"

section \<open>The program\<close>

definition data_device_client_body ::
    "wl_lib \<Rightarrow> string option \<Rightarrow> (dd_call, dd_client_event, 'p) client_env \<Rightarrow>
     (data_device_client, dd_call, 'p) cstep list" where
  "data_device_client_body L received env =
    [get_registry env (\<lambda>p s. s\<lparr>ddc_registry := p\<rparr>),
     add_listener ddc_registry,
     trip env ddc_targets (ddc_listeners L env),
     require_set ddc_seat,
     require_set ddc_manager,
     require_set ddc_compositor,
     construct env ''wl_data_source'' DDC_Create_Source (\<lambda>s. [ddc_manager s]) (\<lambda>p s. s\<lparr>ddc_source := p\<rparr>),
     construct env ''wl_data_device'' DDC_Get_Device (\<lambda>s. [ddc_manager s, ddc_seat s])
       (\<lambda>p s. s\<lparr>ddc_device := p\<rparr>),
     require_set ddc_source,
     require_set ddc_device,
     add_listener ddc_source,
     add_listener ddc_device,
     construct env ''wl_surface'' DDC_Create_Surface (\<lambda>s. [ddc_compositor s]) (\<lambda>p s. s\<lparr>ddc_origin := p\<rparr>),
     construct env ''wl_surface'' DDC_Create_Surface (\<lambda>s. [ddc_compositor s]) (\<lambda>p s. s\<lparr>ddc_icon := p\<rparr>),
     require_set ddc_origin,
     require_set ddc_icon,
     request (DDC_Source_Offer ''text/plain'') (\<lambda>s. [ddc_source s]),
     request (DDC_Source_Set_Actions (dnd_copy L OR dnd_move L)) (\<lambda>s. [ddc_source s]),
     request (DDC_Set_Selection 77) (\<lambda>s. [ddc_device s, ddc_source s]),
     request (DDC_Start_Drag 88) (\<lambda>s. [ddc_device s, ddc_source s, ddc_origin s, ddc_icon s]),
     trip env ddc_targets (ddc_listeners L env),
     require (\<lambda>s. ddc_sent s \<and> ddc_target s \<and> ddc_drop_performed s \<and> ddc_finished s \<and> ddc_action s \<and>
       ddc_offer_mime s \<and> ddc_offer_source_actions s \<and> ddc_offer_action s \<and> ddc_enter s \<and>
       ddc_motion s \<and> ddc_drop s \<and> ddc_leave s),
     trip env ddc_targets (ddc_listeners L env),
     require (\<lambda>s. ddc_offer_read_fd s \<ge> 0),
     close_fd ddc_offer_read_fd,
     assign (\<lambda>s. s\<lparr>ddc_offer_read_fd := -1\<rparr>),
     require (\<lambda>s. received = Some drag_offer_data)]"

definition data_device_client_cleanup :: "(data_device_client, dd_call, 'p) cstep list" where
  "data_device_client_cleanup =
    [close_if ddc_offer_read_fd,
     destroy_if (Some DDC_Offer_Destroy) ddc_offer,
     destroy_if (Some DDC_Source_Destroy) ddc_source,
     destroy_if (Some DDC_Device_Release) ddc_device,
     destroy_if (Some DDC_Surface_Destroy) ddc_icon,
     destroy_if (Some DDC_Surface_Destroy) ddc_origin,
     destroy_if None ddc_manager,
     destroy_if (Some DDC_Seat_Release) ddc_seat,
     destroy_if None ddc_compositor,
     destroy_proxy None ddc_registry,
     plain Flush,
     plain Disconnect]"

definition data_device_client_fd ::
    "wl_lib \<Rightarrow> string option \<Rightarrow> (dd_call, dd_client_event, 'p) client_env \<Rightarrow> 'p \<Rightarrow>
     (data_device_client, dd_call, 'p) client_exit" where
  "data_device_client_fd L received env p = client_program env (data_device_client_body L received env)
     data_device_client_cleanup (start_client data_device_client_init p)"

definition ddc_ptrs :: "data_device_client \<Rightarrow> proxy option list" where
  "ddc_ptrs s = [ddc_registry s, ddc_seat s, ddc_manager s, ddc_compositor s, ddc_source s, ddc_device s, ddc_origin s, ddc_icon s, ddc_offer s]"

lemma ddc_ptrs_read:
  "ddc_registry s = ddc_ptrs s ! 0" "ddc_seat s = ddc_ptrs s ! 1" "ddc_manager s = ddc_ptrs s ! 2"
  "ddc_compositor s = ddc_ptrs s ! 3" "ddc_source s = ddc_ptrs s ! 4"
  "ddc_device s = ddc_ptrs s ! 5" "ddc_origin s = ddc_ptrs s ! 6" "ddc_icon s = ddc_ptrs s ! 7"
  "ddc_offer s = ddc_ptrs s ! 8"
  by (simp_all add: ddc_ptrs_def)

lemma ddc_ptrs_write:
  "ddc_ptrs (s\<lparr>ddc_registry := x\<rparr>) = (ddc_ptrs s)[0 := x]"
  "ddc_ptrs (s\<lparr>ddc_seat := x\<rparr>) = (ddc_ptrs s)[1 := x]"
  "ddc_ptrs (s\<lparr>ddc_manager := x\<rparr>) = (ddc_ptrs s)[2 := x]"
  "ddc_ptrs (s\<lparr>ddc_compositor := x\<rparr>) = (ddc_ptrs s)[3 := x]"
  "ddc_ptrs (s\<lparr>ddc_source := x\<rparr>) = (ddc_ptrs s)[4 := x]"
  "ddc_ptrs (s\<lparr>ddc_device := x\<rparr>) = (ddc_ptrs s)[5 := x]"
  "ddc_ptrs (s\<lparr>ddc_origin := x\<rparr>) = (ddc_ptrs s)[6 := x]"
  "ddc_ptrs (s\<lparr>ddc_icon := x\<rparr>) = (ddc_ptrs s)[7 := x]"
  "ddc_ptrs (s\<lparr>ddc_offer := x\<rparr>) = (ddc_ptrs s)[8 := x]"
  by (simp_all add: ddc_ptrs_def)

lemma ddc_ptrs_objs:
  "[ddc_manager s] = map (\<lambda>i. ddc_ptrs s ! i) [2]"
  "[ddc_manager s, ddc_seat s] = map (\<lambda>i. ddc_ptrs s ! i) [2, 1]"
  "[ddc_compositor s] = map (\<lambda>i. ddc_ptrs s ! i) [3]"
  "[ddc_source s] = map (\<lambda>i. ddc_ptrs s ! i) [4]"
  "[ddc_device s, ddc_source s] = map (\<lambda>i. ddc_ptrs s ! i) [5, 4]"
  "[ddc_device s, ddc_source s, ddc_origin s, ddc_icon s] = map (\<lambda>i. ddc_ptrs s ! i) [5, 4, 6, 7]"
  "[ddc_offer s] = map (\<lambda>i. ddc_ptrs s ! i) [8]"
  by (simp_all add: ddc_ptrs_def)

section \<open>No crash without a drag that has no offer\<close>

text \<open>The events whose listeners use the last offer unchecked.\<close>

fun needs_offer :: "dd_client_event cl_event \<Rightarrow> bool" where
  "needs_offer (Event (DDE_Drop r, k)) = True"
| "needs_offer (Event (DDE_Enter r serial surface x y None, k)) = True"
| "needs_offer e = False"

definition without_drops ::
    "('c \<Rightarrow> 'p \<Rightarrow> dd_client_event cl_event list \<times> bool \<times> 'p) \<Rightarrow>
     'c \<Rightarrow> 'p \<Rightarrow> dd_client_event cl_event list \<times> bool \<times> 'p" where
  "without_drops = filtered (\<lambda>e. \<not> needs_offer e)"

lemmas data_device_client_defs = data_device_client_init_def ddc_offer_mime_type_def
  ddc_offer_actions_def ddc_offer_chosen_def ddc_source_target_def ddc_source_send_def
  ddc_source_drop_performed_def ddc_source_finished_def ddc_source_action_def
  ddc_device_data_offer_def ddc_device_enter_def ddc_device_leave_def ddc_device_motion_def
  ddc_device_drop_def ddc_registry_global_def

lemma ddc_registry_safe:
  "safe_body ddc_ptrs T N (ddc_registry_global (reliable d peer) name interface version) N"
  unfolding ddc_registry_global_def
  by (rule client_safe ddc_ptrs_write ddc_ptrs_read conjI impI | split if_split
     | simp add: ddc_ptrs_def subset_insertI2; fail)+

lemma ddc_enter_safe:
  "safe_body ddc_ptrs T N (ddc_device_enter L serial surface x y (Some offer)) N"
  unfolding ddc_device_enter_def
proof (rule safe_body_when [where i = 8])
  show "\<And>s. serial = 99 \<and> surface \<noteq> None \<and> x = fixed_from_double L 3 1 \<and> y = fixed_from_int L (-2) \<and>
      Some offer = ddc_offer s \<Longrightarrow> ddc_ptrs s ! 8 \<noteq> None"
    by (auto simp: ddc_ptrs_def dest: sym)
qed (rule client_safe ddc_ptrs_objs | simp add: ddc_ptrs_def subset_insertI; fail)+

lemma ddc_data_offer_safe:
  "safe_body ddc_ptrs T N (ddc_device_data_offer (reliable d peer) offer) N"
  unfolding ddc_device_data_offer_def
  by (rule client_safe ddc_ptrs_write ddc_ptrs_read | simp add: ddc_ptrs_def subset_insertI; fail)+

lemma ddc_listener_safe:
  "safe_body ddc_ptrs (set (ddc_targets e)) N
     (quiet (\<lambda>e. \<not> needs_offer e) (ddc_listeners L (reliable d peer)) e) N"
  unfolding quiet_def
  by (cases e rule: needs_offer.cases;
      simp add: ddc_registry_safe ddc_enter_safe ddc_data_offer_safe ddc_source_send_def;
      (rule client_safe conjI impI | split if_split | simp add: ddc_ptrs_def data_device_client_defs; fail)+)

interpretation data_device_listening: safe_listeners ddc_ptrs ddc_targets
  "quiet (\<lambda>e. \<not> needs_offer e) (ddc_listeners L (reliable d peer))"
  for L d peer
  by unfold_locales (rule ddc_listener_safe)

lemma data_device_client_safe:
  "data_device_client_fd L received (reliable d (without_drops peer)) p \<noteq> Exit_Crashed"
  unfolding data_device_client_fd_def
proof (rule client_program_safe)
  show "safe_body ddc_ptrs {} {} (data_device_client_body L received (reliable d (without_drops peer))) {0}"
    unfolding data_device_client_body_def without_drops_def
      trip_filtered [where listeners = "ddc_listeners L env" for env]
    by (rule client_safe data_device_listening.safe_body_trip ddc_ptrs_write ddc_ptrs_read ddc_ptrs_objs
        | simp add: ddc_ptrs_def; fail)+
  show "safe_cleanup ddc_ptrs {0} {} data_device_client_cleanup"
    unfolding data_device_client_cleanup_def
    by (rule client_safe ddc_ptrs_read | simp add: ddc_ptrs_def; fail)+
qed (simp add: data_device_client_init_def ddc_ptrs_def)

section \<open>Against the server\<close>

text \<open>
  \<open>selection\<close> is what the server reads from its pipe when the source is destroyed. Its other system calls
  succeed: its pipe is (20, 21), passed descriptors are close-on-exec and take all data written. The name
  of the offer the server creates by itself is 1000, above every name the client uses before.
\<close>

fun dd_constructed :: "dd_call \<Rightarrow> resource list \<Rightarrow> proxy \<Rightarrow> dd_request list" where
  "dd_constructed DDC_Create_Source rs p = [DDR_Create_Source (rs ! 0) (of_nat p)]"
| "dd_constructed DDC_Get_Device rs p = [DDR_Get_Device (rs ! 0) (of_nat p) (rs ! 1) (Some 1000)]"
| "dd_constructed DDC_Create_Surface rs p = [DDR_Create_Surface (rs ! 0) (of_nat p)]"
| "dd_constructed _ rs p = []"

fun dd_requested :: "string option \<Rightarrow> dd_call \<Rightarrow> resource list \<Rightarrow> dd_request list" where
  "dd_requested selection (DDC_Source_Offer mime_type) rs = [DDR_Source_Offer (rs ! 0) mime_type]"
| "dd_requested selection (DDC_Source_Set_Actions actions) rs = [DDR_Source_Set_Actions (rs ! 0) actions]"
| "dd_requested selection DDC_Source_Destroy rs = [DDR_Source_Destroy (rs ! 0) selection]"
| "dd_requested selection (DDC_Set_Selection serial) rs =
     [DDR_Set_Selection (rs ! 0) (Some (rs ! 1)) serial (Some (20, 21))]"
| "dd_requested selection (DDC_Start_Drag serial) rs =
     [DDR_Start_Drag (rs ! 0) (Some (rs ! 1)) (rs ! 2) (Some (rs ! 3)) serial]"
| "dd_requested selection DDC_Device_Release rs = [DDR_Device_Release (rs ! 0)]"
| "dd_requested selection DDC_Surface_Destroy rs = [DDR_Surface_Destroy (rs ! 0)]"
| "dd_requested selection (DDC_Offer_Accept serial mime_type) rs =
     [DDR_Offer_Accept (rs ! 0) serial (Some mime_type)]"
| "dd_requested selection (DDC_Offer_Set_Actions actions preferred) rs =
     [DDR_Offer_Set_Actions (rs ! 0) actions preferred]"
| "dd_requested selection (DDC_Offer_Receive mime_type fd) rs =
     [DDR_Offer_Receive (rs ! 0) mime_type fd FD_CLOEXEC (int (length offer_data))]"
| "dd_requested selection DDC_Offer_Finish rs = [DDR_Offer_Finish (rs ! 0)]"
| "dd_requested selection DDC_Offer_Destroy rs = [DDR_Offer_Destroy (rs ! 0)]"
| "dd_requested selection DDC_Seat_Release rs = [DDR_Seat_Release (rs ! 0)]"
| "dd_requested selection _ rs = []"

fun dd_translate :: "string option \<Rightarrow> dd_call cl_call \<Rightarrow> dd_request input list" where
  "dd_translate selection (Bind name interface version p) =
     (if interface = ''wl_seat'' then [(DDR_Bind_Seat version (of_nat p), Some p)]
      else if interface = ''wl_data_device_manager'' then [(DDR_Bind_Manager version (of_nat p), Some p)]
      else if interface = ''wl_compositor'' then [(DDR_Bind_Compositor version (of_nat p), Some p)]
      else [])"
| "dd_translate selection (Construct q rs p) = map (\<lambda>req. (req, Some p)) (dd_constructed q rs p)"
| "dd_translate selection (Request q rs) = map (\<lambda>req. (req, None)) (dd_requested selection q rs)"
| "dd_translate selection (Destroy_Proxy (Some q) p) =
     map (\<lambda>req. (req, None)) (dd_requested selection q [p])"
| "dd_translate selection Disconnect = [(DDR_Client_Destroyed, None)]"
| "dd_translate selection _ = []"

text \<open>The client's system calls succeed too; the drop's pipe is \<open>(r, w)\<close>.\<close>

definition dd_good_kernel :: "nat \<Rightarrow> nat \<Rightarrow> dd_kernel" where
  "dd_good_kernel r w = \<lparr>dk_flags = FD_CLOEXEC, dk_written = int (length selection_data),
     dk_pipe = Some (int r, int w)\<rparr>"

definition dd_env ::
    "wl_lib \<Rightarrow> string option \<Rightarrow> nat \<Rightarrow> nat \<Rightarrow> (dd_call, dd_client_event, dd_request input list) client_env" where
  "dd_env L selection r w = reliable True (server_peer (dd_session L) dd_globals (dd_translate selection)
     (\<lambda>e. [(e, dd_good_kernel r w)]))"

text \<open>A server that sends a drop and nothing else.\<close>

definition dd_rude_env :: "(dd_call, dd_client_event, nat) client_env" where
  "dd_rude_env = reliable True (\<lambda>calls n. case n of
       0 \<Rightarrow> ([Global 1 ''wl_seat'' 7, Global 2 ''wl_data_device_manager'' 3, Global 3 ''wl_compositor'' 4],
            True, 1)
     | Suc m \<Rightarrow> ([Event (DDE_Drop (Some 5), dd_good_kernel 30 31)], True, Suc n))"

section \<open>Properties\<close>

lemma data_device_client_run:
  "\<exists>c. data_device_client_fd L received (dd_env L selection r w) [] =
        Exit_Client (if received = Some drag_offer_data then EXIT_SUCCESS else EXIT_FAILURE) c \<and>
      cl_live c = Map.empty \<and>
      filter (\<lambda>q. \<exists>fd. q = Close_Fd fd) (cl_calls c) = map Close_Fd [int w, 21, int r] \<and>
      (exits_with EXIT_SUCCESS
         (data_device_server_fd demo_env L (concat (map (dd_translate selection) (cl_calls c)))) \<longleftrightarrow>
       selection = Some source_data)"
  by (cases "received = Some drag_offer_data"; cases "selection = Some source_data")
     (simp_all add: client_run_defs data_device_client_fd_def dd_env_def data_device_client_body_def
      data_device_client_cleanup_def data_device_client_defs dd_session_def dd_globals_def
      dd_handler_defs data_device_server_init_def data_device_server_fd_def dd_status_def
      dd_good_kernel_def FD_CLOEXEC_def)

lemma data_device_client_null_offer:
  "data_device_client_fd L received dd_rude_env 0 = Exit_Crashed"
  by (simp add: client_run_defs data_device_client_fd_def dd_rude_env_def data_device_client_body_def
      data_device_client_defs dd_good_kernel_def)

text \<open>C28: with a library that creates every object, the data-device client never uses a NULL or destroyed
  object as long as no drop arrives and no drag enters without an offer, whatever else the other side
  sends and the kernel answers. Against the data-device server, which sends a drop, it goes through the
  whole scenario, destroys every object and closes its three descriptors once; its exit code then says
  exactly whether it read wayring's offer from the pipe of the drop, and the server's whether it read
  wayring's selection, since each of the two programs is written to face wayring. A drop before any
  offer makes the client follow a NULL pointer.\<close>

theorem data_device_client_safe_and_interoperates:
  "data_device_client_fd L received (reliable display (without_drops peer)) p \<noteq> Exit_Crashed \<and>
   (\<exists>c. data_device_client_fd L received (dd_env L selection r w) [] =
        Exit_Client (if received = Some drag_offer_data then EXIT_SUCCESS else EXIT_FAILURE) c \<and>
      cl_live c = Map.empty \<and>
      filter (\<lambda>q. \<exists>fd. q = Close_Fd fd) (cl_calls c) = map Close_Fd [int w, 21, int r] \<and>
      (exits_with EXIT_SUCCESS
         (data_device_server_fd demo_env L (concat (map (dd_translate selection) (cl_calls c)))) \<longleftrightarrow>
       selection = Some source_data)) \<and>
   data_device_client_fd L received dd_rude_env 0 = Exit_Crashed"
  by (intro conjI data_device_client_safe data_device_client_run data_device_client_null_offer)

end
