(* ===== verification/Byte_Io.thy ===== *)
theory Byte_Io
  imports Prelude
begin

text \<open>
  Blocking reads and writes of byte streams, as the benchmarks of \<open>src/bench\<close> loop over them.
  \<open>read_exact\<close> and \<open>write_exact\<close> are those of \<open>libwayland-client.c\<close>, \<open>read_all\<close> and \<open>write_all\<close> those of
  \<open>raw.c\<close>.

  The kernel is a list of answers: \<open>Cut k\<close> lets a call transfer up to \<open>k\<close> bytes (none for \<open>k = 0\<close>, which is
  the end of the stream for a read), \<open>Interrupted\<close> is \<open>EINTR\<close> and \<open>Failed\<close> any other error. A loop is
  \<open>None\<close> when the answers run out before it returns: it is still waiting for the kernel. What is read
  comes from the head of the incoming stream; \<open>hup\<close> says whether the other end is closed: the end of the
  stream is then the end of the file, otherwise a call waits for more.
\<close>

datatype cut = Cut nat | Interrupted | Failed

section \<open>The loops\<close>

text \<open>The status, the bytes read, what is left of the stream and of the answers.\<close>

type_synonym read_outcome = "(int \<times> u8 list \<times> u8 list \<times> cut list) option"

type_synonym write_outcome = "(int \<times> u8 list \<times> cut list) option"

definition got_more :: "u8 list \<Rightarrow> read_outcome \<Rightarrow> read_outcome" where
  "got_more xs r = map_option (\<lambda>(st, ys, rest, cs). (st, xs @ ys, rest, cs)) r"

definition wrote_more :: "u8 list \<Rightarrow> write_outcome \<Rightarrow> write_outcome" where
  "wrote_more xs r = map_option (\<lambda>(st, ys, cs). (st, xs @ ys, cs)) r"

fun read_exact :: "cut list \<Rightarrow> bool \<Rightarrow> nat \<Rightarrow> u8 list \<Rightarrow> read_outcome" where
  "read_exact cs hup 0 inp = Some (0, [], inp, cs)"
| "read_exact [] hup (Suc n) inp = None"
| "read_exact (Interrupted # cs) hup (Suc n) inp = read_exact cs hup (Suc n) inp"
| "read_exact (Failed # cs) hup (Suc n) inp = Some (-1, [], inp, cs)"
| "read_exact (Cut k # cs) hup (Suc n) inp =
     (let received = take (min k (Suc n)) inp
      in if received = [] then (if k \<noteq> 0 \<and> \<not> hup then None else Some (-1, [], inp, cs))
         else got_more received (read_exact cs hup (Suc n - length received) (drop (length received) inp)))"

text \<open>\<open>read_all\<close> tests for the interruption inside the failure branch.\<close>

fun read_all :: "cut list \<Rightarrow> bool \<Rightarrow> nat \<Rightarrow> u8 list \<Rightarrow> read_outcome" where
  "read_all cs hup 0 inp = Some (0, [], inp, cs)"
| "read_all [] hup (Suc n) inp = None"
| "read_all (c # cs) hup (Suc n) inp =
     (let received = (case c of Cut k \<Rightarrow> take (min k (Suc n)) inp | _ \<Rightarrow> [])
      in if received = []
         then (if c = Interrupted then read_all cs hup (Suc n) inp
               else if c \<noteq> Failed \<and> c \<noteq> Cut 0 \<and> \<not> hup then None
               else Some (-1, [], inp, cs))
         else got_more received (read_all cs hup (Suc n - length received) (drop (length received) inp)))"

fun write_exact :: "cut list \<Rightarrow> u8 list \<Rightarrow> write_outcome" where
  "write_exact cs [] = Some (0, [], cs)"
| "write_exact [] (b # bs) = None"
| "write_exact (Interrupted # cs) (b # bs) = write_exact cs (b # bs)"
| "write_exact (Failed # cs) (b # bs) = Some (-1, [], cs)"
| "write_exact (Cut k # cs) (b # bs) =
     (if k = 0 then Some (-1, [], cs)
      else wrote_more (take k (b # bs)) (write_exact cs (drop k (b # bs))))"

text \<open>\<open>write_all\<close> does not test for a write that takes nothing, and tries again.\<close>

fun write_all :: "cut list \<Rightarrow> u8 list \<Rightarrow> write_outcome" where
  "write_all cs [] = Some (0, [], cs)"
| "write_all [] (b # bs) = None"
| "write_all (Interrupted # cs) (b # bs) = write_all cs (b # bs)"
| "write_all (Failed # cs) (b # bs) = Some (-1, [], cs)"
| "write_all (Cut k # cs) (b # bs) = wrote_more (take k (b # bs)) (write_all cs (drop k (b # bs)))"

section \<open>Kernels that make progress\<close>

text \<open>No call fails or transfers nothing; every transfer moves at least one byte.\<close>

fun steady_cut :: "cut \<Rightarrow> bool" where
  "steady_cut (Cut k) = (0 < k)"
| "steady_cut Interrupted = True"
| "steady_cut Failed = False"

definition steady :: "cut list \<Rightarrow> bool" where
  "steady cs \<longleftrightarrow> list_all steady_cut cs"

fun progress :: "cut list \<Rightarrow> nat" where
  "progress [] = 0"
| "progress (Cut k # cs) = Suc (progress cs)"
| "progress (c # cs) = progress cs"

lemma steady_simps [simp]:
  "steady []" "steady (c # cs) \<longleftrightarrow> steady_cut c \<and> steady cs"
  by (simp_all add: steady_def)

lemma got_more_simps [simp]:
  "got_more xs None = None" "got_more xs (Some (st, ys, rest, cs)) = Some (st, xs @ ys, rest, cs)"
  by (simp_all add: got_more_def)

lemma wrote_more_simps [simp]:
  "wrote_more xs None = None" "wrote_more xs (Some (st, ys, cs)) = Some (st, xs @ ys, cs)"
  by (simp_all add: wrote_more_def)

text \<open>The answers that are left suffice for what is still to do.\<close>

definition supplies :: "cut list \<Rightarrow> nat \<Rightarrow> bool" where
  "supplies cs n \<longleftrightarrow> steady cs \<and> n \<le> progress cs"

lemma supplies_mono: "supplies cs n \<Longrightarrow> m \<le> n \<Longrightarrow> supplies cs m"
  by (simp add: supplies_def)

lemma read_exact_steady:
  "supplies cs (n + m) \<Longrightarrow> n \<le> length inp \<Longrightarrow>
     \<exists>cs'. read_exact cs hup n inp = Some (0, take n inp, drop n inp, cs') \<and> supplies cs' m"
proof (induction cs hup n inp rule: read_exact.induct)
  case (5 k cs hup n inp)
  let ?r = "take (min k (Suc n)) inp"
  from "5.prems" have k: "0 < k" and s: "steady cs" and "Suc n + m \<le> Suc (progress cs)"
    by (simp_all add: supplies_def)
  with "5.prems"(2) have r: "?r \<noteq> []" "0 < length ?r" "length ?r \<le> Suc n" "length ?r = min k (Suc n)"
    by (auto simp: min_def)
  have "supplies cs (Suc n - length ?r + m)"
    unfolding supplies_def using s r(2) \<open>Suc n + m \<le> Suc (progress cs)\<close> by (intro conjI) linarith+
  moreover have "Suc n - length ?r \<le> length (drop (length ?r) inp)" using "5.prems"(2) by simp
  ultimately obtain cs' where
    "read_exact cs hup (Suc n - length ?r) (drop (length ?r) inp) =
       Some (0, take (Suc n - length ?r) (drop (length ?r) inp),
             drop (Suc n - length ?r) (drop (length ?r) inp), cs') \<and> supplies cs' m"
    using "5.IH" [OF refl r(1)] by blast
  then have *: "read_exact cs hup (Suc n - length ?r) (drop (length ?r) inp) =
       Some (0, take (Suc n - length ?r) (drop (length ?r) inp), drop (Suc n) inp, cs')"
    "supplies cs' m"
    using r(3) by simp_all
  have "?r @ take (Suc n - length ?r) (drop (length ?r) inp) = take (Suc n) inp"
    using r(3,4) by (metis le_add_diff_inverse take_add)
  with * r(1) show ?case by (simp add: Let_def del: drop_drop)
qed (auto simp: supplies_def)

text \<open>On a steady kernel a read from an open stream either gets everything or waits.\<close>

lemma read_exact_open:
  "steady cs \<Longrightarrow> read_exact cs False n inp = None \<or>
     (\<exists>cs'. read_exact cs False n inp = Some (0, take n inp, drop n inp, cs') \<and> n \<le> length inp \<and> steady cs')"
proof (induction cs False n inp rule: read_exact.induct)
  case (5 k cs n inp)
  let ?r = "take (min k (Suc n)) inp"
  show ?case
  proof (cases "?r = [] \<or> read_exact cs False (Suc n - length ?r) (drop (length ?r) inp) = None")
    case True
    with "5.prems" show ?thesis by (auto simp: Let_def)
  next
    case False
    then have r: "?r \<noteq> []" and some: "read_exact cs False (Suc n - length ?r) (drop (length ?r) inp) \<noteq> None" by auto
    have "steady cs" using "5.prems" by simp
    from "5.hyps" [OF refl r this] some obtain cs' where
      rest: "read_exact cs False (Suc n - length ?r) (drop (length ?r) inp) =
        Some (0, take (Suc n - length ?r) (drop (length ?r) inp),
              drop (Suc n - length ?r) (drop (length ?r) inp), cs')"
      and fits: "Suc n - length ?r \<le> length (drop (length ?r) inp)" "steady cs'" by blast
    have len: "length ?r \<le> Suc n" "length ?r \<le> length inp" by simp_all
    with fits(1) have long: "Suc n \<le> length inp" by (simp only: length_drop)
    then have "length ?r = min k (Suc n)" by simp
    with len(1) have "?r @ take (Suc n - length ?r) (drop (length ?r) inp) = take (Suc n) inp"
      by (metis le_add_diff_inverse take_add)
    moreover have "drop (Suc n - length ?r) (drop (length ?r) inp) = drop (Suc n) inp" using len(1) by simp
    ultimately show ?thesis using r rest fits(2) long by (simp add: Let_def del: drop_drop)
  qed
qed auto

text \<open>The two ways to read are the same.\<close>

lemma read_all_eq: "read_all = read_exact"
proof (intro ext)
  fix cs hup n inp
  show "read_all cs hup n inp = read_exact cs hup n inp"
    by (induction cs hup n inp rule: read_exact.induct) (auto simp: Let_def)
qed

lemma write_exact_steady:
  "supplies cs (length bs + m) \<Longrightarrow> \<exists>cs'. write_exact cs bs = Some (0, bs, cs') \<and> supplies cs' m"
proof (induction cs bs rule: write_exact.induct)
  case (5 k cs b bs)
  then have "0 < k" and "supplies cs (length (drop k (b # bs)) + m)"
    by (auto simp: supplies_def)
  with 5 obtain cs' where "write_exact cs (drop k (b # bs)) = Some (0, drop k (b # bs), cs')" "supplies cs' m"
    by blast
  with \<open>0 < k\<close> show ?case by simp
qed (auto simp: supplies_def)

text \<open>On kernels whose writes take something the two ways to write are the same.\<close>

lemma write_all_eq: "steady cs \<Longrightarrow> write_all cs bs = write_exact cs bs"
  by (induction cs bs rule: write_exact.induct) auto

text \<open>A kernel whose writes take nothing keeps \<open>write_all\<close> busy for ever.\<close>

lemma write_all_stuck: "write_all (replicate n (Cut 0)) (b # bs) = None"
  by (induction n) auto

text \<open>Whatever the kernel answers, a transfer that succeeds is whole.\<close>

lemma write_exact_whole: "write_exact cs bs = Some (st, out, cs') \<Longrightarrow> 0 \<le> st \<Longrightarrow> out = bs"
proof (induction cs bs arbitrary: st out rule: write_exact.induct)
  case (5 k cs b bs)
  then obtain out' where "write_exact cs (drop k (b # bs)) = Some (st, out', cs')" "0 < k"
    "out = take k (b # bs) @ out'"
    by (cases "write_exact cs (drop k (b # bs))") (auto split: if_splits)
  with 5 show ?case by (metis append_take_drop_id gr_implies_not0)
qed auto

lemma write_all_whole: "write_all cs bs = Some (st, out, cs') \<Longrightarrow> 0 \<le> st \<Longrightarrow> out = bs"
proof (induction cs bs arbitrary: st out rule: write_all.induct)
  case (5 k cs b bs)
  then obtain out' where "write_all cs (drop k (b # bs)) = Some (st, out', cs')" "out = take k (b # bs) @ out'"
    by (cases "write_all cs (drop k (b # bs))") auto
  with 5 show ?case by (metis append_take_drop_id)
qed auto

section \<open>The contract of exact transfers\<close>

text \<open>
  The loops of the benchmarks that write a number of equal messages in batches, and that read a number of
  bytes in blocks, rely on one law each: with a kernel that makes enough progress everything is
  transferred and what is left of the kernel suffices for the rest. A loop over empty batches never ends.
\<close>

function write_loop ::
    "(cut list \<Rightarrow> u8 list \<Rightarrow> write_outcome) \<Rightarrow> u8 list \<Rightarrow> cut list \<Rightarrow> nat \<Rightarrow> nat \<Rightarrow> write_outcome" where
  "write_loop write_fn msg cs remaining batch =
     (if remaining = 0 then Some (0, [], cs)
      else if batch = 0 then None
      else let chunk = (if remaining < batch then remaining else batch)
           in case write_fn cs (concat (replicate chunk msg)) of
                None \<Rightarrow> None
              | Some (st, out, cs') \<Rightarrow>
                  if st < 0 then Some (-1, out, cs')
                  else wrote_more out (write_loop write_fn msg cs' (remaining - chunk) batch))"
  by pat_completeness auto
termination by (relation "measure (\<lambda>(write_fn, msg, cs, remaining, batch). remaining)") auto

declare write_loop.simps [simp del]

function read_loop ::
    "(cut list \<Rightarrow> bool \<Rightarrow> nat \<Rightarrow> u8 list \<Rightarrow> read_outcome) \<Rightarrow> cut list \<Rightarrow> bool \<Rightarrow> nat \<Rightarrow> nat \<Rightarrow> u8 list \<Rightarrow> read_outcome" where
  "read_loop read_fn cs hup block bytes inp =
     (if bytes = 0 then Some (0, [], inp, cs)
      else if block = 0 then None
      else let wanted = (if bytes < block then bytes else block)
           in case read_fn cs hup wanted inp of
                None \<Rightarrow> None
              | Some (st, got, inp', cs') \<Rightarrow>
                  if st < 0 then Some (-1, got, inp', cs')
                  else got_more got (read_loop read_fn cs' hup block (bytes - wanted) inp'))"
  by pat_completeness auto
termination by (relation "measure (\<lambda>(read_fn, cs, hup, block, bytes, inp). bytes)") auto

declare read_loop.simps [simp del]

lemma concat_replicate_add:
  "concat (replicate (m + n) xs) = concat (replicate m xs) @ concat (replicate n xs)"
  by (simp add: replicate_add)

locale byte_writer =
  fixes write_fn :: "cut list \<Rightarrow> u8 list \<Rightarrow> write_outcome"
  assumes write_steady:
    "supplies cs (length bs + m) \<Longrightarrow> \<exists>cs'. write_fn cs bs = Some (0, bs, cs') \<and> supplies cs' m"
    and write_whole: "write_fn cs bs = Some (st, out, cs') \<Longrightarrow> 0 \<le> st \<Longrightarrow> out = bs"
begin

lemma write_loop_whole:
  "write_loop write_fn msg cs remaining batch = Some (st, out, cs') \<Longrightarrow> 0 \<le> st \<Longrightarrow>
     out = concat (replicate remaining msg)"
proof (induction remaining arbitrary: cs st out rule: less_induct)
  case (less remaining)
  show ?case
  proof (cases "remaining = 0 \<or> batch = 0")
    case True
    with less.prems show ?thesis by (auto simp: write_loop.simps split: if_splits)
  next
    case False
    define chunk where "chunk = (if remaining < batch then remaining else batch)"
    define rest where "rest = remaining - chunk"
    have split: "remaining = chunk + rest" "rest < remaining" using False by (auto simp: chunk_def rest_def)
    have loop: "write_loop write_fn msg cs remaining batch =
        (case write_fn cs (concat (replicate chunk msg)) of
           None \<Rightarrow> None
         | Some (st, out, cs') \<Rightarrow>
             if st < 0 then Some (-1, out, cs') else wrote_more out (write_loop write_fn msg cs' rest batch))"
      using False unfolding rest_def chunk_def by (subst write_loop.simps) (simp add: Let_def)
    from less.prems obtain st1 out1 cs1 where w: "write_fn cs (concat (replicate chunk msg)) = Some (st1, out1, cs1)"
      "0 \<le> st1"
      by (auto simp: loop split: option.splits prod.splits if_splits)
    with less.prems obtain out2 where "write_loop write_fn msg cs1 rest batch = Some (st, out2, cs')"
      "out = out1 @ out2"
      by (auto simp: loop wrote_more_def)
    with less.IH [OF split(2)] less.prems(2) write_whole [OF w] show ?thesis
      by (simp add: split(1) concat_replicate_add)
  qed
qed

lemma write_loop_steady:
  "supplies cs (remaining * length msg + m) \<Longrightarrow> 0 < batch \<Longrightarrow>
     \<exists>cs'. write_loop write_fn msg cs remaining batch = Some (0, concat (replicate remaining msg), cs') \<and>
       supplies cs' m"
proof (induction remaining arbitrary: cs rule: less_induct)
  case (less remaining)
  show ?case
  proof (cases "remaining = 0")
    case True
    with less.prems show ?thesis by (simp add: write_loop.simps)
  next
    case False
    define chunk where "chunk = (if remaining < batch then remaining else batch)"
    define rest where "rest = remaining - chunk"
    have split: "remaining = chunk + rest" "rest < remaining"
      using False less.prems(2) by (auto simp: chunk_def rest_def)
    let ?out = "concat (replicate chunk msg)"
    have "supplies cs (length ?out + (rest * length msg + m))"
      using less.prems(1) by (simp add: split(1) length_concat sum_list_replicate algebra_simps)
    then obtain cs1 where w: "write_fn cs ?out = Some (0, ?out, cs1)" "supplies cs1 (rest * length msg + m)"
      using write_steady by blast
    then obtain cs' where "write_loop write_fn msg cs1 rest batch = Some (0, concat (replicate rest msg), cs')"
      "supplies cs' m"
      using less.IH [OF split(2)] less.prems(2) by blast
    moreover have "write_loop write_fn msg cs remaining batch =
        wrote_more ?out (write_loop write_fn msg cs1 rest batch)"
      using False less.prems(2) w
      by (subst write_loop.simps) (simp add: chunk_def [symmetric] rest_def [symmetric] Let_def)
    ultimately show ?thesis by (simp add: split(1) concat_replicate_add)
  qed
qed

end

locale byte_reader =
  fixes read_fn :: "cut list \<Rightarrow> bool \<Rightarrow> nat \<Rightarrow> u8 list \<Rightarrow> read_outcome"
  assumes read_steady:
    "supplies cs (n + m) \<Longrightarrow> n \<le> length inp \<Longrightarrow>
       \<exists>cs'. read_fn cs hup n inp = Some (0, take n inp, drop n inp, cs') \<and> supplies cs' m"
    and read_open:
    "steady cs \<Longrightarrow> read_fn cs False n inp = None \<or>
       (\<exists>cs'. read_fn cs False n inp = Some (0, take n inp, drop n inp, cs') \<and> n \<le> length inp \<and> steady cs')"
begin

lemma read_loop_short: "steady cs \<Longrightarrow> length inp < bytes \<Longrightarrow> read_loop read_fn cs False block bytes inp = None"
proof (induction bytes arbitrary: cs inp rule: less_induct)
  case (less bytes)
  define wanted where "wanted = (if bytes < block then bytes else block)"
  have loop: "block = 0 \<or> read_loop read_fn cs False block bytes inp =
      (case read_fn cs False wanted inp of
         None \<Rightarrow> None
       | Some (st, got, inp', cs') \<Rightarrow>
           if st < 0 then Some (-1, got, inp', cs')
           else got_more got (read_loop read_fn cs' False block (bytes - wanted) inp'))"
    using less.prems(2) unfolding wanted_def by (subst read_loop.simps) (simp add: Let_def)
  show ?case
  proof (cases "block = 0 \<or> read_fn cs False wanted inp = None")
    case True
    with less.prems(2) loop show ?thesis by (auto simp: read_loop.simps)
  next
    case False
    with read_open [OF less.prems(1), of wanted inp] obtain cs' where
      r: "read_fn cs False wanted inp = Some (0, take wanted inp, drop wanted inp, cs')"
      and w: "wanted \<le> length inp" "steady cs'" by blast
    have "bytes - wanted < bytes" "length (drop wanted inp) < bytes - wanted"
      using False less.prems(2) w(1) by (auto simp: wanted_def)
    from less.IH [OF this(1) w(2) this(2)] loop False r show ?thesis by simp
  qed
qed

lemma read_loop_steady:
  "supplies cs (bytes + m) \<Longrightarrow> bytes \<le> length inp \<Longrightarrow> 0 < block \<Longrightarrow>
     \<exists>cs'. read_loop read_fn cs hup block bytes inp = Some (0, take bytes inp, drop bytes inp, cs') \<and>
       supplies cs' m"
proof (induction bytes arbitrary: cs inp rule: less_induct)
  case (less bytes)
  show ?case
  proof (cases "bytes = 0")
    case True
    with less.prems show ?thesis by (simp add: read_loop.simps)
  next
    case False
    define wanted where "wanted = (if bytes < block then bytes else block)"
    define rest where "rest = bytes - wanted"
    have split: "bytes = wanted + rest" "rest < bytes"
      using False less.prems(3) by (auto simp: wanted_def rest_def)
    have "supplies cs (wanted + (rest + m))" "wanted \<le> length inp"
      using less.prems(1,2) by (simp_all add: split(1) add.assoc)
    then obtain cs1 where r: "read_fn cs hup wanted inp = Some (0, take wanted inp, drop wanted inp, cs1)"
      "supplies cs1 (rest + m)"
      using read_steady by blast
    have "rest \<le> length (drop wanted inp)" using less.prems(2) split(1) by simp
    then obtain cs' where "read_loop read_fn cs1 hup block rest (drop wanted inp) =
        Some (0, take rest (drop wanted inp), drop rest (drop wanted inp), cs')" "supplies cs' m"
      using less.IH [OF split(2) r(2)] less.prems(3) by blast
    moreover have "read_loop read_fn cs hup block bytes inp =
        got_more (take wanted inp) (read_loop read_fn cs1 hup block rest (drop wanted inp))"
      using False less.prems(3) r
      by (subst read_loop.simps) (simp add: wanted_def [symmetric] rest_def [symmetric] Let_def)
    moreover have "take wanted inp @ take rest (drop wanted inp) = take bytes inp"
      "drop rest (drop wanted inp) = drop bytes inp"
      using take_add [of wanted rest inp] by (simp_all add: split(1) add.commute)
    ultimately show ?thesis by simp
  qed
qed

end

interpretation exact_writer: byte_writer write_exact
  by unfold_locales (rule write_exact_steady write_exact_whole; assumption)+

interpretation all_writer: byte_writer write_all
proof unfold_locales
  fix cs and bs :: "u8 list" and m
  assume "supplies cs (length bs + m)"
  then show "\<exists>cs'. write_all cs bs = Some (0, bs, cs') \<and> supplies cs' m"
    by (metis write_exact_steady write_all_eq supplies_def)
qed (rule write_all_whole)

interpretation exact_reader: byte_reader read_exact
  by unfold_locales (rule read_exact_steady read_exact_open; assumption)+

interpretation all_reader: byte_reader read_all
  by unfold_locales (simp_all add: read_all_eq read_exact_steady read_exact_open)

end
