(* ===== verification/Bench_Options.thy ===== *)
theory Bench_Options
  imports Prelude
begin

text \<open>
  Command lines of the benchmark programs: \<open>parse_count\<close>, which \<open>raw.c\<close> and \<open>libwayland-client.c\<close>
  share word for word, and the options their main functions accept (\<open>benchmark.h\<close>). \<open>parse_count\<close> rests
  on \<open>strtoull\<close> of the C library, in base 10: blanks, a sign, digits; the value is negated modulo
  \<open>2 ^ 64\<close> after a minus sign, and a value out of range is an error.

  A program that exits while it reads its arguments is \<open>None\<close>.
\<close>

section \<open>Numbers\<close>

text \<open>\<open>isspace\<close> and \<open>isdigit\<close> in the C locale.\<close>

definition is_blank :: "char \<Rightarrow> bool" where
  "is_blank c \<longleftrightarrow> c \<in> {CHR '' '', CHR 0x09, CHR 0x0A, CHR 0x0B, CHR 0x0C, CHR 0x0D}"

definition is_digit :: "char \<Rightarrow> bool" where
  "is_digit c \<longleftrightarrow> c \<in> set ''0123456789''"

definition digit_value :: "char \<Rightarrow> nat" where
  "digit_value c = of_char c - 48"

definition digits_value :: "string \<Rightarrow> nat" where
  "digits_value ds = foldl (\<lambda>n c. 10 * n + digit_value c) 0 ds"

definition sign_of :: "string \<Rightarrow> bool \<times> string" where
  "sign_of s =
     (case s of
        [] \<Rightarrow> (False, [])
      | c # cs \<Rightarrow> if c = CHR ''-'' then (True, cs) else if c = CHR ''+'' then (False, cs) else (False, s))"

text \<open>The value, what follows the number, and whether \<open>errno\<close> is set.\<close>

definition strtoull :: "string \<Rightarrow> u64 \<times> string \<times> bool" where
  "strtoull s =
     (case sign_of (dropWhile is_blank s) of
        (negative, t) \<Rightarrow>
          (let ds = takeWhile is_digit t; n = digits_value ds; rest = dropWhile is_digit t
           in if ds = [] then (0, s, False)
              else if 2 ^ 64 \<le> n then (- 1, rest, True)
              else (if negative then - of_nat n else of_nat n, rest, False)))"

definition parse_count :: "string \<Rightarrow> u64 option" where
  "parse_count s =
     (case strtoull s of
        (result, rest, failed) \<Rightarrow> if failed \<or> s = [] \<or> rest \<noteq> [] then None else Some result)"

text \<open>What it accepts, and what it makes of it.\<close>

definition is_number :: "string \<Rightarrow> u64 \<Rightarrow> bool" where
  "is_number s w \<longleftrightarrow> (\<exists>blanks sign ds. s = blanks @ sign @ ds \<and> list_all is_blank blanks \<and>
     sign \<in> {'''', ''+'', ''-''} \<and> ds \<noteq> [] \<and> list_all is_digit ds \<and> digits_value ds < 2 ^ 64 \<and>
     w = (if sign = ''-'' then - of_nat (digits_value ds) else of_nat (digits_value ds)))"

lemma digit_not_sign [simp]:
  "is_digit c \<Longrightarrow> c \<noteq> CHR ''-'' \<and> c \<noteq> CHR ''+'' \<and> \<not> is_blank c"
  by (auto simp: is_digit_def is_blank_def)

lemma sign_not_blank [simp]: "\<not> is_blank (CHR ''-'')" "\<not> is_blank (CHR ''+'')"
  by (simp_all add: is_blank_def)

lemma takeWhile_all: "list_all P xs \<Longrightarrow> takeWhile P xs = xs \<and> dropWhile P xs = []"
  by (induction xs) auto

lemma dropWhile_front:
  "list_all P xs \<Longrightarrow> (ys = [] \<or> \<not> P (hd ys)) \<Longrightarrow> dropWhile P (xs @ ys) = ys"
  by (induction xs) (cases ys; auto)+

lemma list_all_takeWhile: "list_all P (takeWhile P xs)"
  by (induction xs) auto

lemma sign_of_split:
  assumes "sign_of t = (negative, u)"
  shows "\<exists>sign \<in> {'''', ''+'', ''-''}. t = sign @ u \<and> negative = (sign = ''-'')"
  using assms by (cases t) (auto simp: sign_of_def split: if_splits)

lemma sign_of_digits:
  "sign \<in> {'''', ''+'', ''-''} \<Longrightarrow> ds \<noteq> [] \<Longrightarrow> list_all is_digit ds \<Longrightarrow>
     sign_of (sign @ ds) = (sign = ''-'', ds)"
  by (cases ds) (auto simp: sign_of_def)

lemma parse_count_exact: "parse_count s = Some w \<longleftrightarrow> is_number s w"
proof
  assume "is_number s w"
  then obtain blanks sign ds where s: "s = blanks @ sign @ ds" "list_all is_blank blanks"
    "sign \<in> {'''', ''+'', ''-''}" "ds \<noteq> []" "list_all is_digit ds" "digits_value ds < 2 ^ 64"
    "w = (if sign = ''-'' then - of_nat (digits_value ds) else of_nat (digits_value ds))"
    unfolding is_number_def by blast
  have "hd (sign @ ds) = (if sign = '''' then hd ds else hd sign)" by simp
  moreover have "is_digit (hd ds)" using s(4,5) by (cases ds) auto
  ultimately have "\<not> is_blank (hd (sign @ ds))" using s(3) by auto
  with s(1,2) have "dropWhile is_blank s = sign @ ds" by (simp add: dropWhile_front)
  moreover have tw: "takeWhile is_digit ds = ds" "dropWhile is_digit ds = []"
    using takeWhile_all [OF s(5)] by auto
  ultimately show "parse_count s = Some w"
    using sign_of_digits [OF s(3-5)] s(4,6,7)
    by (simp add: parse_count_def strtoull_def Let_def s(1) tw del: takeWhile_eq_all_conv dropWhile_eq_Nil_conv)
next
  assume p: "parse_count s = Some w"
  obtain negative t where st: "sign_of (dropWhile is_blank s) = (negative, t)" by fastforce
  let ?ds = "takeWhile is_digit t"
  from p st have ds: "?ds \<noteq> []" "digits_value ?ds < 2 ^ 64" "dropWhile is_digit t = []"
    and w: "w = (if negative then - of_nat (digits_value ?ds) else of_nat (digits_value ?ds))"
    by (auto simp: parse_count_def strtoull_def Let_def split: if_splits)
  have t: "t = ?ds" using takeWhile_dropWhile_id [of is_digit t] unfolding ds(3) by (metis append_Nil2)
  obtain sign where sign: "sign \<in> {'''', ''+'', ''-''}" "dropWhile is_blank s = sign @ t"
    "negative = (sign = ''-'')"
    using sign_of_split [OF st] by blast
  have "s = takeWhile is_blank s @ sign @ ?ds"
    using takeWhile_dropWhile_id [of is_blank s] sign(2) t by simp
  moreover have "list_all is_blank (takeWhile is_blank s)" "list_all is_digit ?ds"
    by (rule list_all_takeWhile)+
  ultimately show "is_number s w"
    unfolding is_number_def using sign(1,3) ds(1,2) w by blast
qed

section \<open>The numbers of a shell\<close>

text \<open>The decimal digits of a number, without leading zeros.\<close>

function decimal :: "nat \<Rightarrow> string" where
  "decimal n = (if n < 10 then [''0123456789'' ! n] else decimal (n div 10) @ [''0123456789'' ! (n mod 10)])"
  by pat_completeness auto
termination by (relation "measure id") auto

declare decimal.simps [simp del]

lemma decimal_digit: "n < 10 \<Longrightarrow> is_digit (''0123456789'' ! n) \<and> digit_value (''0123456789'' ! n) = n"
proof -
  assume "n < 10"
  then have "n \<in> {0, 1, 2, 3, 4, 5, 6, 7, 8, 9}" by auto
  then show ?thesis
    by (auto simp: is_digit_def digit_value_def)
qed

lemma digits_value_snoc: "digits_value (ds @ [c]) = 10 * digits_value ds + digit_value c"
  by (simp add: digits_value_def)

lemma decimal_value:
  "decimal n \<noteq> [] \<and> list_all is_digit (decimal n) \<and> digits_value (decimal n) = n"
proof (induction n rule: decimal.induct)
  case (1 n)
  show ?case
  proof (cases "n < 10")
    case True
    with decimal_digit [OF True] show ?thesis
      by (subst (1 2 3) decimal.simps) (simp add: digits_value_def)
  next
    case False
    with 1 have ih: "list_all is_digit (decimal (n div 10))" "digits_value (decimal (n div 10)) = n div 10"
      by blast+
    have d: "decimal n = decimal (n div 10) @ [''0123456789'' ! (n mod 10)]"
      using False by (subst decimal.simps) simp
    show ?thesis
      using ih decimal_digit [of "n mod 10"] by (simp add: d digits_value_snoc)
  qed
qed

section \<open>Options\<close>

text \<open>\<open>struct benchmark_options\<close>, with the flag \<open>latency\<close> as a truth value.\<close>

record benchmark_options =
  opt_warmup :: u64
  opt_messages :: u64
  opt_batch :: u32
  opt_objects :: u32
  opt_latency :: bool

definition default_options :: benchmark_options where
  "default_options = \<lparr>opt_warmup = 100000, opt_messages = 1000000, opt_batch = 256, opt_objects = 1,
     opt_latency = False\<rparr>"

text \<open>
  The modes of \<open>libwayland-client.c\<close>: the flags \<open>latency\<close>, \<open>client_tx\<close>, \<open>client_rx\<close> and \<open>idle\<close>, of which
  at most one is set.
\<close>

datatype bench_mode = Round_Trip | Latency | Client_Tx | Client_Rx | Idle

definition parse_mode :: "string \<Rightarrow> bench_mode option" where
  "parse_mode s =
     (if s = ''latency'' then Some Latency
      else if s = ''client-tx'' then Some Client_Tx
      else if s = ''client-rx'' then Some Client_Rx
      else if s = ''idle'' then Some Idle
      else if s \<noteq> ''round-trip'' then None
      else Some Round_Trip)"

text \<open>\<open>if (argc > k) value = parse(argv[k]);\<close>\<close>

definition argument :: "string list \<Rightarrow> nat \<Rightarrow> (string \<Rightarrow> 'a option) \<Rightarrow> 'a \<Rightarrow> 'a option" where
  "argument argv k parse value = (if length argv > k then parse (argv ! k) else Some value)"

text \<open>\<open>(uint32_t) parse_count(...)\<close>.\<close>

definition parse_u32 :: "string \<Rightarrow> u32 option" where
  "parse_u32 s = map_option ucast (parse_count s)"

text \<open>The options of \<open>raw.c\<close>.\<close>

definition raw_arguments :: "string list \<Rightarrow> benchmark_options option" where
  "raw_arguments argv =
     Option.bind (argument argv 1 parse_count (opt_messages default_options)) (\<lambda>messages.
     Option.bind (argument argv 2 parse_u32 (opt_batch default_options)) (\<lambda>batch.
     Option.bind (argument argv 3 parse_count (opt_warmup default_options)) (\<lambda>warmup.
       let options = default_options\<lparr>opt_messages := messages, opt_batch := batch, opt_warmup := warmup\<rparr>
       in if messages = 0 \<or> batch = 0 \<or> warmup = 0 then None else Some options)))"

text \<open>The options of \<open>libwayland-client.c\<close>: these, the number of connections, the mode and the sampling time.\<close>

definition max_connections :: u64 where
  "max_connections = 64"

definition max_objects :: u32 where
  "max_objects = 64"

definition uint32_max :: u64 where
  "uint32_max = 4294967295"

record bench_run =
  run_options :: benchmark_options
  run_connections :: u64
  run_mode :: bench_mode
  run_idle_ms :: u64

definition bench_run_ok :: "bench_run \<Rightarrow> bool" where
  "bench_run_ok run \<longleftrightarrow>
     (let opts = run_options run in
        \<not> (opt_messages opts = 0 \<or> opt_batch opts = 0 \<or> opt_warmup opts = 0 \<or>
           opt_objects opts = 0 \<or> opt_objects opts > max_objects \<or>
           run_connections run = 0 \<or> run_connections run > max_connections \<or>
           (opt_objects opts > 1 \<and> (run_connections run \<noteq> 1 \<or> run_mode run \<noteq> Round_Trip)) \<or>
           (run_mode run = Idle \<and> run_idle_ms run = 0) \<or>
           (opt_latency opts \<and> opt_messages opts + opt_warmup opts > uint32_max)) \<and>
        \<not> (run_mode run \<in> {Client_Tx, Client_Rx} \<and> run_connections run \<noteq> 1))"

definition bench_arguments :: "string list \<Rightarrow> bench_run option" where
  "bench_arguments argv =
     Option.bind (argument argv 1 parse_count (opt_messages default_options)) (\<lambda>messages.
     Option.bind (argument argv 2 parse_u32 (opt_batch default_options)) (\<lambda>batch.
     Option.bind (argument argv 3 parse_count (opt_warmup default_options)) (\<lambda>warmup.
     Option.bind (argument argv 4 parse_count 1) (\<lambda>connections.
     Option.bind (argument argv 5 parse_mode Round_Trip) (\<lambda>mode.
     Option.bind (argument argv 6 parse_u32 (opt_objects default_options)) (\<lambda>objects.
     Option.bind (argument argv 7 parse_count 1000) (\<lambda>idle_ms.
       let run = \<lparr>run_options = \<lparr>opt_warmup = warmup, opt_messages = messages, opt_batch = batch,
                    opt_objects = objects, opt_latency = (mode = Latency)\<rparr>,
                  run_connections = connections, run_mode = mode, run_idle_ms = idle_ms\<rparr>
       in if bench_run_ok run then Some run else None)))))))"

section \<open>Properties\<close>

lemma decimal_not_blank: "list_all is_digit ds \<Longrightarrow> ds \<noteq> [] \<Longrightarrow> strtoull ds =
   (let n = digits_value ds in if 2 ^ 64 \<le> n then (- 1, [], True) else (of_nat n, [], False))"
proof -
  assume ds: "list_all is_digit ds" "ds \<noteq> []"
  then have "\<not> is_blank (hd ds)" by (cases ds) auto
  with ds(2) have "dropWhile is_blank ds = ds" by (cases ds) auto
  moreover have tw: "takeWhile is_digit ds = ds" "dropWhile is_digit ds = []"
    using takeWhile_all [OF ds(1)] by auto
  ultimately show ?thesis
    using sign_of_digits [of "''''" ds] ds
    by (simp add: strtoull_def Let_def tw del: takeWhile_eq_all_conv dropWhile_eq_Nil_conv)
qed

lemma parse_decimal: "parse_count (decimal n) = (if n < 2 ^ 64 then Some (of_nat n) else None)"
  using decimal_value [of n] decimal_not_blank [of "decimal n"]
  by (auto simp: parse_count_def Let_def)

text \<open>C30: \<open>parse_count\<close> accepts exactly blanks, an optional sign and decimal digits whose value is below
  2^64, and nothing after them, and gives the value, modulo 2^64 when it is negated. So every 64-bit
  number survives being printed and parsed, larger ones are refused, and "-1" is the largest.\<close>

theorem parse_count_roundtrip:
  "(parse_count s = Some w \<longleftrightarrow> is_number s w) \<and>
   parse_count (decimal n) = (if n < 2 ^ 64 then Some (of_nat n) else None) \<and>
   parse_count ''-1'' = Some (of_nat (2 ^ 64 - 1))"
proof (intro conjI)
  show "parse_count ''-1'' = Some (of_nat (2 ^ 64 - 1))"
    by (simp add: parse_count_def strtoull_def sign_of_def is_blank_def is_digit_def digits_value_def
        digit_value_def)
qed (rule parse_count_exact parse_decimal)+

lemma bench_arguments_ok: "bench_arguments argv = Some run \<Longrightarrow> bench_run_ok run"
  by (auto simp: bench_arguments_def Let_def bind_eq_Some_conv split: if_splits)

lemma u32_of_parsed [simp]: "(ucast (of_nat b :: u64) :: u32) = of_nat b"
  by transfer simp

lemma u64_of_nat_zero: "n < 2 ^ 64 \<Longrightarrow> (of_nat n :: u64) = 0 \<longleftrightarrow> n = 0"
  by (cases "n = 0") (auto simp: word_of_nat_eq_0_iff dest: dvd_imp_le)

lemma u64_of_nat_greater: "n < 2 ^ 64 \<Longrightarrow> (of_nat n :: u64) > max_connections \<longleftrightarrow> n > 64"
  by (simp add: max_connections_def word_less_nat_alt unat_of_nat)

text \<open>C31: whatever the arguments, the options \<open>libwayland-client.c\<close> runs with have nonzero counts, a
  nonzero batch, at most 64 objects on at most 64 connections, one connection where the mode or the
  objects ask for it, and in latency mode a 64-bit sum of rounds that fits in 32 bits. For four
  decimal arguments they are exactly these numbers, refused when a count is zero or does not fit,
  except that the batch size is taken modulo 2^32.\<close>

theorem bench_arguments_bounded:
  "(case bench_arguments argv of
      None \<Rightarrow> True
    | Some run \<Rightarrow>
        0 < unat (opt_messages (run_options run)) \<and> 0 < unat (opt_warmup (run_options run)) \<and>
        0 < unat (opt_batch (run_options run)) \<and>
        unat (opt_objects (run_options run)) \<in> {1..64} \<and> unat (run_connections run) \<in> {1..64} \<and>
        (unat (opt_objects (run_options run)) = 1 \<or> run_mode run = Round_Trip \<and> unat (run_connections run) = 1) \<and>
        (run_mode run \<in> {Round_Trip, Latency, Idle} \<or> unat (run_connections run) = 1) \<and>
        (opt_latency (run_options run) = False \<or>
         unat (opt_messages (run_options run) + opt_warmup (run_options run)) < 2 ^ 32)) \<and>
   bench_arguments [program, decimal m, decimal b, decimal w, decimal c] =
     (if m < 2 ^ 64 \<and> b < 2 ^ 64 \<and> w < 2 ^ 64 \<and> c < 2 ^ 64 \<and> m \<noteq> 0 \<and> b mod 2 ^ 32 \<noteq> 0 \<and> w \<noteq> 0 \<and>
         c \<in> {1..64}
      then Some \<lparr>run_options = \<lparr>opt_warmup = of_nat w, opt_messages = of_nat m, opt_batch = of_nat b,
                   opt_objects = 1, opt_latency = False\<rparr>,
                 run_connections = of_nat c, run_mode = Round_Trip, run_idle_ms = 1000\<rparr>
      else None)"
proof (intro conjI)
  show "case bench_arguments argv of
      None \<Rightarrow> True
    | Some run \<Rightarrow>
        0 < unat (opt_messages (run_options run)) \<and> 0 < unat (opt_warmup (run_options run)) \<and>
        0 < unat (opt_batch (run_options run)) \<and>
        unat (opt_objects (run_options run)) \<in> {1..64} \<and> unat (run_connections run) \<in> {1..64} \<and>
        (unat (opt_objects (run_options run)) = 1 \<or> run_mode run = Round_Trip \<and> unat (run_connections run) = 1) \<and>
        (run_mode run \<in> {Round_Trip, Latency, Idle} \<or> unat (run_connections run) = 1) \<and>
        (opt_latency (run_options run) = False \<or>
         unat (opt_messages (run_options run) + opt_warmup (run_options run)) < 2 ^ 32)"
  proof (cases "bench_arguments argv")
    case (Some run)
    note ok = bench_arguments_ok [OF Some, unfolded bench_run_ok_def Let_def max_objects_def
        max_connections_def uint32_max_def word_less_nat_alt unat_eq_0 [symmetric]]
    have one: "unat x = Suc 0" if "x \<noteq> 0" "\<not> Suc 0 < unat x" for x :: u32
      using that unat_gt_0 [of x] by linarith
    show ?thesis
      using ok by (cases "run_mode run") (auto simp: Some unat_eq_0 Suc_le_eq unat_gt_0 intro: one)
  qed simp
next
  show "bench_arguments [program, decimal m, decimal b, decimal w, decimal c] =
     (if m < 2 ^ 64 \<and> b < 2 ^ 64 \<and> w < 2 ^ 64 \<and> c < 2 ^ 64 \<and> m \<noteq> 0 \<and> b mod 2 ^ 32 \<noteq> 0 \<and> w \<noteq> 0 \<and>
         c \<in> {1..64}
      then Some \<lparr>run_options = \<lparr>opt_warmup = of_nat w, opt_messages = of_nat m, opt_batch = of_nat b,
                   opt_objects = 1, opt_latency = False\<rparr>,
                 run_connections = of_nat c, run_mode = Round_Trip, run_idle_ms = 1000\<rparr>
      else None)"
    using u64_of_nat_zero [of m] u64_of_nat_zero [of w] u64_of_nat_zero [of c] u64_of_nat_greater [of c]
    by (auto simp: bench_arguments_def argument_def parse_u32_def parse_decimal default_options_def
        bench_run_ok_def Let_def max_objects_def word_of_nat_eq_0_iff mod_eq_0_iff_dvd)
qed

text \<open>The bound on the rounds of the latency mode is tested on the wrapped sum.\<close>

lemma latency_bound_wraps:
  "bench_arguments [program, decimal (2 ^ 64 - 1), decimal 256, decimal 1, decimal 1, ''latency''] \<noteq> None"
  by (simp add: bench_arguments_def argument_def parse_u32_def parse_decimal default_options_def
      parse_mode_def bench_run_ok_def Let_def max_objects_def max_connections_def uint32_max_def)

end
