(* ===== verification/Bench_Stats.thy ===== *)
theory Bench_Stats
  imports Prelude "HOL-Library.Multiset"
begin

text \<open>
  The statistics of the latency benchmark (\<open>src/bench/libwayland-client.c\<close>): the samples are sorted by
  \<open>qsort\<close> with \<open>compare_u64\<close> and the percentiles are read off by rank, all in 64-bit arithmetic.
  An index out of the array is \<open>None\<close>. The mean is a division of \<open>long double\<close> values; its result is an
  argument.
\<close>

definition compare_u64 :: "u64 \<Rightarrow> u64 \<Rightarrow> int" where
  "compare_u64 a b = of_bool (a > b) - of_bool (a < b)"

text \<open>\<open>qsort\<close> of the C library: some arrangement of the elements that the comparison accepts.\<close>

definition qsorted :: "('a \<Rightarrow> 'a \<Rightarrow> int) \<Rightarrow> 'a list \<Rightarrow> 'a list \<Rightarrow> bool" where
  "qsorted compare xs ys \<longleftrightarrow> mset ys = mset xs \<and> sorted_wrt (\<lambda>a b. compare a b \<le> 0) ys"

definition percentile :: "u64 list \<Rightarrow> u64 \<Rightarrow> u64 \<Rightarrow> u64 option" where
  "percentile samples rounds percent =
     (let rank = (rounds * percent + 99) div 100; i = unat (if rank = 0 then 0 else rank - 1)
      in if i < length samples then Some (samples ! i) else None)"

record benchmark_result =
  res_elapsed_ns :: u64
  res_messages :: u64
  res_mean_ns :: u64
  res_p50_ns :: u64
  res_p95_ns :: u64
  res_p99_ns :: u64
  res_max_ns :: u64

definition no_result :: benchmark_result where
  "no_result = \<lparr>res_elapsed_ns = 0, res_messages = 0, res_mean_ns = 0, res_p50_ns = 0, res_p95_ns = 0,
     res_p99_ns = 0, res_max_ns = 0\<rparr>"

text \<open>The end of \<open>run_latency\<close>: \<open>samples\<close> are sorted, \<open>messages\<close> is their number.\<close>

definition latency_result ::
    "u64 \<Rightarrow> u64 list \<Rightarrow> u64 \<Rightarrow> benchmark_result \<Rightarrow> benchmark_result option" where
  "latency_result mean samples messages result =
     (case (percentile samples messages 50, percentile samples messages 95, percentile samples messages 99) of
        (Some p50, Some p95, Some p99) \<Rightarrow>
          if unat (messages - 1) < length samples
          then Some (result\<lparr>res_mean_ns := mean, res_p50_ns := p50, res_p95_ns := p95, res_p99_ns := p99,
                 res_max_ns := samples ! unat (messages - 1)\<rparr>)
          else None
      | _ \<Rightarrow> None)"

section \<open>The comparison and the sort\<close>

lemma compare_u64_le: "compare_u64 a b \<le> 0 \<longleftrightarrow> a \<le> b"
  by (auto simp: compare_u64_def)

text \<open>The comparison leaves \<open>qsort\<close> one arrangement.\<close>

lemma qsorted_sort: "qsorted compare_u64 xs ys \<longleftrightarrow> ys = sort xs"
proof
  assume "qsorted compare_u64 xs ys"
  then have "sorted ys" "mset ys = mset xs" by (auto simp: qsorted_def compare_u64_le)
  then show "ys = sort xs" by (metis properties_for_sort)
next
  assume "ys = sort xs"
  then show "qsorted compare_u64 xs ys" by (simp add: qsorted_def compare_u64_le)
qed

section \<open>Ranks\<close>

text \<open>\<open>v\<close> is the percentile by nearest rank: at least \<open>p\<close> percent of the samples are at most \<open>v\<close>, and less
  than \<open>p\<close> percent below it.\<close>

definition nearest_rank :: "u64 list \<Rightarrow> nat \<Rightarrow> u64 \<Rightarrow> bool" where
  "nearest_rank xs p v \<longleftrightarrow>
     p * length xs \<le> 100 * length (filter (\<lambda>x. x \<le> v) xs) \<and>
     100 * length (filter (\<lambda>x. x < v) xs) < p * length xs"

lemma sorted_filter_bounds:
  assumes "sorted ys" and "i < length ys"
  shows "Suc i \<le> length (filter (\<lambda>x. x \<le> ys ! i) ys)" and "length (filter (\<lambda>x. x < ys ! i) ys) \<le> i"
proof -
  have mono: "ys ! a \<le> ys ! b" if "a \<le> b" "b < length ys" for a b
    using sorted_nth_mono [OF assms(1)] that by blast
  have split: "ys = take (Suc i) ys @ drop (Suc i) ys" by simp
  have "filter (\<lambda>x. x \<le> ys ! i) (take (Suc i) ys) = take (Suc i) ys"
  proof (intro filter_True ballI)
    fix x assume "x \<in> set (take (Suc i) ys)"
    then obtain j where "j \<le> i" "x = ys ! j" by (auto simp: in_set_conv_nth less_Suc_eq_le)
    with mono [of j i] assms(2) show "x \<le> ys ! i" by simp
  qed
  then have "length (filter (\<lambda>x. x \<le> ys ! i) ys) = Suc i + length (filter (\<lambda>x. x \<le> ys ! i) (drop (Suc i) ys))"
    using assms(2) by (subst split) (simp del: append_take_drop_id)
  then show "Suc i \<le> length (filter (\<lambda>x. x \<le> ys ! i) ys)" by simp
  have split': "ys = take i ys @ drop i ys" by simp
  have "filter (\<lambda>x. x < ys ! i) (drop i ys) = []"
  proof (intro filter_False ballI)
    fix x assume "x \<in> set (drop i ys)"
    then obtain j where "j < length ys - i" "x = ys ! (i + j)" by (auto simp: in_set_conv_nth)
    with mono [of i "i + j"] show "\<not> x < ys ! i" by (simp add: not_less)
  qed
  then have "length (filter (\<lambda>x. x < ys ! i) ys) = length (filter (\<lambda>x. x < ys ! i) (take i ys))"
    by (subst split') (simp del: append_take_drop_id)
  also have "\<dots> \<le> i" by (rule order_trans [OF length_filter_le]) simp
  finally show "length (filter (\<lambda>x. x < ys ! i) ys) \<le> i" .
qed

text \<open>The rank in natural numbers, where nothing wraps.\<close>

lemma rank_value:
  assumes "unat rounds * unat percent + 99 < 2 ^ 64"
  shows "unat ((rounds * percent + 99) div 100 :: u64) = (unat rounds * unat percent + 99) div 100"
proof -
  have "unat (rounds * percent) = unat rounds * unat percent"
    using assms by (subst unat_mult_lem [symmetric]) simp
  moreover have "unat (rounds * percent + 99) = unat (rounds * percent) + unat (99 :: u64)"
    using assms calculation by (subst unat_add_lem [symmetric]) simp
  ultimately show ?thesis by (simp add: unat_div_distrib)
qed

lemma percentile_sorted:
  assumes "sorted ys" and n: "length ys = unat rounds" "0 < unat rounds"
    and p: "0 < unat percent" "unat percent \<le> 100" "unat rounds * unat percent + 99 < 2 ^ 64"
  shows "\<exists>i. percentile ys rounds percent = Some (ys ! i) \<and> i < length ys \<and>
    Suc i = (unat rounds * unat percent + 99) div 100"
proof -
  define rank where "rank = (rounds * percent + 99) div 100"
  have r: "unat rank = (unat rounds * unat percent + 99) div 100"
    unfolding rank_def by (rule rank_value [OF p(3)])
  have "1 \<le> unat rounds * unat percent" using n(2) p(1) by simp
  then have pos: "0 < unat rank" unfolding r by linarith
  have "unat rounds * unat percent \<le> unat rounds * 100" using p(2) by simp
  then have le: "unat rank \<le> unat rounds" unfolding r by linarith
  from pos have "rank \<noteq> 0" "unat (rank - 1) = unat rank - 1"
    by (auto simp: unat_minus_one unat_gt_0)
  with pos le n r show ?thesis
    by (intro exI [of _ "unat rank - 1"]) (simp add: percentile_def rank_def [symmetric] Let_def)
qed

lemma rank_bounds: "Suc i = (x + 99) div 100 \<Longrightarrow> x \<le> 100 * Suc i \<and> 100 * i < (x :: nat)"
  using div_mult_mod_eq [of "x + 99" 100] mod_less_divisor [of 100 "x + 99"] by auto

lemma percentile_nearest_rank:
  assumes "sorted ys" and "Suc i = (length ys * p + 99) div 100" and "i < length ys"
  shows "nearest_rank ys p (ys ! i)"
proof -
  have "length ys * p \<le> 100 * Suc i" "100 * i < length ys * p" using rank_bounds [OF assms(2)] by auto
  with sorted_filter_bounds [OF assms(1,3)] show ?thesis
    unfolding nearest_rank_def by (simp add: mult.commute)
qed

lemma nearest_rank_perm: "mset ys = mset xs \<Longrightarrow> nearest_rank ys p v \<longleftrightarrow> nearest_rank xs p v"
proof -
  assume m: "mset ys = mset xs"
  then have "length (filter P ys) = length (filter P xs)" for P
    by (metis mset_filter size_mset)
  moreover have "length ys = length xs" using m by (rule mset_eq_length)
  ultimately show ?thesis by (simp add: nearest_rank_def)
qed

section \<open>Properties\<close>

text \<open>C29: for any nonempty run of samples whose number times 99 fits in 64 bits, whatever arrangement
  \<open>qsort\<close> makes of them, the statistics of the latency benchmark read only inside the array; the 50th,
  95th and 99th percentiles are samples and exact by nearest rank (at least p percent of the samples are
  at most that value and fewer than p percent below it), they are in order, and the last statistic is the
  largest sample.\<close>

theorem latency_percentiles_exact:
  assumes "qsorted compare_u64 samples ys" and "length samples = unat rounds" and "0 < unat rounds"
    and "unat rounds * 99 + 99 < 2 ^ 64"
  shows "\<exists>r. latency_result mean ys rounds r0 = Some r \<and>
    nearest_rank samples 50 (res_p50_ns r) \<and> nearest_rank samples 95 (res_p95_ns r) \<and>
    nearest_rank samples 99 (res_p99_ns r) \<and>
    {res_p50_ns r, res_p95_ns r, res_p99_ns r} \<subseteq> set samples \<and>
    res_p50_ns r \<le> res_p95_ns r \<and> res_p95_ns r \<le> res_p99_ns r \<and> res_p99_ns r \<le> res_max_ns r \<and>
    res_max_ns r = Max (set samples)"
proof -
  have ys: "sorted ys" "mset ys = mset samples" "length ys = unat rounds"
    using assms(1,2) by (auto simp: qsorted_def compare_u64_le dest: mset_eq_length)
  obtain i50 where i50: "percentile ys rounds 50 = Some (ys ! i50)" "i50 < length ys"
    "Suc i50 = (unat rounds * 50 + 99) div 100"
    using percentile_sorted [OF ys(1,3) assms(3), of 50] assms(4) by auto
  obtain i95 where i95: "percentile ys rounds 95 = Some (ys ! i95)" "i95 < length ys"
    "Suc i95 = (unat rounds * 95 + 99) div 100"
    using percentile_sorted [OF ys(1,3) assms(3), of 95] assms(4) by auto
  obtain i99 where i99: "percentile ys rounds 99 = Some (ys ! i99)" "i99 < length ys"
    "Suc i99 = (unat rounds * 99 + 99) div 100"
    using percentile_sorted [OF ys(1,3) assms(3), of 99] assms(4) by auto
  have last: "unat (rounds - 1) = length ys - 1"
    using assms(3) ys(3) by (simp add: unat_minus_one unat_gt_0)
  have le: "i50 \<le> i95" "i95 \<le> i99" "i99 \<le> length ys - 1"
    using i50(3) i95(3) i99(2,3) by - (linarith+)
  have "ys ! (length ys - 1) = Max (set samples)"
  proof (rule Max_eqI [symmetric])
    show "ys ! (length ys - 1) \<in> set samples"
      using i50(2) ys(2) by (metis diff_less length_greater_0_conv less_nat_zero_code neq0_conv nth_mem set_mset_mset zero_less_one)
    show "y \<le> ys ! (length ys - 1)" if "y \<in> set samples" for y
    proof -
      from that ys(2) have "y \<in> set ys" by (metis set_mset_mset)
      then obtain j where "j < length ys" "y = ys ! j" by (auto simp: in_set_conv_nth)
      with ys(1) show ?thesis by (auto intro: sorted_nth_mono)
    qed
  qed simp
  moreover have "set ys = set samples" using ys(2) by (metis set_mset_mset)
  moreover have "nearest_rank samples 50 (ys ! i50)" "nearest_rank samples 95 (ys ! i95)"
    "nearest_rank samples 99 (ys ! i99)"
    using percentile_nearest_rank [OF ys(1)] i50 i95 i99 ys(3) nearest_rank_perm [OF ys(2)] by simp_all
  moreover have "latency_result mean ys rounds r0 = Some (r0\<lparr>res_mean_ns := mean, res_p50_ns := ys ! i50,
      res_p95_ns := ys ! i95, res_p99_ns := ys ! i99, res_max_ns := ys ! (length ys - 1)\<rparr>)"
    using i50(1,2) i95(1) i99(1) by (simp add: latency_result_def last)
  moreover have "ys ! i50 \<le> ys ! i95" "ys ! i95 \<le> ys ! i99" "ys ! i99 \<le> ys ! (length ys - 1)"
    using le i50(2) i95(2) i99(2) by (intro sorted_nth_mono [OF ys(1)]; simp)+
  moreover have "ys ! i50 \<in> set ys" "ys ! i95 \<in> set ys" "ys ! i99 \<in> set ys"
    using i50(2) i95(2) i99(2) by simp_all
  ultimately show ?thesis by simp
qed

theorem latency_percentiles_exact_witness:
  "\<exists>r. latency_result 20 [10, 20, 30] 3 no_result = Some r \<and> nearest_rank [30, 10, 20] 50 (res_p50_ns r)"
proof -
  have "qsorted compare_u64 [30, 10, 20] [10, 20, 30]" by (simp add: qsorted_def compare_u64_def)
  from latency_percentiles_exact [OF this, of 3 20] show ?thesis by auto
qed

end
