(* ===== verification/Bench_Server.thy ===== *)
theory Bench_Server
  imports Libwayland Bench_Options
begin

text \<open>
  The libwayland benchmark server (\<open>src/bench/libwayland-server.c\<close>): it counts the pings of any number of
  clients, each on any number of objects, and answers with a pong every time in latency mode, otherwise
  when a client's warm-up ends and when its last message arrives. All counters are 64-bit words.

  Clients are the pointers \<open>0 ..< count\<close> that \<open>wl_client_create\<close> returned before the display runs. A
  binding comes with whether \<open>calloc\<close> succeeds. When a client goes the library calls the destroy listener,
  if the server added one, and then destroys the client's resources; from the user data it keeps for each
  resource the model knows which they are. A resource that got no implementation is of no use to the
  client. \<open>wl_client_flush\<close> is not recorded.
\<close>

record bench_connection =
  bc_received :: u64
  bc_next_ack :: u64
  bc_final_ack :: u64

record bench_server =
  bs_expected_clients :: nat
  bs_destroyed_clients :: nat
  bs_received :: u64
  bs_valid :: bool
  bs_connections :: "nat \<Rightarrow> bench_connection option"
  bs_user_data :: "resource \<Rightarrow> nat option"
  bs_resources :: "resource list"

definition bench_server_init :: "nat \<Rightarrow> bench_server" where
  "bench_server_init n = \<lparr>bs_expected_clients = n, bs_destroyed_clients = 0, bs_received = 0,
     bs_valid = True, bs_connections = Map.empty, bs_user_data = Map.empty, bs_resources = []\<rparr>"

text \<open>\<open>BE_Freed\<close> stands for a use of a connection that has been freed.\<close>

datatype bench_event = BE_Pong resource u32 | BE_Pong_Fd resource u32 fd_t | BE_Freed

datatype bench_request =
    BR_Bind nat u32 u32 bool
  | BR_Ping resource u32
  | BR_Ping_Fd resource u32 fd_t
  | BR_Client_Destroyed nat

type_synonym bench_step = "bench_server \<times> bench_event wl_call list"

definition bench_interface :: string where
  "bench_interface = ''wp_wayring_benchmark_v1''"

section \<open>Handlers\<close>

definition bench_ping :: "benchmark_options \<Rightarrow> resource \<Rightarrow> u32 \<Rightarrow> bench_server \<Rightarrow> bench_step" where
  "bench_ping opts r sequence s =
     (case Option.bind (bs_user_data s r) (\<lambda>c. map_option (Pair c) (bs_connections s c)) of
        None \<Rightarrow> (s, [Send BE_Freed])
      | Some (c, conn) \<Rightarrow>
          (let conn1 = conn\<lparr>bc_received := bc_received conn + 1\<rparr>;
               s1 = s\<lparr>bs_received := bs_received s + 1,
                      bs_valid := (if bc_received conn1 > bc_final_ack conn1 then False else bs_valid s)\<rparr>
           in if opt_latency opts \<or> bc_received conn1 = bc_next_ack conn1
              then (s1\<lparr>bs_connections := (bs_connections s)(c \<mapsto>
                       (if \<not> opt_latency opts \<and> bc_next_ack conn1 \<noteq> bc_final_ack conn1
                        then conn1\<lparr>bc_next_ack := bc_final_ack conn1\<rparr> else conn1))\<rparr>,
                    [Send (BE_Pong r sequence)])
              else (s1\<lparr>bs_connections := (bs_connections s)(c \<mapsto> conn1)\<rparr>, [])))"

definition bench_ping_fd :: "resource \<Rightarrow> u32 \<Rightarrow> fd_t \<Rightarrow> bench_server \<Rightarrow> bench_step" where
  "bench_ping_fd r sequence descriptor s =
     (s, [Send (BE_Pong_Fd r sequence descriptor), Close descriptor])"

text \<open>The destroy listener.\<close>

definition bench_client_destroy :: "nat \<Rightarrow> bench_connection \<Rightarrow> bench_server \<Rightarrow> bench_step" where
  "bench_client_destroy c conn s =
     (let s1 = s\<lparr>bs_valid := (if bc_received conn \<noteq> bc_final_ack conn then False else bs_valid s),
                 bs_destroyed_clients := bs_destroyed_clients s + 1,
                 bs_connections := (bs_connections s)(c := None)\<rparr>
      in (s1, if bs_destroyed_clients s1 = bs_expected_clients s1 then [Terminate] else []))"

definition bench_bind ::
    "benchmark_options \<Rightarrow> nat \<Rightarrow> u32 \<Rightarrow> u32 \<Rightarrow> bool \<Rightarrow> resource option \<Rightarrow> bench_server \<Rightarrow> bench_step" where
  "bench_bind opts c version rid allocated new s =
     (let new_connection = (bs_connections s c = None);
          conn = (if new_connection
                  then (if allocated then Some \<lparr>bc_received = 0, bc_next_ack = 0, bc_final_ack = 0\<rparr> else None)
                  else bs_connections s c)
      in case (conn, new) of
           (Some k, Some r) \<Rightarrow>
             (s\<lparr>bs_connections := (bs_connections s)(c \<mapsto>
                  (if new_connection
                   then k\<lparr>bc_next_ack := opt_warmup opts, bc_final_ack := opt_warmup opts + opt_messages opts\<rparr>
                   else k)),
                bs_user_data := (bs_user_data s)(r \<mapsto> c), bs_resources := r # bs_resources s\<rparr>,
              [Create r bench_interface (int (unat version)) rid, Set_Implementation r])
         | (None, Some r) \<Rightarrow> (s, [Create r ''unimplemented'' (int (unat version)) rid, No_Memory])
         | (_, None) \<Rightarrow> (s, [No_Memory]))"

text \<open>What the library does when a client goes: the listener, then the client's resources.\<close>

definition owned :: "bench_server \<Rightarrow> nat \<Rightarrow> resource list" where
  "owned s c = filter (\<lambda>r. bs_user_data s r = Some c) (bs_resources s)"

definition bench_client_gone :: "nat \<Rightarrow> bench_server \<Rightarrow> bench_step" where
  "bench_client_gone c s =
     (case bs_connections s c of
        None \<Rightarrow> (s, [Destroy c])
      | Some conn \<Rightarrow>
          (case bench_client_destroy c conn s of
             (s1, calls) \<Rightarrow>
               (s1\<lparr>bs_resources := filter (\<lambda>r. bs_user_data s r \<noteq> Some c) (bs_resources s)\<rparr>,
                calls @ map Destroy (owned s c) @ [Destroy c])))"

fun bench_handle :: "benchmark_options \<Rightarrow> bench_request \<Rightarrow> resource option \<Rightarrow> bench_server \<Rightarrow> bench_step" where
  "bench_handle opts (BR_Bind c version rid allocated) new s = bench_bind opts c version rid allocated new s"
| "bench_handle opts (BR_Ping r sequence) new s = bench_ping opts r sequence s"
| "bench_handle opts (BR_Ping_Fd r sequence fd) new s = bench_ping_fd r sequence fd s"
| "bench_handle opts (BR_Client_Destroyed c) new s = bench_client_gone c s"

fun bench_args :: "bench_request \<Rightarrow> (resource \<times> string) list" where
  "bench_args (BR_Bind c version rid allocated) = [(c, ''wl_client'')]"
| "bench_args (BR_Ping r sequence) = [(r, bench_interface)]"
| "bench_args (BR_Ping_Fd r sequence fd) = [(r, bench_interface)]"
| "bench_args (BR_Client_Destroyed c) = [(c, ''wl_client'')]"

fun bench_uses :: "bench_event \<Rightarrow> resource option list" where
  "bench_uses (BE_Pong r sequence) = [Some r]"
| "bench_uses (BE_Pong_Fd r sequence fd) = [Some r]"
| "bench_uses BE_Freed = [None]"

definition bench_status :: "benchmark_options \<Rightarrow> nat \<Rightarrow> bench_server \<Rightarrow> bool" where
  "bench_status opts n s \<longleftrightarrow>
     bs_valid s \<and> bs_received s = (opt_warmup opts + opt_messages opts) * of_nat n"

definition bench_globals :: "(string \<times> nat) list" where
  "bench_globals = [(bench_interface, 1)]"

text \<open>The clients exist before the first request.\<close>

definition bench_start :: "nat \<Rightarrow> (bench_server, bench_request, bench_event) session" where
  "bench_start n = (start_session (bench_server_init n))
     \<lparr>ss_live := (\<lambda>c. if c < n then Some ''wl_client'' else None)\<rparr>"

definition bench_session :: "benchmark_options \<Rightarrow> nat \<Rightarrow> bench_request input list \<Rightarrow>
    (bench_server, bench_request, bench_event) session option" where
  "bench_session opts n ins = serve (bench_handle opts) bench_args bench_uses ins (bench_start n)"

text \<open>\<open>me_client\<close> says whether every \<open>wl_client_create\<close> succeeded.\<close>

definition benchmark_server_multi ::
    "main_env \<Rightarrow> benchmark_options \<Rightarrow> nat \<Rightarrow> bench_request input list \<Rightarrow> outcome" where
  "benchmark_server_multi env opts n ins =
     server_program env bench_globals (bench_status opts n) (bench_session opts n ins)"

definition benchmark_server :: "main_env \<Rightarrow> benchmark_options \<Rightarrow> bench_request input list \<Rightarrow> outcome" where
  "benchmark_server env opts ins = benchmark_server_multi env opts 1 ins"

lemmas bench_handler_defs = bench_ping_def bench_ping_fd_def bench_client_destroy_def bench_bind_def
  bench_client_gone_def Let_def

section \<open>The connections are alive\<close>

text \<open>
  The library's resources are the live ones with the benchmark's interface; each carries a connection that
  exists, of a client that exists.
\<close>

definition connected :: "bench_server \<Rightarrow> resource \<Rightarrow> bool" where
  "connected s r \<longleftrightarrow> (case bs_user_data s r of None \<Rightarrow> False | Some c \<Rightarrow> bs_connections s c \<noteq> None)"

definition bench_inv :: "bench_server \<Rightarrow> resources \<Rightarrow> bool" where
  "bench_inv s live \<longleftrightarrow>
     distinct (bs_resources s) \<and>
     set (bs_resources s) = {r. live r = Some bench_interface} \<and>
     (\<forall>r \<in> set (bs_resources s). connected s r) \<and>
     (\<forall>c. live c \<noteq> Some ''wl_client'' \<longrightarrow> bs_connections s c = None)"

lemma connected_cong:
  "bs_user_data s' r = bs_user_data s r \<Longrightarrow>
     (\<And>c. bs_user_data s r = Some c \<Longrightarrow> bs_connections s c \<noteq> None \<Longrightarrow> bs_connections s' c \<noteq> None) \<Longrightarrow>
     connected s r \<Longrightarrow> connected s' r"
  by (auto simp: connected_def split: option.splits)

lemma exec_destroys:
  "distinct rs \<Longrightarrow> (\<forall>r \<in> set rs. live r \<noteq> None) \<Longrightarrow>
     exec_calls uses (map Destroy rs @ cs) live =
     exec_calls uses cs (\<lambda>r. if r \<in> set rs then None else live r)"
proof (induction rs arbitrary: live)
  case (Cons r rs)
  have "exec_calls uses (map Destroy (r # rs) @ cs) live = exec_calls uses (map Destroy rs @ cs) (live(r := None))"
    using Cons.prems by auto
  also have "\<dots> = exec_calls uses cs (\<lambda>x. if x \<in> set rs then None else (live(r := None)) x)"
    by (rule Cons.IH) (use Cons.prems in auto)
  also have "(\<lambda>x. if x \<in> set rs then None else (live(r := None)) x) =
      (\<lambda>x. if x \<in> set (r # rs) then None else live x)"
    by auto
  finally show ?case .
qed simp

lemma bench_interface_differs [simp]:
  "bench_interface \<noteq> ''wl_client''" "''wl_client'' \<noteq> bench_interface" "''unimplemented'' \<noteq> bench_interface"
  "bench_interface \<noteq> ''unimplemented''"
  by (simp_all add: bench_interface_def)

lemma bench_destroys:
  assumes "bench_inv s live" and "live c = Some ''wl_client''"
  shows "exec_calls bench_uses (map Destroy (owned s c) @ [Destroy c]) live =
    Some ((\<lambda>r. if r \<in> set (owned s c) then None else live r)(c := None))"
proof -
  have "distinct (owned s c)" "\<forall>r \<in> set (owned s c). live r \<noteq> None" "c \<notin> set (owned s c)"
    using assms by (auto simp: owned_def bench_inv_def)
  with assms(2) show ?thesis by (simp add: exec_destroys)
qed

text \<open>What one delivered request does to the objects that exist.\<close>

lemma bench_bind_step:
  assumes "bench_inv s live" and "live c = Some ''wl_client''" and "\<forall>r. new = Some r \<longrightarrow> live r = None"
    and "bench_bind opts c version rid allocated new s = (s', calls)"
  shows "\<exists>live'. exec_calls bench_uses calls live = Some live' \<and> bench_inv s' live'"
proof (cases new)
  case None
  with assms show ?thesis by (auto simp: bench_bind_def Let_def split: option.splits)
next
  case (Some r)
  with assms(3) have r: "live r = None" by simp
  with assms(1,2) have "r \<noteq> c" "r \<notin> set (bs_resources s)" by (auto simp: bench_inv_def)
  note new = this
  have old: "connected (s\<lparr>bs_connections := (bs_connections s)(c \<mapsto> k),
      bs_user_data := (bs_user_data s)(r \<mapsto> c), bs_resources := rs\<rparr>) r'" if "connected s r'" for r' k rs
    using that by (cases "r' = r") (auto simp: connected_def split: option.splits)
  show ?thesis
  proof (cases "bs_connections s c = None \<and> \<not> allocated")
    case True
    with assms Some r show ?thesis by (auto simp: bench_bind_def bench_inv_def Let_def)
  next
    case False
    then obtain k where "s' = s\<lparr>bs_connections := (bs_connections s)(c \<mapsto> k),
        bs_user_data := (bs_user_data s)(r \<mapsto> c), bs_resources := r # bs_resources s\<rparr>"
      "calls = [Create r bench_interface (int (unat version)) rid, Set_Implementation r]"
      using assms(4) Some by (cases "bs_connections s c") (auto simp: bench_bind_def Let_def)
    with assms(1,2) r new old show ?thesis by (auto simp: bench_inv_def connected_def)
  qed
qed

lemma bench_ping_step:
  assumes "bench_inv s live" and "live r = Some bench_interface"
    and "bench_ping opts r sequence s = (s', calls)"
  shows "\<exists>live'. exec_calls bench_uses calls live = Some live' \<and> bench_inv s' live'"
proof -
  from assms(1,2) have "connected s r" by (auto simp: bench_inv_def)
  then obtain c conn where "bs_user_data s r = Some c" and c: "bs_connections s c = Some conn"
    by (auto simp: connected_def split: option.splits)
  then have same: "bs_user_data s' = bs_user_data s" "bs_resources s' = bs_resources s"
    and k: "bs_connections s' = (bs_connections s)(c \<mapsto> the (bs_connections s' c))"
    and calls: "calls = [] \<or> calls = [Send (BE_Pong r sequence)]"
    using assms(3) by (auto simp: bench_ping_def Let_def split: if_splits)
  from k obtain k where k: "bs_connections s' = (bs_connections s)(c \<mapsto> k)" ..
  have "connected s' r'" if "connected s r'" for r'
    by (rule connected_cong [OF _ _ that]) (simp_all add: same k)
  with assms(1) c have "bench_inv s' live" by (auto simp: bench_inv_def same k)
  with calls assms(2) show ?thesis by auto
qed

lemma bench_gone_step:
  assumes "bench_inv s live" and "live c = Some ''wl_client''" and "bench_client_gone c s = (s', calls)"
  shows "\<exists>live'. exec_calls bench_uses calls live = Some live' \<and> bench_inv s' live'"
proof (cases "bs_connections s c")
  case None
  with assms show ?thesis by (auto simp: bench_client_gone_def bench_inv_def)
next
  case (Some conn)
  let ?live = "(\<lambda>r. if r \<in> set (owned s c) then None else live r)(c := None)"
  have "exec_calls bench_uses calls live = Some ?live"
    using assms(3) Some bench_destroys [OF assms(1,2)]
    by (auto simp: bench_client_gone_def bench_client_destroy_def Let_def)
  moreover have "connected s' r" if "connected s r" "bs_user_data s r \<noteq> Some c" for r
    using that assms(3) Some
    by (auto simp: bench_client_gone_def bench_client_destroy_def connected_def Let_def split: option.splits)
  then have "bench_inv s' ?live"
    using assms Some
    by (auto simp: bench_client_gone_def bench_client_destroy_def bench_inv_def owned_def Let_def)
  ultimately show ?thesis by blast
qed

interpretation bench_guarded:
  guarded_server "bench_handle opts" bench_args bench_uses bench_inv "\<lambda>s live i. True" for opts
proof unfold_locales
  fix s live req new s' calls
  assume "bench_inv s live" "exist (bench_args req) live" "\<forall>r. new = Some r \<longrightarrow> live r = None"
    "bench_handle opts req new s = (s', calls)"
  then show "\<exists>live'. exec_calls bench_uses calls live = Some live' \<and> bench_inv s' live'"
    by (cases req)
       (auto simp: bench_ping_fd_def intro: bench_bind_step bench_ping_step bench_gone_step)
qed

lemma bench_session_exists: "\<exists>ss. bench_session opts n ins = Some ss \<and> bench_inv (ss_state ss) (ss_live ss)"
  unfolding bench_session_def
  by (rule bench_guarded.serve_guarded)
     (simp_all add: bench_start_def start_session_def bench_inv_def bench_server_init_def)

lemma bench_session_snoc:
  "bench_session opts n (xs @ [i]) = (case bench_session opts n xs of None \<Rightarrow> None
     | Some ss \<Rightarrow> deliver (bench_handle opts) bench_args bench_uses i ss)"
  by (simp add: bench_session_def serve_append split: option.split)

section \<open>What the server counts\<close>

text \<open>
  The contract: a counter of natural numbers per connected client. A ping is answered in latency mode, and
  otherwise when it is the last of the warm-up or the last of all.
\<close>

record ping_counter =
  pk_owner :: "resource \<Rightarrow> nat option"
  pk_pings :: "nat \<Rightarrow> nat option"
  pk_finished :: "nat list"
  pk_total :: nat
  pk_pongs :: "bench_event list"

definition ping_counter_init :: ping_counter where
  "ping_counter_init = \<lparr>pk_owner = Map.empty, pk_pings = Map.empty, pk_finished = [], pk_total = 0,
     pk_pongs = []\<rparr>"

definition last_ping :: "benchmark_options \<Rightarrow> nat" where
  "last_ping opts = unat (opt_warmup opts) + unat (opt_messages opts)"

fun count_step :: "benchmark_options \<Rightarrow> ping_counter \<Rightarrow> bench_request input \<Rightarrow> ping_counter" where
  "count_step opts k (BR_Bind c version rid allocated, Some r) =
     (if pk_pings k c = None \<and> \<not> allocated then k
      else k\<lparr>pk_owner := (pk_owner k)(r \<mapsto> c),
             pk_pings := (pk_pings k)(c \<mapsto> (case pk_pings k c of None \<Rightarrow> 0 | Some m \<Rightarrow> m))\<rparr>)"
| "count_step opts k (BR_Ping r sequence, new) =
     (case Option.bind (pk_owner k r) (\<lambda>c. map_option (Pair c) (pk_pings k c)) of
        None \<Rightarrow> k
      | Some (c, m) \<Rightarrow>
          k\<lparr>pk_pings := (pk_pings k)(c \<mapsto> Suc m), pk_total := Suc (pk_total k),
            pk_pongs := pk_pongs k @
              (if opt_latency opts \<or> Suc m = unat (opt_warmup opts) \<or> Suc m = last_ping opts
               then [BE_Pong r sequence] else [])\<rparr>)"
| "count_step opts k (BR_Client_Destroyed c, new) =
     (case pk_pings k c of
        None \<Rightarrow> k
      | Some m \<Rightarrow> k\<lparr>pk_pings := (pk_pings k)(c := None), pk_finished := pk_finished k @ [m]\<rparr>)"
| "count_step opts k i = k"

definition count_pings :: "benchmark_options \<Rightarrow> bench_request input list \<Rightarrow> ping_counter" where
  "count_pings opts hs = foldl (count_step opts) ping_counter_init hs"

lemma count_pings_snoc [simp]: "count_pings opts (hs @ [i]) = count_step opts (count_pings opts hs) i"
  by (simp add: count_pings_def)

fun pongs :: "bench_event wl_call list \<Rightarrow> bench_event list" where
  "pongs [] = []"
| "pongs (Send (BE_Pong r sequence) # cs) = BE_Pong r sequence # pongs cs"
| "pongs (c # cs) = pongs cs"

lemma pongs_append [simp]: "pongs (xs @ ys) = pongs xs @ pongs ys"
  by (induction xs rule: pongs.induct) auto

lemma pongs_destroys [simp]: "pongs (map Destroy rs) = []" "list_ex is_terminate (map Destroy rs) = False"
  by (induction rs) auto

section \<open>The simulation\<close>

text \<open>The connection that a count stands for.\<close>

definition connection_of :: "benchmark_options \<Rightarrow> nat \<Rightarrow> bench_connection" where
  "connection_of opts m = \<lparr>bc_received = of_nat m,
     bc_next_ack = (if opt_latency opts \<or> m < unat (opt_warmup opts) then opt_warmup opts
                    else opt_warmup opts + opt_messages opts),
     bc_final_ack = opt_warmup opts + opt_messages opts\<rparr>"

definition counts_fit :: "benchmark_options \<Rightarrow> ping_counter \<Rightarrow> bool" where
  "counts_fit opts k \<longleftrightarrow> list_all (\<lambda>m. m = last_ping opts) (pk_finished k) \<and>
     (\<forall>c. case pk_pings k c of None \<Rightarrow> True | Some m \<Rightarrow> m \<le> last_ping opts)"

definition count_sum :: "ping_counter \<Rightarrow> nat" where
  "count_sum k = sum_list (pk_finished k) + (\<Sum>c \<in> dom (pk_pings k). the (pk_pings k c))"

definition bench_abs :: "benchmark_options \<Rightarrow> nat \<Rightarrow> ping_counter \<Rightarrow> bench_server \<Rightarrow> bool" where
  "bench_abs opts n k s \<longleftrightarrow>
     bs_user_data s = pk_owner k \<and>
     bs_connections s = (\<lambda>c. map_option (connection_of opts) (pk_pings k c)) \<and>
     bs_expected_clients s = n \<and> bs_destroyed_clients s = length (pk_finished k) \<and>
     bs_received s = of_nat (pk_total k) \<and> bs_valid s = counts_fit opts k \<and>
     finite (dom (pk_pings k)) \<and> pk_total k = count_sum k"

text \<open>Options as the main function accepts them: neither count zero, and no overflow of their sum.\<close>

definition plain_options :: "benchmark_options \<Rightarrow> bool" where
  "plain_options opts \<longleftrightarrow>
     0 < unat (opt_warmup opts) \<and> 0 < unat (opt_messages opts) \<and> last_ping opts < 2 ^ 64"

lemma final_ack_value:
  "plain_options opts \<Longrightarrow> unat (opt_warmup opts + opt_messages opts) = last_ping opts"
  using unat_add_lem [of "opt_warmup opts" "opt_messages opts"]
  by (simp add: plain_options_def last_ping_def)

lemma unat_of_nat_small: "m < 2 ^ 64 \<Longrightarrow> unat (of_nat m :: u64) = m"
  by (simp add: unat_of_nat take_bit_nat_eq_self)

lemma of_nat_eq_unat: "m < 2 ^ 64 \<Longrightarrow> (of_nat m :: u64) = w \<longleftrightarrow> m = unat w"
  by (metis unat_of_nat_small of_nat_unat ucast_id)

lemma sum_the_new:
  "finite (dom f) \<Longrightarrow> f c = None \<Longrightarrow>
     (\<Sum>x \<in> dom (f(c \<mapsto> m)). the ((f(c \<mapsto> m)) x)) = (\<Sum>x \<in> dom f. the (f x)) + (m :: nat)"
proof -
  assume f: "finite (dom f)" "f c = None"
  then have "c \<notin> dom f" by auto
  moreover have "(\<Sum>x \<in> dom f. the ((f(c \<mapsto> m)) x)) = (\<Sum>x \<in> dom f. the (f x))"
    by (rule sum.cong) (use f in auto)
  ultimately show ?thesis using f(1) by simp
qed

lemma sum_the_remove:
  assumes "finite (dom f)" and "f c = Some (m :: nat)"
  shows "(\<Sum>x \<in> dom f. the (f x)) = (\<Sum>x \<in> dom (f(c := None)). the ((f(c := None)) x)) + m"
proof -
  have eq: "(f(c := None))(c \<mapsto> m) = f" using assms(2) by auto
  show ?thesis using sum_the_new [of "f(c := None)" c m, unfolded eq] assms(1) by simp
qed

lemma sum_the_update:
  assumes "finite (dom f)" and "f c = Some (m :: nat)"
  shows "(\<Sum>x \<in> dom (f(c \<mapsto> Suc m)). the ((f(c \<mapsto> Suc m)) x)) = Suc (\<Sum>x \<in> dom f. the (f x))"
proof -
  have "(f(c := None))(c \<mapsto> Suc m) = f(c \<mapsto> Suc m)" by auto
  with sum_the_new [of "f(c := None)" c "Suc m"] sum_the_remove [OF assms] assms(1) show ?thesis by simp
qed

lemma sum_the_bound: "finite (dom f) \<Longrightarrow> f c = Some (m :: nat) \<Longrightarrow> m \<le> (\<Sum>x \<in> dom f. the (f x))"
  using sum_the_remove [of f c m] by simp

lemma count_bound: "finite (dom (pk_pings k)) \<Longrightarrow> pk_pings k c = Some m \<Longrightarrow> m \<le> count_sum k"
  using sum_the_bound [of "pk_pings k" c m] by (simp add: count_sum_def)

lemma bench_abs_bind:
  assumes "bench_abs opts n k s" and "plain_options opts"
    and "bench_bind opts c version rid allocated new s = (s', calls)"
  shows "bench_abs opts n (count_step opts k (BR_Bind c version rid allocated, new)) s'"
    and "pongs calls = []" and "\<not> list_ex is_terminate calls"
proof -
  show "pongs calls = []" "\<not> list_ex is_terminate calls"
    using assms(3) by (auto simp: bench_bind_def Let_def split: option.splits if_splits)
  show "bench_abs opts n (count_step opts k (BR_Bind c version rid allocated, new)) s'"
  proof (cases "new = None \<or> pk_pings k c = None \<and> \<not> allocated")
    case True
    with assms(1,3) show ?thesis by (auto simp: bench_bind_def bench_abs_def Let_def split: option.splits)
  next
    case False
    then obtain r where r: "new = Some r" by auto
    let ?m = "case pk_pings k c of None \<Rightarrow> 0 | Some m \<Rightarrow> m"
    let ?k = "k\<lparr>pk_owner := (pk_owner k)(r \<mapsto> c), pk_pings := (pk_pings k)(c \<mapsto> ?m)\<rparr>"
    have step: "count_step opts k (BR_Bind c version rid allocated, new) = ?k" using False r by auto
    have same: "pk_pings k c \<noteq> None \<Longrightarrow> (pk_pings k)(c \<mapsto> ?m) = pk_pings k" by (auto split: option.splits)
    have "counts_fit opts ?k = counts_fit opts k"
    proof (cases "pk_pings k c")
      case None
      then have "(\<forall>x. case ((pk_pings k)(c \<mapsto> 0)) x of None \<Rightarrow> True | Some v \<Rightarrow> v \<le> last_ping opts) =
          (\<forall>x. case pk_pings k x of None \<Rightarrow> True | Some v \<Rightarrow> v \<le> last_ping opts)"
        by (intro iff_allI) auto
      with None show ?thesis by (simp add: counts_fit_def)
    qed (simp add: counts_fit_def map_upd_triv)
    moreover have "count_sum ?k = count_sum k"
      using same sum_the_new [of "pk_pings k" c 0] assms(1)
      by (cases "pk_pings k c") (auto simp: count_sum_def bench_abs_def simp del: fun_upd_apply)
    moreover have "s' = s\<lparr>bs_connections := (bs_connections s)(c \<mapsto> connection_of opts ?m),
        bs_user_data := (bs_user_data s)(r \<mapsto> c), bs_resources := r # bs_resources s\<rparr>"
      using assms False r
      by (cases "pk_pings k c")
         (auto simp: bench_bind_def bench_abs_def Let_def connection_of_def plain_options_def)
    ultimately show ?thesis unfolding step using assms(1) by (auto simp: bench_abs_def)
  qed
qed

lemma bench_abs_gone:
  assumes "bench_abs opts n k s" and "plain_options opts" and "count_sum k < 2 ^ 64"
    and "bench_client_gone c s = (s', calls)"
  shows "bench_abs opts n (count_step opts k (BR_Client_Destroyed c, new)) s'"
    and "pongs calls = []"
    and "list_ex is_terminate calls \<longleftrightarrow> pk_pings k c \<noteq> None \<and> Suc (length (pk_finished k)) = n"
proof -
  show "pongs calls = []"
    "list_ex is_terminate calls \<longleftrightarrow> pk_pings k c \<noteq> None \<and> Suc (length (pk_finished k)) = n"
    using assms(1,4)
    by (auto simp: bench_client_gone_def bench_client_destroy_def bench_abs_def Let_def split: option.splits if_splits)
  show "bench_abs opts n (count_step opts k (BR_Client_Destroyed c, new)) s'"
  proof (cases "pk_pings k c")
    case None
    with assms(1,4) show ?thesis by (auto simp: bench_client_gone_def bench_abs_def)
  next
    case (Some m)
    let ?k = "k\<lparr>pk_pings := (pk_pings k)(c := None), pk_finished := pk_finished k @ [m]\<rparr>"
    have step: "count_step opts k (BR_Client_Destroyed c, new) = ?k" using Some by simp
    have fin: "finite (dom (pk_pings k))" using assms(1) by (simp add: bench_abs_def)
    have "m < 2 ^ 64" using count_bound [OF fin Some] assms(3) by simp
    then have "counts_fit opts ?k = (counts_fit opts k \<and>
        bc_received (connection_of opts m) = bc_final_ack (connection_of opts m))"
      using Some of_nat_eq_unat [of m] final_ack_value [OF assms(2)]
      by (auto simp: counts_fit_def connection_of_def split: option.splits) (metis option.inject order_refl)
    moreover have "count_sum ?k = count_sum k"
      using sum_the_remove [OF fin Some] by (simp add: count_sum_def del: fun_upd_apply)
    ultimately show ?thesis unfolding step using assms(1,4) Some fin
      by (auto simp: bench_client_gone_def bench_client_destroy_def bench_abs_def Let_def split: if_splits)
  qed
qed

lemma connection_ping:
  assumes "plain_options opts" and "Suc m < 2 ^ 64"
  defines "conn \<equiv> (connection_of opts m)\<lparr>bc_received := of_nat m + 1\<rparr>"
  shows "bc_received conn > bc_final_ack conn \<longleftrightarrow> Suc m > last_ping opts"
    and "opt_latency opts \<or> bc_received conn = bc_next_ack conn \<longleftrightarrow>
      opt_latency opts \<or> Suc m = unat (opt_warmup opts) \<or> Suc m = last_ping opts"
    and "(if \<not> opt_latency opts \<and> bc_received conn = bc_next_ack conn \<and> bc_next_ack conn \<noteq> bc_final_ack conn
          then conn\<lparr>bc_next_ack := bc_final_ack conn\<rparr> else conn) = connection_of opts (Suc m)"
proof -
  have received: "bc_received conn = of_nat (Suc m)" by (simp add: conn_def)
  have eq: "(of_nat (Suc m) = w) = (Suc m = unat w)" for w :: u64 by (rule of_nat_eq_unat [OF assms(2)])
  note final = final_ack_value [OF assms(1)]
  show "bc_received conn > bc_final_ack conn \<longleftrightarrow> Suc m > last_ping opts"
    unfolding received word_less_nat_alt unat_of_nat_small [OF assms(2)]
    by (simp add: conn_def connection_of_def final)
  show "opt_latency opts \<or> bc_received conn = bc_next_ack conn \<longleftrightarrow>
      opt_latency opts \<or> Suc m = unat (opt_warmup opts) \<or> Suc m = last_ping opts"
    unfolding received eq using assms(1) 
    by (auto simp: conn_def connection_of_def final plain_options_def last_ping_def)
  show "(if \<not> opt_latency opts \<and> bc_received conn = bc_next_ack conn \<and> bc_next_ack conn \<noteq> bc_final_ack conn
          then conn\<lparr>bc_next_ack := bc_final_ack conn\<rparr> else conn) = connection_of opts (Suc m)"
    unfolding received eq using assms(1)
    by (auto simp: conn_def connection_of_def final plain_options_def last_ping_def)
qed

lemma bench_abs_ping:
  assumes "bench_abs opts n k s" and "plain_options opts" and "Suc (count_sum k) < 2 ^ 64"
    and "bench_ping opts r sequence s = (s', calls)"
  shows "bench_abs opts n (count_step opts k (BR_Ping r sequence, new)) s'"
    and "pk_pongs (count_step opts k (BR_Ping r sequence, new)) = pk_pongs k @ pongs calls"
    and "\<not> list_ex is_terminate calls"
proof -
  show "\<not> list_ex is_terminate calls"
    using assms(4) by (auto simp: bench_ping_def Let_def split: option.splits if_splits)
  let ?found = "Option.bind (pk_owner k r) (\<lambda>c. map_option (Pair c) (pk_pings k c))"
  have "bench_abs opts n (count_step opts k (BR_Ping r sequence, new)) s' \<and>
      pk_pongs (count_step opts k (BR_Ping r sequence, new)) = pk_pongs k @ pongs calls"
  proof (cases "?found")
    case None
    then have "s' = s" "calls = [Send BE_Freed]"
      using assms(1,4) by (auto simp: bench_ping_def bench_abs_def split: option.splits bind_splits)
    with None assms(1) show ?thesis by (simp add: split: option.splits)
  next
    case (Some found)
    then obtain c m where f: "found = (c, m)" and c: "pk_owner k r = Some c" "pk_pings k c = Some m"
      by (auto split: bind_splits)
    have fin: "finite (dom (pk_pings k))" using assms(1) by (simp add: bench_abs_def)
    have m: "Suc m < 2 ^ 64" using count_bound [OF fin c(2)] assms(3) by simp
    define conn where "conn = (connection_of opts m)\<lparr>bc_received := of_nat m + 1\<rparr>"
    have found: "Option.bind (bs_user_data s r) (\<lambda>c. map_option (Pair c) (bs_connections s c)) =
        Some (c, connection_of opts m)"
      using assms(1) c by (simp add: bench_abs_def)
    have conn: "(connection_of opts m)\<lparr>bc_received := bc_received (connection_of opts m) + 1\<rparr> = conn"
      by (simp add: conn_def connection_of_def)
    note ping = connection_ping [OF assms(2) m, folded conn_def]
    have s': "s' = s\<lparr>bs_received := bs_received s + 1,
        bs_valid := (if Suc m > last_ping opts then False else bs_valid s),
        bs_connections := (bs_connections s)(c \<mapsto> connection_of opts (Suc m))\<rparr>"
      and calls: "calls = (if opt_latency opts \<or> Suc m = unat (opt_warmup opts) \<or> Suc m = last_ping opts
        then [Send (BE_Pong r sequence)] else [])"
      using assms(4) ping unfolding bench_ping_def found option.case prod.case conn Let_def
      by (auto split: if_splits)
    define k' where "k' = count_step opts k (BR_Ping r sequence, new)"
    have step: "pk_pings k' = (pk_pings k)(c \<mapsto> Suc m)" "pk_total k' = Suc (pk_total k)"
      "pk_owner k' = pk_owner k" "pk_finished k' = pk_finished k"
      "pk_pongs k' = pk_pongs k @ pongs calls"
      using c by (simp_all add: calls k'_def)
    have "(m \<le> last_ping opts \<and> Suc m \<le> last_ping opts) = (Suc m \<le> last_ping opts)" by auto
    with c(2) have "counts_fit opts k' = (Suc m \<le> last_ping opts \<and> counts_fit opts k)"
      by (auto simp: counts_fit_def step split: option.splits) (metis Suc_leD option.inject)
    moreover have "count_sum k' = Suc (count_sum k)"
      using sum_the_update [OF fin c(2)] by (simp add: count_sum_def step del: fun_upd_apply)
    ultimately show ?thesis using assms(1) unfolding k'_def [symmetric] by (auto simp: bench_abs_def s' step)
  qed
  then show "bench_abs opts n (count_step opts k (BR_Ping r sequence, new)) s'"
    "pk_pongs (count_step opts k (BR_Ping r sequence, new)) = pk_pongs k @ pongs calls" by simp_all
qed

text \<open>No client appears while requests are served.\<close>

fun creates :: "string \<Rightarrow> 'ev wl_call \<Rightarrow> bool" where
  "creates interface (Create r i version rid) = (i = interface)"
| "creates interface c = False"

lemma clients_shrink:
  "exec_calls uses cs live = Some live' \<Longrightarrow> \<not> list_ex (creates interface) cs \<Longrightarrow>
     {c. live' c = Some interface} \<subseteq> {c. live c = Some interface}"
proof (induction cs arbitrary: live)
  case (Cons x cs)
  then obtain live1 where x: "exec_call uses x live = Some live1"
    and "{c. live' c = Some interface} \<subseteq> {c. live1 c = Some interface}"
    by (auto split: option.splits)
  moreover have "{c. live1 c = Some interface} \<subseteq> {c. live c = Some interface}"
    using x Cons.prems(2) by (cases x) (auto split: if_splits)
  ultimately show ?case by blast
qed simp

lemma bench_creates: "\<not> list_ex (creates ''wl_client'') (snd (bench_handle opts req new s))"
proof -
  have "\<not> list_ex (creates ''wl_client'') (map Destroy rs)" for rs by (induction rs) auto
  then show ?thesis
    by (cases req) (auto simp: bench_handler_defs split: option.splits prod.splits)
qed

definition clients_of :: "resources \<Rightarrow> nat set" where
  "clients_of live = {c. live c = Some ''wl_client''}"

definition bench_sim :: "benchmark_options \<Rightarrow> nat \<Rightarrow> bench_request input list \<Rightarrow> bench_server \<Rightarrow> resources \<Rightarrow>
    bench_event wl_call list \<Rightarrow> bool" where
  "bench_sim opts n hs s live cs \<longleftrightarrow>
     bench_inv s live \<and> bench_abs opts n (count_pings opts hs) s \<and>
     pongs cs = pk_pongs (count_pings opts hs) \<and> count_sum (count_pings opts hs) \<le> length hs \<and>
     list_ex is_terminate cs = (length (pk_finished (count_pings opts hs)) = n) \<and>
     finite (clients_of live) \<and> card (clients_of live) + length (pk_finished (count_pings opts hs)) \<le> n"

lemma count_step_total: "pk_total (count_step opts k i) \<le> Suc (pk_total k)"
  by (induction opts k i rule: count_step.induct) (auto split: option.splits)

lemma count_step_finished:
  "(\<And>c. req \<noteq> BR_Client_Destroyed c) \<Longrightarrow> pk_finished (count_step opts k (req, new)) = pk_finished k"
  by (cases req; cases new) (auto split: option.splits)

lemma count_step_pongs:
  "(\<And>r sequence. req \<noteq> BR_Ping r sequence) \<Longrightarrow> pk_pongs (count_step opts k (req, new)) = pk_pongs k"
  by (cases req; cases new) (auto split: option.splits)

lemma bench_gone_live:
  assumes "bench_inv s live" and "live c = Some ''wl_client''" and "finite (clients_of live)"
    and "exec_calls bench_uses (snd (bench_client_gone c s)) live = Some live'"
  shows "Suc (card (clients_of live')) \<le> card (clients_of live)"
proof -
  have "live' c = None"
    using assms(4) bench_destroys [OF assms(1,2)]
    by (auto simp: bench_client_gone_def bench_client_destroy_def Let_def assms(2) split: option.splits if_splits)
  moreover have "clients_of live' \<subseteq> clients_of live"
    using clients_shrink [OF assms(4)] bench_creates [of opts "BR_Client_Destroyed c" new s for opts new]
    by (simp add: clients_of_def)
  moreover have "c \<in> clients_of live" using assms(2) by (simp add: clients_of_def)
  moreover have "c \<notin> clients_of live'" using calculation(1) by (simp add: clients_of_def)
  ultimately have "clients_of live' \<subset> clients_of live" by blast
  from psubset_card_mono [OF assms(3) this] show ?thesis by simp
qed

lemma bench_sim_step:
  assumes sim: "bench_sim opts n hs s live cs" and "plain_options opts"
    and small: "length (hs @ [(req, new)]) < 2 ^ 64"
    and "\<not> list_ex is_terminate cs"
    and args: "list_all (\<lambda>(r, interface). live r = Some interface) (bench_args req)"
    and new: "\<forall>r. new = Some r \<longrightarrow> live r = None"
    and exec: "exec_calls bench_uses (snd (bench_handle opts req new s)) live = Some live'"
  shows "bench_sim opts n (hs @ [(req, new)]) (fst (bench_handle opts req new s)) live'
    (cs @ snd (bench_handle opts req new s))"
proof -
  obtain s' calls where h: "bench_handle opts req new s = (s', calls)" by fastforce
  let ?k = "count_pings opts hs" and ?k' = "count_step opts (count_pings opts hs) (req, new)"
  note sim = sim [unfolded bench_sim_def]
  have inv: "bench_inv s live" and abs: "bench_abs opts n ?k s" using sim by simp_all
  have sums: "Suc (count_sum ?k) < 2 ^ 64" "count_sum ?k < 2 ^ 64" using sim small by auto
  have "exist (bench_args req) live" using args by (simp add: exist_def)
  then have inv': "bench_inv s' live'"
    using bench_guarded.handle_guarded [OF TrueI inv _ new h] exec h by auto
  have "clients_of live' \<subseteq> clients_of live"
    using clients_shrink [OF exec bench_creates] by (simp add: clients_of_def)
  moreover from this have "finite (clients_of live')" using sim finite_subset by blast
  moreover have fewer: "card (clients_of live') + length (pk_finished ?k) \<le> n"
    using card_mono [OF _ calculation(1)] sim by simp
  moreover have not_yet: "length (pk_finished ?k) \<noteq> n" using sim assms(4) by simp
  moreover have "bench_abs opts n ?k' s' \<and> pk_pongs ?k' = pk_pongs ?k @ pongs calls \<and>
      list_ex is_terminate calls = (length (pk_finished ?k') = n) \<and>
      card (clients_of live') + length (pk_finished ?k') \<le> n"
  proof (cases req)
    case (BR_Bind c version rid allocated)
    with bench_abs_bind [OF abs assms(2)] h fewer not_yet show ?thesis
      by (simp add: count_step_finished count_step_pongs del: count_step.simps)
  next
    case (BR_Ping r sequence)
    with bench_abs_ping [OF abs assms(2) sums(1)] h fewer not_yet show ?thesis
      by (simp add: count_step_finished del: count_step.simps)
  next
    case (BR_Ping_Fd r sequence fd)
    with abs h fewer not_yet show ?thesis by (auto simp: bench_ping_fd_def)
  next
    case (BR_Client_Destroyed c)
    then have "live c = Some ''wl_client''" using args by simp
    from bench_gone_live [OF inv this] exec BR_Client_Destroyed sim
    have "Suc (card (clients_of live')) \<le> card (clients_of live)" by simp
    moreover have gone: "bench_client_gone c s = (s', calls)" using h BR_Client_Destroyed by simp
    moreover have "pk_finished ?k' = pk_finished ?k @ (case pk_pings ?k c of None \<Rightarrow> [] | Some m \<Rightarrow> [m])"
      by (simp add: BR_Client_Destroyed split: option.split)
    ultimately show ?thesis
      using bench_abs_gone [OF abs assms(2) sums(2) gone] sim not_yet BR_Client_Destroyed
      by (auto simp: count_step_pongs simp del: count_step.simps split: option.splits)
  qed
  moreover from this have "count_sum ?k' \<le> Suc (count_sum ?k)"
    using count_step_total [of opts ?k "(req, new)"] abs by (simp add: bench_abs_def)
  ultimately show ?thesis using sim inv' assms(4) by (auto simp: bench_sim_def h)
qed

lemma bench_sim_session:
  assumes "bench_session opts n ins = Some ss" and "plain_options opts" and "0 < n" and "length ins < 2 ^ 64"
  shows "bench_sim opts n (ss_handled ss) (ss_state ss) (ss_live ss) (ss_calls ss)"
proof -
  have "length (ss_handled ss) < 2 ^ 64"
    using serve_handled_length [OF assms(1) [unfolded bench_session_def]] assms(4)
    by (simp add: bench_start_def start_session_def)
  moreover have "length (ss_handled ss) < 2 ^ 64 \<longrightarrow>
      bench_sim opts n (ss_handled ss) (ss_state ss) (ss_live ss) (ss_calls ss)"
  proof (rule serve_full_invariant [OF assms(1) [unfolded bench_session_def], where
        I = "\<lambda>hs s live cs. length hs < 2 ^ 64 \<longrightarrow> bench_sim opts n hs s live cs"])
    have "clients_of (ss_live (bench_start n)) = {..<n}"
      by (auto simp: bench_start_def clients_of_def start_session_def)
    with assms(3) show "length (ss_handled (bench_start n)) < 2 ^ 64 \<longrightarrow> bench_sim opts n (ss_handled (bench_start n))
        (ss_state (bench_start n)) (ss_live (bench_start n)) (ss_calls (bench_start n))"
      by (auto simp: bench_sim_def bench_start_def start_session_def bench_inv_def bench_abs_def counts_fit_def
          bench_server_init_def count_pings_def ping_counter_init_def count_sum_def)
  qed (use bench_sim_step assms(2) in fastforce)
  ultimately show ?thesis by simp
qed

lemma replicate_all: "length xs = n \<Longrightarrow> list_all (\<lambda>x. x = a) xs \<longleftrightarrow> xs = replicate n a"
  by (induction xs arbitrary: n) auto

lemma bench_sim_status:
  assumes "bench_sim opts n hs s live cs" and "plain_options opts" and "list_ex is_terminate cs"
  shows "bench_status opts n s \<longleftrightarrow> pk_finished (count_pings opts hs) = replicate n (last_ping opts)"
proof -
  let ?k = "count_pings opts hs"
  have len: "length (pk_finished ?k) = n" and abs: "bench_abs opts n ?k s"
    and none: "clients_of live = {}" and inv: "bench_inv s live"
    using assms by (auto simp: bench_sim_def)
  have gone: "pk_pings ?k c = None" for c
  proof -
    have "bs_connections s c = None" using none inv by (auto simp: bench_inv_def clients_of_def)
    then show ?thesis using abs by (simp add: bench_abs_def)
  qed
  have valid: "bs_valid s \<longleftrightarrow> pk_finished ?k = replicate n (last_ping opts)"
    using abs len by (simp add: bench_abs_def counts_fit_def gone replicate_all)
  have "bs_received s = (opt_warmup opts + opt_messages opts) * of_nat n" if "bs_valid s"
  proof -
    have "dom (pk_pings ?k) = {}" using gone by auto
    then have "count_sum ?k = n * last_ping opts"
      using that valid by (simp add: count_sum_def sum_list_replicate)
    then have "bs_received s = of_nat n * of_nat (last_ping opts)" using abs by (simp add: bench_abs_def)
    then show ?thesis by (simp add: final_ack_value [OF assms(2), symmetric] mult.commute)
  qed
  with valid show ?thesis by (auto simp: bench_status_def)
qed

text \<open>Once the display has terminated the server's verdict is its flag.\<close>

lemma bench_status_valid:
  assumes "bench_session opts n ins = Some ss" and "plain_options opts" and "0 < n" and "length ins < 2 ^ 64"
    and "terminated ss"
  shows "bench_status opts n (ss_state ss) = bs_valid (ss_state ss)"
proof -
  note sim = bench_sim_session [OF assms(1-4)]
  from assms(5) have over: "list_ex is_terminate (ss_calls ss)" by (simp add: terminated_def)
  let ?k = "count_pings opts (ss_handled ss)"
  have "bs_valid (ss_state ss) = counts_fit opts ?k" "length (pk_finished ?k) = n"
    and gone: "pk_pings ?k c = None" for c
    using sim over by (auto simp: bench_sim_def bench_abs_def bench_inv_def clients_of_def)
  then have "bs_valid (ss_state ss) \<longleftrightarrow> pk_finished ?k = replicate n (last_ping opts)"
    by (simp add: counts_fit_def replicate_all)
  with bench_sim_status [OF sim assms(2) over] show ?thesis by simp
qed

text \<open>C32: Serving any requests, fewer than 2 ^ 64, the benchmark server never uses a freed connection and
  answers exactly the pings that the contract of counting says; its exit code is success exactly when the
  display terminates with every client gone after its whole warm-up and all its messages, no more and no
  fewer. The counters of the code are 64-bit words.\<close>

theorem bench_server_counts:
  assumes "plain_options opts" and "0 < n" and "length ins < 2 ^ 64"
  shows "case bench_session opts n ins of
      None \<Rightarrow> False
    | Some ss \<Rightarrow>
        pongs (ss_calls ss) = pk_pongs (count_pings opts (ss_handled ss)) \<and>
        benchmark_server_multi env opts n ins \<noteq> Crashed \<and>
        (exits_with EXIT_SUCCESS (benchmark_server_multi env opts n ins) \<longleftrightarrow>
           env_ok env (length bench_globals) \<and> terminated ss \<and>
           pk_finished (count_pings opts (ss_handled ss)) = replicate n (last_ping opts))"
proof -
  obtain ss where ss: "bench_session opts n ins = Some ss" using bench_session_exists by blast
  have sim: "bench_sim opts n (ss_handled ss) (ss_state ss) (ss_live ss) (ss_calls ss)"
    by (rule bench_sim_session [OF ss assms])
  with bench_sim_status [OF sim assms(1)] ss show ?thesis
    by (auto simp: benchmark_server_multi_def server_program_success server_program_not_crashed terminated_def
        bench_sim_def)
qed

definition tiny_options :: benchmark_options where
  "tiny_options = default_options\<lparr>opt_warmup := 1, opt_messages := 1\<rparr>"

definition tiny_requests :: "bench_request input list" where
  "tiny_requests = [(BR_Bind 0 1 5 True, Some 9), (BR_Ping 9 0, None), (BR_Ping 9 1, None),
     (BR_Client_Destroyed 0, None)]"

theorem bench_server_counts_witness:
  "plain_options tiny_options \<and>
   (case bench_session tiny_options 1 tiny_requests of
      None \<Rightarrow> False
    | Some ss \<Rightarrow> pongs (ss_calls ss) = [BE_Pong 9 0, BE_Pong 9 1] \<and>
        exits_with EXIT_SUCCESS (benchmark_server_multi demo_env tiny_options 1 tiny_requests))"
proof -
  have plain: "plain_options tiny_options"
    by (simp add: plain_options_def tiny_options_def default_options_def last_ping_def)
  obtain ss where ss: "bench_session tiny_options 1 tiny_requests = Some ss" using bench_session_exists by blast
  then have run: "ss_handled ss = tiny_requests" "terminated ss"
    by (auto simp: bench_session_def tiny_requests_def tiny_options_def default_options_def bench_start_def
        start_session_def bench_server_init_def deliver_def deliverable_def bench_handler_defs terminated_def
        owned_def bench_interface_def)
  have counted: "count_pings tiny_options tiny_requests =
      \<lparr>pk_owner = [9 \<mapsto> 0], pk_pings = Map.empty, pk_finished = [2], pk_total = 2,
        pk_pongs = [BE_Pong 9 0, BE_Pong 9 1]\<rparr>"
    by (simp add: count_pings_def tiny_requests_def tiny_options_def default_options_def ping_counter_init_def
        last_ping_def)
  have "last_ping tiny_options = 2" by (simp add: last_ping_def tiny_options_def default_options_def)
  with bench_server_counts [of tiny_options 1 tiny_requests demo_env] plain ss run counted show ?thesis
    by (simp add: tiny_requests_def [THEN arg_cong, where f = length] demo_env_def env_ok_def bench_globals_def
        list.size)
qed

end
