(* ===== verification/Raw_Benchmark.thy ===== *)
theory Raw_Benchmark
  imports Byte_Io Bench_Options Libwayland
begin

text \<open>
  The benchmark over a bare socket (\<open>src/bench/raw.c\<close>): the main process writes the warm-up and then the
  measured messages, 12 zero bytes each, in batches, and waits after each phase for a byte that its child
  sends once it has read the whole phase.

  The two processes are functions of what they have received so far. The server's is a pair: its exit
  status, \<open>None\<close> while it waits for bytes, and what it has written; \<open>hup\<close> says whether the other end of
  the socket is closed. The client's peer tells what it has written, and whether it has ended, after a given
  sequence of received bytes, so an acknowledgement can only depend on what was sent before it.
\<close>

definition message_size :: nat where
  "message_size = 12"

text \<open>\<open>clock_gettime\<close> gives seconds and nanoseconds, or fails; then the program exits.\<close>

definition raw_clock_ns :: "(u64 \<times> u64) option \<Rightarrow> u64 option" where
  "raw_clock_ns time = map_option (\<lambda>(sec, nsec). sec * 1000000000 + nsec) time"

section \<open>The server\<close>

text \<open>The inner loop: status, what is left of the stream and of the kernel's answers.\<close>

fun drain :: "cut list \<Rightarrow> bool \<Rightarrow> nat \<Rightarrow> u8 list \<Rightarrow> (int \<times> u8 list \<times> cut list) option" where
  "drain cs hup 0 inp = Some (0, inp, cs)"
| "drain [] hup (Suc n) inp = None"
| "drain (Interrupted # cs) hup (Suc n) inp = drain cs hup (Suc n) inp"
| "drain (Failed # cs) hup (Suc n) inp = Some (-1, inp, cs)"
| "drain (Cut k # cs) hup (Suc n) inp =
     (if k = 0 \<or> inp = [] \<and> hup then Some (-1, inp, cs)
      else if inp = [] then None
      else let wanted = (if Suc n < 65536 then Suc n else 65536);
               received = take (min k wanted) inp
           in drain cs hup (Suc n - length received) (drop (length received) inp))"

fun raw_server_phases ::
    "cut list \<Rightarrow> bool \<Rightarrow> (u64 \<times> u8) list \<Rightarrow> u8 list \<Rightarrow> int option \<times> u8 list" where
  "raw_server_phases cs hup [] inp = (Some EXIT_SUCCESS, [])"
| "raw_server_phases cs hup ((phase_count, ack) # phases) inp =
     (case drain cs hup (unat (phase_count * of_nat message_size)) inp of
        None \<Rightarrow> (None, [])
      | Some (st, inp', cs') \<Rightarrow>
          if st < 0 then (Some EXIT_FAILURE, [])
          else (case write_all cs' [ack] of
                  None \<Rightarrow> (None, [])
                | Some (st, out, cs'') \<Rightarrow>
                    if st < 0 then (Some EXIT_FAILURE, out)
                    else (case raw_server_phases cs'' hup phases inp' of
                            (status, rest) \<Rightarrow> (status, out @ rest))))"

definition raw_server :: "cut list \<Rightarrow> bool \<Rightarrow> benchmark_options \<Rightarrow> u8 list \<Rightarrow> int option \<times> u8 list" where
  "raw_server cs hup options inp =
     raw_server_phases cs hup [(opt_warmup options, 0), (opt_messages options, 1)] inp"

section \<open>The client\<close>

text \<open>What has been sent, how much of the answer has been read, and the kernel's answers to come.\<close>

record raw_link =
  rl_sent :: "u8 list"
  rl_consumed :: nat
  rl_cuts :: "cut list"

type_synonym raw_peer = "u8 list \<Rightarrow> u8 list \<times> bool"

definition raw_read_ack :: "raw_peer \<Rightarrow> u8 \<Rightarrow> raw_link \<Rightarrow> (int \<times> raw_link) option" where
  "raw_read_ack peer expected_ack link =
     (case peer (rl_sent link) of
        (reply, ended) \<Rightarrow>
          (case read_all (rl_cuts link) ended 1 (drop (rl_consumed link) reply) of
             None \<Rightarrow> None
           | Some (st, got, rest, cs) \<Rightarrow>
               Some (if st < 0 \<or> got \<noteq> [expected_ack] then - 1 else 0,
                     link\<lparr>rl_consumed := rl_consumed link + length got, rl_cuts := cs\<rparr>)))"

definition raw_send_phase ::
    "bool \<Rightarrow> raw_peer \<Rightarrow> u64 \<Rightarrow> u32 \<Rightarrow> u8 \<Rightarrow> raw_link \<Rightarrow> (int \<times> raw_link) option" where
  "raw_send_phase allocated peer phase_count batch expected_ack link =
     (if \<not> allocated then Some (-1, link)
      else case write_loop write_all (replicate message_size 0) (rl_cuts link) (unat phase_count) (unat batch) of
             None \<Rightarrow> None
           | Some (st, out, cs) \<Rightarrow>
               (let link' = link\<lparr>rl_sent := rl_sent link @ out, rl_cuts := cs\<rparr>
                in if st < 0 then Some (-1, link') else raw_read_ack peer expected_ack link'))"

text \<open>
  What the system answers: whether \<open>socketpair\<close>, \<open>fork\<close>, \<open>waitpid\<close> and the two allocations succeed, and the
  two times.
\<close>

record raw_env =
  re_socketpair :: bool
  re_fork :: bool
  re_malloc :: "nat \<Rightarrow> bool"
  re_clock :: "nat \<Rightarrow> (u64 \<times> u64) option"
  re_waitpid :: bool

text \<open>The numbers of the line that is printed: messages, batch size, elapsed time.\<close>

type_synonym raw_report = "u64 \<times> u32 \<times> u64"

text \<open>\<open>None\<close> is a run that never ends. \<open>child\<close> is the exit status once the socket is closed.\<close>

definition raw_main :: "raw_env \<Rightarrow> raw_peer \<Rightarrow> (u8 list \<Rightarrow> int option) \<Rightarrow> cut list \<Rightarrow> benchmark_options \<Rightarrow>
    (int \<times> raw_report option) option" where
  "raw_main env peer child cs options =
     (if \<not> re_socketpair env \<or> \<not> re_fork env then Some (EXIT_FAILURE, None)
      else Option.bind
        (raw_send_phase (re_malloc env 0) peer (opt_warmup options) (opt_batch options) 0
           \<lparr>rl_sent = [], rl_consumed = 0, rl_cuts = cs\<rparr>) (\<lambda>(st, link).
      if st < 0 then Some (EXIT_FAILURE, None)
      else case raw_clock_ns (re_clock env 0) of
             None \<Rightarrow> Some (EXIT_FAILURE, None)
           | Some start \<Rightarrow>
      Option.bind (raw_send_phase (re_malloc env 1) peer (opt_messages options) (opt_batch options) 1 link)
        (\<lambda>(st, link).
      if st < 0 then Some (EXIT_FAILURE, None)
      else case raw_clock_ns (re_clock env 1) of
             None \<Rightarrow> Some (EXIT_FAILURE, None)
           | Some now \<Rightarrow>
      (let report = (opt_messages options, opt_batch options, now - start)
       in if \<not> re_waitpid env then Some (EXIT_FAILURE, Some report)
          else map_option (\<lambda>status. (if status \<noteq> 0 then EXIT_FAILURE else EXIT_SUCCESS, Some report))
                 (child (rl_sent link))))))"

text \<open>The program: the arguments, the server as the child, the client as the parent.\<close>

definition raw_benchmark :: "raw_env \<Rightarrow> cut list \<Rightarrow> cut list \<Rightarrow> string list \<Rightarrow>
    (int \<times> raw_report option) option" where
  "raw_benchmark env server_cuts client_cuts argv =
     (case raw_arguments argv of
        None \<Rightarrow> Some (EXIT_FAILURE, None)
      | Some options \<Rightarrow>
          raw_main env
            (\<lambda>sent. case raw_server server_cuts False options sent of (status, out) \<Rightarrow> (out, status \<noteq> None))
            (\<lambda>sent. fst (raw_server server_cuts True options sent))
            client_cuts options)"

section \<open>The loops with a kernel that makes progress\<close>

lemma supplies_Cut: "supplies (Cut k # cs) (Suc n) \<longleftrightarrow> 0 < k \<and> supplies cs n"
  by (auto simp: supplies_def)

lemma drain_steady:
  "supplies cs (n + m) \<Longrightarrow> n \<le> length inp \<Longrightarrow>
     \<exists>cs'. drain cs hup n inp = Some (0, drop n inp, cs') \<and> supplies cs' m"
proof (induction cs hup n inp rule: drain.induct)
  case (5 k cs hup n inp)
  let ?r = "take (min k (if Suc n < 65536 then Suc n else 65536)) inp"
  from "5.prems" have k: "0 < k" "supplies cs (n + m)" and inp: "inp \<noteq> []" "Suc n \<le> length inp"
    by (auto simp: supplies_Cut)
  then have len: "0 < length ?r" "length ?r \<le> Suc n" by (auto simp: min_def)
  have "supplies cs (Suc n - length ?r + m)" by (rule supplies_mono [OF k(2)]) (use len in linarith)
  moreover have "Suc n - length ?r \<le> length (drop (length ?r) inp)" using inp(2) by simp
  ultimately obtain cs' where
    "drain cs hup (Suc n - length ?r) (drop (length ?r) inp) =
       Some (0, drop (Suc n - length ?r) (drop (length ?r) inp), cs')" "supplies cs' m"
    using "5.IH" [OF _ _ refl refl] k(1) inp(1) by blast
  moreover have "drop (Suc n - length ?r) (drop (length ?r) inp) = drop (Suc n) inp"
    using len(2) by simp
  ultimately show ?case using k(1) inp(1) by (simp add: Let_def del: drop_drop)
qed (auto simp: supplies_def)

text \<open>Without the bytes the server waits, as long as the other end is open.\<close>

lemma drain_short: "steady cs \<Longrightarrow> length inp < n \<Longrightarrow> drain cs False n inp = None"
proof (induction cs False n inp rule: drain.induct)
  case (5 k cs n inp)
  let ?r = "take (min k (if Suc n < 65536 then Suc n else 65536)) inp"
  show ?case
  proof (cases "inp = []")
    case False
    have "length (drop (length ?r) inp) < Suc n - length ?r" using "5.prems"(2) by simp
    with "5.hyps" [OF _ False refl refl] "5.prems"(1) False show ?thesis by (simp add: Let_def)
  qed (use "5.prems" in simp)
qed simp_all

lemma write_one: "supplies cs (Suc m) \<Longrightarrow> \<exists>cs'. write_all cs [b] = Some (0, [b], cs') \<and> supplies cs' m"
  using all_writer.write_steady [of cs "[b]" m] by simp

text \<open>The bytes of a phase.\<close>

definition phase_bytes :: "u64 \<Rightarrow> nat" where
  "phase_bytes phase_count = unat phase_count * message_size"

lemma phase_bytes_word:
  "phase_bytes phase_count < 2 ^ 64 \<Longrightarrow> unat (phase_count * of_nat message_size) = phase_bytes phase_count"
  by (simp add: phase_bytes_def message_size_def unat_mult_lem [THEN iffD1])

lemma raw_server_phase:
  assumes "supplies cs (phase_bytes c + Suc m)" and "phase_bytes c \<le> length inp" and "phase_bytes c < 2 ^ 64"
  shows "\<exists>cs'. raw_server_phases cs hup ((c, ack) # phases) inp =
      (case raw_server_phases cs' hup phases (drop (phase_bytes c) inp) of (status, out) \<Rightarrow> (status, ack # out)) \<and>
    supplies cs' m"
proof -
  obtain cs1 where d: "drain cs hup (phase_bytes c) inp = Some (0, drop (phase_bytes c) inp, cs1)"
    "supplies cs1 (Suc m)"
    using drain_steady [OF assms(1,2)] by blast
  obtain cs2 where "write_all cs1 [ack] = Some (0, [ack], cs2)" "supplies cs2 m" using write_one [OF d(2)] by blast
  with d(1) show ?thesis
    by (intro exI [of _ cs2]) (simp add: phase_bytes_word [OF assms(3)] split: prod.split)
qed

text \<open>Two phases that a 64-bit number of bytes describes.\<close>

definition phases_fit :: "benchmark_options \<Rightarrow> bool" where
  "phases_fit options \<longleftrightarrow>
     0 < unat (opt_warmup options) \<and> 0 < unat (opt_messages options) \<and> 0 < unat (opt_batch options) \<and>
     phase_bytes (opt_warmup options) < 2 ^ 64 \<and> phase_bytes (opt_messages options) < 2 ^ 64"

definition both_phases :: "benchmark_options \<Rightarrow> nat" where
  "both_phases options = phase_bytes (opt_warmup options) + phase_bytes (opt_messages options)"

text \<open>After the warm-up the server has sent its first byte and waits; after both phases it is done.\<close>

lemma raw_server_first:
  assumes "phases_fit options" and "supplies cs (both_phases options + 2)"
    and "length inp = phase_bytes (opt_warmup options)"
  shows "raw_server cs False options inp = (None, [0])"
proof -
  have "supplies cs (phase_bytes (opt_warmup options) + Suc (phase_bytes (opt_messages options) + 1))"
    using assms(2) by (simp add: both_phases_def)
  from raw_server_phase [OF this, where inp = inp and hup = False and ack = 0 and
      phases = "[(opt_messages options, 1)]"] assms(1,3) obtain cs' where
    *: "raw_server cs False options inp =
        (case raw_server_phases cs' False [(opt_messages options, 1)] [] of (status, out) \<Rightarrow> (status, 0 # out))"
    and "supplies cs' (phase_bytes (opt_messages options) + 1)"
    by (auto simp: raw_server_def phases_fit_def simp del: raw_server_phases.simps)
  have pos: "0 < phase_bytes (opt_messages options)"
    using assms(1) by (simp add: phases_fit_def phase_bytes_def message_size_def)
  then have "drain cs' False (phase_bytes (opt_messages options)) [] = None"
    using \<open>supplies cs' _\<close> by (intro drain_short) (auto simp: supplies_def)
  with assms(1) * show ?thesis by (simp add: phase_bytes_word phases_fit_def)
qed

lemma raw_server_both:
  assumes "phases_fit options" and "supplies cs (both_phases options + 2)" and "length inp = both_phases options"
  shows "raw_server cs hup options inp = (Some EXIT_SUCCESS, [0, 1])"
proof -
  let ?w = "phase_bytes (opt_warmup options)" and ?m = "phase_bytes (opt_messages options)"
  have "supplies cs (?w + Suc (?m + 1))" "?w \<le> length inp"
    using assms(2,3) by (simp_all add: both_phases_def)
  from raw_server_phase [OF this, where hup = hup and ack = 0 and phases = "[(opt_messages options, 1)]"] assms(1)
  obtain cs' where
    *: "raw_server cs hup options inp =
        (case raw_server_phases cs' hup [(opt_messages options, 1)] (drop ?w inp) of
           (status, out) \<Rightarrow> (status, 0 # out))"
    and "supplies cs' (?m + 1)"
    by (auto simp: raw_server_def phases_fit_def simp del: raw_server_phases.simps)
  then have "supplies cs' (?m + Suc 0)" "?m \<le> length (drop ?w inp)"
    using assms(3) by (simp_all add: both_phases_def)
  from raw_server_phase [OF this, where hup = hup and ack = 1 and phases = "[]"] assms(1) have
    "raw_server_phases cs' hup [(opt_messages options, 1)] (drop ?w inp) = (Some EXIT_SUCCESS, [1])"
    by (auto simp: phases_fit_def simp del: raw_server_phases.simps(2))
  with * show ?thesis by simp
qed

lemma zeros: "concat (replicate n (replicate k (0 :: u8))) = replicate (n * k) 0"
  by (induction n) (simp_all add: replicate_add)

text \<open>A phase of the client succeeds if the peer then has one more byte, the expected one.\<close>

lemma raw_send_phase_steady:
  assumes "supplies (rl_cuts link) (phase_bytes c + Suc m)" and "0 < unat batch"
    and "peer (rl_sent link @ replicate (phase_bytes c) 0) = (reply, ended)"
    and "drop (rl_consumed link) reply = [ack]"
  shows "\<exists>cs. raw_send_phase True peer c batch ack link =
      Some (0, \<lparr>rl_sent = rl_sent link @ replicate (phase_bytes c) 0, rl_consumed = Suc (rl_consumed link),
                rl_cuts = cs\<rparr>) \<and> supplies cs m"
proof -
  from all_writer.write_loop_steady [of "rl_cuts link" "unat c" "replicate message_size 0" "Suc m" "unat batch"]
  obtain cs1 where w: "write_loop write_all (replicate message_size 0) (rl_cuts link) (unat c) (unat batch) =
      Some (0, replicate (phase_bytes c) 0, cs1)" "supplies cs1 (Suc m)"
    using assms(1,2) by (auto simp: phase_bytes_def zeros)
  obtain cs2 where "read_all cs1 ended 1 [ack] = Some (0, [ack], [], cs2)" "supplies cs2 m"
    using all_reader.read_steady [of cs1 1 m "[ack]" ended] w(2) by auto
  with w(1) assms(3,4) show ?thesis
    by (intro exI [of _ cs2]) (simp add: raw_send_phase_def raw_read_ack_def Let_def del: drop_eq_Nil drop_eq_Nil2)
qed

text \<open>C33: With kernels that make progress, however they cut the transfers and interrupt the calls, the
  raw benchmark always comes to an end: client and server go through both phases for all counts and batch
  sizes that fit, without waiting for each other, both succeed, and the report has the counts given.\<close>

theorem raw_benchmark_terminates:
  assumes "raw_arguments argv = Some options" and "phases_fit options"
    and "supplies server_cuts (both_phases options + 2)" and "supplies client_cuts (both_phases options + 2)"
    and "re_socketpair env" and "re_fork env" and "re_waitpid env" and "re_malloc env 0" and "re_malloc env 1"
    and "raw_clock_ns (re_clock env 0) = Some start" and "raw_clock_ns (re_clock env 1) = Some now"
  shows "raw_benchmark env server_cuts client_cuts argv =
    Some (EXIT_SUCCESS, Some (opt_messages options, opt_batch options, now - start))"
proof -
  let ?w = "phase_bytes (opt_warmup options)" and ?m = "phase_bytes (opt_messages options)"
  let ?peer = "\<lambda>sent. case raw_server server_cuts False options sent of (status, out) \<Rightarrow> (out, status \<noteq> None)"
  let ?sent = "replicate ?w (0 :: u8)"
  have batch: "0 < unat (opt_batch options)" using assms(2) by (simp add: phases_fit_def)
  have "supplies client_cuts (?w + Suc (?m + 1))" using assms(4) by (simp add: both_phases_def)
  then obtain cs1 where first:
    "raw_send_phase True ?peer (opt_warmup options) (opt_batch options) 0
       \<lparr>rl_sent = [], rl_consumed = 0, rl_cuts = client_cuts\<rparr> =
     Some (0, \<lparr>rl_sent = ?sent, rl_consumed = 1, rl_cuts = cs1\<rparr>)" "supplies cs1 (?m + Suc 0)"
    using raw_send_phase_steady [of "\<lparr>rl_sent = [], rl_consumed = 0, rl_cuts = client_cuts\<rparr>" "opt_warmup options"
        "?m + 1" "opt_batch options" ?peer "[0]" False 0] batch raw_server_first [OF assms(2,3), of ?sent]
    by auto
  have "raw_server server_cuts hup options (?sent @ replicate ?m 0) = (Some EXIT_SUCCESS, [0, 1])" for hup
    by (rule raw_server_both [OF assms(2,3)]) (simp add: both_phases_def)
  note both = this
  obtain cs2 where second:
    "raw_send_phase True ?peer (opt_messages options) (opt_batch options) 1
       \<lparr>rl_sent = ?sent, rl_consumed = 1, rl_cuts = cs1\<rparr> =
     Some (0, \<lparr>rl_sent = ?sent @ replicate ?m 0, rl_consumed = 2, rl_cuts = cs2\<rparr>)"
    using raw_send_phase_steady [of "\<lparr>rl_sent = ?sent, rl_consumed = 1, rl_cuts = cs1\<rparr>" "opt_messages options"
        0 "opt_batch options" ?peer "[0, 1]" True 1] batch first(2) both by (auto simp: numeral_2_eq_2)
  show ?thesis
    using first second assms(1,5-11) both
    by (simp add: raw_benchmark_def raw_main_def Let_def EXIT_SUCCESS_def)
qed

definition tiny_raw_env :: raw_env where
  "tiny_raw_env = \<lparr>re_socketpair = True, re_fork = True, re_malloc = (\<lambda>k. True),
     re_clock = (\<lambda>k. Some (1, of_nat k)), re_waitpid = True\<rparr>"

theorem raw_benchmark_terminates_witness:
  "raw_benchmark tiny_raw_env (Interrupted # replicate 100 (Cut 3)) (Interrupted # replicate 100 (Cut 5))
     [''raw'', ''3'', ''2'', ''4''] = Some (EXIT_SUCCESS, Some (3, 2, 1))"
proof -
  have args: "raw_arguments [''raw'', ''3'', ''2'', ''4''] =
      Some (default_options\<lparr>opt_messages := 3, opt_batch := 2, opt_warmup := 4\<rparr>)"
    by (simp add: raw_arguments_def argument_def parse_u32_def parse_count_def strtoull_def sign_of_def
        is_blank_def is_digit_def digits_value_def digit_value_def Let_def)
  have "progress (replicate n (Cut k)) = n" "steady (replicate n (Cut k)) \<longleftrightarrow> n = 0 \<or> 0 < k" for n k
    by (induction n) auto
  then have enough: "supplies (Interrupted # replicate 100 (Cut k)) n" if "n \<le> 100" "0 < k" for n k
    using that by (simp add: supplies_def)
  show ?thesis
    using raw_benchmark_terminates [OF args, of "Interrupted # replicate 100 (Cut 3)"
        "Interrupted # replicate 100 (Cut 5)" tiny_raw_env "1000000000" "1000000001"]
    by (simp add: phases_fit_def both_phases_def phase_bytes_def message_size_def default_options_def
        tiny_raw_env_def raw_clock_ns_def enough)
qed

text \<open>When the number of bytes of a phase does not fit in 64 bits the server counts modulo 2 ^ 64: here it
  acknowledges both phases before a single byte arrives.\<close>

lemma raw_count_wraps:
  "raw_server [Cut 1, Cut 1] False (default_options\<lparr>opt_warmup := 2 ^ 62, opt_messages := 2 ^ 62\<rparr>) [] =
     (Some EXIT_SUCCESS, [0, 1])"
  by (simp add: raw_server_def message_size_def)

section \<open>What success means\<close>

lemma raw_send_phase_whole:
  assumes "raw_send_phase allocated peer c batch ack link = Some (st, link')" and "0 \<le> st"
  shows "rl_sent link' = rl_sent link @ replicate (phase_bytes c) 0 \<and>
    take 1 (drop (rl_consumed link) (fst (peer (rl_sent link')))) = [ack] \<and>
    rl_consumed link' = Suc (rl_consumed link)"
proof -
  from assms obtain st1 out cs where
    w: "write_loop write_all (replicate message_size 0) (rl_cuts link) (unat c) (unat batch) = Some (st1, out, cs)"
      "0 \<le> st1"
    and ack: "raw_read_ack peer ack (link\<lparr>rl_sent := rl_sent link @ out, rl_cuts := cs\<rparr>) = Some (st, link')"
    by (auto simp: raw_send_phase_def Let_def not_less split: if_splits option.splits)
  have out: "out = replicate (phase_bytes c) 0"
    using all_writer.write_loop_whole [OF w] by (simp add: zeros phase_bytes_def)
  have one: "got = take 1 inp" if "read_all cs hup (Suc 0) inp = Some (st, got, rest, cs')" "0 \<le> st"
    for cs hup inp st got rest cs'
    using that
  proof (induction cs hup "Suc 0" inp arbitrary: got rule: read_all.induct)
    case (3 c cs hup inp)
    then show ?case by (cases c; cases inp) (auto simp: Let_def min_def le_Suc_eq split: if_splits)
  qed simp
  obtain reply ended where peer: "peer (rl_sent link @ out) = (reply, ended)" by fastforce
  from ack assms(2) obtain st2 got rest cs2 where
    "read_all cs ended (Suc 0) (drop (rl_consumed link) reply) = Some (st2, got, rest, cs2)" "0 \<le> st2" "got = [ack]"
    and link': "link' = link\<lparr>rl_sent := rl_sent link @ out, rl_consumed := Suc (rl_consumed link), rl_cuts := cs2\<rparr>"
    by (auto simp: raw_read_ack_def peer Let_def split: if_splits option.splits)
  from one [OF this(1,2)] this(3) peer show ?thesis by (simp add: link' out)
qed

lemma raw_main_result:
  assumes "raw_main env peer child cs options = Some (code, report)" and "code \<noteq> EXIT_FAILURE"
  obtains st1 link1 start st2 link2 now where "code = EXIT_SUCCESS"
    "raw_send_phase (re_malloc env 0) peer (opt_warmup options) (opt_batch options) 0
       \<lparr>rl_sent = [], rl_consumed = 0, rl_cuts = cs\<rparr> = Some (st1, link1)" "0 \<le> st1"
    "raw_clock_ns (re_clock env 0) = Some start"
    "raw_send_phase (re_malloc env 1) peer (opt_messages options) (opt_batch options) 1 link1 = Some (st2, link2)"
    "0 \<le> st2" "raw_clock_ns (re_clock env 1) = Some now" "child (rl_sent link2) = Some EXIT_SUCCESS"
    "report = Some (opt_messages options, opt_batch options, now - start)"
proof -
  have env: "re_socketpair env" "re_fork env" using assms by (auto simp: raw_main_def split: if_splits)
  note main = assms(1) [unfolded raw_main_def Let_def]
  from main env obtain st1 link1 where s1:
    "raw_send_phase (re_malloc env 0) peer (opt_warmup options) (opt_batch options) 0
       \<lparr>rl_sent = [], rl_consumed = 0, rl_cuts = cs\<rparr> = Some (st1, link1)"
    by (auto simp: bind_eq_Some_conv)
  with main env assms(2) have p1: "0 \<le> st1" by (auto simp: not_less split: if_splits)
  with main env s1 assms(2) obtain start where c1: "raw_clock_ns (re_clock env 0) = Some start"
    by (cases "raw_clock_ns (re_clock env 0)") auto
  with main env s1 p1 obtain st2 link2 where s2:
    "raw_send_phase (re_malloc env 1) peer (opt_messages options) (opt_batch options) 1 link1 = Some (st2, link2)"
    by (auto simp: bind_eq_Some_conv)
  with main env s1 p1 c1 assms(2) have p2: "0 \<le> st2" by (auto simp: not_less split: if_splits)
  with main env s1 p1 c1 s2 assms(2) obtain now where c2: "raw_clock_ns (re_clock env 1) = Some now"
    by (cases "raw_clock_ns (re_clock env 1)") auto
  with main env s1 p1 c1 s2 p2 assms(2) have "code = EXIT_SUCCESS"
    "child (rl_sent link2) = Some EXIT_SUCCESS"
    "report = Some (opt_messages options, opt_batch options, now - start)"
    by (auto simp: EXIT_SUCCESS_def split: if_splits)
  with that s1 p1 c1 s2 p2 c2 show ?thesis by blast
qed

text \<open>C34: Whatever the kernels answer (short transfers, interruptions, errors, the end of a stream), a raw
  benchmark that comes to an end exits with failure, or with success; and success means that all the bytes
  of both phases were sent, that the server acknowledged each phase from the bytes sent up to then, that
  the server exited with success, and that the report has the counts given and the time between the two
  readings of the clock.\<close>

theorem raw_success_means_all:
  "case raw_benchmark env server_cuts client_cuts argv of
     None \<Rightarrow> True
   | Some (code, report) \<Rightarrow>
       code = EXIT_FAILURE \<or>
       code = EXIT_SUCCESS \<and>
       (\<exists>options start now.
          raw_arguments argv = Some options \<and>
          raw_clock_ns (re_clock env 0) = Some start \<and> raw_clock_ns (re_clock env 1) = Some now \<and>
          report = Some (opt_messages options, opt_batch options, now - start) \<and>
          take 1 (snd (raw_server server_cuts False options
            (replicate (phase_bytes (opt_warmup options)) 0))) = [0] \<and>
          take 1 (drop 1 (snd (raw_server server_cuts False options
            (replicate (both_phases options) 0)))) = [1] \<and>
          fst (raw_server server_cuts True options (replicate (both_phases options) 0)) = Some EXIT_SUCCESS)"
proof (cases "raw_benchmark env server_cuts client_cuts argv")
  case (Some result)
  obtain code report where r: "result = (code, report)" by fastforce
  show ?thesis
  proof (cases "code = EXIT_FAILURE")
    case False
    with Some r obtain options where args: "raw_arguments argv = Some options"
      by (auto simp: raw_benchmark_def split: option.splits)
    define peer where "peer =
      (\<lambda>sent. case raw_server server_cuts False options sent of (status, out) \<Rightarrow> (out, status \<noteq> None))"
    have peer: "fst (peer sent) = snd (raw_server server_cuts False options sent)" for sent
      by (simp add: peer_def split: prod.split)
    have "raw_main env peer (\<lambda>sent. fst (raw_server server_cuts True options sent)) client_cuts options =
        Some (code, report)"
      using Some r args by (simp add: raw_benchmark_def peer_def)
    from raw_main_result [OF this False] obtain st1 link1 start st2 link2 now where run:
      "code = EXIT_SUCCESS"
      "raw_send_phase (re_malloc env 0) peer (opt_warmup options) (opt_batch options) 0
         \<lparr>rl_sent = [], rl_consumed = 0, rl_cuts = client_cuts\<rparr> = Some (st1, link1)" "0 \<le> st1"
      "raw_clock_ns (re_clock env 0) = Some start"
      "raw_send_phase (re_malloc env 1) peer (opt_messages options) (opt_batch options) 1 link1 = Some (st2, link2)"
      "0 \<le> st2" "raw_clock_ns (re_clock env 1) = Some now"
      "fst (raw_server server_cuts True options (rl_sent link2)) = Some EXIT_SUCCESS"
      "report = Some (opt_messages options, opt_batch options, now - start)"
      by blast
    from raw_send_phase_whole [OF run(2,3)]
    have sent: "rl_sent link1 = replicate (phase_bytes (opt_warmup options)) 0" by simp
    from raw_send_phase_whole [OF run(2,3)] have first: "rl_consumed link1 = 1"
      "take 1 (snd (raw_server server_cuts False options
        (replicate (phase_bytes (opt_warmup options)) 0))) = [0]"
      unfolding sent by (simp_all add: peer)
    from raw_send_phase_whole [OF run(5,6)]
    have sent2: "rl_sent link2 = replicate (both_phases options) 0"
      by (simp add: sent both_phases_def replicate_add)
    from raw_send_phase_whole [OF run(5,6), THEN conjunct2, THEN conjunct1] have
      "take 1 (drop 1 (snd (raw_server server_cuts False options (replicate (both_phases options) 0)))) = [1]"
      unfolding sent2 first by (simp add: peer)
    with run sent2 args first(2) show ?thesis by (auto simp: Some r)
  qed (simp add: Some r)
qed simp

end
