(* ===== verification/Bench_Client.thy ===== *)
theory Bench_Client
  imports Wayland_Client Bench_Server Bench_Stats Raw_Benchmark
begin

text \<open>
  The libwayland benchmark client (\<open>src/bench/libwayland-client.c\<close>): it connects, binds a number of
  benchmark objects, checks that a descriptor comes back close-on-exec, and then sends the warm-up and the
  measured pings, in batches or one at a time in latency mode, on any number of connections at once.

  What the system answers is part of the arguments: to each \<open>wl_display_flush\<close> and \<open>poll\<close> a list of answers,
  one per call of \<open>flush_blocking\<close>, kept with the connection; the readings of the clock, the event
  descriptor, the flags of a received descriptor, \<open>malloc\<close>, and the mean that \<open>long double\<close> arithmetic makes
  of the samples.
\<close>

section \<open>Flushing\<close>

text \<open>\<open>Flush_Again ok\<close> is \<open>EAGAIN\<close>, followed by a \<open>poll\<close> that returns or is interrupted (\<open>ok\<close>) or fails.\<close>

datatype flush_answer = Flushed | Flush_Again bool | Flush_Failed

fun flush_blocking :: "flush_answer list \<Rightarrow> int option" where
  "flush_blocking [] = None"
| "flush_blocking (Flushed # as) = Some 0"
| "flush_blocking (Flush_Failed # as) = Some (-1)"
| "flush_blocking (Flush_Again ok # as) = (if ok then flush_blocking as else Some (-1))"

section \<open>A connection\<close>

record bench_client =
  bc_registry :: "proxy option"
  bc_benchmark :: "proxy option"
  bc_benchmarks :: "proxy option list"
  bc_global :: u32
  bc_version :: u32
  bc_object_count :: u32
  bc_object_cursor :: u32
  bc_ack :: u32
  bc_pongs_received :: u64
  bc_fd_valid :: bool
  bc_listening :: "proxy list"
  bc_flushes :: "nat \<Rightarrow> flush_answer list"

text \<open>\<open>bc_listening\<close> are the objects that have a listener, \<open>bc_flushes\<close> the answers to come.\<close>

definition bench_client_init :: "(nat \<Rightarrow> flush_answer list) \<Rightarrow> bench_client" where
  "bench_client_init flushes = \<lparr>bc_registry = None, bc_benchmark = None,
     bc_benchmarks = replicate (unat max_objects) None, bc_global = 0, bc_version = 0, bc_object_count = 0,
     bc_object_cursor = 0, bc_ack = 0, bc_pongs_received = 0, bc_fd_valid = False, bc_listening = [],
     bc_flushes = flushes\<rparr>"

datatype bench_call = BC_Ping u32 | BC_Ping_Fd u32 fd_t

datatype bench_pong = Pong proxy u32 | Pong_Fd proxy u32 fd_t

type_synonym 'p bench_cl = "(bench_client, bench_call, 'p) client"

type_synonym 'p bench_env = "(bench_call, bench_pong, 'p) client_env"

type_synonym 'p bench_cstep = "(bench_client, bench_call, 'p) cstep"

record bench_os =
  bo_clock :: "nat \<Rightarrow> (u64 \<times> u64) option"
  bo_eventfd :: fd_t
  bo_flags :: "fd_t \<Rightarrow> int"
  bo_malloc :: bool
  bo_mean :: "u64 list \<Rightarrow> u64"

definition flush_step :: "'p bench_cstep" where
  "flush_step c =
     (let flushes = bc_flushes (cl_state c);
          c1 = log_call Flush (c\<lparr>cl_state := (cl_state c)\<lparr>bc_flushes := (\<lambda>k. flushes (Suc k))\<rparr>\<rparr>)
      in case flush_blocking (flushes 0) of
           None \<Rightarrow> Client_Stuck
         | Some st \<Rightarrow> Ran (0 \<le> st) c1)"

section \<open>Listeners\<close>

definition handle_global ::
    "'p bench_env \<Rightarrow> u32 \<Rightarrow> string \<Rightarrow> u32 \<Rightarrow> 'p bench_cstep list" where
  "handle_global env name interface version =
     (if interface = bench_interface then
        [assign (\<lambda>s. s\<lparr>bc_global := name\<rparr>),
         assign (\<lambda>s. s\<lparr>bc_version := capped version 1\<rparr>),
         bind_global env name bench_interface (capped version 1) (\<lambda>p s. s\<lparr>bc_benchmark := p\<rparr>),
         assign (\<lambda>s. s\<lparr>bc_benchmarks := (bc_benchmarks s)[0 := bc_benchmark s]\<rparr>)]
      else [])"

definition handle_pong :: "u32 \<Rightarrow> 'p bench_cstep list" where
  "handle_pong sequence =
     [assign (\<lambda>s. s\<lparr>bc_ack := sequence\<rparr>),
      assign (\<lambda>s. s\<lparr>bc_pongs_received := bc_pongs_received s + 1\<rparr>)]"

definition handle_pong_fd :: "bench_os \<Rightarrow> u32 \<Rightarrow> fd_t \<Rightarrow> 'p bench_cstep list" where
  "handle_pong_fd os sequence descriptor =
     (let flags = bo_flags os descriptor
      in [assign (\<lambda>s. s\<lparr>bc_fd_valid := (sequence = 0 \<and> flags \<ge> 0 \<and> flags AND FD_CLOEXEC \<noteq> 0)\<rparr>),
          close_fd (\<lambda>s. descriptor)])"

fun bench_listeners :: "bench_os \<Rightarrow> 'p bench_env \<Rightarrow> bench_pong cl_event \<Rightarrow> 'p bench_cstep list" where
  "bench_listeners os env (Global name interface version) = handle_global env name interface version"
| "bench_listeners os env (Event (Pong p sequence)) =
     [when_state (\<lambda>s. p \<in> set (bc_listening s)) (handle_pong sequence)]"
| "bench_listeners os env (Event (Pong_Fd p sequence descriptor)) =
     [when_state (\<lambda>s. p \<in> set (bc_listening s)) (handle_pong_fd os sequence descriptor)]"

fun bench_targets :: "bench_pong cl_event \<Rightarrow> proxy list" where
  "bench_targets (Global name interface version) = []"
| "bench_targets (Event (Pong p sequence)) = [p]"
| "bench_targets (Event (Pong_Fd p sequence descriptor)) = [p]"

section \<open>Connecting\<close>

definition bind_object :: "'p bench_env \<Rightarrow> nat \<Rightarrow> 'p bench_cstep" where
  "bind_object env i c =
     bind_global env (bc_global (cl_state c)) bench_interface (bc_version (cl_state c))
       (\<lambda>p s. s\<lparr>bc_benchmarks := (bc_benchmarks s)[i := p]\<rparr>) c"

definition listen_object :: "nat \<Rightarrow> 'p bench_cstep list" where
  "listen_object i =
     [require_set (\<lambda>s. bc_benchmarks s ! i),
      add_listener (\<lambda>s. bc_benchmarks s ! i),
      assign (\<lambda>s. s\<lparr>bc_listening := the (bc_benchmarks s ! i) # bc_listening s\<rparr>)]"

definition connect_client :: "bench_os \<Rightarrow> 'p bench_env \<Rightarrow> benchmark_options \<Rightarrow> 'p bench_cstep list" where
  "connect_client os env opts =
     [get_registry env (\<lambda>p s. s\<lparr>bc_registry := p\<rparr>),
      add_listener bc_registry,
      trip env bench_targets (bench_listeners os env),
      require_set bc_benchmark,
      assign (\<lambda>s. s\<lparr>bc_object_count := opt_objects opts\<rparr>)]
     @ map (bind_object env) [1..<unat (opt_objects opts)]
     @ concat (map listen_object [0..<unat (opt_objects opts)])
     @ [flush_step]"

section \<open>Pings\<close>

definition send_ping :: "u32 \<Rightarrow> 'p bench_cstep list" where
  "send_ping ack =
     [request (BC_Ping ack) (\<lambda>s. [bc_benchmarks s ! unat (bc_object_cursor s)]),
      assign (\<lambda>s. s\<lparr>bc_object_cursor := bc_object_cursor s + 1\<rparr>),
      when_state (\<lambda>s. bc_object_cursor s = bc_object_count s) [assign (\<lambda>s. s\<lparr>bc_object_cursor := 0\<rparr>)]]"

definition send_chunk :: "u32 \<Rightarrow> nat \<Rightarrow> 'p bench_cstep" where
  "send_chunk ack chunk = attempt (concat (replicate chunk (send_ping ack)))"

definition wait_for_ack :: "nat \<Rightarrow> bench_os \<Rightarrow> 'p bench_env \<Rightarrow> u32 \<Rightarrow> 'p bench_cstep" where
  "wait_for_ack fuel os env ack =
     dispatch_until fuel (\<lambda>s. bc_ack s = ack) (dispatch env bench_targets (bench_listeners os env))"

text \<open>Loops over the connections; the first that fails ends them.\<close>

datatype 'c runs = All_Crashed | All_Stuck | All_Ran bool "'c list"

fun each :: "('st, 'req, 'p) cstep \<Rightarrow> ('st, 'req, 'p) client list \<Rightarrow> ('st, 'req, 'p) client runs" where
  "each step [] = All_Ran True []"
| "each step (c # cs) =
     (case step c of
        Client_Crashed \<Rightarrow> All_Crashed
      | Client_Stuck \<Rightarrow> All_Stuck
      | Ran False c' \<Rightarrow> All_Ran False (c' # cs)
      | Ran True c' \<Rightarrow>
          (case each step cs of
             All_Ran b cs' \<Rightarrow> All_Ran b (c' # cs')
           | r \<Rightarrow> r))"

definition then_all :: "'c runs \<Rightarrow> ('c list \<Rightarrow> 'c runs) \<Rightarrow> 'c runs" where
  "then_all r f = (case r of All_Ran True cs \<Rightarrow> f cs | _ \<Rightarrow> r)"

function send_batches :: "u32 \<Rightarrow> nat \<Rightarrow> nat \<Rightarrow> 'p bench_cl list \<Rightarrow> 'p bench_cl runs" where
  "send_batches ack remaining batch cs =
     (if remaining = 0 then All_Ran True cs
      else if batch = 0 then All_Stuck
      else let chunk = (if remaining < batch then remaining else batch)
           in then_all (each (send_chunk ack chunk) cs) (\<lambda>cs.
              then_all (each flush_step cs) (\<lambda>cs.
              send_batches ack (remaining - chunk) batch cs)))"
  by pat_completeness auto
termination by (relation "measure (\<lambda>(ack, remaining, batch, cs). remaining)") auto

declare send_batches.simps [simp del]

definition send_phase ::
    "nat \<Rightarrow> bench_os \<Rightarrow> 'p bench_env \<Rightarrow> u64 \<Rightarrow> u32 \<Rightarrow> u32 \<Rightarrow> 'p bench_cl list \<Rightarrow> 'p bench_cl runs" where
  "send_phase fuel os env phase_count batch ack cs =
     then_all (send_batches ack (unat phase_count) (unat batch) cs) (each (wait_for_ack fuel os env ack))"

section \<open>Latency\<close>

definition latency_round ::
    "nat \<Rightarrow> bench_os \<Rightarrow> 'p bench_env \<Rightarrow> u32 \<Rightarrow> 'p bench_cl list \<Rightarrow> 'p bench_cl runs" where
  "latency_round fuel os env sequence cs =
     then_all (each (request (BC_Ping sequence) (\<lambda>s. [bc_benchmark s])) cs) (\<lambda>cs.
     then_all (each flush_step cs) (\<lambda>cs.
     each (wait_for_ack fuel os env sequence) cs))"

fun warm_rounds ::
    "nat \<Rightarrow> bench_os \<Rightarrow> 'p bench_env \<Rightarrow> u32 list \<Rightarrow> 'p bench_cl list \<Rightarrow> 'p bench_cl runs" where
  "warm_rounds fuel os env [] cs = All_Ran True cs"
| "warm_rounds fuel os env (q # qs) cs =
     then_all (latency_round fuel os env q cs) (warm_rounds fuel os env qs)"

text \<open>
  The measured rounds, with the number of the next reading of the clock and the samples. \<open>None\<close> is the
  exit of the process when the clock fails. A sample is written behind the end of the allocation when
  there is no room for it.
\<close>

fun timed_rounds :: "nat \<Rightarrow> bench_os \<Rightarrow> 'p bench_env \<Rightarrow> nat \<Rightarrow> nat \<Rightarrow> u32 list \<Rightarrow> u64 list \<Rightarrow>
    'p bench_cl list \<Rightarrow> ('p bench_cl runs \<times> u64 list) option" where
  "timed_rounds fuel os env room k [] samples cs = Some (All_Ran True cs, samples)"
| "timed_rounds fuel os env room k (q # qs) samples cs =
     (case raw_clock_ns (bo_clock os k) of
        None \<Rightarrow> None
      | Some start \<Rightarrow>
          (case latency_round fuel os env q cs of
             All_Ran True cs' \<Rightarrow>
               (case raw_clock_ns (bo_clock os (Suc k)) of
                  None \<Rightarrow> None
                | Some now \<Rightarrow>
                    if room \<le> length samples then Some (All_Crashed, samples)
                    else timed_rounds fuel os env room (Suc (Suc k)) qs (samples @ [now - start]) cs')
           | r \<Rightarrow> Some (r, samples)))"

text \<open>The samples come back sorted, as \<open>qsort\<close> leaves them.\<close>

definition run_latency ::
    "nat \<Rightarrow> bench_os \<Rightarrow> 'p bench_env \<Rightarrow> benchmark_options \<Rightarrow> 'p bench_cl list \<Rightarrow>
     ('p bench_cl runs \<times> u64 list) option" where
  "run_latency fuel os env opts cs =
     (if \<not> bo_malloc os then Some (All_Ran False cs, [])
      else case warm_rounds fuel os env (map (\<lambda>i. of_nat i + 1) [0..<unat (opt_warmup opts)]) cs of
             All_Ran True cs' \<Rightarrow>
               map_option (\<lambda>(r, samples). (r, sort samples))
                 (timed_rounds fuel os env (unat (opt_messages opts * 8) div 8) 0
                    (map (\<lambda>i. ucast (opt_warmup opts + of_nat i + 1)) [0..<unat (opt_messages opts)]) [] cs')
           | r \<Rightarrow> Some (r, []))"

section \<open>The client function\<close>

definition destroy_object :: "nat \<Rightarrow> 'p bench_cstep list" where
  "destroy_object i =
     [assign (\<lambda>s. s\<lparr>bc_object_count := of_nat i\<rparr>),
      destroy_proxy None (\<lambda>s. bc_benchmarks s ! i)]"

definition destroy_objects :: "'p bench_cstep" where
  "destroy_objects c =
     attempt (concat (map destroy_object (rev [0..<unat (bc_object_count (cl_state c))]))) c"

definition bench_client_cleanup :: "'p bench_cstep list" where
  "bench_client_cleanup = [destroy_objects, destroy_if None bc_registry, plain Disconnect]"

text \<open>Up to the check of the descriptor.\<close>

definition bench_client_setup ::
    "nat \<Rightarrow> bench_os \<Rightarrow> 'p bench_env \<Rightarrow> benchmark_options \<Rightarrow> 'p bench_cstep list" where
  "bench_client_setup fuel os env opts =
     connect_client os env opts
     @ (if bo_eventfd os < 0 then [require (\<lambda>s. False)]
        else [request (BC_Ping_Fd 0 (bo_eventfd os)) (\<lambda>s. [bc_benchmark s]),
              close_fd (\<lambda>s. bo_eventfd os),
              flush_step,
              dispatch_until fuel bc_fd_valid (dispatch env bench_targets (bench_listeners os env))])"

text \<open>The exit status, the result as the caller finds it, and the client.\<close>

datatype 'c bench_exit = BX_Crashed | BX_Stuck | BX_Exit int "benchmark_result option" 'c

definition bench_finish :: "int \<Rightarrow> benchmark_result \<Rightarrow> 'p bench_cl \<Rightarrow> 'p bench_cl bench_exit" where
  "bench_finish status result c =
     (case attempt bench_client_cleanup c of
        Client_Crashed \<Rightarrow> BX_Crashed
      | Client_Stuck \<Rightarrow> BX_Stuck
      | Ran b c' \<Rightarrow> BX_Exit status (Some result) c')"

text \<open>Going on with the one connection; \<open>goto cleanup\<close> otherwise.\<close>

definition bench_continue :: "benchmark_result \<Rightarrow> 'p bench_cl runs \<Rightarrow>
    ('p bench_cl \<Rightarrow> 'p bench_cl bench_exit) \<Rightarrow> 'p bench_cl bench_exit" where
  "bench_continue result r go =
     (case r of
        All_Crashed \<Rightarrow> BX_Crashed
      | All_Stuck \<Rightarrow> BX_Stuck
      | All_Ran ok cs \<Rightarrow> if ok then go (hd cs) else bench_finish EXIT_FAILURE result (hd cs))"

definition run_phases ::
    "nat \<Rightarrow> bench_os \<Rightarrow> 'p bench_env \<Rightarrow> benchmark_options \<Rightarrow> 'p bench_cl \<Rightarrow> 'p bench_cl bench_exit" where
  "run_phases fuel os env opts c =
     bench_continue no_result (send_phase fuel os env (opt_warmup opts) (opt_batch opts) 1 [c]) (\<lambda>c.
     case raw_clock_ns (bo_clock os 0) of
       None \<Rightarrow> BX_Exit EXIT_FAILURE (Some no_result) c
     | Some start \<Rightarrow>
         bench_continue no_result (send_phase fuel os env (opt_messages opts) (opt_batch opts) 2 [c]) (\<lambda>c.
         case raw_clock_ns (bo_clock os 1) of
           None \<Rightarrow> BX_Exit EXIT_FAILURE (Some no_result) c
         | Some now \<Rightarrow>
             bench_finish EXIT_SUCCESS
               (no_result\<lparr>res_elapsed_ns := now - start, res_messages := opt_messages opts\<rparr>) c))"

definition run_rounds ::
    "nat \<Rightarrow> bench_os \<Rightarrow> 'p bench_env \<Rightarrow> benchmark_options \<Rightarrow> 'p bench_cl \<Rightarrow> 'p bench_cl bench_exit" where
  "run_rounds fuel os env opts c =
     (case run_latency fuel os env opts [c] of
        None \<Rightarrow> BX_Exit EXIT_FAILURE (Some no_result) c
      | Some (r, samples) \<Rightarrow>
          bench_continue no_result r (\<lambda>c.
            case latency_result (bo_mean os samples) samples (opt_messages opts) no_result of
              None \<Rightarrow> BX_Crashed
            | Some result \<Rightarrow> bench_finish EXIT_SUCCESS (result\<lparr>res_messages := opt_messages opts\<rparr>) c))"

definition benchmark_client_fd ::
    "nat \<Rightarrow> bench_os \<Rightarrow> 'p bench_env \<Rightarrow> (nat \<Rightarrow> flush_answer list) \<Rightarrow> benchmark_options option \<Rightarrow> bool \<Rightarrow>
     'p \<Rightarrow> 'p bench_cl bench_exit" where
  "benchmark_client_fd fuel os env flushes options has_result p =
     (let c = start_client (bench_client_init flushes) p
      in if \<not> has_result then BX_Exit EXIT_FAILURE None c
         else case options of
           None \<Rightarrow> BX_Exit EXIT_FAILURE (Some no_result) c
         | Some opts \<Rightarrow>
             if opt_warmup opts = 0 \<or> opt_messages opts = 0 \<or> opt_batch opts = 0 \<or> opt_objects opts = 0 \<or>
                opt_objects opts > max_objects
             then BX_Exit EXIT_FAILURE (Some no_result) c
             else if \<not> ce_display env then BX_Exit EXIT_FAILURE (Some no_result) c
             else case attempt (bench_client_setup fuel os env opts) c of
                    Client_Crashed \<Rightarrow> BX_Crashed
                  | Client_Stuck \<Rightarrow> BX_Stuck
                  | Ran ok c1 \<Rightarrow>
                      if \<not> ok then bench_finish EXIT_FAILURE no_result c1
                      else if opt_latency opts then run_rounds fuel os env opts c1
                      else run_phases fuel os env opts c1)"

section \<open>Against the server\<close>

text \<open>The server's client is pointer 0; an object of the client is the same number on both sides.\<close>

fun bench_translate :: "bench_call cl_call \<Rightarrow> bench_request input list" where
  "bench_translate (Bind name interface version p) =
     (if interface = bench_interface then [(BR_Bind 0 version (of_nat p) True, Some p)] else [])"
| "bench_translate (Request (BC_Ping sequence) rs) = [(BR_Ping (rs ! 0) sequence, None)]"
| "bench_translate (Request (BC_Ping_Fd sequence fd) rs) = [(BR_Ping_Fd (rs ! 0) sequence fd, None)]"
| "bench_translate _ = []"

fun bench_back :: "bench_event \<Rightarrow> bench_pong list" where
  "bench_back (BE_Pong r sequence) = [Pong r sequence]"
| "bench_back (BE_Pong_Fd r sequence fd) = [Pong_Fd r sequence fd]"
| "bench_back BE_Freed = []"

definition bench_link :: "benchmark_options \<Rightarrow> bench_request input list bench_env" where
  "bench_link opts = \<lparr>ce_display = True, ce_created = (\<lambda>k. True),
     ce_peer = server_peer (bench_session opts 1) bench_globals bench_translate bench_back\<rparr>"

lemma sent_sends [simp]: "sent (map Send es) = es" "list_ex is_error (map Send es) = False"
  by (induction es) auto

text \<open>A server that has bound objects \<open>1 .. k\<close> and received \<open>m\<close> pings.\<close>

definition bench_ready ::
    "benchmark_options \<Rightarrow> nat \<Rightarrow> nat \<Rightarrow> (bench_server, bench_request, bench_event) session \<Rightarrow> bool" where
  "bench_ready opts k m ss \<longleftrightarrow>
     ss_live ss 0 = Some ''wl_client'' \<and> (\<forall>r \<in> {1..k}. ss_live ss r = Some bench_interface) \<and>
     (\<forall>r > k. ss_live ss r = None) \<and> \<not> terminated ss \<and>
     bs_expected_clients (ss_state ss) = 1 \<and> bs_destroyed_clients (ss_state ss) = 0 \<and>
     bs_received (ss_state ss) = of_nat m \<and> bs_valid (ss_state ss) \<and>
     bs_connections (ss_state ss) = (if k = 0 then Map.empty else [0 \<mapsto> connection_of opts m]) \<and>
     (\<forall>r \<in> {1..k}. bs_user_data (ss_state ss) r = Some 0) \<and>
     bs_resources (ss_state ss) = rev [1..<Suc k]"

lemma bench_ready_start: "bench_ready opts 0 0 (bench_start 1)"
  by (auto simp: bench_ready_def bench_start_def start_session_def terminated_def bench_server_init_def)

lemma bench_ready_bind:
  assumes "bench_ready opts k 0 ss" and "plain_options opts"
  shows "\<exists>ss'. deliver (bench_handle opts) bench_args bench_uses (BR_Bind 0 version rid True, Some (Suc k)) ss = Some ss' \<and>
    bench_ready opts (Suc k) 0 ss' \<and>
    (\<exists>xs. ss_calls ss' = ss_calls ss @ xs \<and> sent xs = [] \<and> \<not> list_ex is_error xs)"
proof -
  have range: "{Suc 0..Suc k} = insert (Suc k) {Suc 0..k}" by auto
  show ?thesis
    using assms
    by (auto simp: bench_ready_def deliver_def deliverable_def bench_bind_def Let_def terminated_def
        connection_of_def plain_options_def range fun_eq_iff)
qed

text \<open>The pong that answers the ping after \<open>m\<close> others.\<close>

definition pong_after :: "benchmark_options \<Rightarrow> nat \<Rightarrow> proxy \<Rightarrow> u32 \<Rightarrow> bench_event list" where
  "pong_after opts m r sequence =
     (if opt_latency opts \<or> Suc m = unat (opt_warmup opts) \<or> Suc m = last_ping opts
      then [BE_Pong r sequence] else [])"

lemma bench_ready_ping:
  assumes "bench_ready opts k m ss" and "plain_options opts" and "r \<in> {1..k}" and "Suc m \<le> last_ping opts"
  shows "\<exists>ss'. deliver (bench_handle opts) bench_args bench_uses (BR_Ping r sequence, None) ss = Some ss' \<and>
    bench_ready opts k (Suc m) ss' \<and>
    ss_calls ss' = ss_calls ss @ map Send (pong_after opts m r sequence)"
proof -
  have m: "Suc m < 2 ^ 64" using assms(2,4) by (simp add: plain_options_def)
  define conn where "conn = (connection_of opts m)\<lparr>bc_received := of_nat m + 1\<rparr>"
  note ping = connection_ping [OF assms(2) m, folded conn_def]
  let ?s = "ss_state ss"
  have k: "k \<noteq> 0" using assms(3) by auto
  then have found: "Option.bind (bs_user_data ?s r) (\<lambda>c. map_option (Pair c) (bs_connections ?s c)) =
      Some (0, connection_of opts m)"
    using assms(1,3) by (simp add: bench_ready_def)
  have conn: "(connection_of opts m)\<lparr>bc_received := bc_received (connection_of opts m) + 1\<rparr> = conn"
    by (simp add: conn_def connection_of_def)
  have "bench_ping opts r sequence ?s =
      (?s\<lparr>bs_received := bs_received ?s + 1,
          bs_connections := (bs_connections ?s)(0 \<mapsto> connection_of opts (Suc m))\<rparr>,
       map Send (pong_after opts m r sequence))"
    using ping assms(1,4) unfolding bench_ping_def found option.case prod.case conn Let_def
    by (auto simp: bench_ready_def pong_after_def split: if_splits)
  then show ?thesis
    using assms k
    by (auto simp: bench_ready_def deliver_def deliverable_def pong_after_def terminated_def fun_eq_iff)
qed

lemma bench_ready_ping_fd:
  assumes "bench_ready opts k m ss" and "r \<in> {1..k}"
  shows "\<exists>ss'. deliver (bench_handle opts) bench_args bench_uses (BR_Ping_Fd r sequence fd, None) ss = Some ss' \<and>
    bench_ready opts k m ss' \<and> ss_calls ss' = ss_calls ss @ [Send (BE_Pong_Fd r sequence fd), Close fd]"
  using assms
  by (auto simp: bench_ready_def deliver_def deliverable_def bench_ping_fd_def terminated_def)

section \<open>A linked client\<close>

text \<open>
  The client has objects \<open>1 .. k\<close>; everything it has sent makes the server ready after \<open>m\<close> pings, and \<open>out\<close>
  is what the server has answered since the client last listened.
\<close>

definition linked_session :: "benchmark_options \<Rightarrow> nat \<Rightarrow> nat \<Rightarrow> bench_event list \<Rightarrow> bench_request input list \<Rightarrow>
    bench_request input list \<Rightarrow> bool" where
  "linked_session opts k m out before now \<longleftrightarrow>
     (\<exists>ss0 ss xs. bench_session opts 1 before = Some ss0 \<and> bench_session opts 1 (before @ now) = Some ss \<and>
        ss_calls ss = ss_calls ss0 @ xs \<and> sent xs = out \<and> \<not> list_ex is_error xs \<and> bench_ready opts k m ss)"

definition bench_linked ::
    "benchmark_options \<Rightarrow> nat \<Rightarrow> nat \<Rightarrow> bench_event list \<Rightarrow> bench_request input list bench_cl \<Rightarrow> bool" where
  "bench_linked opts k m out c \<longleftrightarrow>
     bc_registry (cl_state c) = Some 0 \<and> bc_benchmark (cl_state c) = Some 1 \<and>
     bc_benchmarks (cl_state c) = map Some [1..<Suc k] @ replicate (64 - k) None \<and> cl_next c = Suc k \<and>
     1 \<le> k \<and> k \<le> 64 \<and>
     cl_live c = (\<lambda>p. if p = 0 then Some ''wl_registry'' else if p \<le> k then Some bench_interface else None) \<and>
     list_all (\<lambda>q. \<not> is_get_registry q) (cl_pending c) \<and>
     linked_session opts k m out (cl_peer c) (concat (map bench_translate (cl_pending c)))"

lemma linked_session_snoc:
  assumes "linked_session opts k m out before now"
    and "\<And>ss. bench_ready opts k m ss \<Longrightarrow> \<exists>ss' xs. deliver (bench_handle opts) bench_args bench_uses i ss = Some ss' \<and>
      bench_ready opts k' m' ss' \<and> ss_calls ss' = ss_calls ss @ xs \<and> sent xs = ys \<and> \<not> list_ex is_error xs"
  shows "linked_session opts k' m' (out @ ys) before (now @ [i])"
proof -
  from assms(1) obtain ss0 ss xs where ss: "bench_session opts 1 before = Some ss0"
    "bench_session opts 1 (before @ now) = Some ss" "ss_calls ss = ss_calls ss0 @ xs" "sent xs = out"
    "\<not> list_ex is_error xs" "bench_ready opts k m ss"
    unfolding linked_session_def by blast
  from assms(2) [OF ss(6)] obtain ss' xs' where
    "deliver (bench_handle opts) bench_args bench_uses i ss = Some ss'" "bench_ready opts k' m' ss'"
    "ss_calls ss' = ss_calls ss @ xs'" "sent xs' = ys" "\<not> list_ex is_error xs'" by blast
  with ss bench_session_snoc [of opts 1 "before @ now" i] show ?thesis
    unfolding linked_session_def by (intro exI [of _ ss0] exI [of _ ss'] exI [of _ "xs @ xs'"]) simp
qed

lemma linked_object:
  assumes "bench_linked opts k m out c" and "i < k"
  shows "bc_benchmarks (cl_state c) ! i = Some (Suc i)"
  using assms by (auto simp: bench_linked_def nth_append simp del: upt_Suc)

lemma linked_ping_session:
  assumes "linked_session opts k m out before now" and "plain_options opts" and "r \<in> {1..k}"
    and "Suc m \<le> last_ping opts"
  shows "linked_session opts k (Suc m) (out @ pong_after opts m r sequence) before (now @ [(BR_Ping r sequence, None)])"
  by (rule linked_session_snoc [OF assms(1)]) (use bench_ready_ping [OF _ assms(2-4)] in fastforce)

lemma linked_bind_session:
  assumes "linked_session opts k 0 out before now" and "plain_options opts"
  shows "linked_session opts (Suc k) 0 out before (now @ [(BR_Bind 0 version rid True, Some (Suc k))])"
  using linked_session_snoc [OF assms(1), of "(BR_Bind 0 version rid True, Some (Suc k))" "Suc k" 0 "[]"]
    bench_ready_bind [OF _ assms(2), of k _ version rid] by fastforce

lemma linked_ping_fd_session:
  assumes "linked_session opts k m out before now" and "r \<in> {1..k}"
  shows "linked_session opts k m (out @ [BE_Pong_Fd r sequence fd]) before (now @ [(BR_Ping_Fd r sequence fd, None)])"
  by (rule linked_session_snoc [OF assms(1)]) (use bench_ready_ping_fd [OF _ assms(2)] in fastforce)

text \<open>The pings of one loop turn.\<close>

lemma send_ping_linked:
  assumes "bench_linked opts k m out c" and "plain_options opts" and "Suc m \<le> last_ping opts"
    and "bc_object_count (cl_state c) = of_nat k" and "unat (bc_object_cursor (cl_state c)) < k"
  shows "\<exists>c'. attempt (send_ping sequence) c = Ran True c' \<and>
    bench_linked opts k (Suc m)
      (out @ pong_after opts m (Suc (unat (bc_object_cursor (cl_state c)))) sequence) c' \<and>
    cl_state c' = (cl_state c)\<lparr>bc_object_cursor := bc_object_cursor (cl_state c')\<rparr> \<and>
    unat (bc_object_cursor (cl_state c')) < k"
proof -
  let ?s = "cl_state c"
  let ?r = "Suc (unat (bc_object_cursor ?s))"
  have r: "?r \<in> {1..k}" "?r \<le> k" using assms(5) by auto
  have k: "k \<le> 64" using assms(1) by (simp add: bench_linked_def)
  define next' where "next' = (if bc_object_cursor ?s + 1 = of_nat k then 0 else bc_object_cursor ?s + 1)"
  have "unat next' < k"
  proof (cases "bc_object_cursor ?s + 1 = of_nat k")
    case False
    have "unat (bc_object_cursor ?s + 1) = Suc (unat (bc_object_cursor ?s))"
      using assms(5) k by (subst unat_add_lem [THEN iffD1]) simp_all
    moreover have "unat (of_nat k :: u32) = k" using k by (simp add: unat_of_nat)
    ultimately show ?thesis using False assms(5) r by (auto simp: next'_def word_unat_eq_iff)
  qed (use assms(5) in \<open>simp add: next'_def\<close>)
  moreover define c' where "c' = c\<lparr>cl_pending := cl_pending c @ [Request (BC_Ping sequence) [?r]],
      cl_calls := cl_calls c @ [Request (BC_Ping sequence) [?r]],
      cl_state := ?s\<lparr>bc_object_cursor := next'\<rparr>\<rparr>"
  have "attempt (send_ping sequence) c = Ran True c'"
    using assms(4) r(2) linked_object [OF assms(1) assms(5)] assms(1)
    by (auto simp: send_ping_def client_step_defs bench_linked_def c'_def next'_def)
  moreover have "bench_linked opts k (Suc m) (out @ pong_after opts m ?r sequence) c'"
    using assms(1) linked_ping_session [OF _ assms(2) r(1) assms(3), of out "cl_peer c"
        "concat (map bench_translate (cl_pending c))" sequence]
    by (simp add: bench_linked_def c'_def)
  ultimately show ?thesis by (intro exI [of _ c']) (simp add: c'_def)
qed

text \<open>
  A client in the middle of its pings: it has sent \<open>m\<close>, its last acknowledgement is \<open>a\<close>, and the server has
  answered \<open>n\<close> pongs with the number \<open>q\<close>, not read yet. Its flushes succeed.
\<close>

definition bench_going :: "benchmark_options \<Rightarrow> nat \<Rightarrow> nat \<Rightarrow> u32 \<Rightarrow> u32 \<Rightarrow> nat \<Rightarrow>
    bench_request input list bench_cl \<Rightarrow> bool" where
  "bench_going opts k m a q n c \<longleftrightarrow>
     (\<exists>out. bench_linked opts k m out c \<and> length out = n \<and>
        list_all (\<lambda>e. e \<in> (\<lambda>r. BE_Pong r q) ` {1..k}) out) \<and>
     bc_object_count (cl_state c) = of_nat k \<and> unat (bc_object_cursor (cl_state c)) < k \<and>
     {1..k} \<subseteq> set (bc_listening (cl_state c)) \<and> bc_ack (cl_state c) = a \<and>
     (\<forall>i. flush_blocking (bc_flushes (cl_state c) i) = Some 0)"

text \<open>How many of the pings \<open>m + 1 .. m + n\<close> are answered.\<close>

definition answered :: "benchmark_options \<Rightarrow> nat \<Rightarrow> nat \<Rightarrow> nat" where
  "answered opts m n = length (filter (\<lambda>j. opt_latency opts \<or> j = unat (opt_warmup opts) \<or> j = last_ping opts)
     [Suc m..<Suc (m + n)])"

lemma answered_simps [simp]:
  "answered opts m 0 = 0"
  "answered opts m (Suc n) = answered opts m n +
     (if opt_latency opts \<or> Suc (m + n) = unat (opt_warmup opts) \<or> Suc (m + n) = last_ping opts then 1 else 0)"
  by (simp_all add: answered_def)

lemma answered_add: "answered opts m (i + j) = answered opts m i + answered opts (m + i) j"
  by (induction j) (simp_all add: add.assoc)

lemma send_ping_going:
  assumes "bench_going opts k m a q n c" and "plain_options opts" and "Suc m \<le> last_ping opts"
  shows "\<exists>c'. attempt (send_ping q) c = Ran True c' \<and> bench_going opts k (Suc m) a q (n + answered opts m 1) c'"
proof -
  from assms(1) obtain out where out: "bench_linked opts k m out c" "length out = n"
    "list_all (\<lambda>e. e \<in> (\<lambda>r. BE_Pong r q) ` {1..k}) out" and cursor: "unat (bc_object_cursor (cl_state c)) < k"
    and objects: "bc_object_count (cl_state c) = of_nat k"
    unfolding bench_going_def by blast
  let ?r = "Suc (unat (bc_object_cursor (cl_state c)))"
  from send_ping_linked [OF out(1) assms(2,3) objects cursor, of q] obtain c' where c':
    "attempt (send_ping q) c = Ran True c'" "bench_linked opts k (Suc m) (out @ pong_after opts m ?r q) c'"
    "cl_state c' = (cl_state c)\<lparr>bc_object_cursor := bc_object_cursor (cl_state c')\<rparr>"
    "unat (bc_object_cursor (cl_state c')) < k" by blast
  have "list_all (\<lambda>e. e \<in> (\<lambda>r. BE_Pong r q) ` {1..k}) (out @ pong_after opts m ?r q)"
    "length (out @ pong_after opts m ?r q) = n + answered opts m 1"
    using out(2,3) cursor by (auto simp: pong_after_def)
  moreover have same: "bc_object_count (cl_state c') = bc_object_count (cl_state c)"
    "bc_listening (cl_state c') = bc_listening (cl_state c)" "bc_ack (cl_state c') = bc_ack (cl_state c)"
    "bc_flushes (cl_state c') = bc_flushes (cl_state c)"
    by (subst c'(3); simp)+
  ultimately have "bench_going opts k (Suc m) a q (n + answered opts m 1) c'"
    using c'(2,4) assms(1) unfolding bench_going_def same by blast
  with c'(1) show ?thesis by blast
qed

lemma attempt_append_True: "attempt ps c = Ran True c' \<Longrightarrow> attempt (ps @ qs) c = attempt qs c'"
  by (induction ps arbitrary: c) (auto split: run.splits bool.splits)

lemma send_chunk_going:
  assumes "bench_going opts k m a q n c" and "plain_options opts" and "m + chunk \<le> last_ping opts"
  shows "\<exists>c'. send_chunk q chunk c = Ran True c' \<and> bench_going opts k (m + chunk) a q (n + answered opts m chunk) c'"
  using assms(3)
proof (induction chunk)
  case 0
  with assms(1) show ?case by (simp add: send_chunk_def)
next
  case (Suc chunk)
  then obtain c1 where c1: "attempt (concat (replicate chunk (send_ping q))) c = Ran True c1"
    "bench_going opts k (m + chunk) a q (n + answered opts m chunk) c1"
    by (auto simp: send_chunk_def)
  have "Suc (m + chunk) \<le> last_ping opts" using Suc.prems by simp
  from send_ping_going [OF c1(2) assms(2) this] obtain c2 where c2: "attempt (send_ping q) c1 = Ran True c2"
    "bench_going opts k (Suc (m + chunk)) a q (n + answered opts m chunk + answered opts (m + chunk) 1) c2" by blast
  have eq: "concat (replicate (Suc chunk) (send_ping q)) = concat (replicate chunk (send_ping q)) @ send_ping q"
    using concat_replicate_add [of chunk 1 "send_ping q"] by simp
  have "send_chunk q (Suc chunk) c = Ran True c2"
    unfolding send_chunk_def eq attempt_append_True [OF c1(1)] by (rule c2(1))
  with c2(2) show ?case by (intro exI [of _ c2]) (simp add: add.assoc)
qed

lemma flush_step_going:
  assumes "bench_going opts k m a q n c"
  shows "\<exists>c'. flush_step c = Ran True c' \<and> bench_going opts k m a q n c'"
  using assms by (auto simp: flush_step_def bench_going_def bench_linked_def log_call_def Let_def)

text \<open>The loops over the connections keep what holds for every one of them.\<close>

lemma each_run:
  "\<forall>c. P c \<longrightarrow> (\<exists>c'. step c = Ran True c' \<and> Q c') \<Longrightarrow> list_all P cs \<Longrightarrow>
     \<exists>cs'. each step cs = All_Ran True cs' \<and> length cs' = length cs \<and> list_all Q cs'"
proof (induction cs)
  case (Cons c cs)
  from Cons.prems(2) have "P c" "list_all P cs" by simp_all
  from Cons.prems(1) this(1) obtain c' where "step c = Ran True c'" "Q c'" by blast
  moreover from Cons.IH [OF Cons.prems(1) \<open>list_all P cs\<close>] obtain cs' where
    "each step cs = All_Ran True cs'" "length cs' = length cs" "list_all Q cs'" by blast
  ultimately show ?case by simp
qed simp

lemma flushes_going:
  "\<forall>c. bench_going opts k m a q n c \<longrightarrow> (\<exists>c'. flush_step c = Ran True c' \<and> bench_going opts k m a q n c')"
  using flush_step_going by blast

lemma send_batches_going:
  assumes "list_all (bench_going opts k m a q n) cs" and "plain_options opts" and "m + remaining \<le> last_ping opts"
    and "0 < batch"
  shows "\<exists>cs'. send_batches q remaining batch cs = All_Ran True cs' \<and> length cs' = length cs \<and>
    list_all (bench_going opts k (m + remaining) a q (n + answered opts m remaining)) cs'"
  using assms
proof (induction remaining arbitrary: m n cs rule: less_induct)
  case (less remaining)
  show ?case
  proof (cases "remaining = 0")
    case True
    with less.prems(1) show ?thesis by (simp add: send_batches.simps)
  next
    case False
    define chunk where "chunk = (if remaining < batch then remaining else batch)"
    define rest where "rest = remaining - chunk"
    have split: "remaining = chunk + rest" "rest < remaining"
      using False less.prems(4) by (auto simp: chunk_def rest_def)
    have "m + chunk \<le> last_ping opts" using less.prems(3) split(1) by simp
    from send_chunk_going [OF _ less.prems(2) this] have "\<forall>c. bench_going opts k m a q n c \<longrightarrow>
        (\<exists>c'. send_chunk q chunk c = Ran True c' \<and> bench_going opts k (m + chunk) a q (n + answered opts m chunk) c')"
      by blast
    from each_run [OF this less.prems(1)] obtain cs1 where
      c1: "each (send_chunk q chunk) cs = All_Ran True cs1" "length cs1 = length cs"
      "list_all (bench_going opts k (m + chunk) a q (n + answered opts m chunk)) cs1" by blast
    from each_run [OF flushes_going c1(3)] obtain cs2 where
      c2: "each flush_step cs1 = All_Ran True cs2" "length cs2 = length cs"
      "list_all (bench_going opts k (m + chunk) a q (n + answered opts m chunk)) cs2" using c1(2) by auto
    have "m + chunk + rest \<le> last_ping opts" using less.prems(3) split(1) by simp
    from less.IH [OF split(2) c2(3) less.prems(2) this less.prems(4)] obtain cs' where
      "send_batches q rest batch cs2 = All_Ran True cs'" "length cs' = length cs2"
      "list_all (bench_going opts k (m + remaining) a q (n + answered opts m remaining)) cs'"
      by (auto simp: split(1) answered_add add.assoc)
    moreover have "send_batches q remaining batch cs = send_batches q rest batch cs2"
      using False less.prems(4) c1(1) c2(1)
      by (subst send_batches.simps) (simp add: chunk_def [symmetric] rest_def [symmetric] then_all_def Let_def)
    ultimately show ?thesis using c2(2) by auto
  qed
qed

text \<open>Listening: the pongs arrive.\<close>

lemma deliver_pongs:
  assumes "list_all (\<lambda>e. e \<in> (\<lambda>r. BE_Pong r q) ` {1..k}) out" and "bc_ack (cl_state c) = q \<or> out \<noteq> []"
    and "\<forall>p \<in> {1..k}. cl_live c p \<noteq> None" and "{1..k} \<subseteq> set (bc_listening (cl_state c))"
  shows "deliver_events bench_targets (bench_listeners os env) (map Event (concat (map bench_back out))) c =
    Ran True (c\<lparr>cl_state := (cl_state c)\<lparr>bc_ack := q,
      bc_pongs_received := bc_pongs_received (cl_state c) + of_nat (length out)\<rparr>\<rparr>)"
  using assms
proof (induction out arbitrary: c)
  case (Cons e out)
  then obtain r where e: "e = BE_Pong r q" "r \<in> {1..k}" by auto
  with Cons.prems have live: "\<exists>i. cl_live c r = Some i" "r \<in> set (bc_listening (cl_state c))" by auto
  let ?c = "c\<lparr>cl_state := (cl_state c)\<lparr>bc_ack := q, bc_pongs_received := bc_pongs_received (cl_state c) + 1\<rparr>\<rparr>"
  have "deliver_events bench_targets (bench_listeners os env) (map Event (concat (map bench_back out))) ?c =
    Ran True (?c\<lparr>cl_state := (cl_state ?c)\<lparr>bc_ack := q,
      bc_pongs_received := bc_pongs_received (cl_state ?c) + of_nat (length out)\<rparr>\<rparr>)"
    by (rule Cons.IH) (use Cons.prems in auto)
  with live show ?case
    by (auto simp: e usable_def when_state_def handle_pong_def assign_def add.assoc)
qed simp

lemma dispatch_linked:
  assumes "bench_linked opts k m out c"
  shows "\<exists>c'. c' = c\<lparr>cl_pending := [], cl_calls := cl_calls c @ [Flush],
      cl_peer := cl_peer c @ concat (map bench_translate (cl_pending c))\<rparr> \<and>
    dispatch (bench_link opts) bench_targets listeners c =
      (case deliver_events bench_targets listeners (map Event (concat (map bench_back out))) c' of
         Ran b c' \<Rightarrow> Ran True c' | r \<Rightarrow> r) \<and>
    linked_session opts k m [] (cl_peer c') []"
proof -
  from assms obtain ss0 ss xs where ss: "bench_session opts 1 (cl_peer c) = Some ss0"
    "bench_session opts 1 (cl_peer c @ concat (map bench_translate (cl_pending c))) = Some ss"
    "ss_calls ss = ss_calls ss0 @ xs" "sent xs = out" "\<not> list_ex is_error xs" "bench_ready opts k m ss"
    and quiet: "list_all (\<lambda>q. \<not> is_get_registry q) (cl_pending c)"
    unfolding bench_linked_def linked_session_def by blast
  have "\<not> list_ex is_get_registry (cl_pending c @ [Flush])"
    using quiet by (auto simp: list_ex_iff list_all_iff)
  with ss show ?thesis
    by (simp add: dispatch_def await_def bench_link_def server_peer_def Let_def linked_session_def)
qed

lemma dispatch_going:
  assumes "bench_going opts k m a q n c" and "0 < n"
  shows "\<exists>c'. dispatch (bench_link opts) bench_targets (bench_listeners os (bench_link opts)) c = Ran True c' \<and>
    bench_going opts k m q q' 0 c'"
proof -
  from assms(1) obtain out where out: "bench_linked opts k m out c" "length out = n"
    "list_all (\<lambda>e. e \<in> (\<lambda>r. BE_Pong r q) ` {1..k}) out"
    unfolding bench_going_def by blast
  from dispatch_linked [OF out(1)] obtain c1 where
    c1: "c1 = c\<lparr>cl_pending := [], cl_calls := cl_calls c @ [Flush],
      cl_peer := cl_peer c @ concat (map bench_translate (cl_pending c))\<rparr>"
    and run: "dispatch (bench_link opts) bench_targets (bench_listeners os (bench_link opts)) c =
      (case deliver_events bench_targets (bench_listeners os (bench_link opts))
              (map Event (concat (map bench_back out))) c1 of
         Ran b c' \<Rightarrow> Ran True c' | r \<Rightarrow> r)"
    and linked: "linked_session opts k m [] (cl_peer c1) []"
    by blast
  let ?c = "c1\<lparr>cl_state := (cl_state c1)\<lparr>bc_ack := q,
      bc_pongs_received := bc_pongs_received (cl_state c1) + of_nat (length out)\<rparr>\<rparr>"
  have "deliver_events bench_targets (bench_listeners os (bench_link opts))
      (map Event (concat (map bench_back out))) c1 = Ran True ?c"
    by (rule deliver_pongs [OF out(3)])
       (use assms out in \<open>auto simp: bench_going_def bench_linked_def c1\<close>)
  with run have "dispatch (bench_link opts) bench_targets (bench_listeners os (bench_link opts)) c = Ran True ?c"
    by simp
  moreover have "bench_linked opts k m [] ?c"
    using out(1) linked by (simp add: bench_linked_def c1)
  then have "bench_going opts k m q q' 0 ?c"
    using assms(1) by (simp add: bench_going_def c1)
  ultimately show ?thesis by blast
qed

lemma wait_for_ack_going:
  assumes "bench_going opts k m a q n c" and "0 < n" and "a \<noteq> q"
  shows "\<exists>c'. wait_for_ack (Suc fuel) os (bench_link opts) q c = Ran True c' \<and> bench_going opts k m q q' 0 c'"
proof -
  have ack: "bc_ack (cl_state c) \<noteq> q" using assms(1,3) by (simp add: bench_going_def)
  from dispatch_going [OF assms(1,2)] obtain c' where
    "dispatch (bench_link opts) bench_targets (bench_listeners os (bench_link opts)) c = Ran True c'"
    "bench_going opts k m q q' 0 c'" by blast
  with ack show ?thesis
    by (intro exI [of _ c']) (simp add: wait_for_ack_def dispatch_until.simps bench_going_def)
qed

lemma waits_going:
  assumes "0 < n" and "a \<noteq> q"
  shows "\<forall>c. bench_going opts k m a q n c \<longrightarrow>
    (\<exists>c'. wait_for_ack (Suc fuel) os (bench_link opts) q c = Ran True c' \<and> bench_going opts k m q q' 0 c')"
  using wait_for_ack_going [OF _ assms] by blast

lemma send_phase_going:
  assumes "list_all (bench_going opts k m a q 0) cs" and "plain_options opts"
    and "m + unat phase_count \<le> last_ping opts" and "0 < unat batch"
    and "0 < answered opts m (unat phase_count)" and "a \<noteq> q"
  shows "\<exists>cs'. send_phase (Suc fuel) os (bench_link opts) phase_count batch q cs = All_Ran True cs' \<and>
    length cs' = length cs \<and> list_all (bench_going opts k (m + unat phase_count) q q' 0) cs'"
proof -
  from send_batches_going [OF assms(1-4)] obtain cs1 where c1:
    "send_batches q (unat phase_count) (unat batch) cs = All_Ran True cs1" "length cs1 = length cs"
    "list_all (bench_going opts k (m + unat phase_count) a q (answered opts m (unat phase_count))) cs1" by auto
  from each_run [OF waits_going [OF assms(5,6)] c1(3)] obtain cs2 where
    "each (wait_for_ack (Suc fuel) os (bench_link opts) q) cs1 = All_Ran True cs2" "length cs2 = length cs1"
    "list_all (bench_going opts k (m + unat phase_count) q q' 0) cs2" by blast
  with c1(1,2) show ?thesis by (simp add: send_phase_def then_all_def)
qed

section \<open>Rounds of the latency mode\<close>

lemma latency_ping_going:
  assumes "bench_going opts k m a q 0 c" and "plain_options opts" and "Suc m \<le> last_ping opts" and "opt_latency opts"
  shows "\<exists>c'. request (BC_Ping q) (\<lambda>s. [bc_benchmark s]) c = Ran True c' \<and> bench_going opts k (Suc m) a q 1 c'"
proof -
  from assms(1) have linked: "bench_linked opts k m [] c" unfolding bench_going_def by auto
  let ?q = "Request (BC_Ping q) [1] :: bench_call cl_call"
  define c' where "c' = c\<lparr>cl_pending := cl_pending c @ [?q], cl_calls := cl_calls c @ [?q]\<rparr>"
  have one: "1 \<in> {1..k}" using linked by (simp add: bench_linked_def)
  have "request (BC_Ping q) (\<lambda>s. [bc_benchmark s]) c = Ran True c'"
    using linked by (simp add: client_step_defs bench_linked_def c'_def)
  moreover have "bench_linked opts k (Suc m) [BE_Pong 1 q] c'"
    using linked linked_ping_session [OF _ assms(2) one assms(3), of "[]" "cl_peer c"
        "concat (map bench_translate (cl_pending c))" q] assms(4)
    by (simp add: bench_linked_def c'_def pong_after_def)
  then have "bench_going opts k (Suc m) a q 1 c'"
    using assms(1) one unfolding bench_going_def by (intro conjI exI [of _ "[BE_Pong 1 q]"]) (auto simp: c'_def)
  ultimately show ?thesis by blast
qed

lemma latency_round_going:
  assumes "list_all (bench_going opts k m a q 0) cs" and "plain_options opts" and "Suc m \<le> last_ping opts"
    and "opt_latency opts" and "a \<noteq> q"
  shows "\<exists>cs'. latency_round (Suc fuel) os (bench_link opts) q cs = All_Ran True cs' \<and> length cs' = length cs \<and>
    list_all (bench_going opts k (Suc m) q q' 0) cs'"
proof -
  from latency_ping_going [OF _ assms(2-4)] have "\<forall>c. bench_going opts k m a q 0 c \<longrightarrow>
      (\<exists>c'. request (BC_Ping q) (\<lambda>s. [bc_benchmark s]) c = Ran True c' \<and> bench_going opts k (Suc m) a q 1 c')"
    by blast
  from each_run [OF this assms(1)] obtain cs1 where c1:
    "each (request (BC_Ping q) (\<lambda>s. [bc_benchmark s])) cs = All_Ran True cs1" "length cs1 = length cs"
    "list_all (bench_going opts k (Suc m) a q 1) cs1" by blast
  from each_run [OF flushes_going c1(3)] obtain cs2 where c2: "each flush_step cs1 = All_Ran True cs2"
    "length cs2 = length cs1" "list_all (bench_going opts k (Suc m) a q 1) cs2" by blast
  from each_run [OF waits_going [OF zero_less_one assms(5)] c2(3)] obtain cs3 where
    "each (wait_for_ack (Suc fuel) os (bench_link opts) q) cs2 = All_Ran True cs3" "length cs3 = length cs2"
    "list_all (bench_going opts k (Suc m) q q' 0) cs3" by blast
  with c1(1,2) c2(1,2) show ?thesis by (simp add: latency_round_def then_all_def)
qed

text \<open>After \<open>m\<close> rounds the last acknowledgement is \<open>m\<close>, as 32 bits.\<close>

definition bench_rounds :: "benchmark_options \<Rightarrow> nat \<Rightarrow> nat \<Rightarrow> bench_request input list bench_cl \<Rightarrow> bool" where
  "bench_rounds opts k m c \<longleftrightarrow> bench_going opts k m (of_nat m) (of_nat (Suc m)) 0 c"

lemma bench_rounds_step:
  assumes "list_all (bench_rounds opts k m) cs" and "plain_options opts" and "Suc m \<le> last_ping opts"
    and "opt_latency opts"
  shows "\<exists>cs'. latency_round (Suc fuel) os (bench_link opts) (of_nat (Suc m)) cs = All_Ran True cs' \<and>
    length cs' = length cs \<and> list_all (bench_rounds opts k (Suc m)) cs'"
  using latency_round_going [OF assms(1) [unfolded bench_rounds_def [abs_def]] assms(2-4), of fuel os "of_nat (Suc (Suc m))"]
  by (simp add: bench_rounds_def [abs_def])

lemma warm_rounds_run:
  assumes "list_all (bench_rounds opts k m) cs" and "plain_options opts" and "m + n \<le> last_ping opts"
    and "opt_latency opts"
  shows "\<exists>cs'. warm_rounds (Suc fuel) os (bench_link opts) (map of_nat [Suc m..<Suc (m + n)]) cs = All_Ran True cs' \<and>
    length cs' = length cs \<and> list_all (bench_rounds opts k (m + n)) cs'"
  using assms(1,3)
proof (induction n arbitrary: m cs)
  case (Suc n)
  then have "Suc m \<le> last_ping opts" by simp
  from bench_rounds_step [OF Suc.prems(1) assms(2) this assms(4)] obtain cs1 where c1:
    "latency_round (Suc fuel) os (bench_link opts) (of_nat (Suc m)) cs = All_Ran True cs1" "length cs1 = length cs"
    "list_all (bench_rounds opts k (Suc m)) cs1" by blast
  from Suc.IH [OF c1(3)] Suc.prems(2) c1(2) obtain cs2 where
    "warm_rounds (Suc fuel) os (bench_link opts) (map of_nat [Suc (Suc m)..<Suc (Suc m + n)]) cs1 = All_Ran True cs2"
    "length cs2 = length cs" "list_all (bench_rounds opts k (Suc m + n)) cs2" by auto
  moreover have "map of_nat [Suc m..<Suc (m + Suc n)] =
      (of_nat (Suc m) :: u32) # map of_nat [Suc (Suc m)..<Suc (Suc m + n)]"
    by (subst upt_conv_Cons) (simp_all del: upt_Suc)
  ultimately show ?case using c1(1)
    by (intro exI [of _ cs2]) (simp only: warm_rounds.simps then_all_def runs.case bool.case add_Suc_right add_Suc simp_thms)
qed simp

lemma timed_rounds_run:
  assumes "list_all (bench_rounds opts k m) cs" and "plain_options opts" and "m + n \<le> last_ping opts"
    and "opt_latency opts" and "length samples + n \<le> room" and "\<And>i. raw_clock_ns (bo_clock os i) \<noteq> None"
  shows "\<exists>cs' samples'.
    timed_rounds (Suc fuel) os (bench_link opts) room j (map of_nat [Suc m..<Suc (m + n)]) samples cs =
      Some (All_Ran True cs', samples') \<and>
    length cs' = length cs \<and> list_all (bench_rounds opts k (m + n)) cs' \<and> length samples' = length samples + n"
  using assms(1,3,5)
proof (induction n arbitrary: m cs j samples)
  case (Suc n)
  then have "Suc m \<le> last_ping opts" by simp
  from bench_rounds_step [OF Suc.prems(1) assms(2) this assms(4)] obtain cs1 where c1:
    "latency_round (Suc fuel) os (bench_link opts) (of_nat (Suc m)) cs = All_Ran True cs1" "length cs1 = length cs"
    "list_all (bench_rounds opts k (Suc m)) cs1" by blast
  from assms(6) obtain t0 t1 where clock: "raw_clock_ns (bo_clock os j) = Some t0"
    "raw_clock_ns (bo_clock os (Suc j)) = Some t1" by blast
  from Suc.IH [OF c1(3), of "samples @ [t1 - t0]" "Suc (Suc j)"] Suc.prems(2,3) c1(2) obtain cs2 samples' where
    "timed_rounds (Suc fuel) os (bench_link opts) room (Suc (Suc j)) (map of_nat [Suc (Suc m)..<Suc (Suc m + n)])
       (samples @ [t1 - t0]) cs1 = Some (All_Ran True cs2, samples')"
    "length cs2 = length cs" "list_all (bench_rounds opts k (Suc m + n)) cs2"
    "length samples' = length samples + Suc n" by auto
  moreover have "map of_nat [Suc m..<Suc (m + Suc n)] =
      (of_nat (Suc m) :: u32) # map of_nat [Suc (Suc m)..<Suc (Suc m + n)]"
    by (subst upt_conv_Cons) (simp_all del: upt_Suc)
  moreover have "\<not> room \<le> length samples" using Suc.prems(3) by simp
  ultimately show ?case using c1(1) clock
    by (intro exI [of _ cs2] exI [of _ samples'])
       (simp only: timed_rounds.simps option.case runs.case bool.case if_False add_Suc_right add_Suc simp_thms)
qed simp

lemma sequence_numbers:
  "map (\<lambda>i. of_nat i + 1) [0..<n] = (map of_nat [Suc 0..<Suc n] :: u32 list)"
  "map (\<lambda>i. ucast (w + of_nat i + 1)) [0..<n] = (map of_nat [Suc (unat w)..<Suc (unat w + n)] :: u32 list)"
  for w :: u64
proof -
  show "map (\<lambda>i. of_nat i + 1) [0..<n] = (map of_nat [Suc 0..<Suc n] :: u32 list)"
    by (rule nth_equalityI) (simp_all del: upt_Suc)
  have "ucast (w + of_nat i + 1) = (of_nat (Suc (unat w + i)) :: u32)" for i
    using u32_of_parsed [of "Suc (unat w + i)"] by (simp add: ac_simps)
  then show "map (\<lambda>i. ucast (w + of_nat i + 1)) [0..<n] =
      (map of_nat [Suc (unat w)..<Suc (unat w + n)] :: u32 list)"
    by (intro nth_equalityI) (simp_all del: upt_Suc)
qed

lemma run_latency_going:
  assumes "list_all (bench_rounds opts k 0) cs" and "plain_options opts" and "opt_latency opts" and "bo_malloc os"
    and "unat (opt_messages opts) < 2 ^ 61" and "\<And>i. raw_clock_ns (bo_clock os i) \<noteq> None"
  shows "\<exists>cs' samples. run_latency (Suc fuel) os (bench_link opts) opts cs = Some (All_Ran True cs', sort samples) \<and>
    length cs' = length cs \<and> list_all (bench_rounds opts k (last_ping opts)) cs' \<and>
    length samples = unat (opt_messages opts)"
proof -
  let ?w = "unat (opt_warmup opts)" and ?n = "unat (opt_messages opts)"
  have room: "unat (opt_messages opts * 8) div 8 = ?n"
    using assms(5) by (subst unat_mult_lem [THEN iffD1]) simp_all
  from warm_rounds_run [OF assms(1,2) _ assms(3), of ?w fuel os] obtain cs1 where c1:
    "warm_rounds (Suc fuel) os (bench_link opts) (map of_nat [Suc 0..<Suc ?w]) cs = All_Ran True cs1"
    "length cs1 = length cs" "list_all (bench_rounds opts k ?w) cs1"
    by (auto simp: last_ping_def simp del: upt_Suc)
  have "?w + ?n \<le> last_ping opts" "length ([] :: u64 list) + ?n \<le> ?n" by (simp_all add: last_ping_def)
  from timed_rounds_run [OF c1(3) assms(2) this(1) assms(3) this(2) assms(6)] obtain cs2 samples where
    "timed_rounds (Suc fuel) os (bench_link opts) ?n 0 (map of_nat [Suc ?w..<Suc (?w + ?n)]) [] cs1 =
       Some (All_Ran True cs2, samples)"
    "length cs2 = length cs1" "list_all (bench_rounds opts k (?w + ?n)) cs2" "length samples = ?n"
    by (metis (no_types, lifting) list.size(3) add_0)
  with c1(1,2) assms(4) show ?thesis
    by (intro exI [of _ cs2] exI [of _ samples])
       (simp add: run_latency_def sequence_numbers room last_ping_def del: upt_Suc)
qed

section \<open>The whole exchange\<close>

lemma bind_object_linked:
  assumes "bench_linked opts k 0 [] c" and "plain_options opts" and "k < 64"
  shows "\<exists>c'. bind_object (bench_link opts) k c = Ran True c' \<and> bench_linked opts (Suc k) 0 [] c' \<and>
    cl_state c' = (cl_state c)\<lparr>bc_benchmarks := bc_benchmarks (cl_state c')\<rparr>"
proof -
  let ?q = "Bind (bc_global (cl_state c)) bench_interface (bc_version (cl_state c)) (Suc k) :: bench_call cl_call"
  define c' where "c' = c\<lparr>cl_pending := cl_pending c @ [?q], cl_calls := cl_calls c @ [?q], cl_next := Suc (Suc k),
    cl_live := (cl_live c)(Suc k \<mapsto> bench_interface),
    cl_state := (cl_state c)\<lparr>bc_benchmarks := (bc_benchmarks (cl_state c))[k := Some (Suc k)]\<rparr>\<rparr>"
  have "bind_object (bench_link opts) k c = Ran True c'"
    using assms(1)
    by (simp add: bind_object_def bind_global_def obtain_proxy_def bench_link_def bench_linked_def log_call_def
        c'_def Let_def)
  moreover have left: "64 - k = Suc (64 - Suc k)" using assms(3) by simp
  have "(map Some [1..<Suc k] @ replicate (64 - k) None)[k := Some (Suc k)] =
      map Some [1..<Suc (Suc k)] @ replicate (64 - Suc k) None"
    unfolding left by (simp add: list_update_append)
  then have "bench_linked opts (Suc k) 0 [] c'"
    using assms linked_bind_session [OF _ assms(2), of k "[]" "cl_peer c"
        "concat (map bench_translate (cl_pending c))" "bc_version (cl_state c)" "of_nat (Suc k)"]
    by (auto simp: bench_linked_def c'_def fun_eq_iff simp del: upt_Suc)
  ultimately show ?thesis by (intro exI [of _ c']) (simp add: c'_def)
qed

lemma bind_objects_linked:
  assumes "bench_linked opts k 0 [] c" and "plain_options opts" and "k + j \<le> 64"
  shows "\<exists>c'. attempt (map (bind_object (bench_link opts)) [k..<k + j]) c = Ran True c' \<and>
    bench_linked opts (k + j) 0 [] c' \<and> cl_state c' = (cl_state c)\<lparr>bc_benchmarks := bc_benchmarks (cl_state c')\<rparr>"
  using assms(1,3)
proof (induction j arbitrary: k c)
  case (Suc j)
  then have "k < 64" by simp
  from bind_object_linked [OF Suc.prems(1) assms(2) this] obtain c1 where c1:
    "bind_object (bench_link opts) k c = Ran True c1" "bench_linked opts (Suc k) 0 [] c1"
    "cl_state c1 = (cl_state c)\<lparr>bc_benchmarks := bc_benchmarks (cl_state c1)\<rparr>" by blast
  from Suc.IH [OF c1(2)] Suc.prems(2) obtain c2 where c2:
    "attempt (map (bind_object (bench_link opts)) [Suc k..<Suc k + j]) c1 = Ran True c2"
    "bench_linked opts (Suc k + j) 0 [] c2"
    "cl_state c2 = (cl_state c1)\<lparr>bc_benchmarks := bc_benchmarks (cl_state c2)\<rparr>" by auto
  have "[k..<k + Suc j] = k # [Suc k..<Suc k + j]" by (subst upt_conv_Cons) simp_all
  moreover have "cl_state c2 = (cl_state c)\<lparr>bc_benchmarks := bc_benchmarks (cl_state c2)\<rparr>"
    by (subst c2(3), subst c1(3)) simp
  ultimately show ?case using c1(1) c2 by (intro exI [of _ c2]) simp
qed auto

lemma listen_objects_linked:
  assumes "bench_linked opts k m out c" and "j \<le> k"
  shows "\<exists>c'. attempt (concat (map listen_object [0..<j])) c = Ran True c' \<and> bench_linked opts k m out c' \<and>
    cl_state c' = (cl_state c)\<lparr>bc_listening := bc_listening (cl_state c')\<rparr> \<and>
    {1..j} \<subseteq> set (bc_listening (cl_state c'))"
  using assms(2)
proof (induction j)
  case 0
  with assms(1) show ?case by simp
next
  case (Suc j)
  then obtain c1 where c1: "attempt (concat (map listen_object [0..<j])) c = Ran True c1"
    "bench_linked opts k m out c1" "cl_state c1 = (cl_state c)\<lparr>bc_listening := bc_listening (cl_state c1)\<rparr>"
    "{1..j} \<subseteq> set (bc_listening (cl_state c1))" by auto
  define c2 where "c2 = c1\<lparr>cl_pending := cl_pending c1 @ [Listen (Suc j)], cl_calls := cl_calls c1 @ [Listen (Suc j)],
    cl_state := (cl_state c1)\<lparr>bc_listening := Suc j # bc_listening (cl_state c1)\<rparr>\<rparr>"
  have "bc_benchmarks (cl_state c1) ! j = Some (Suc j)" using linked_object [OF c1(2)] Suc.prems by simp
  then have "attempt (listen_object j) c1 = Ran True c2"
    using c1(2) Suc.prems by (simp add: listen_object_def client_step_defs bench_linked_def c2_def)
  moreover have "bench_linked opts k m out c2" using c1(2) by (simp add: bench_linked_def c2_def)
  moreover have "cl_state c2 = (cl_state c)\<lparr>bc_listening := bc_listening (cl_state c2)\<rparr>"
    by (simp add: c2_def) (subst c1(3), simp)
  moreover have "{1..Suc j} \<subseteq> set (bc_listening (cl_state c2))" using c1(4) by (auto simp: c2_def le_Suc_eq)
  moreover have "attempt (concat (map listen_object [0..<Suc j])) c = Ran True c2"
    using attempt_append_True [OF c1(1), of "listen_object j"] calculation(1) by simp
  ultimately show ?case by blast
qed

text \<open>What the system must answer for the client to succeed.\<close>

definition willing :: "bench_os \<Rightarrow> (nat \<Rightarrow> flush_answer list) \<Rightarrow> bool" where
  "willing os flushes \<longleftrightarrow>
     (\<forall>i. flush_blocking (flushes i) = Some 0) \<and> (\<forall>i. raw_clock_ns (bo_clock os i) \<noteq> None) \<and>
     0 \<le> bo_eventfd os \<and> 0 \<le> bo_flags os (bo_eventfd os) \<and> bo_flags os (bo_eventfd os) AND FD_CLOEXEC \<noteq> 0 \<and>
     bo_malloc os"

definition connect_start :: "bench_os \<Rightarrow> 'p bench_env \<Rightarrow> benchmark_options \<Rightarrow> 'p bench_cstep list" where
  "connect_start os env opts =
     [get_registry env (\<lambda>p s. s\<lparr>bc_registry := p\<rparr>),
      add_listener bc_registry,
      trip env bench_targets (bench_listeners os env),
      require_set bc_benchmark,
      assign (\<lambda>s. s\<lparr>bc_object_count := opt_objects opts\<rparr>)]"

lemma connect_start_run:
  assumes "plain_options opts"
  shows "\<exists>c. attempt (connect_start os (bench_link opts) opts) (start_client (bench_client_init flushes) []) = Ran True c \<and>
    bench_linked opts 1 0 [] c \<and> bc_object_count (cl_state c) = opt_objects opts \<and>
    bc_object_cursor (cl_state c) = 0 \<and> bc_ack (cl_state c) = 0 \<and> \<not> bc_fd_valid (cl_state c) \<and>
    bc_flushes (cl_state c) = flushes"
proof -
  have start: "bench_session opts (Suc 0) [] = Some (bench_start (Suc 0))" by (simp add: bench_session_def)
  then have "linked_session opts 0 0 [] [] []"
    using bench_ready_start [of opts] by (simp add: linked_session_def)
  from linked_bind_session [OF this assms, of 1 1]
  have bound: "linked_session opts (Suc 0) 0 [] [] [(BR_Bind 0 1 1 True, Some 1)]" by simp
  have slots: "replicate (unat max_objects) (None :: proxy option) = None # replicate 63 None"
    using replicate_Suc [of 63 "None :: proxy option"] by (simp add: max_objects_def)
  show ?thesis
    using bound
    by (simp add: connect_start_def client_step_defs start_client_def trip_def await_def bench_link_def
        server_peer_def start bench_globals_def handle_global_def capped_def bench_client_init_def bench_linked_def
        Let_def slots fun_eq_iff)
qed

lemma ping_fd_run:
  assumes "bench_linked opts k 0 [] c" and "willing os flushes"
    and "\<And>i. flush_blocking (bc_flushes (cl_state c) i) = Some 0" and "\<not> bc_fd_valid (cl_state c)"
    and "1 \<in> set (bc_listening (cl_state c))"
  shows "\<exists>c'. attempt
      [request (BC_Ping_Fd 0 (bo_eventfd os)) (\<lambda>s. [bc_benchmark s]), close_fd (\<lambda>s. bo_eventfd os), flush_step,
       dispatch_until (Suc fuel) bc_fd_valid
         (dispatch (bench_link opts) bench_targets (bench_listeners os (bench_link opts)))] c = Ran True c' \<and>
    bench_linked opts k 0 [] c' \<and>
    cl_state c' = (cl_state c)\<lparr>bc_fd_valid := True, bc_flushes := (\<lambda>i. bc_flushes (cl_state c) (Suc i))\<rparr>"
proof -
  let ?fd = "bo_eventfd os" and ?flushes = "\<lambda>i. bc_flushes (cl_state c) (Suc i)"
  let ?qs = "[Request (BC_Ping_Fd 0 (bo_eventfd os)) [1], Close_Fd (bo_eventfd os), Flush] :: bench_call cl_call list"
  define c1 where "c1 = c\<lparr>cl_pending := cl_pending c @ ?qs, cl_calls := cl_calls c @ ?qs,
    cl_state := (cl_state c)\<lparr>bc_flushes := ?flushes\<rparr>\<rparr>"
  have sent: "attempt [request (BC_Ping_Fd 0 ?fd) (\<lambda>s. [bc_benchmark s]), close_fd (\<lambda>s. ?fd), flush_step] c =
      Ran True c1"
    using assms(1,3) by (simp add: client_step_defs bench_linked_def flush_step_def Let_def c1_def)
  have one: "1 \<in> {1..k}" using assms(1) by (simp add: bench_linked_def)
  have "bench_linked opts k 0 [BE_Pong_Fd 1 0 ?fd] c1"
    using assms(1) linked_ping_fd_session [OF _ one, of opts 0 "[]" "cl_peer c"
        "concat (map bench_translate (cl_pending c))" 0 ?fd]
    by (simp add: bench_linked_def c1_def)
  note linked1 = this
  from dispatch_linked [OF this] obtain c2 where
    c2: "c2 = c1\<lparr>cl_pending := [], cl_calls := cl_calls c1 @ [Flush],
      cl_peer := cl_peer c1 @ concat (map bench_translate (cl_pending c1))\<rparr>"
    and run: "dispatch (bench_link opts) bench_targets (bench_listeners os (bench_link opts)) c1 =
      (case deliver_events bench_targets (bench_listeners os (bench_link opts))
              (map Event (concat (map bench_back [BE_Pong_Fd 1 0 ?fd]))) c2 of
         Ran b c' \<Rightarrow> Ran True c' | r \<Rightarrow> r)"
    and linked2: "linked_session opts k 0 [] (cl_peer c2) []"
    by blast
  define c3 where "c3 = c2\<lparr>cl_pending := [Close_Fd ?fd], cl_calls := cl_calls c2 @ [Close_Fd ?fd],
    cl_state := (cl_state c2)\<lparr>bc_fd_valid := True\<rparr>\<rparr>"
  have "cl_live c2 1 \<noteq> None" using assms(1) by (simp add: c2 c1_def bench_linked_def)
  then have "dispatch (bench_link opts) bench_targets (bench_listeners os (bench_link opts)) c1 = Ran True c3"
    using run assms(2,5)
    by (auto simp: usable_def when_state_def handle_pong_fd_def assign_def close_fd_def log_call_def willing_def
        c3_def c2 c1_def Let_def)
  then have "dispatch_until (Suc fuel) bc_fd_valid
      (dispatch (bench_link opts) bench_targets (bench_listeners os (bench_link opts))) c1 = Ran True c3"
    using assms(4) by (simp add: dispatch_until.simps c1_def c3_def)
  with sent have "attempt ([request (BC_Ping_Fd 0 ?fd) (\<lambda>s. [bc_benchmark s]), close_fd (\<lambda>s. ?fd), flush_step] @
      [dispatch_until (Suc fuel) bc_fd_valid
        (dispatch (bench_link opts) bench_targets (bench_listeners os (bench_link opts)))]) c = Ran True c3"
    by (simp only: attempt_append_True attempt.simps run.case bool.case)
  moreover have "bench_linked opts k 0 [] c3"
    using linked1 linked2 by (simp add: bench_linked_def c3_def c2)
  ultimately show ?thesis by (intro exI [of _ c3]) (simp add: c3_def c2 c1_def)
qed

text \<open>The objects are bound and listened to; nothing has been sent yet.\<close>

lemma connect_client_run:
  assumes "plain_options opts" and "\<forall>i. flush_blocking (flushes i) = Some 0"
    and "unat (opt_objects opts) \<in> {1..64}"
  shows "\<exists>c. attempt (connect_client os (bench_link opts) opts) (start_client (bench_client_init flushes) []) =
      Ran True c \<and>
    bench_going opts (unat (opt_objects opts)) 0 0 q 0 c \<and> \<not> bc_fd_valid (cl_state c)"
proof -
  define k where "k = unat (opt_objects opts)"
  have k: "1 \<le> k" "k \<le> 64" "opt_objects opts = of_nat k" using assms(3) by (simp_all add: k_def)
  let ?env = "bench_link opts"
  from connect_start_run [OF assms(1)] obtain c1 where c1:
    "attempt (connect_start os ?env opts) (start_client (bench_client_init flushes) []) = Ran True c1"
    "bench_linked opts 1 0 [] c1" "bc_object_count (cl_state c1) = of_nat k" "bc_object_cursor (cl_state c1) = 0"
    "bc_ack (cl_state c1) = 0" "\<not> bc_fd_valid (cl_state c1)" "bc_flushes (cl_state c1) = flushes"
    using k(3) by metis
  have "1 + (k - 1) = k" using k(1) by simp
  with bind_objects_linked [OF c1(2) assms(1), of "k - 1"] k(2) obtain c2 where c2:
    "attempt (map (bind_object ?env) [1..<k]) c1 = Ran True c2" "bench_linked opts k 0 [] c2"
    "cl_state c2 = (cl_state c1)\<lparr>bc_benchmarks := bc_benchmarks (cl_state c2)\<rparr>" by auto
  from listen_objects_linked [OF c2(2) order_refl] obtain c3 where c3:
    "attempt (concat (map listen_object [0..<k])) c2 = Ran True c3" "bench_linked opts k 0 [] c3"
    "cl_state c3 = (cl_state c2)\<lparr>bc_listening := bc_listening (cl_state c3)\<rparr>"
    "{1..k} \<subseteq> set (bc_listening (cl_state c3))" by blast
  have same: "bc_object_count (cl_state c3) = of_nat k" "bc_object_cursor (cl_state c3) = 0"
    "bc_ack (cl_state c3) = 0" "\<not> bc_fd_valid (cl_state c3)" "bc_flushes (cl_state c3) = flushes"
    by (subst c3(3), subst c2(3), simp add: c1)+
  have "bench_going opts k 0 0 q 0 c3"
    using c3(2,4) same k(1) assms(2) by (auto simp: bench_going_def)
  from flush_step_going [OF this] obtain c4 where c4: "flush_step c3 = Ran True c4" "bench_going opts k 0 0 q 0 c4"
    by blast
  have "cl_state c4 = (cl_state c3)\<lparr>bc_flushes := (\<lambda>i. flushes (Suc i))\<rparr>"
    using c4(1) same(5) by (auto simp: flush_step_def log_call_def Let_def split: option.splits)
  with same have "\<not> bc_fd_valid (cl_state c4)" by simp
  moreover have flush: "attempt [flush_step] c3 = Ran True c4" using c4(1) by simp
  have "connect_client os ?env opts =
      connect_start os ?env opts @ map (bind_object ?env) [1..<k] @ concat (map listen_object [0..<k]) @ [flush_step]"
    by (simp add: connect_client_def connect_start_def k_def)
  then have "attempt (connect_client os ?env opts) (start_client (bench_client_init flushes) []) = Ran True c4"
    by (simp only: attempt_append_True [OF c1(1)] attempt_append_True [OF c2(1)] attempt_append_True [OF c3(1)] flush)
  ultimately show ?thesis using c4(2) by (auto simp: k_def)
qed

lemma bench_setup_run:
  assumes "plain_options opts" and "willing os flushes" and "unat (opt_objects opts) \<in> {1..64}"
  shows "\<exists>c. attempt (bench_client_setup (Suc fuel) os (bench_link opts) opts)
      (start_client (bench_client_init flushes) []) = Ran True c \<and>
    bench_going opts (unat (opt_objects opts)) 0 0 q 0 c"
proof -
  let ?k = "unat (opt_objects opts)" and ?env = "bench_link opts"
  have "\<forall>i. flush_blocking (flushes i) = Some 0" using assms(2) by (simp add: willing_def)
  from connect_client_run [OF assms(1) this assms(3), of os q] obtain c4 where c4:
    "attempt (connect_client os ?env opts) (start_client (bench_client_init flushes) []) = Ran True c4"
    "bench_going opts ?k 0 0 q 0 c4" "\<not> bc_fd_valid (cl_state c4)" by blast
  from c4(2) have g4: "bench_linked opts ?k 0 [] c4" "\<And>i. flush_blocking (bc_flushes (cl_state c4) i) = Some 0"
    "1 \<in> set (bc_listening (cl_state c4))"
    using assms(3) by (auto simp: bench_going_def)
  from ping_fd_run [OF g4(1) assms(2) g4(2) c4(3) g4(3), of fuel] obtain c5 where c5:
    "attempt [request (BC_Ping_Fd 0 (bo_eventfd os)) (\<lambda>s. [bc_benchmark s]), close_fd (\<lambda>s. bo_eventfd os),
       flush_step, dispatch_until (Suc fuel) bc_fd_valid
         (dispatch ?env bench_targets (bench_listeners os ?env))] c4 = Ran True c5"
    "bench_linked opts ?k 0 [] c5"
    "cl_state c5 = (cl_state c4)\<lparr>bc_fd_valid := True, bc_flushes := (\<lambda>i. bc_flushes (cl_state c4) (Suc i))\<rparr>"
    by (elim exE conjE) (rule that)
  have "bench_going opts ?k 0 0 q 0 c5"
    using c4(2) c5(2,3) by (auto simp: bench_going_def)
  moreover have "bench_client_setup (Suc fuel) os ?env opts = connect_client os ?env opts @
      [request (BC_Ping_Fd 0 (bo_eventfd os)) (\<lambda>s. [bc_benchmark s]), close_fd (\<lambda>s. bo_eventfd os),
       flush_step, dispatch_until (Suc fuel) bc_fd_valid
         (dispatch ?env bench_targets (bench_listeners os ?env))]"
    using assms(2) by (simp add: bench_client_setup_def willing_def)
  then have "attempt (bench_client_setup (Suc fuel) os ?env opts) (start_client (bench_client_init flushes) []) =
      Ran True c5"
    by (simp only: attempt_append_True [OF c4(1)] c5(1))
  ultimately show ?thesis by blast
qed

lemma destroy_loop:
  assumes "\<And>i. i < j \<Longrightarrow> bc_benchmarks (cl_state c) ! i = Some (Suc i)"
    and "cl_live c = (\<lambda>p. if p = 0 then Some ''wl_registry'' else if p \<le> j then Some bench_interface else None)"
  shows "\<exists>c'. attempt (concat (map destroy_object (rev [0..<j]))) c = Ran True c' \<and>
    cl_live c' = [0 \<mapsto> ''wl_registry''] \<and> bc_registry (cl_state c') = bc_registry (cl_state c) \<and>
    cl_peer c' = cl_peer c \<and>
    concat (map bench_translate (cl_pending c')) = concat (map bench_translate (cl_pending c))"
  using assms
proof (induction j arbitrary: c)
  case 0
  then show ?case by (auto simp: fun_eq_iff)
next
  case (Suc j)
  let ?q = "Destroy_Proxy None (Suc j) :: bench_call cl_call"
  define c1 where "c1 = c\<lparr>cl_live := (cl_live c)(Suc j := None), cl_pending := cl_pending c @ [?q],
    cl_calls := cl_calls c @ [?q], cl_state := (cl_state c)\<lparr>bc_object_count := of_nat j\<rparr>\<rparr>"
  have step: "attempt (destroy_object j) c = Ran True c1"
    using Suc.prems by (simp add: destroy_object_def client_step_defs c1_def)
  have "cl_live c1 = (\<lambda>p. if p = 0 then Some ''wl_registry'' else if p \<le> j then Some bench_interface else None)"
    using Suc.prems(2) by (auto simp: c1_def fun_eq_iff)
  moreover have "bc_benchmarks (cl_state c1) ! i = Some (Suc i)" if "i < j" for i
    using Suc.prems(1) that by (simp add: c1_def)
  ultimately obtain c2 where "attempt (concat (map destroy_object (rev [0..<j]))) c1 = Ran True c2"
    "cl_live c2 = [0 \<mapsto> ''wl_registry'']" "bc_registry (cl_state c2) = bc_registry (cl_state c1)"
    "cl_peer c2 = cl_peer c1"
    "concat (map bench_translate (cl_pending c2)) = concat (map bench_translate (cl_pending c1))"
    using Suc.IH [of c1] by blast
  with attempt_append_True [OF step] show ?case by (intro exI [of _ c2]) (simp add: c1_def)
qed

text \<open>The cleanup, with the registry destroyed by \<open>last\<close>.\<close>

lemma cleanup_run:
  assumes "bench_linked opts k m out c" and "bc_object_count (cl_state c) = of_nat k"
    and "last_step = destroy_if None bc_registry \<or> last_step = destroy_proxy None bc_registry"
  shows "\<exists>c'. attempt [destroy_objects, last_step, plain Disconnect] c = Ran True c' \<and> cl_live c' = Map.empty \<and>
    cl_peer c' = cl_peer c \<and>
    concat (map bench_translate (cl_pending c')) = concat (map bench_translate (cl_pending c))"
proof -
  have k: "unat (bc_object_count (cl_state c)) = k"
    using assms(1,2) by (simp add: bench_linked_def unat_of_nat)
  have "cl_live c = (\<lambda>p. if p = 0 then Some ''wl_registry'' else if p \<le> k then Some bench_interface else None)"
    using assms(1) by (simp add: bench_linked_def)
  from destroy_loop [OF linked_object [OF assms(1)] this] obtain c1 where
    c1: "attempt (concat (map destroy_object (rev [0..<k]))) c = Ran True c1" "cl_live c1 = [0 \<mapsto> ''wl_registry'']"
    "bc_registry (cl_state c1) = bc_registry (cl_state c)" "cl_peer c1 = cl_peer c"
    "concat (map bench_translate (cl_pending c1)) = concat (map bench_translate (cl_pending c))" by blast
  have "bc_registry (cl_state c1) = Some 0" using c1(3) assms(1) by (simp add: bench_linked_def)
  with c1(1,2,4,5) k assms(3) show ?thesis
    by (auto simp: destroy_objects_def client_step_defs)
qed

lemma bench_finish_run:
  assumes "bench_linked opts k m out c" and "bc_object_count (cl_state c) = of_nat k"
  shows "\<exists>c'. bench_finish status result c = BX_Exit status (Some result) c' \<and> cl_live c' = Map.empty \<and>
    cl_peer c' = cl_peer c \<and>
    concat (map bench_translate (cl_pending c')) = concat (map bench_translate (cl_pending c))"
proof -
  from cleanup_run [OF assms disjI1 [OF refl]] obtain c' where
    "attempt bench_client_cleanup c = Ran True c'" "cl_live c' = Map.empty" "cl_peer c' = cl_peer c"
    "concat (map bench_translate (cl_pending c')) = concat (map bench_translate (cl_pending c))"
    unfolding bench_client_cleanup_def by blast
  then show ?thesis by (simp add: bench_finish_def)
qed

lemma bench_server_finishes:
  assumes "linked_session opts k (last_ping opts) out before now" and "plain_options opts" and "1 \<le> k"
  shows "exits_with EXIT_SUCCESS (benchmark_server demo_env opts (before @ now @ [(BR_Client_Destroyed 0, None)]))"
proof -
  from assms(1) obtain ss where ss: "bench_session opts 1 (before @ now) = Some ss" "bench_ready opts k (last_ping opts) ss"
    unfolding linked_session_def by blast
  obtain ss' where ss': "bench_session opts 1 ((before @ now) @ [(BR_Client_Destroyed 0, None)]) = Some ss'"
    using bench_session_exists by blast
  have final: "(of_nat (last_ping opts) :: u64) = opt_warmup opts + opt_messages opts"
    by (simp add: final_ack_value [OF assms(2), symmetric])
  have "deliver (bench_handle opts) bench_args bench_uses (BR_Client_Destroyed 0, None) ss = Some ss'"
    using ss' ss(1) unfolding bench_session_snoc by simp
  then have "terminated ss' \<and> bench_status opts 1 (ss_state ss')"
    using ss(2) assms(3) final
    by (auto simp: deliver_def deliverable_def bench_ready_def bench_client_gone_def bench_client_destroy_def
        terminated_def bench_status_def connection_of_def Let_def split: option.splits)
  with ss' show ?thesis
    by (simp add: benchmark_server_def benchmark_server_multi_def server_program_success demo_env_def env_ok_def)
qed

lemma phases_answered:
  assumes "plain_options opts" and "\<not> opt_latency opts"
  shows "answered opts 0 (unat (opt_warmup opts)) = 1"
    and "answered opts (unat (opt_warmup opts)) (unat (opt_messages opts)) = 1"
proof -
  have first: "j \<noteq> last_ping opts" if "j \<le> unat (opt_warmup opts)" for j
    using that assms(1) by (simp add: plain_options_def last_ping_def)
  have "[Suc 0..<Suc (unat (opt_warmup opts))] = [Suc 0..<unat (opt_warmup opts)] @ [unat (opt_warmup opts)]"
    using assms(1) by (simp add: plain_options_def)
  with assms(2) first show "answered opts 0 (unat (opt_warmup opts)) = 1"
    by (simp add: answered_def)
  have "[Suc (unat (opt_warmup opts))..<Suc (last_ping opts)] =
      [Suc (unat (opt_warmup opts))..<last_ping opts] @ [last_ping opts]"
    using assms(1) by (simp add: plain_options_def last_ping_def)
  with assms(2) show "answered opts (unat (opt_warmup opts)) (unat (opt_messages opts)) = 1"
    by (simp add: answered_def last_ping_def)
qed

text \<open>The two modes, from a client that is set up.\<close>

definition bench_success :: "benchmark_options \<Rightarrow> bench_request input list bench_cl bench_exit \<Rightarrow> bool" where
  "bench_success opts r \<longleftrightarrow>
     (\<exists>result c. r = BX_Exit EXIT_SUCCESS (Some result) c \<and> cl_live c = Map.empty \<and>
        res_messages result = opt_messages opts \<and>
        exits_with EXIT_SUCCESS (benchmark_server demo_env opts
          (cl_peer c @ concat (map bench_translate (cl_pending c)) @ [(BR_Client_Destroyed 0, None)])))"

lemma bench_finish_success:
  assumes "bench_going opts k (last_ping opts) a q 0 c" and "plain_options opts"
    and "res_messages result = opt_messages opts"
  shows "bench_success opts (bench_finish EXIT_SUCCESS result c)"
proof -
  from assms(1) have c: "bench_linked opts k (last_ping opts) [] c" "bc_object_count (cl_state c) = of_nat k"
    unfolding bench_going_def by auto
  from bench_finish_run [OF c] obtain c' where c':
    "bench_finish EXIT_SUCCESS result c = BX_Exit EXIT_SUCCESS (Some result) c'" "cl_live c' = Map.empty"
    "cl_peer c' = cl_peer c"
    "concat (map bench_translate (cl_pending c')) = concat (map bench_translate (cl_pending c))" by blast
  have "linked_session opts k (last_ping opts) [] (cl_peer c) (concat (map bench_translate (cl_pending c)))" "1 \<le> k"
    using c(1) by (simp_all add: bench_linked_def)
  from bench_server_finishes [OF this(1) assms(2) this(2)] c' assms(3) show ?thesis
    unfolding bench_success_def by (intro exI [of _ result] exI [of _ c']) simp
qed

lemma run_phases_success:
  assumes "bench_going opts k 0 0 1 0 c" and "plain_options opts" and "\<not> opt_latency opts"
    and "0 < unat (opt_batch opts)" and "willing os flushes"
  shows "bench_success opts (run_phases (Suc fuel) os (bench_link opts) opts c)"
proof -
  let ?w = "unat (opt_warmup opts)" and ?n = "unat (opt_messages opts)"
  have first: "0 + ?w \<le> last_ping opts" "0 < answered opts 0 ?w"
    using phases_answered(1) [OF assms(2,3)] by (simp_all add: last_ping_def)
  have second: "?w + ?n \<le> last_ping opts" "0 < answered opts ?w ?n"
    using phases_answered(2) [OF assms(2,3)] by (simp_all add: last_ping_def)
  have one: "list_all (bench_going opts k m a q n) [c] \<longleftrightarrow> bench_going opts k m a q n c" for m a q n c by simp
  from send_phase_going [OF one [THEN iffD2, OF assms(1)] assms(2) first(1) assms(4) first(2), of fuel os 2] obtain c1
    where c1: "send_phase (Suc fuel) os (bench_link opts) (opt_warmup opts) (opt_batch opts) 1 [c] = All_Ran True [c1]"
    "bench_going opts k ?w 1 2 0 c1" by (auto simp: length_Suc_conv)
  from send_phase_going [OF one [THEN iffD2, OF c1(2)] assms(2) second(1) assms(4) second(2), of fuel os 0] obtain c2
    where c2: "send_phase (Suc fuel) os (bench_link opts) (opt_messages opts) (opt_batch opts) 2 [c1] = All_Ran True [c2]"
    "bench_going opts k (last_ping opts) 2 0 0 c2" by (auto simp: last_ping_def length_Suc_conv)
  from assms(5) obtain t0 t1 where "raw_clock_ns (bo_clock os 0) = Some t0" "raw_clock_ns (bo_clock os 1) = Some t1"
    unfolding willing_def by blast
  with c1(1) c2(1) bench_finish_success [OF c2(2) assms(2)] show ?thesis
    by (simp add: run_phases_def bench_continue_def)
qed

lemma latency_result_total:
  assumes "length samples = unat messages" and "0 < unat messages" and "unat messages < 2 ^ 57"
  shows "\<exists>r. latency_result mean (sort samples) messages result = Some r"
proof -
  have found: "\<exists>v. percentile (sort samples) messages p = Some v" if "0 < unat p" "unat p \<le> 100" for p
  proof -
    have "unat messages * unat p \<le> unat messages * 100" using that(2) by simp
    moreover have "unat messages * 100 + 99 < 2 ^ 64" using assms(3) by simp
    ultimately have "unat messages * unat p + 99 < 2 ^ 64" by linarith
    then show ?thesis using percentile_sorted [of "sort samples" messages p] assms(1,2) that by auto
  qed
  obtain v50 v95 v99 where "percentile (sort samples) messages 50 = Some v50"
    "percentile (sort samples) messages 95 = Some v95" "percentile (sort samples) messages 99 = Some v99"
    using found [of 50] found [of 95] found [of 99] by auto
  moreover have "unat (messages - 1) < length (sort samples)"
    using assms(1,2) by (auto simp: unat_minus_one unat_gt_0)
  ultimately show ?thesis by (simp add: latency_result_def)
qed

lemma run_rounds_success:
  assumes "bench_going opts k 0 0 1 0 c" and "plain_options opts" and "opt_latency opts"
    and "unat (opt_messages opts) < 2 ^ 57" and "willing os flushes"
  shows "bench_success opts (run_rounds (Suc fuel) os (bench_link opts) opts c)"
proof -
  have "list_all (bench_rounds opts k 0) [c]" using assms(1) by (simp add: bench_rounds_def)
  moreover have "bo_malloc os" "\<And>i. raw_clock_ns (bo_clock os i) \<noteq> None" using assms(5) by (auto simp: willing_def)
  moreover have "unat (opt_messages opts) < 2 ^ 61" using assms(4) by simp
  ultimately obtain c1 samples where run:
    "run_latency (Suc fuel) os (bench_link opts) opts [c] = Some (All_Ran True [c1], sort samples)"
    "bench_rounds opts k (last_ping opts) c1" "length samples = unat (opt_messages opts)"
    using run_latency_going [OF _ assms(2,3), of k "[c]" os fuel] by (auto simp: length_Suc_conv)
  have "0 < unat (opt_messages opts)" using assms(2) by (simp add: plain_options_def)
  from latency_result_total [OF run(3) this assms(4)] obtain r where
    "latency_result (bo_mean os (sort samples)) (sort samples) (opt_messages opts) no_result = Some r" by blast
  moreover have "bench_success opts (bench_finish EXIT_SUCCESS (r\<lparr>res_messages := opt_messages opts\<rparr>) c1)"
    by (rule bench_finish_success [OF run(2) [unfolded bench_rounds_def] assms(2)]) simp
  ultimately show ?thesis using run(1) by (simp add: run_rounds_def bench_continue_def)
qed

section \<open>Properties\<close>

text \<open>C35: The benchmark client and the benchmark server succeed together, for all counts, batch sizes, numbers
  of objects up to 64 and both modes, when the flushes of the client go through in the end, the clock and
  the allocation work and the descriptor comes back close-on-exec: the client exits with success, reports
  the messages it was asked for and leaves no object behind; the server, once the client is gone, exits
  with success too. One dispatch for each wait is enough.\<close>

theorem bench_client_and_server_succeed:
  assumes "plain_options opts" and "0 < unat (opt_batch opts)" and "unat (opt_objects opts) \<in> {1..64}"
    and "opt_latency opts = False \<or> unat (opt_messages opts) < 2 ^ 57" and "willing os flushes"
  shows "\<exists>result c. benchmark_client_fd (Suc fuel) os (bench_link opts) flushes (Some opts) True [] =
      BX_Exit EXIT_SUCCESS (Some result) c \<and>
    cl_live c = Map.empty \<and> res_messages result = opt_messages opts \<and>
    exits_with EXIT_SUCCESS (benchmark_server demo_env opts
      (cl_peer c @ concat (map bench_translate (cl_pending c)) @ [(BR_Client_Destroyed 0, None)]))"
proof -
  let ?k = "unat (opt_objects opts)"
  from bench_setup_run [OF assms(1,5,3), of fuel 1] obtain c where
    connected: "attempt (bench_client_setup (Suc fuel) os (bench_link opts) opts)
      (start_client (bench_client_init flushes) []) = Ran True c" and going: "bench_going opts ?k 0 0 1 0 c"
    by blast
  have "opt_warmup opts \<noteq> 0" "opt_messages opts \<noteq> 0" "opt_batch opts \<noteq> 0" "opt_objects opts \<noteq> 0"
    using assms(1-3) by (auto simp: plain_options_def)
  moreover have "\<not> opt_objects opts > max_objects"
    using assms(3) by (simp add: max_objects_def word_less_nat_alt)
  moreover have "ce_display (bench_link opts)" by (simp add: bench_link_def)
  ultimately have "benchmark_client_fd (Suc fuel) os (bench_link opts) flushes (Some opts) True [] =
      (if opt_latency opts then run_rounds (Suc fuel) os (bench_link opts) opts c
       else run_phases (Suc fuel) os (bench_link opts) opts c)"
    using connected by (simp add: benchmark_client_fd_def Let_def)
  moreover have "bench_success opts (if opt_latency opts then run_rounds (Suc fuel) os (bench_link opts) opts c
       else run_phases (Suc fuel) os (bench_link opts) opts c)"
    using run_rounds_success [OF going assms(1) _ _ assms(5)] run_phases_success [OF going assms(1) _ assms(2,5)]
      assms(4) by auto
  ultimately show ?thesis by (simp add: bench_success_def)
qed

definition tiny_os :: bench_os where
  "tiny_os = \<lparr>bo_clock = (\<lambda>k. Some (1, of_nat k)), bo_eventfd = 5, bo_flags = (\<lambda>fd. FD_CLOEXEC),
     bo_malloc = True, bo_mean = (\<lambda>samples. 0)\<rparr>"

theorem bench_client_and_server_succeed_witness:
  "\<exists>result c. benchmark_client_fd 1 tiny_os (bench_link (tiny_options\<lparr>opt_objects := 3\<rparr>))
      (\<lambda>i. [Flush_Again True, Flushed]) (Some (tiny_options\<lparr>opt_objects := 3\<rparr>)) True [] =
      BX_Exit EXIT_SUCCESS (Some result) c \<and> cl_live c = Map.empty \<and> res_messages result = 1"
proof -
  have "plain_options (tiny_options\<lparr>opt_objects := 3\<rparr>)" "willing tiny_os (\<lambda>i. [Flush_Again True, Flushed])"
    by (simp_all add: plain_options_def last_ping_def tiny_options_def default_options_def willing_def tiny_os_def
        raw_clock_ns_def FD_CLOEXEC_def)
  from bench_client_and_server_succeed [OF this(1) _ _ _ this(2), of 0] show ?thesis
    by (auto simp: tiny_options_def default_options_def)
qed

text \<open>When the second object cannot be made, the cleanup destroys a NULL pointer.\<close>

lemma bench_client_null_destroy:
  "benchmark_client_fd 1 tiny_os ((bench_link (tiny_options\<lparr>opt_objects := 2\<rparr>))\<lparr>ce_created := (\<lambda>k. k < 2)\<rparr>)
     (\<lambda>i. [Flushed]) (Some (tiny_options\<lparr>opt_objects := 2\<rparr>)) True [] = BX_Crashed"
proof -
  have start: "bench_session opts (Suc 0) [] = Some (bench_start (Suc 0))" for opts
    by (simp add: bench_session_def)
  have slots: "replicate (unat max_objects) (None :: proxy option) = None # None # replicate 62 None"
    using replicate_Suc [of 63 "None :: proxy option"] replicate_Suc [of 62 "None :: proxy option"]
    by (simp add: max_objects_def)
  have two: "[0..<2] = [0, Suc 0]" "[Suc 0..<2] = [Suc 0]" by (simp_all add: numeral_2_eq_2)
  have few: "\<not> (2 :: u32) > max_objects" by (simp add: max_objects_def)
  show ?thesis
    by (simp add: slots few benchmark_client_fd_def bench_client_setup_def connect_client_def client_step_defs start_client_def
        trip_def await_def bench_link_def server_peer_def start bench_globals_def handle_global_def capped_def
        bench_client_init_def bind_object_def listen_object_def flush_step_def bench_finish_def
        bench_client_cleanup_def destroy_objects_def destroy_object_def tiny_options_def default_options_def
        tiny_os_def Let_def two)
qed

end
