(* ===== verification/Raw_Peer.thy ===== *)
theory Raw_Peer
  imports Wire Bench_Client
begin

text \<open>
  The modes \<open>client-tx\<close> and \<open>client-rx\<close> of \<open>src/bench/libwayland-client.c\<close>, in which the libwayland client
  faces a child process that reads or writes the bytes of the protocol without a library. The client's
  side of the stream is in the wire format of theory \<open>Wire\<close>; as in theory \<open>Raw_Benchmark\<close> each process is
  a function of what it has received so far.
\<close>

section \<open>The bytes of the protocol\<close>

text \<open>Object 1 is the display, 2 the registry and 3 the benchmark object; strings are padded with zeros.\<close>

definition wire_string :: "endian \<Rightarrow> string \<Rightarrow> u8 list" where
  "wire_string en s =
     encode_string en (map (\<lambda>ch. of_nat (of_char ch)) s) (replicate (pad_len (Suc (length s))) 0)"

definition get_registry_message :: "endian \<Rightarrow> u8 list" where
  "get_registry_message en = frame en 1 1 (writeU32 en 2)"

definition bind_message :: "endian \<Rightarrow> u8 list" where
  "bind_message en =
     frame en 2 0 (writeU32 en 1 @ wire_string en bench_interface @ writeU32 en 1 @ writeU32 en 3)"

text \<open>A ping of the client, and a pong of the server.\<close>

definition ping_message :: "endian \<Rightarrow> u32 \<Rightarrow> u8 list" where
  "ping_message en sequence = frame en 3 0 (writeU32 en sequence)"

definition setup_bytes :: nat where
  "setup_bytes = 60"

section \<open>The child's transfers\<close>

text \<open>Status, what was written, what is left of the stream and of the kernel's answers.\<close>

type_synonym raw_transfer = "(int \<times> u8 list \<times> u8 list \<times> cut list) option"

definition raw_drain_phase :: "cut list \<Rightarrow> bool \<Rightarrow> nat \<Rightarrow> u8 \<Rightarrow> u8 list \<Rightarrow> raw_transfer" where
  "raw_drain_phase cs hup bytes acknowledgement inp =
     (case read_loop read_exact cs hup 65536 bytes inp of
        None \<Rightarrow> None
      | Some (st, got, inp', cs') \<Rightarrow>
          if st < 0 then Some (-1, [], inp', cs')
          else map_option (\<lambda>(st, out, cs''). (st, out, inp', cs'')) (write_exact cs' [acknowledgement]))"

definition raw_write_phase ::
    "endian \<Rightarrow> bool \<Rightarrow> cut list \<Rightarrow> u64 \<Rightarrow> u32 \<Rightarrow> u32 \<Rightarrow> u8 list \<Rightarrow> raw_transfer" where
  "raw_write_phase en allocated cs phase_count batch sequence inp =
     (if \<not> allocated then Some (-1, [], inp, cs)
      else map_option (\<lambda>(st, out, cs'). (st, out, inp, cs'))
             (write_loop write_exact (concat (map (writeU32 en) [3, push_bit 16 12, sequence])) cs
                (unat phase_count) (unat batch)))"

definition read_acknowledgement :: "cut list \<Rightarrow> bool \<Rightarrow> u8 \<Rightarrow> u8 list \<Rightarrow> raw_transfer" where
  "read_acknowledgement cs hup expected inp =
     map_option (\<lambda>(st, got, inp', cs'). (if st < 0 \<or> got \<noteq> [expected] then -1 else 0, [], inp', cs'))
       (read_exact cs hup 1 inp)"

text \<open>
  The condition \<open>a < 0 || b < 0 || ...\<close> of a child: the first transfer that fails ends it. The result is the
  exit status, \<open>None\<close> while the child waits, and what it has written.
\<close>

fun child_steps ::
    "(cut list \<Rightarrow> u8 list \<Rightarrow> raw_transfer) list \<Rightarrow> cut list \<Rightarrow> u8 list \<Rightarrow> int option \<times> u8 list" where
  "child_steps [] cs inp = (Some EXIT_SUCCESS, [])"
| "child_steps (step # steps) cs inp =
     (case step cs inp of
        None \<Rightarrow> (None, [])
      | Some (st, out, inp', cs') \<Rightarrow>
          if st < 0 then (Some EXIT_FAILURE, out)
          else (case child_steps steps cs' inp' of (status, rest) \<Rightarrow> (status, out @ rest)))"

definition transmit_child :: "benchmark_options \<Rightarrow> cut list \<Rightarrow> bool \<Rightarrow> u8 list \<Rightarrow> int option \<times> u8 list" where
  "transmit_child options cs hup inp =
     child_steps
       [\<lambda>cs. raw_drain_phase cs hup setup_bytes 0,
        \<lambda>cs. raw_drain_phase cs hup (unat (opt_warmup options * 12)) 1,
        \<lambda>cs. raw_drain_phase cs hup (unat (opt_messages options * 12)) 2] cs inp"

definition receive_child ::
    "endian \<Rightarrow> (nat \<Rightarrow> bool) \<Rightarrow> benchmark_options \<Rightarrow> cut list \<Rightarrow> bool \<Rightarrow> u8 list \<Rightarrow> int option \<times> u8 list" where
  "receive_child en malloc options cs hup inp =
     child_steps
       [\<lambda>cs. raw_drain_phase cs hup setup_bytes 0,
        \<lambda>cs. raw_write_phase en (malloc 0) cs (opt_warmup options) (opt_batch options) 1,
        \<lambda>cs. read_acknowledgement cs hup 1,
        \<lambda>cs. raw_write_phase en (malloc 1) cs (opt_messages options) (opt_batch options) 2,
        \<lambda>cs. read_acknowledgement cs hup 2] cs inp"

section \<open>The client\<close>

text \<open>
  The bytes the library has queued and the answers to its flushes, the events it has buffered but not
  completed, and the fields of \<open>struct client_state\<close> these modes use.
\<close>

record peer_client =
  pc_link :: raw_link
  pc_queued :: "u8 list"
  pc_flushes :: "nat \<Rightarrow> flush_answer list"
  pc_buffer :: "u8 list"
  pc_received :: u64
  pc_ack :: u32

text \<open>A statement of the client: \<open>None\<close> waits for ever, otherwise whether it succeeded.\<close>

type_synonym peer_step = "peer_client \<Rightarrow> (bool \<times> peer_client) option"

fun all_steps :: "peer_step list \<Rightarrow> peer_step" where
  "all_steps [] c = Some (True, c)"
| "all_steps (step # steps) c =
     (case step c of
        None \<Rightarrow> None
      | Some (ok, c') \<Rightarrow> if ok then all_steps steps c' else Some (False, c'))"

definition queue_bytes :: "u8 list \<Rightarrow> peer_step" where
  "queue_bytes bs c = Some (True, c\<lparr>pc_queued := pc_queued c @ bs\<rparr>)"

definition peer_flush :: peer_step where
  "peer_flush c =
     (let flushes = pc_flushes c; c' = c\<lparr>pc_flushes := (\<lambda>k. flushes (Suc k))\<rparr>
      in case flush_blocking (flushes 0) of
           None \<Rightarrow> None
         | Some st \<Rightarrow>
             if st < 0 then Some (False, c')
             else Some (True, c'\<lparr>pc_link := (pc_link c)\<lparr>rl_sent := rl_sent (pc_link c) @ pc_queued c\<rparr>,
                                 pc_queued := []\<rparr>))"

definition wait_for_raw_drain :: "raw_peer \<Rightarrow> u8 \<Rightarrow> peer_step" where
  "wait_for_raw_drain peer acknowledgement c =
     (let link = pc_link c in
      case peer (rl_sent link) of
        (reply, ended) \<Rightarrow>
          map_option (\<lambda>(st, got, rest, cs).
              (st = 0 \<and> got = [acknowledgement],
               c\<lparr>pc_link := link\<lparr>rl_consumed := rl_consumed link + length got, rl_cuts := cs\<rparr>\<rparr>))
            (read_exact (rl_cuts link) ended 1 (drop (rl_consumed link) reply)))"

function transmit_loop :: "endian \<Rightarrow> nat \<Rightarrow> nat \<Rightarrow> u32 \<Rightarrow> peer_step" where
  "transmit_loop en todo batch sequence c =
     (if todo = 0 then Some (True, c)
      else if batch = 0 then None
      else let chunk = (if todo < batch then todo else batch)
           in case all_steps [queue_bytes (concat (replicate chunk (ping_message en sequence))), peer_flush] c of
                None \<Rightarrow> None
              | Some (ok, c') \<Rightarrow>
                  if ok then transmit_loop en (todo - chunk) batch sequence c' else Some (False, c'))"
  by pat_completeness auto
termination by (relation "measure (\<lambda>(en, todo, batch, sequence, c). todo)") auto

declare transmit_loop.simps [simp del]

definition transmit_phase :: "endian \<Rightarrow> u64 \<Rightarrow> u32 \<Rightarrow> u32 \<Rightarrow> peer_step" where
  "transmit_phase en phase_count batch sequence = transmit_loop en (unat phase_count) (unat batch) sequence"

text \<open>
  One \<open>wl_display_dispatch\<close>: the library reads what the kernel gives it and runs the listener of every
  complete message; anything but a pong of the benchmark object is an error.
\<close>

definition pong_of :: "endian \<Rightarrow> message \<Rightarrow> u32 option" where
  "pong_of en m =
     (if object_id (msg_header m) = 3 \<and> opcode (msg_header m) = 0
      then (case args_uint en (message_arguments m) of
              (Inr sequence, rest) \<Rightarrow> if remaining rest = 0 then Some sequence else None
            | _ \<Rightarrow> None)
      else None)"

function pongs_in :: "endian \<Rightarrow> u8 list \<Rightarrow> bool \<times> u32 list \<times> u8 list" where
  "pongs_in en bs =
     (case message_decode en bs of
        Inl e \<Rightarrow> (False, [], bs)
      | Inr None \<Rightarrow> (True, [], bs)
      | Inr (Some m) \<Rightarrow>
          (case pong_of en m of
             None \<Rightarrow> (False, [], bs)
           | Some sequence \<Rightarrow>
               (case pongs_in en (drop (unat (msg_size (msg_header m))) bs) of
                  (ok, qs, rest) \<Rightarrow> (ok, sequence # qs, rest))))"
  by pat_completeness auto
termination
proof (relation "measure (\<lambda>(en, bs). length bs)")
  fix en bs r m q
  assume "message_decode en bs = Inr r" "r = Some m"
  then have "header_len \<le> unat (msg_size (msg_header m))" "unat (msg_size (msg_header m)) \<le> length bs"
    using message_decode_length [of en bs m] by (auto simp: header_ok_def)
  then show "((en, drop (unat (msg_size (msg_header m))) bs), en, bs) \<in> measure (\<lambda>(en, bs). length bs)"
    by (auto simp: header_len_def)
qed simp

declare pongs_in.simps [simp del]

definition peer_dispatch :: "endian \<Rightarrow> u8 list \<Rightarrow> bool \<Rightarrow> cut \<Rightarrow> peer_step" where
  "peer_dispatch en reply ended answer c =
     (case answer of
        Interrupted \<Rightarrow> Some (True, c)
      | Failed \<Rightarrow> Some (False, c)
      | Cut k \<Rightarrow>
          (let link = pc_link c; got = take k (drop (rl_consumed link) reply)
           in if got = [] then (if k \<noteq> 0 \<and> \<not> ended then None else Some (False, c))
              else (case pongs_in en (pc_buffer c @ got) of
                      (ok, qs, rest) \<Rightarrow>
                        Some (ok, c\<lparr>pc_link := link\<lparr>rl_consumed := rl_consumed link + length got\<rparr>,
                                    pc_buffer := rest, pc_received := pc_received c + of_nat (length qs),
                                    pc_ack := (if qs = [] then pc_ack c else last qs)\<rparr>))))"

fun receive_loop :: "endian \<Rightarrow> u8 list \<Rightarrow> bool \<Rightarrow> u64 \<Rightarrow> cut list \<Rightarrow> peer_step" where
  "receive_loop en reply ended target cs c =
     (if pc_received c \<ge> target then Some (True, c\<lparr>pc_link := (pc_link c)\<lparr>rl_cuts := cs\<rparr>\<rparr>)
      else case cs of
             [] \<Rightarrow> None
           | answer # cs' \<Rightarrow>
               (case peer_dispatch en reply ended answer c of
                  None \<Rightarrow> None
                | Some (ok, c') \<Rightarrow>
                    if ok then receive_loop en reply ended target cs' c' else Some (False, c')))"

declare receive_loop.simps [simp del]

definition receive_phase :: "endian \<Rightarrow> raw_peer \<Rightarrow> u64 \<Rightarrow> u32 \<Rightarrow> peer_step" where
  "receive_phase en peer phase_count sequence c =
     (let target = pc_received c + phase_count in
      case peer (rl_sent (pc_link c)) of
        (reply, ended) \<Rightarrow>
          map_option (\<lambda>(ok, c'). (ok \<and> pc_received c' = target \<and> pc_ack c' = sequence, c'))
            (receive_loop en reply ended target (rl_cuts (pc_link c)) c))"

definition send_acknowledgement :: "u8 \<Rightarrow> peer_step" where
  "send_acknowledgement acknowledgement c =
     (let link = pc_link c in
      map_option (\<lambda>(st, out, cs). (st = 0, c\<lparr>pc_link := link\<lparr>rl_sent := rl_sent link @ out, rl_cuts := cs\<rparr>\<rparr>))
        (write_exact (rl_cuts link) [acknowledgement]))"

section \<open>The main functions\<close>

text \<open>
  What the library answers: whether the display, the registry and the benchmark object could be made and the
  object takes a listener.
\<close>

record peer_library =
  pl_display :: bool
  pl_registry :: bool
  pl_benchmark :: bool
  pl_listener :: bool
  pl_flushes :: "nat \<Rightarrow> flush_answer list"

datatype peer_exit = PX_Crashed | PX_Waiting | PX_Exit int "raw_report option"

text \<open>A statement list, then the rest; the functions return without cleaning up when one fails.\<close>

definition peer_then :: "peer_step list \<Rightarrow> peer_client \<Rightarrow> (peer_client \<Rightarrow> peer_exit) \<Rightarrow> peer_exit" where
  "peer_then steps c rest =
     (case all_steps steps c of
        None \<Rightarrow> PX_Waiting
      | Some (ok, c') \<Rightarrow> if ok then rest c' else PX_Exit EXIT_FAILURE None)"

text \<open>The reading of the clock, which ends the process when it fails.\<close>

definition peer_clock :: "raw_env \<Rightarrow> nat \<Rightarrow> (u64 \<Rightarrow> peer_exit) \<Rightarrow> peer_exit" where
  "peer_clock env k rest =
     (case raw_clock_ns (re_clock env k) of None \<Rightarrow> PX_Exit EXIT_FAILURE None | Some time \<Rightarrow> rest time)"

definition start_peer :: "cut list \<Rightarrow> (nat \<Rightarrow> flush_answer list) \<Rightarrow> peer_client" where
  "start_peer cs flushes = \<lparr>pc_link = \<lparr>rl_sent = [], rl_consumed = 0, rl_cuts = cs\<rparr>, pc_queued = [],
     pc_flushes = flushes, pc_buffer = [], pc_received = 0, pc_ack = 0\<rparr>"

text \<open>What both begin with: the child, the connection and the objects. The registry is used before it is tested.\<close>

definition peer_main :: "raw_env \<Rightarrow> peer_library \<Rightarrow> cut list \<Rightarrow> (peer_client \<Rightarrow> peer_exit) \<Rightarrow> peer_exit" where
  "peer_main env lib cs rest =
     (if \<not> re_socketpair env \<or> \<not> re_fork env then PX_Exit EXIT_FAILURE None
      else if \<not> pl_display lib then PX_Exit EXIT_FAILURE None
      else if \<not> pl_registry lib then PX_Crashed
      else if \<not> pl_benchmark lib then PX_Exit EXIT_FAILURE None
      else rest (start_peer cs (pl_flushes lib)))"

text \<open>What both end with: the objects are destroyed, the connection closed and the child waited for.\<close>

definition peer_report :: "raw_env \<Rightarrow> (u8 list \<Rightarrow> int option) \<Rightarrow> raw_report \<Rightarrow> peer_client \<Rightarrow> peer_exit" where
  "peer_report env child report c =
     (if \<not> re_waitpid env then PX_Exit EXIT_FAILURE None
      else case child (rl_sent (pc_link c)) of
             None \<Rightarrow> PX_Waiting
           | Some status \<Rightarrow>
               if status \<noteq> 0 then PX_Exit EXIT_FAILURE None else PX_Exit EXIT_SUCCESS (Some report))"

definition client_transmit_main :: "endian \<Rightarrow> raw_env \<Rightarrow> peer_library \<Rightarrow> raw_peer \<Rightarrow> (u8 list \<Rightarrow> int option) \<Rightarrow>
    cut list \<Rightarrow> benchmark_options \<Rightarrow> peer_exit" where
  "client_transmit_main en env lib peer child cs options =
     peer_main env lib cs (\<lambda>c.
     peer_then [queue_bytes (get_registry_message en), queue_bytes (bind_message en),
                peer_flush, wait_for_raw_drain peer 0] c (\<lambda>c.
     peer_then [transmit_phase en (opt_warmup options) (opt_batch options) 1, wait_for_raw_drain peer 1] c (\<lambda>c.
     peer_clock env 0 (\<lambda>start.
     peer_then [transmit_phase en (opt_messages options) (opt_batch options) 2, wait_for_raw_drain peer 2] c (\<lambda>c.
     peer_clock env 1 (\<lambda>now.
     peer_report env child (opt_messages options, opt_batch options, now - start) c))))))"

definition client_receive_main :: "endian \<Rightarrow> raw_env \<Rightarrow> peer_library \<Rightarrow> raw_peer \<Rightarrow> (u8 list \<Rightarrow> int option) \<Rightarrow>
    cut list \<Rightarrow> benchmark_options \<Rightarrow> peer_exit" where
  "client_receive_main en env lib peer child cs options =
     peer_main env lib cs (\<lambda>c.
     if \<not> pl_listener lib then PX_Exit EXIT_FAILURE None else
     peer_then [queue_bytes (get_registry_message en), queue_bytes (bind_message en),
                peer_flush, wait_for_raw_drain peer 0] c (\<lambda>c.
     peer_then [receive_phase en peer (opt_warmup options) 1, send_acknowledgement 1] c (\<lambda>c.
     peer_clock env 0 (\<lambda>start.
     peer_then [receive_phase en peer (opt_messages options) 2] c (\<lambda>c.
     peer_clock env 1 (\<lambda>now.
     peer_then [send_acknowledgement 2] c
       (peer_report env child (opt_messages options, opt_batch options, now - start))))))))"

text \<open>Both with their children.\<close>

definition transmit_benchmark ::
    "endian \<Rightarrow> raw_env \<Rightarrow> peer_library \<Rightarrow> cut list \<Rightarrow> cut list \<Rightarrow> benchmark_options \<Rightarrow> peer_exit" where
  "transmit_benchmark en env lib child_cuts client_cuts options =
     client_transmit_main en env lib
       (\<lambda>sent. case transmit_child options child_cuts False sent of (status, out) \<Rightarrow> (out, status \<noteq> None))
       (\<lambda>sent. fst (transmit_child options child_cuts True sent)) client_cuts options"

definition receive_benchmark ::
    "endian \<Rightarrow> raw_env \<Rightarrow> peer_library \<Rightarrow> cut list \<Rightarrow> cut list \<Rightarrow> benchmark_options \<Rightarrow> peer_exit" where
  "receive_benchmark en env lib child_cuts client_cuts options =
     client_receive_main en env lib
       (\<lambda>sent. case receive_child en (re_malloc env) options child_cuts False sent of
                 (status, out) \<Rightarrow> (out, status \<noteq> None))
       (\<lambda>sent. fst (receive_child en (re_malloc env) options child_cuts True sent)) client_cuts options"

section \<open>Messages\<close>

lemma length_frame: "length (frame en oid opc pl) = header_len + length pl"
  by (simp add: frame_def Let_def header_len_def)

lemma length_ping_message [simp]: "length (ping_message en q) = 12"
  by (simp add: ping_message_def length_frame header_len_def)

text \<open>The child of \<open>client-rx\<close> writes what the library writes.\<close>

lemma raw_words_ping: "concat (map (writeU32 en) [3, push_bit 16 12, q]) = ping_message en q"
  by (simp add: ping_message_def frame_def header_len_def Let_def)

text \<open>The comment of the source on the sizes of the two requests.\<close>

lemma setup_sizes:
  "length (get_registry_message en) = 12" "length (bind_message en) = 48"
  "length (get_registry_message en @ bind_message en) = setup_bytes"
proof -
  have "length (wire_string en bench_interface) = 28"
    by (simp add: wire_string_def encode_string_def encode_array_def bench_interface_def pad_len_def round4_def)
  then show "length (get_registry_message en) = 12" "length (bind_message en) = 48"
    by (simp_all add: get_registry_message_def bind_message_def length_frame header_len_def)
  then show "length (get_registry_message en @ bind_message en) = setup_bytes"
    by (simp add: setup_bytes_def)
qed

definition pong_header :: header where
  "pong_header = \<lparr>object_id = 3, opcode = 0, msg_size = 12\<rparr>"

lemma ping_header: "header_decode en (ping_message en q @ rest) = Inr (Some pong_header)"
proof -
  have "header_encode en pong_header = Inr (take 8 (ping_message en q))"
    by (simp add: header_encode_def pong_header_def header_len_def header_word_def ping_message_def frame_def Let_def)
  from header_decode_encode [OF this, of "drop 8 (ping_message en q) @ rest"] show ?thesis
    by (metis append_assoc append_take_drop_id)
qed

lemma ping_decode:
  "message_decode en (ping_message en q @ rest) =
     Inr (Some \<lparr>msg_header = pong_header, payload = writeU32 en q\<rparr>)"
  by (simp add: message_decode_def ping_header)
     (simp add: pong_header_def slice_def ping_message_def frame_def header_len_def Let_def)

lemma ping_incomplete: "c < 12 \<Longrightarrow> message_decode en (take c (ping_message en q)) = Inr None"
proof (cases "c < header_len")
  case True
  then have "length (take c (ping_message en q)) < header_len" by simp
  then show ?thesis by (simp add: message_decode_def header_decode_None_iff [THEN iffD2])
next
  case False
  assume "c < 12"
  moreover have "header_decode en (take c (ping_message en q)) = Inr (Some pong_header)"
    using header_decode_take [of "ping_message en q" c en] ping_header [of en q "[]"] False
    by (simp add: header_len_def)
  ultimately show ?thesis by (simp add: message_decode_def pong_header_def)
qed

lemma pong_of_ping: "pong_of en \<lparr>msg_header = pong_header, payload = writeU32 en q\<rparr> = Some q"
  using args_uint_write [of en q "[]"]
  by (simp add: pong_of_def pong_header_def message_arguments_def remaining_def)

lemma pongs_in_ping:
  "pongs_in en (ping_message en q @ rest) = (case pongs_in en rest of (ok, qs, r) \<Rightarrow> (ok, q # qs, r))"
proof -
  have "unat (msg_size pong_header) = 12" by (simp add: pong_header_def)
  then show ?thesis by (subst pongs_in.simps) (simp add: ping_decode pong_of_ping)
qed

text \<open>Any part of a stream of pongs is read as the complete ones in it, and the rest is kept.\<close>

lemma pongs_in_part:
  "c \<le> 12 * n \<Longrightarrow> pongs_in en (take c (concat (replicate n (ping_message en q)))) =
     (True, replicate (c div 12) q, take (c mod 12) (ping_message en q))"
proof (induction n arbitrary: c)
  case 0
  then show ?case by (simp add: pongs_in.simps message_decode_def header_decode_def header_len_def)
next
  case (Suc n)
  show ?case
  proof (cases "c < 12")
    case True
    then show ?thesis by (simp add: pongs_in.simps ping_incomplete)
  next
    case False
    let ?rest = "take (c - 12) (concat (replicate n (ping_message en q)))"
    have "take c (concat (replicate (Suc n) (ping_message en q))) = ping_message en q @ ?rest" using False by simp
    moreover have "pongs_in en ?rest = (True, replicate ((c - 12) div 12) q, take ((c - 12) mod 12) (ping_message en q))"
      by (rule Suc.IH) (use Suc.prems in simp)
    moreover have "c div 12 = Suc ((c - 12) div 12)" "c mod 12 = (c - 12) mod 12"
      using False by (simp_all add: le_div_geq le_mod_geq)
    ultimately show ?thesis by (simp only: pongs_in_ping prod.case replicate_Suc)
  qed
qed

section \<open>The children\<close>

lemma drain_phase_steady:
  assumes "supplies cs (bytes + Suc m)" and "bytes \<le> length inp"
  shows "\<exists>cs'. raw_drain_phase cs hup bytes ack inp = Some (0, [ack], drop bytes inp, cs') \<and> supplies cs' m"
proof -
  obtain cs1 where r: "read_loop read_exact cs hup 65536 bytes inp = Some (0, take bytes inp, drop bytes inp, cs1)"
    "supplies cs1 (Suc m)"
    using exact_reader.read_loop_steady [OF assms, of 65536 hup] by auto
  obtain cs2 where "write_exact cs1 [ack] = Some (0, [ack], cs2)" "supplies cs2 m"
    using exact_writer.write_steady [of cs1 "[ack]" m] r(2) by auto
  with r(1) show ?thesis by (simp add: raw_drain_phase_def)
qed

lemma drain_phase_short:
  "supplies cs m \<Longrightarrow> length inp < bytes \<Longrightarrow> raw_drain_phase cs False bytes ack inp = None"
  using exact_reader.read_loop_short [of cs inp bytes 65536] by (simp add: raw_drain_phase_def supplies_def)

text \<open>A child that only drains, after \<open>j\<close> of its phases.\<close>

lemma drains_after:
  "supplies cs (sum_list (map fst phases) + length phases) \<Longrightarrow> length inp = sum_list (map fst (take j phases)) \<Longrightarrow>
   j \<le> length phases \<Longrightarrow> list_all (\<lambda>(bytes, ack). 0 < bytes) phases \<Longrightarrow> j = length phases \<or> \<not> hup \<Longrightarrow>
     child_steps (map (\<lambda>(bytes, ack) cs. raw_drain_phase cs hup bytes ack) phases) cs inp =
       (if j = length phases then Some EXIT_SUCCESS else None, map snd (take j phases))"
proof (induction phases arbitrary: j cs inp)
  case (Cons phase phases)
  obtain bytes ack where phase: "phase = (bytes, ack)" by fastforce
  show ?case
  proof (cases j)
    case 0
    with Cons.prems have "raw_drain_phase cs False bytes ack inp = None"
      by (intro drain_phase_short) (auto simp: phase)
    with 0 Cons.prems(5) show ?thesis by (simp add: phase)
  next
    case (Suc i)
    have "supplies cs (bytes + Suc (sum_list (map fst phases) + length phases))" "bytes \<le> length inp"
      using Cons.prems(1,2) Suc by (simp_all add: phase ac_simps)
    from drain_phase_steady [OF this, of hup ack] obtain cs' where
      "raw_drain_phase cs hup bytes ack inp = Some (0, [ack], drop bytes inp, cs')"
      "supplies cs' (sum_list (map fst phases) + length phases)" by blast
    moreover have "child_steps (map (\<lambda>(bytes, ack) cs. raw_drain_phase cs hup bytes ack) phases) cs' (drop bytes inp) =
        (if i = length phases then Some EXIT_SUCCESS else None, map snd (take i phases))"
      by (rule Cons.IH) (use Cons.prems Suc calculation(2) in \<open>auto simp: phase\<close>)
    ultimately show ?thesis by (simp add: phase Suc)
  qed
qed simp

text \<open>Counts whose bytes fit in 64 bits, as in \<open>raw.c\<close>.\<close>

lemma phase_bytes_times: "phase_bytes c < 2 ^ 64 \<Longrightarrow> unat (c * 12) = phase_bytes c"
  using phase_bytes_word [of c] by (simp add: message_size_def)

lemma transmit_child_after:
  assumes "phases_fit options" and "supplies cs (setup_bytes + both_phases options + 3)"
  shows "length inp = setup_bytes \<Longrightarrow> transmit_child options cs False inp = (None, [0])"
    and "length inp = setup_bytes + phase_bytes (opt_warmup options) \<Longrightarrow>
      transmit_child options cs False inp = (None, [0, 1])"
    and "length inp = setup_bytes + both_phases options \<Longrightarrow>
      transmit_child options cs hup inp = (Some EXIT_SUCCESS, [0, 1, 2])"
proof -
  let ?ps = "[(setup_bytes, 0), (phase_bytes (opt_warmup options), 1), (phase_bytes (opt_messages options), 2)]"
  have child: "transmit_child options cs hup inp =
      child_steps (map (\<lambda>(bytes, ack) cs. raw_drain_phase cs hup bytes ack) ?ps) cs inp" for hup inp
    using assms(1) by (simp add: transmit_child_def phases_fit_def phase_bytes_times)
  have pos: "list_all (\<lambda>(bytes, ack). 0 < bytes) ?ps"
    using assms(1) by (simp add: phases_fit_def setup_bytes_def phase_bytes_def message_size_def)
  have supply': "supplies cs (sum_list (map fst ?ps) + length ?ps)"
    using assms(2) by (simp add: both_phases_def numeral_3_eq_3)
  note after = drains_after [OF supply' _ _ pos]
  show "length inp = setup_bytes \<Longrightarrow> transmit_child options cs False inp = (None, [0])"
    unfolding child using after [of inp 1 False] by simp
  show "length inp = setup_bytes + phase_bytes (opt_warmup options) \<Longrightarrow>
      transmit_child options cs False inp = (None, [0, 1])"
    unfolding child using after [of inp 2 False] by simp
  show "length inp = setup_bytes + both_phases options \<Longrightarrow>
      transmit_child options cs hup inp = (Some EXIT_SUCCESS, [0, 1, 2])"
    unfolding child using after [of inp 3 hup] by (simp add: both_phases_def)
qed

definition pong_stream :: "endian \<Rightarrow> u64 \<Rightarrow> u32 \<Rightarrow> u8 list" where
  "pong_stream en phase_count q = concat (replicate (unat phase_count) (ping_message en q))"

lemma length_pong_stream [simp]: "length (pong_stream en c q) = phase_bytes c"
  by (simp add: pong_stream_def length_concat sum_list_replicate phase_bytes_def message_size_def)

lemma write_phase_steady:
  assumes "supplies cs (phase_bytes c + m)" and "0 < unat batch"
  shows "\<exists>cs'. raw_write_phase en True cs c batch q inp = Some (0, pong_stream en c q, inp, cs') \<and> supplies cs' m"
proof -
  have "supplies cs (unat c * length (ping_message en q) + m)"
    using assms(1) by (simp add: phase_bytes_def message_size_def)
  from exact_writer.write_loop_steady [OF this assms(2)] show ?thesis
    unfolding raw_write_phase_def raw_words_ping pong_stream_def by auto
qed

lemma read_acknowledgement_steady:
  assumes "supplies cs (Suc m)"
  shows "\<exists>cs'. read_acknowledgement cs hup a (a # inp) = Some (0, [], inp, cs') \<and> supplies cs' m"
  using exact_reader.read_steady [of cs 1 m "a # inp" hup] assms by (auto simp: read_acknowledgement_def)

lemma read_acknowledgement_wait: "supplies cs m \<Longrightarrow> read_acknowledgement cs False a [] = None"
  using exact_reader.read_open [of cs 1 "[]"] by (auto simp: read_acknowledgement_def supplies_def)

text \<open>The child of \<open>client-rx\<close> up to its first acknowledgement, and from there to the second.\<close>

lemma receive_child_first:
  assumes "supplies cs (setup_bytes + Suc (phase_bytes (opt_warmup options) + m))" and "0 < unat (opt_batch options)"
    and "malloc 0" and "length setup_sent = setup_bytes"
  shows "\<exists>cs'. receive_child en malloc options cs hup (setup_sent @ rest) =
      (case child_steps
         [\<lambda>cs. read_acknowledgement cs hup 1,
          \<lambda>cs. raw_write_phase en (malloc 1) cs (opt_messages options) (opt_batch options) 2,
          \<lambda>cs. read_acknowledgement cs hup 2] cs' rest of
        (status, out) \<Rightarrow> (status, 0 # pong_stream en (opt_warmup options) 1 @ out)) \<and>
    supplies cs' m"
proof -
  have "setup_bytes \<le> length (setup_sent @ rest)" using assms(4) by simp
  from drain_phase_steady [OF assms(1) this, of hup 0] obtain cs1 where
    d: "raw_drain_phase cs hup setup_bytes 0 (setup_sent @ rest) = Some (0, [0], rest, cs1)"
    and s1: "supplies cs1 (phase_bytes (opt_warmup options) + m)"
    using assms(4) by auto
  from write_phase_steady [OF s1 assms(2)] obtain cs2 where
    "raw_write_phase en True cs1 (opt_warmup options) (opt_batch options) 1 rest =
       Some (0, pong_stream en (opt_warmup options) 1, rest, cs2)" "supplies cs2 m" by blast
  with d assms(3) show ?thesis
    by (intro exI [of _ cs2]) (simp add: receive_child_def split: prod.split)
qed

lemma receive_child_second:
  assumes "supplies cs (Suc (phase_bytes (opt_messages options) + m))" and "0 < unat (opt_batch options)"
    and "malloc 1"
  shows "\<exists>cs'. child_steps
         [\<lambda>cs. read_acknowledgement cs hup 1,
          \<lambda>cs. raw_write_phase en (malloc 1) cs (opt_messages options) (opt_batch options) 2,
          \<lambda>cs. read_acknowledgement cs hup 2] cs (1 # rest) =
      (case child_steps [\<lambda>cs. read_acknowledgement cs hup 2] cs' rest of
        (status, out) \<Rightarrow> (status, pong_stream en (opt_messages options) 2 @ out)) \<and>
    supplies cs' m"
proof -
  from read_acknowledgement_steady [OF assms(1), of hup 1 rest] obtain cs1 where
    a: "read_acknowledgement cs hup 1 (1 # rest) = Some (0, [], rest, cs1)"
    and s1: "supplies cs1 (phase_bytes (opt_messages options) + m)" by blast
  from write_phase_steady [OF s1 assms(2)] obtain cs2 where
    "raw_write_phase en True cs1 (opt_messages options) (opt_batch options) 2 rest =
       Some (0, pong_stream en (opt_messages options) 2, rest, cs2)" "supplies cs2 m" by blast
  with a assms(3) show ?thesis
    by (intro exI [of _ cs2]) (simp split: prod.split)
qed

lemma receive_child_after:
  assumes "phases_fit options" and "supplies cs (setup_bytes + both_phases options + 3)"
    and "malloc 0" and "malloc 1" and "length setup_sent = setup_bytes"
  shows "receive_child en malloc options cs False setup_sent =
      (None, 0 # pong_stream en (opt_warmup options) 1)"
    and "receive_child en malloc options cs False (setup_sent @ [1]) =
      (None, 0 # pong_stream en (opt_warmup options) 1 @ pong_stream en (opt_messages options) 2)"
    and "receive_child en malloc options cs hup (setup_sent @ [1, 2]) =
      (Some EXIT_SUCCESS, 0 # pong_stream en (opt_warmup options) 1 @ pong_stream en (opt_messages options) 2)"
proof -
  have batch: "0 < unat (opt_batch options)" using assms(1) by (simp add: phases_fit_def)
  have "supplies cs (setup_bytes + Suc (phase_bytes (opt_warmup options) +
      Suc (phase_bytes (opt_messages options) + Suc 0)))"
    using assms(2) by (simp add: both_phases_def numeral_3_eq_3 add.assoc)
  note first = receive_child_first [where malloc = malloc, OF this batch assms(3,5)]
  from first [of en False "[]"] show "receive_child en malloc options cs False setup_sent =
      (None, 0 # pong_stream en (opt_warmup options) 1)"
    by (auto simp: read_acknowledgement_wait)
  note second = receive_child_second [where malloc = malloc, OF _ batch assms(4)]
  from first [of en False "[1]"] obtain cs1 where f1:
    "receive_child en malloc options cs False (setup_sent @ [1]) =
      (case child_steps
         [\<lambda>cs. read_acknowledgement cs False 1,
          \<lambda>cs. raw_write_phase en (malloc 1) cs (opt_messages options) (opt_batch options) 2,
          \<lambda>cs. read_acknowledgement cs False 2] cs1 [1] of
        (status, out) \<Rightarrow> (status, 0 # pong_stream en (opt_warmup options) 1 @ out))"
    "supplies cs1 (Suc (phase_bytes (opt_messages options) + Suc 0))" by blast
  from second [OF f1(2), of False en "[]"] show "receive_child en malloc options cs False (setup_sent @ [1]) =
      (None, 0 # pong_stream en (opt_warmup options) 1 @ pong_stream en (opt_messages options) 2)"
    unfolding f1(1) by (auto simp: read_acknowledgement_wait simp del: child_steps.simps(2))
       (simp add: read_acknowledgement_wait)
  from first [of en hup "[1, 2]"] obtain cs2 where f2:
    "receive_child en malloc options cs hup (setup_sent @ [1, 2]) =
      (case child_steps
         [\<lambda>cs. read_acknowledgement cs hup 1,
          \<lambda>cs. raw_write_phase en (malloc 1) cs (opt_messages options) (opt_batch options) 2,
          \<lambda>cs. read_acknowledgement cs hup 2] cs2 [1, 2] of
        (status, out) \<Rightarrow> (status, 0 # pong_stream en (opt_warmup options) 1 @ out))"
    "supplies cs2 (Suc (phase_bytes (opt_messages options) + Suc 0))" by blast
  from second [OF f2(2), of hup en "[2]"] obtain cs3 where f3:
    "child_steps
         [\<lambda>cs. read_acknowledgement cs hup 1,
          \<lambda>cs. raw_write_phase en (malloc 1) cs (opt_messages options) (opt_batch options) 2,
          \<lambda>cs. read_acknowledgement cs hup 2] cs2 [1, 2] =
      (case child_steps [\<lambda>cs. read_acknowledgement cs hup 2] cs3 [2] of
        (status, out) \<Rightarrow> (status, pong_stream en (opt_messages options) 2 @ out))" "supplies cs3 (Suc 0)" by blast
  obtain cs4 where "read_acknowledgement cs3 hup 2 [2] = Some (0, [], [], cs4)"
    using read_acknowledgement_steady [of cs3 0 hup 2 "[]"] f3(2) by blast
  then show "receive_child en malloc options cs hup (setup_sent @ [1, 2]) =
      (Some EXIT_SUCCESS, 0 # pong_stream en (opt_warmup options) 1 @ pong_stream en (opt_messages options) 2)"
    unfolding f2(1) f3(1) by simp
qed

section \<open>The client's statements\<close>

text \<open>
  Between two statements: what was sent and read so far, \<open>r\<close> pongs received, nothing queued or buffered,
  flushes that succeed and a kernel that suffices for \<open>m\<close> more transfers.
\<close>

definition peer_ready :: "u8 list \<Rightarrow> nat \<Rightarrow> nat \<Rightarrow> nat \<Rightarrow> peer_client \<Rightarrow> bool" where
  "peer_ready sent_so_far consumed r m c \<longleftrightarrow>
     rl_sent (pc_link c) = sent_so_far \<and> rl_consumed (pc_link c) = consumed \<and> supplies (rl_cuts (pc_link c)) m \<and>
     pc_queued c = [] \<and> pc_buffer c = [] \<and> pc_received c = of_nat r \<and>
     (\<forall>k. flush_blocking (pc_flushes c k) = Some 0)"

lemma wait_ready:
  assumes "peer_ready bs consumed r (Suc m) c" and "peer bs = (reply, ended)" and "drop consumed reply = a # others"
  shows "\<exists>c'. wait_for_raw_drain peer a c = Some (True, c') \<and> peer_ready bs (Suc consumed) r m c'"
proof -
  have "supplies (rl_cuts (pc_link c)) (1 + m)" using assms(1) by (simp add: peer_ready_def)
  from exact_reader.read_steady [OF this, of "a # others" ended] obtain cs where
    "read_exact (rl_cuts (pc_link c)) ended 1 (a # others) = Some (0, [a], others, cs)" "supplies cs m" by auto
  with assms show ?thesis by (auto simp: wait_for_raw_drain_def peer_ready_def Let_def)
qed

lemma acknowledge_ready:
  assumes "peer_ready bs consumed r (Suc m) c"
  shows "\<exists>c'. send_acknowledgement a c = Some (True, c') \<and> peer_ready (bs @ [a]) consumed r m c'"
proof -
  have "supplies (rl_cuts (pc_link c)) (length [a] + m)" using assms by (simp add: peer_ready_def)
  from exact_writer.write_steady [OF this] obtain cs where
    "write_exact (rl_cuts (pc_link c)) [a] = Some (0, [a], cs)" "supplies cs m" by auto
  with assms show ?thesis by (auto simp: send_acknowledgement_def peer_ready_def Let_def)
qed

lemma transmit_loop_ready:
  assumes "peer_ready bs consumed r m c" and "0 < batch"
  shows "\<exists>c'. transmit_loop en todo batch q c = Some (True, c') \<and>
    peer_ready (bs @ concat (replicate todo (ping_message en q))) consumed r m c'"
  using assms(1)
proof (induction todo arbitrary: bs c rule: less_induct)
  case (less todo)
  show ?case
  proof (cases "todo = 0")
    case True
    with less.prems show ?thesis by (simp add: transmit_loop.simps)
  next
    case False
    define chunk where "chunk = (if todo < batch then todo else batch)"
    define rest where "rest = todo - chunk"
    have split: "todo = chunk + rest" "rest < todo" using False assms(2) by (auto simp: chunk_def rest_def)
    let ?out = "concat (replicate chunk (ping_message en q))"
    obtain c1 where c1: "all_steps [queue_bytes ?out, peer_flush] c = Some (True, c1)"
      "peer_ready (bs @ ?out) consumed r m c1"
      using less.prems by (auto simp: queue_bytes_def peer_flush_def peer_ready_def Let_def)
    from less.IH [OF split(2) c1(2)] obtain c2 where "transmit_loop en rest batch q c1 = Some (True, c2)"
      "peer_ready (bs @ concat (replicate todo (ping_message en q))) consumed r m c2"
      by (auto simp: split(1) concat_replicate_add)
    moreover have "transmit_loop en todo batch q c = transmit_loop en rest batch q c1"
      using False assms(2) c1(1)
      by (subst transmit_loop.simps) (simp add: chunk_def [symmetric] rest_def [symmetric] Let_def del: all_steps.simps)
    ultimately show ?thesis by auto
  qed
qed

lemma transmit_ready:
  assumes "peer_ready bs consumed r m c" and "0 < unat batch"
  shows "\<exists>c'. transmit_phase en phase_count batch q c = Some (True, c') \<and>
    peer_ready (bs @ pong_stream en phase_count q) consumed r m c'"
  using transmit_loop_ready [OF assms] by (simp add: transmit_phase_def pong_stream_def)

text \<open>The loop of \<open>receive_phase\<close> in the middle of a stream of \<open>n\<close> pongs, \<open>c\<close> of its bytes read.\<close>

definition peer_reading :: "endian \<Rightarrow> u32 \<Rightarrow> nat \<Rightarrow> nat \<Rightarrow> nat \<Rightarrow> peer_client \<Rightarrow> bool" where
  "peer_reading en q base r c p \<longleftrightarrow>
     rl_consumed (pc_link p) = base + c \<and> pc_buffer p = take (c mod 12) (ping_message en q) \<and>
     pc_received p = of_nat (r + c div 12) \<and> (c < 12 \<or> pc_ack p = q)"

lemma stream_split:
  assumes "c < 12 * n"
  shows "take (c mod 12) (ping_message en q) @ take k (drop c (concat (replicate n (ping_message en q)))) =
    take (c mod 12 + min k (12 * n - c)) (concat (replicate (n - c div 12) (ping_message en q)))"
proof -
  let ?j = "c div 12"
  have j: "n = ?j + (n - ?j)" "0 < n - ?j" "c = 12 * ?j + c mod 12" using assms by auto
  have len: "length (concat (replicate i (ping_message en q))) = 12 * i" for i
    by (simp add: length_concat sum_list_replicate)
  have tail: "drop c (concat (replicate n (ping_message en q))) =
      drop (c mod 12) (concat (replicate (n - ?j) (ping_message en q)))"
    by (subst j(1), subst concat_replicate_add) (simp add: len minus_mult_div_eq_mod)
  have head: "take (c mod 12) (ping_message en q) = take (c mod 12) (concat (replicate (n - ?j) (ping_message en q)))"
    using j(2) by (cases "n - ?j") simp_all
  have "12 * (n - ?j) - c mod 12 = 12 * n - c" using j(3) by (simp only: diff_mult_distrib2 diff_diff_left)
  then have "take k (drop (c mod 12) (concat (replicate (n - ?j) (ping_message en q)))) =
      take (min k (12 * n - c)) (drop (c mod 12) (concat (replicate (n - ?j) (ping_message en q))))"
    by (simp add: min_def len)
  then show ?thesis unfolding tail head by (simp add: take_add)
qed

lemma peer_dispatch_got:
  assumes "take k (drop (rl_consumed (pc_link c)) reply) = got" and "got \<noteq> []"
    and "pongs_in en (pc_buffer c @ got) = (ok, qs, rest)"
  shows "peer_dispatch en reply ended (Cut k) c =
    Some (ok, c\<lparr>pc_link := (pc_link c)\<lparr>rl_consumed := rl_consumed (pc_link c) + length got\<rparr>,
                pc_buffer := rest, pc_received := pc_received c + of_nat (length qs),
                pc_ack := (if qs = [] then pc_ack c else last qs)\<rparr>)"
  unfolding peer_dispatch_def cut.case Let_def assms(1,3) if_not_P [OF assms(2)] prod.case ..

lemma dispatch_reading:
  assumes "peer_reading en q base r c p" and "drop base reply = concat (replicate n (ping_message en q))"
    and "c < 12 * n" and "0 < k"
  shows "\<exists>p'. peer_dispatch en reply ended (Cut k) p = Some (True, p') \<and>
    peer_reading en q base r (c + min k (12 * n - c)) p' \<and> rl_sent (pc_link p') = rl_sent (pc_link p) \<and>
    pc_queued p' = pc_queued p \<and> pc_flushes p' = pc_flushes p"
proof -
  let ?g = "min k (12 * n - c)"
  let ?i = "c mod 12 + ?g"
  have g: "0 < ?g" using assms(3,4) by simp
  have len: "length (concat (replicate i (ping_message en q))) = 12 * i" for i
    by (simp add: length_concat sum_list_replicate)
  have got: "take k (drop (rl_consumed (pc_link p)) reply) = take k (drop c (concat (replicate n (ping_message en q))))"
  proof -
    have "drop (base + c) reply = drop c (drop base reply)" by (simp add: add.commute)
    then show ?thesis using assms(1,2) by (simp add: peer_reading_def del: drop_drop)
  qed
  have glen: "length (take k (drop c (concat (replicate n (ping_message en q))))) = ?g"
    by (simp add: len min.commute)
  then have some: "take k (drop c (concat (replicate n (ping_message en q)))) \<noteq> []" using g by auto
  have "n - c div 12 = n - c div 12" "?i \<le> 12 * (n - c div 12)"
    using assms(3) minus_mult_div_eq_mod [of c 12] by (simp_all add: min_def diff_mult_distrib2, linarith)
  from pongs_in_part [OF this(2)] have pongs:
    "pongs_in en (pc_buffer p @ take k (drop c (concat (replicate n (ping_message en q))))) =
       (True, replicate (?i div 12) q, take (?i mod 12) (ping_message en q))"
    using assms(1) stream_split [OF assms(3), of en q k] by (simp add: peer_reading_def)
  have div: "(c + ?g) div 12 = c div 12 + ?i div 12" "(c + ?g) mod 12 = ?i mod 12"
  proof -
    have "c + ?g = ?i + c div 12 * 12" by simp
    then show "(c + ?g) div 12 = c div 12 + ?i div 12" "(c + ?g) mod 12 = ?i mod 12"
      by (simp_all only: div_mult_self1 mod_mult_self1)
  qed
  have ack: "c + ?g < 12 \<or> (if replicate (?i div 12) q = [] then pc_ack p else last (replicate (?i div 12) q)) = q"
    using assms(1) div(1) by (auto simp: peer_reading_def)
  show ?thesis
    unfolding peer_dispatch_got [OF got some pongs] using assms(1) ack
    by (simp add: peer_reading_def glen div add.assoc del: length_take length_drop)
qed

text \<open>From any point of the stream the loop ends with the last pong, whatever the cuts.\<close>

lemma received_below:
  "r + n < 2 ^ 64 \<Longrightarrow> (of_nat (r + n) :: u64) \<le> of_nat (r + c div 12) \<longleftrightarrow> 12 * n \<le> c" if "c \<le> 12 * n"
proof -
  assume fit: "r + n < 2 ^ 64"
  have "r + c div 12 < 2 ^ 64" using fit that by (intro le_less_trans [OF _ fit]) simp
  then have "(of_nat (r + n) :: u64) \<le> of_nat (r + c div 12) \<longleftrightarrow> r + n \<le> r + c div 12"
    using fit by (simp add: word_le_nat_alt unat_of_nat del: of_nat_add)
  also have "\<dots> \<longleftrightarrow> 12 * n \<le> c" by (simp add: less_eq_div_iff_mult_less_eq mult.commute)
  finally show ?thesis .
qed

lemma receive_loop_run:
  assumes "r + n < 2 ^ 64" and "drop base reply = concat (replicate n (ping_message en q))"
  shows "peer_reading en q base r c p \<Longrightarrow> c \<le> 12 * n \<Longrightarrow> supplies cs (12 * n - c + m) \<Longrightarrow>
    \<exists>p'. receive_loop en reply ended (of_nat (r + n)) cs p = Some (True, p') \<and>
      peer_reading en q base r (12 * n) p' \<and> supplies (rl_cuts (pc_link p')) m \<and>
      rl_sent (pc_link p') = rl_sent (pc_link p) \<and> pc_queued p' = pc_queued p \<and> pc_flushes p' = pc_flushes p"
proof (induction cs arbitrary: c p)
  have stop: "receive_loop en reply ended (of_nat (r + n)) cs p =
      Some (True, p\<lparr>pc_link := (pc_link p)\<lparr>rl_cuts := cs\<rparr>\<rparr>)"
    if "peer_reading en q base r (12 * n) p" for cs p
    using that by (subst receive_loop.simps) (simp add: peer_reading_def)
  {
    case Nil
    then have c: "c = 12 * n" by (simp add: supplies_def)
    show ?case
      unfolding stop [OF Nil.prems(1) [unfolded c]]
      using Nil.prems(1,3) by (simp add: c) (simp add: peer_reading_def)
  next
    case (Cons answer cs)
    show ?case
    proof (cases "c = 12 * n")
      case True
      show ?thesis
        unfolding stop [OF Cons.prems(1) [unfolded True]]
        using Cons.prems(1,3) by (simp add: True) (simp add: peer_reading_def)
    next
      case False
      then have less: "c < 12 * n" using Cons.prems(2) by simp
      have go: "receive_loop en reply ended (of_nat (r + n)) (answer # cs) p =
          (case peer_dispatch en reply ended answer p of
             None \<Rightarrow> None
           | Some (ok, p') \<Rightarrow>
               if ok then receive_loop en reply ended (of_nat (r + n)) cs p' else Some (False, p'))"
        using received_below [OF Cons.prems(2) assms(1)] Cons.prems(1) less
        by (subst receive_loop.simps) (simp add: peer_reading_def del: of_nat_add)
      show ?thesis
      proof (cases answer)
        case (Cut k)
        with Cons.prems(3) have k: "0 < k" and s: "steady cs" "12 * n - c + m \<le> Suc (progress cs)"
          by (simp_all add: supplies_def)
        let ?g = "min k (12 * n - c)"
        from dispatch_reading [OF Cons.prems(1) assms(2) less k, of ended] obtain p1 where
          p1: "peer_dispatch en reply ended (Cut k) p = Some (True, p1)" "peer_reading en q base r (c + ?g) p1"
            "rl_sent (pc_link p1) = rl_sent (pc_link p)" "pc_queued p1 = pc_queued p" "pc_flushes p1 = pc_flushes p"
          by blast
        have g: "0 < ?g" "?g \<le> 12 * n - c" using k less by simp_all
        from g(1) have "12 * n - (c + ?g) + m \<le> progress cs"
          using g(2) s(2) less by (simp only: diff_diff_left [symmetric]) linarith
        with g less s(1) have "c + ?g \<le> 12 * n" "supplies cs (12 * n - (c + ?g) + m)"
          by (simp_all only: supplies_def) linarith
        from Cons.IH [OF p1(2) this] show ?thesis by (simp only: go [unfolded Cut] Cut p1 option.case prod.case if_True)
      next
        case Interrupted
        with Cons.prems(3) have "supplies cs (12 * n - c + m)" by (simp add: supplies_def)
        from Cons.IH [OF Cons.prems(1,2) this] show ?thesis
          by (simp only: go [unfolded Interrupted] Interrupted peer_dispatch_def cut.case option.case prod.case if_True)
      next
        case Failed
        with Cons.prems(3) show ?thesis by (simp add: supplies_def)
      qed
    qed
  }
qed

lemma receive_ready:
  assumes "peer_ready bs consumed r (phase_bytes n + m) c" and "peer bs = (reply, ended)"
    and "drop consumed reply = pong_stream en n q" and "r + unat n < 2 ^ 64" and "0 < unat n"
  shows "\<exists>c'. receive_phase en peer n q c = Some (True, c') \<and>
    peer_ready bs (consumed + phase_bytes n) (r + unat n) m c'"
proof -
  have "peer_reading en q consumed r 0 c" using assms(1) by (simp add: peer_ready_def peer_reading_def)
  moreover have bytes: "phase_bytes n = 12 * unat n" by (simp add: phase_bytes_def message_size_def)
  with assms(1) have "supplies (rl_cuts (pc_link c)) (12 * unat n - 0 + m)" by (simp add: peer_ready_def)
  ultimately obtain c' where
    run: "receive_loop en reply ended (of_nat (r + unat n)) (rl_cuts (pc_link c)) c = Some (True, c')"
    and reading: "peer_reading en q consumed r (12 * unat n) c'" and cuts: "supplies (rl_cuts (pc_link c')) m"
    and same: "rl_sent (pc_link c') = rl_sent (pc_link c)" "pc_queued c' = pc_queued c" "pc_flushes c' = pc_flushes c"
    using receive_loop_run [OF assms(4) assms(3) [unfolded pong_stream_def], of 0 c] by blast
  have target: "pc_received c + n = of_nat (r + unat n)" using assms(1) by (simp add: peer_ready_def)
  have "receive_phase en peer n q c = Some (True, c')"
    using run reading assms(1,2,5)
    by (simp add: receive_phase_def target [unfolded Let_def] peer_ready_def peer_reading_def Let_def)
  with reading cuts same assms(1) show ?thesis by (auto simp: peer_ready_def peer_reading_def bytes)
qed

section \<open>Whole runs\<close>

abbreviation setup_message :: "endian \<Rightarrow> u8 list" where
  "setup_message en \<equiv> get_registry_message en @ bind_message en"

lemma setup_then:
  assumes "peer_ready [] 0 0 (Suc m) c" and "peer (setup_message en) = (0 # others, ended)"
  shows "\<exists>c'. (\<forall>rest. peer_then [queue_bytes (get_registry_message en), queue_bytes (bind_message en),
      peer_flush, wait_for_raw_drain peer 0] c rest = rest c') \<and> peer_ready (setup_message en) 1 0 m c'"
proof -
  obtain c1 where c1: "all_steps [queue_bytes (get_registry_message en), queue_bytes (bind_message en), peer_flush] c =
      Some (True, c1)" "peer_ready (setup_message en) 0 0 (Suc m) c1"
    using assms(1) by (auto simp: queue_bytes_def peer_flush_def peer_ready_def Let_def)
  from wait_ready [where peer = peer, OF c1(2) assms(2)] obtain c2 where
    "wait_for_raw_drain peer 0 c1 = Some (True, c2)" "peer_ready (setup_message en) 1 0 m c2" by auto
  moreover have "all_steps (steps @ [last_step]) c = (case all_steps steps c of
      None \<Rightarrow> None | Some (ok, c') \<Rightarrow> if ok then last_step c' else Some (False, c'))" for steps last_step c
    by (induction steps arbitrary: c) (auto split: option.splits)
  from this [of "[queue_bytes (get_registry_message en), queue_bytes (bind_message en), peer_flush]"
      "wait_for_raw_drain peer 0" c]
  have "all_steps [queue_bytes (get_registry_message en), queue_bytes (bind_message en), peer_flush,
      wait_for_raw_drain peer 0] c = wait_for_raw_drain peer 0 c1"
    by (simp only: c1(1) append.simps option.case prod.case if_True)
  ultimately show ?thesis by (intro exI [of _ c2]) (simp add: peer_then_def del: all_steps.simps)
qed

text \<open>A phase of \<open>client-tx\<close>, and what follows it.\<close>

lemma transmit_then:
  assumes "peer_ready bs consumed r (Suc m) c" and "0 < unat batch"
    and "peer (bs @ pong_stream en n q) = (reply, ended)" and "drop consumed reply = [a]"
  shows "\<exists>c'. (\<forall>rest. peer_then [transmit_phase en n batch q, wait_for_raw_drain peer a] c rest = rest c') \<and>
    peer_ready (bs @ pong_stream en n q) (Suc consumed) r m c'"
proof -
  from transmit_ready [OF assms(1,2)] obtain c1 where c1: "transmit_phase en n batch q c = Some (True, c1)"
    "peer_ready (bs @ pong_stream en n q) consumed r (Suc m) c1" by blast
  from wait_ready [where peer = peer, OF c1(2) assms(3,4)] obtain c2 where "wait_for_raw_drain peer a c1 = Some (True, c2)"
    "peer_ready (bs @ pong_stream en n q) (Suc consumed) r m c2" by blast
  with c1(1) show ?thesis by (intro exI [of _ c2]) (simp add: peer_then_def)
qed

lemma start_ready:
  "supplies cs m \<Longrightarrow> \<forall>k. flush_blocking (flushes k) = Some 0 \<Longrightarrow> peer_ready [] 0 0 m (start_peer cs flushes)"
  by (simp add: peer_ready_def start_peer_def)

text \<open>A system and a library that do what they are asked for.\<close>

definition willing_peers :: "raw_env \<Rightarrow> peer_library \<Rightarrow> bool" where
  "willing_peers env lib \<longleftrightarrow>
     re_socketpair env \<and> re_fork env \<and> re_waitpid env \<and> re_malloc env 0 \<and> re_malloc env 1 \<and>
     pl_display lib \<and> pl_registry lib \<and> pl_benchmark lib \<and> pl_listener lib \<and> (\<forall>k. flush_blocking (pl_flushes lib k) = Some 0)"

lemma transmit_benchmark_run:
  assumes "phases_fit options" and "supplies child_cuts (setup_bytes + both_phases options + 3)"
    and "supplies client_cuts (m + 3)" and "willing_peers env lib"
    and "raw_clock_ns (re_clock env 0) = Some start" and "raw_clock_ns (re_clock env 1) = Some now"
  shows "transmit_benchmark en env lib child_cuts client_cuts options =
    PX_Exit EXIT_SUCCESS (Some (opt_messages options, opt_batch options, now - start))"
proof -
  let ?peer = "\<lambda>sent. case transmit_child options child_cuts False sent of (status, out) \<Rightarrow> (out, status \<noteq> None)"
  let ?w = "setup_message en @ pong_stream en (opt_warmup options) 1"
  let ?m = "?w @ pong_stream en (opt_messages options) 2"
  have batch: "0 < unat (opt_batch options)" using assms(1) by (simp add: phases_fit_def)
  note child = transmit_child_after [OF assms(1,2)]
  have replies: "?peer (setup_message en) = ([0], False)"
    using child(1) [of "setup_message en"] setup_sizes(3) [of en] by simp
  have warm: "?peer ?w = ([0, 1], False)"
    using child(2) [of ?w] setup_sizes(3) [of en] by simp
  have finished: "transmit_child options child_cuts hup ?m = (Some EXIT_SUCCESS, [0, 1, 2])" for hup
    using child(3) [of ?m hup] setup_sizes(3) [of en] by (simp add: both_phases_def)
  have all: "?peer ?m = ([0, 1, 2], True)" using finished [of False] by simp
  have "peer_ready [] 0 0 (Suc (m + 2)) (start_peer client_cuts (pl_flushes lib))"
    using start_ready [of client_cuts "m + 3" "pl_flushes lib"] assms(3,4) by (simp add: willing_peers_def numeral_3_eq_3)
  from setup_then [where peer = ?peer, OF this replies] obtain c1 where
    c1: "\<And>rest. peer_then [queue_bytes (get_registry_message en), queue_bytes (bind_message en), peer_flush,
      wait_for_raw_drain ?peer 0] (start_peer client_cuts (pl_flushes lib)) rest = rest c1"
      "peer_ready (setup_message en) 1 0 (Suc (Suc m)) c1" by auto
  from transmit_then [where peer = ?peer, OF c1(2) batch warm] obtain c2 where
    c2: "\<And>rest. peer_then [transmit_phase en (opt_warmup options) (opt_batch options) 1, wait_for_raw_drain ?peer 1] c1 rest =
      rest c2" "peer_ready ?w 2 0 (Suc m) c2" by (auto simp: numeral_2_eq_2)
  have "drop 2 [0, 1, 2 :: u8] = [2]" by simp
  from transmit_then [where peer = ?peer, OF c2(2) batch all this] obtain c3 where
    c3: "\<And>rest. peer_then [transmit_phase en (opt_messages options) (opt_batch options) 2, wait_for_raw_drain ?peer 2] c2 rest =
      rest c3" "peer_ready ?m 3 0 m c3" by (auto simp: eval_nat_numeral)
  from c3(2) finished have "fst (transmit_child options child_cuts True (rl_sent (pc_link c3))) = Some EXIT_SUCCESS"
    by (simp add: peer_ready_def)
  with assms(4-6) c1(1) c2(1) c3(1) show ?thesis
    by (simp add: transmit_benchmark_def client_transmit_main_def peer_main_def willing_peers_def
        peer_clock_def peer_report_def EXIT_SUCCESS_def)
qed

text \<open>A phase of \<open>client-rx\<close>, and what follows it.\<close>

lemma receive_benchmark_run:
  assumes "phases_fit options" and "supplies child_cuts (setup_bytes + both_phases options + 3)"
    and "supplies client_cuts (both_phases options + 3)" and "willing_peers env lib"
    and "raw_clock_ns (re_clock env 0) = Some start" and "raw_clock_ns (re_clock env 1) = Some now"
  shows "receive_benchmark en env lib child_cuts client_cuts options =
    PX_Exit EXIT_SUCCESS (Some (opt_messages options, opt_batch options, now - start))"
proof -
  let ?child = "receive_child en (re_malloc env) options child_cuts"
  let ?peer = "\<lambda>sent. case ?child False sent of (status, out) \<Rightarrow> (out, status \<noteq> None)"
  let ?w = "phase_bytes (opt_warmup options)" and ?m = "phase_bytes (opt_messages options)"
  let ?s1 = "pong_stream en (opt_warmup options) 1" and ?s2 = "pong_stream en (opt_messages options) 2"
  let ?s = "setup_message en"
  have fit: "0 < unat (opt_warmup options)" "0 < unat (opt_messages options)"
      "0 + unat (opt_warmup options) < 2 ^ 64" "0 + unat (opt_warmup options) + unat (opt_messages options) < 2 ^ 64"
    using assms(1) by (simp_all add: phases_fit_def phase_bytes_def message_size_def)
  have "re_malloc env 0" "re_malloc env 1" using assms(4) by (simp_all add: willing_peers_def)
  note child = receive_child_after [where malloc = "re_malloc env", OF assms(1,2) this setup_sizes(3) [of en], of en]
  have first: "?peer ?s = (0 # ?s1, False)" by (simp only: child(1) prod.case) simp
  have second: "?peer (?s @ [1]) = (0 # ?s1 @ ?s2, False)" by (simp only: child(2) prod.case) simp
  have "supplies client_cuts (Suc (?w + Suc (?m + Suc 0)))"
    using assms(3) by (simp add: both_phases_def numeral_3_eq_3 add.assoc)
  then have "peer_ready [] 0 0 (Suc (?w + Suc (?m + Suc 0))) (start_peer client_cuts (pl_flushes lib))"
    by (rule start_ready) (use assms(4) in \<open>simp add: willing_peers_def\<close>)
  from setup_then [where peer = ?peer, OF this first] obtain c1 where
    c1: "\<And>rest. peer_then [queue_bytes (get_registry_message en), queue_bytes (bind_message en), peer_flush,
      wait_for_raw_drain ?peer 0] (start_peer client_cuts (pl_flushes lib)) rest = rest c1"
      "peer_ready ?s 1 0 (?w + Suc (?m + Suc 0)) c1" by auto
  have "drop 1 (0 # ?s1) = ?s1" by simp
  from receive_ready [where peer = ?peer, OF c1(2) first this fit(3,1)] obtain c2 where
    c2: "receive_phase en ?peer (opt_warmup options) 1 c1 = Some (True, c2)"
      "peer_ready ?s (1 + ?w) (0 + unat (opt_warmup options)) (Suc (?m + Suc 0)) c2" by blast
  from acknowledge_ready [OF c2(2), of 1] obtain c3 where
    c3: "send_acknowledgement 1 c2 = Some (True, c3)"
      "peer_ready (?s @ [1]) (1 + ?w) (0 + unat (opt_warmup options)) (?m + Suc 0) c3" by blast
  have "drop (1 + ?w) (0 # ?s1 @ ?s2) = ?s2" by simp
  from receive_ready [where peer = ?peer, OF c3(2) second this fit(4,2)] obtain c4 where
    c4: "receive_phase en ?peer (opt_messages options) 2 c3 = Some (True, c4)"
      "peer_ready (?s @ [1]) (1 + ?w + ?m) (0 + unat (opt_warmup options) + unat (opt_messages options)) (Suc 0) c4"
    by blast
  from acknowledge_ready [OF c4(2), of 2] obtain c5 where
    c5: "send_acknowledgement 2 c4 = Some (True, c5)" "rl_sent (pc_link c5) = ?s @ [1, 2]"
    by (auto simp: peer_ready_def)
  have "fst (?child True (rl_sent (pc_link c5))) = Some EXIT_SUCCESS" by (simp only: c5(2) child(3) fst_conv)
  with c1(1) c2(1) c3(1) c4(1) c5(1) assms(4-6) show ?thesis
    by (simp add: receive_benchmark_def client_receive_main_def peer_main_def willing_peers_def
        peer_clock_def peer_report_def peer_then_def [of "[_]"] peer_then_def [of "[_, _]"] EXIT_SUCCESS_def)
qed

section \<open>Properties\<close>

text \<open>C39: With kernels that make progress, however they cut the transfers, both benchmarks against a raw
  peer come to an end and succeed with the counts given: the child drains, or produces, exactly the bytes
  that libwayland's requests and events have on the wire (60 for the setup, 12 for each ping or pong), the
  acknowledgements and the pongs share one stream without loss, and client and child never wait for each other.\<close>

theorem raw_peers_succeed:
  assumes "phases_fit options" and "supplies child_cuts (setup_bytes + both_phases options + 3)"
    and "supplies client_cuts (both_phases options + 3)" and "willing_peers env lib"
    and "raw_clock_ns (re_clock env 0) = Some start" and "raw_clock_ns (re_clock env 1) = Some now"
  shows "transmit_benchmark en env lib child_cuts client_cuts options =
      PX_Exit EXIT_SUCCESS (Some (opt_messages options, opt_batch options, now - start)) \<and>
    receive_benchmark en env lib child_cuts client_cuts options =
      PX_Exit EXIT_SUCCESS (Some (opt_messages options, opt_batch options, now - start))"
  using transmit_benchmark_run [OF assms] receive_benchmark_run [OF assms] by (rule conjI)

lemma enough_cuts: "n \<le> i \<Longrightarrow> 0 < k \<Longrightarrow> supplies (Interrupted # replicate i (Cut k)) n"
proof -
  have "progress (replicate i (Cut k)) = i" "steady (replicate i (Cut k)) \<longleftrightarrow> i = 0 \<or> 0 < k" for i
    by (induction i) auto
  then show "n \<le> i \<Longrightarrow> 0 < k \<Longrightarrow> ?thesis" by (simp add: supplies_def)
qed

definition tiny_library :: peer_library where
  "tiny_library = \<lparr>pl_display = True, pl_registry = True, pl_benchmark = True, pl_listener = True,
     pl_flushes = (\<lambda>k. [Flush_Again True, Flushed])\<rparr>"

theorem raw_peers_succeed_witness:
  "transmit_benchmark Little tiny_raw_env tiny_library (Interrupted # replicate 200 (Cut 7))
      (Interrupted # replicate 200 (Cut 5)) (default_options\<lparr>opt_warmup := 2, opt_messages := 3, opt_batch := 2\<rparr>) =
     PX_Exit EXIT_SUCCESS (Some (3, 2, 1))"
  using raw_peers_succeed [of "default_options\<lparr>opt_warmup := 2, opt_messages := 3, opt_batch := 2\<rparr>"
      "Interrupted # replicate 200 (Cut 7)" "Interrupted # replicate 200 (Cut 5)" tiny_raw_env tiny_library
      "1000000000" "1000000001" Little]
  by (simp add: phases_fit_def both_phases_def phase_bytes_def message_size_def default_options_def
      tiny_raw_env_def tiny_library_def willing_peers_def raw_clock_ns_def enough_cuts setup_bytes_def
      transmit_benchmark_def client_transmit_main_def)

end
