(* ===== verification/Bench_Resource.thy ===== *)
theory Bench_Resource
  imports Bench_Options
begin

text \<open>
  The sampling of resources (\<open>src/bench/resource.c\<close>): resident sizes and context switches, read from the
  text of \<open>/proc/<pid>/statm\<close> and \<open>/proc/<pid>/status\<close>. A file is its text and whether \<open>fclose\<close> succeeds,
  or \<open>None\<close> when its name could not be made or it could not be opened. \<open>unsigned long\<close> has 64 bits.
\<close>

section \<open>Scanning\<close>

text \<open>
  \<open>%lu\<close> of \<open>scanf\<close>: the number and what follows it, \<open>None\<close> when there is no number. As in \<open>strtoul\<close> a value
  out of range gives the largest number.
\<close>

definition scan_unsigned :: "string \<Rightarrow> (u64 \<times> string) option" where
  "scan_unsigned s = (case strtoull s of (w, rest, failed) \<Rightarrow> if rest = s then None else Some (w, rest))"

text \<open>\<open>sscanf(line, "<name> %lu", &value)\<close>.\<close>

definition scan_field :: "string \<Rightarrow> string \<Rightarrow> u64 option" where
  "scan_field name line =
     (if take (length name) line = name then map_option fst (scan_unsigned (drop (length name) line)) else None)"

text \<open>\<open>fgets\<close> with room for \<open>n\<close> characters: the line, or its first part, and the rest of the file.\<close>

definition newline :: char where
  "newline = CHR 0x0A"

fun fgets :: "nat \<Rightarrow> string \<Rightarrow> string \<times> string" where
  "fgets 0 s = ([], s)"
| "fgets (Suc n) [] = ([], [])"
| "fgets (Suc n) (c # cs) =
     (if c = newline then ([c], cs) else (case fgets n cs of (line, rest) \<Rightarrow> (c # line, rest)))"

lemma fgets_split: "fgets n s = (line, rest) \<Longrightarrow> s = line @ rest \<and> (0 < n \<longrightarrow> s \<noteq> [] \<longrightarrow> line \<noteq> [])"
  by (induction n s arbitrary: line rule: fgets.induct) (auto split: if_splits prod.splits)

lemma fgets_shorter: "s \<noteq> [] \<Longrightarrow> fgets 255 s = (line, rest) \<Longrightarrow> length rest < length s"
  using fgets_split [of 255 s line rest] by auto

type_synonym proc_file = "(string \<times> bool) option"

section \<open>Sampling\<close>

definition resident_bytes :: "proc_file \<Rightarrow> int \<Rightarrow> u64 option" where
  "resident_bytes statm page_size =
     (case statm of
        None \<Rightarrow> None
      | Some (s, closes) \<Rightarrow>
          (case scan_unsigned s of
             None \<Rightarrow> None
           | Some (program, rest) \<Rightarrow>
               (case scan_unsigned rest of
                  None \<Rightarrow> None
                | Some (resident, others) \<Rightarrow>
                    if \<not> closes then None
                    else if page_size \<le> 0 then None
                    else Some (resident * of_int page_size))))"

text \<open>The two numbers as far as they were found; a bit of \<open>found\<close> is set when its number is stored.\<close>

function read_switches :: "string \<Rightarrow> u64 option \<times> u64 option \<Rightarrow> u64 option \<times> u64 option" where
  "read_switches s (voluntary, involuntary) =
     (if s = [] then (voluntary, involuntary)
      else case fgets 255 s of
             (line, rest) \<Rightarrow>
               read_switches rest
                 (case scan_field ''voluntary_ctxt_switches:'' line of
                    Some w \<Rightarrow> (Some w, involuntary)
                  | None \<Rightarrow>
                      (case scan_field ''nonvoluntary_ctxt_switches:'' line of
                         Some w \<Rightarrow> (voluntary, Some w)
                       | None \<Rightarrow> (voluntary, involuntary))))"
  by pat_completeness auto
termination by (relation "measure (\<lambda>(s, found). length s)") (simp, simp add: fgets_shorter [OF _ sym])

declare read_switches.simps [simp del]

definition context_switches :: "proc_file \<Rightarrow> (u64 \<times> u64) option" where
  "context_switches status =
     (case status of
        None \<Rightarrow> None
      | Some (s, closes) \<Rightarrow>
          if \<not> closes then None
          else (case read_switches s (None, None) of
                  (Some voluntary, Some involuntary) \<Rightarrow> Some (voluntary, involuntary)
                | _ \<Rightarrow> None))"

text \<open>
  Seconds and nanoseconds. An interrupted \<open>nanosleep\<close> stores what is left; the loop makes the requests that
  are returned with the status, \<open>None\<close> when it never ends.
\<close>

type_synonym timespec = "int \<times> int"

datatype nap = Slept | Nap_Interrupted timespec | Nap_Failed

fun sleep_loop :: "nap list \<Rightarrow> timespec \<Rightarrow> (timespec list \<times> int) option" where
  "sleep_loop [] duration = None"
| "sleep_loop (Slept # naps) duration = Some ([duration], 0)"
| "sleep_loop (Nap_Failed # naps) duration = Some ([duration], -1)"
| "sleep_loop (Nap_Interrupted left # naps) duration =
     map_option (\<lambda>(requests, st). (duration # requests, st)) (sleep_loop naps left)"

definition sleep_duration :: "u64 \<Rightarrow> timespec" where
  "sleep_duration milliseconds = (uint (milliseconds div 1000), uint (milliseconds mod 1000) * 1000000)"

definition sleep_ms :: "nap list \<Rightarrow> u64 \<Rightarrow> (timespec list \<times> int) option" where
  "sleep_ms naps milliseconds = sleep_loop naps (sleep_duration milliseconds)"

text \<open>What the system answers: the files of client and server, first and second reading, and the sleep.\<close>

record sample_env =
  se_client_statm :: proc_file
  se_server_statm :: proc_file
  se_page_size :: int
  se_client_before :: proc_file
  se_server_before :: proc_file
  se_naps :: "nap list"
  se_client_after :: proc_file
  se_server_after :: proc_file

text \<open>The numbers of the two lines that are printed, in their order.\<close>

datatype sample_line =
    Rss_Line string string u64 u64 u64 u64 u64 u64
  | Switches_Line string string u64 u64 u64 u64 u64 u64

text \<open>The second part, after the first line.\<close>

definition sample_switches :: "sample_env \<Rightarrow> u64 \<Rightarrow> (u64 \<Rightarrow> u64 \<Rightarrow> u64 \<Rightarrow> u64 \<Rightarrow> sample_line) \<Rightarrow>
    (sample_line list \<times> int) option" where
  "sample_switches env sample_ms line =
     (case (context_switches (se_client_before env), context_switches (se_server_before env)) of
        (Some (cv, ci), Some (sv, si)) \<Rightarrow>
          (case sleep_ms (se_naps env) sample_ms of
             None \<Rightarrow> None
           | Some (requests, st) \<Rightarrow>
               if st < 0 then Some ([], -1)
               else (case (context_switches (se_client_after env), context_switches (se_server_after env)) of
                       (Some (cv', ci'), Some (sv', si')) \<Rightarrow>
                         Some ([line (cv' - cv) (ci' - ci) (sv' - sv) (si' - si)], 0)
                     | _ \<Rightarrow> Some ([], -1)))
      | _ \<Rightarrow> Some ([], -1))"

definition benchmark_resource_sample ::
    "string \<Rightarrow> string \<Rightarrow> u64 \<Rightarrow> sample_env \<Rightarrow> u64 \<Rightarrow> (sample_line list \<times> int) option" where
  "benchmark_resource_sample backend scope connections env sample_ms =
     (if connections = 0 then Some ([], -1)
      else case (resident_bytes (se_client_statm env) (se_page_size env),
                 resident_bytes (se_server_statm env) (se_page_size env)) of
             (Some client_rss, Some server_rss) \<Rightarrow>
               (let first = Rss_Line backend scope connections sample_ms client_rss server_rss
                      (client_rss + server_rss) (server_rss div connections)
                in if sample_ms = 0 then Some ([first], 0)
                   else map_option (\<lambda>(lines, st). (first # lines, st))
                          (sample_switches env sample_ms
                             (Switches_Line backend (scope @ ''-scheduler'') connections sample_ms)))
           | _ \<Rightarrow> Some ([], -1))"

section \<open>The files of the kernel\<close>

lemma scan_decimal:
  assumes "n < 2 ^ 64" and "list_all is_blank blanks" and "rest = [] \<or> \<not> is_digit (hd rest)"
  shows "scan_unsigned (blanks @ decimal n @ rest) = Some (of_nat n, rest)"
proof -
  let ?ds = "decimal n"
  note ds = decimal_value [of n]
  have "is_digit (hd ?ds)" using ds by (cases ?ds) auto
  then have "dropWhile is_blank (blanks @ ?ds @ rest) = ?ds @ rest"
    using ds assms(2) by (intro dropWhile_front) auto
  moreover have "sign_of (?ds @ rest) = (False, ?ds @ rest)"
    using ds by (cases ?ds) (auto simp: sign_of_def)
  moreover have "takeWhile is_digit (?ds @ rest) = ?ds" "dropWhile is_digit (?ds @ rest) = rest"
  proof -
    show "dropWhile is_digit (?ds @ rest) = rest" using ds assms(3) by (intro dropWhile_front) auto
    have "takeWhile is_digit rest = []" using assms(3) by (cases rest) auto
    then show "takeWhile is_digit (?ds @ rest) = ?ds" using ds by (simp add: list_all_iff)
  qed
  moreover have "rest \<noteq> blanks @ ?ds @ rest" using ds by simp
  ultimately show ?thesis using ds assms(1) by (simp add: scan_unsigned_def strtoull_def Let_def)
qed

text \<open>The sizes in pages, separated by blanks, of which the second is the resident one.\<close>

definition statm_text :: "nat \<Rightarrow> nat \<Rightarrow> string \<Rightarrow> string" where
  "statm_text program resident others = decimal program @ '' '' @ decimal resident @ '' '' @ others"

lemma resident_statm:
  assumes "program < 2 ^ 64" and "resident < 2 ^ 64" and "0 < page_size"
  shows "resident_bytes (Some (statm_text program resident others, True)) page_size =
    Some (of_nat resident * of_int page_size)"
proof -
  have "\<not> is_digit (CHR '' '')" "is_blank (CHR '' '')" by (simp_all add: is_digit_def is_blank_def)
  then have "scan_unsigned (statm_text program resident others) =
      Some (of_nat program, '' '' @ decimal resident @ '' '' @ others)"
    "scan_unsigned ('' '' @ decimal resident @ '' '' @ others) = Some (of_nat resident, '' '' @ others)"
    using scan_decimal [OF assms(1), of "[]" "'' '' @ decimal resident @ '' '' @ others"]
      scan_decimal [OF assms(2), of "'' ''" "'' '' @ others"]
    by (simp_all add: statm_text_def)
  with assms(3) show ?thesis by (simp add: resident_bytes_def)
qed

text \<open>A line of the status file, and those that are not one of the two counters.\<close>

definition whole_line :: "string \<Rightarrow> bool" where
  "whole_line l \<longleftrightarrow> l \<noteq> [] \<and> last l = newline \<and> newline \<notin> set (butlast l) \<and> length l \<le> 255"

definition other_line :: "string \<Rightarrow> bool" where
  "other_line l \<longleftrightarrow> whole_line l \<and> scan_field ''voluntary_ctxt_switches:'' l = None \<and>
     scan_field ''nonvoluntary_ctxt_switches:'' l = None"

definition counter_line :: "string \<Rightarrow> nat \<Rightarrow> string" where
  "counter_line name n = name @ [CHR 0x09] @ decimal n @ [newline]"

definition status_text :: "string list \<Rightarrow> nat \<Rightarrow> string list \<Rightarrow> nat \<Rightarrow> string list \<Rightarrow> string" where
  "status_text before voluntary between involuntary after =
     concat (before @ [counter_line ''voluntary_ctxt_switches:'' voluntary] @ between @
             [counter_line ''nonvoluntary_ctxt_switches:'' involuntary] @ after)"

lemma fgets_line: "newline \<notin> set b \<Longrightarrow> length b < n \<Longrightarrow> fgets n (b @ newline # rest) = (b @ [newline], rest)"
proof (induction b arbitrary: n)
  case Nil
  then show ?case by (cases n) simp_all
next
  case (Cons c b)
  then show ?case by (cases n) auto
qed

lemma fgets_whole: "whole_line l \<Longrightarrow> fgets 255 (l @ rest) = (l, rest)"
  using fgets_line [of "butlast l" 255 rest] append_butlast_last_id [of l]
  by (simp add: whole_line_def) (metis append.assoc append_Cons append_Nil length_butlast Suc_le_eq Suc_pred length_greater_0_conv)

lemma read_whole:
  assumes "whole_line l"
  shows "read_switches (l @ rest) (v, i) = read_switches rest
    (case scan_field ''voluntary_ctxt_switches:'' l of
       Some w \<Rightarrow> (Some w, i)
     | None \<Rightarrow> (case scan_field ''nonvoluntary_ctxt_switches:'' l of Some w \<Rightarrow> (v, Some w) | None \<Rightarrow> (v, i)))"
proof -
  have "l @ rest \<noteq> []" using assms by (simp add: whole_line_def)
  then show ?thesis by (subst read_switches.simps) (simp only: if_False fgets_whole [OF assms] prod.case)
qed

lemma read_others: "list_all other_line ls \<Longrightarrow> read_switches (concat ls @ rest) (v, i) = read_switches rest (v, i)"
  by (induction ls) (simp_all add: other_line_def read_whole)

lemma length_decimal: "n < 10 ^ Suc k \<Longrightarrow> length (decimal n) \<le> Suc k"
proof (induction k arbitrary: n)
  case 0
  then show ?case by (simp add: decimal.simps)
next
  case (Suc k)
  then have "n div 10 < 10 ^ Suc k" by (simp add: less_mult_imp_div_less)
  from Suc.IH [OF this] show ?case by (subst decimal.simps) simp
qed

lemma newline_blank [simp]: "is_blank (CHR 0x09)" "\<not> is_digit newline" "\<not> is_blank (hd (decimal n))"
proof -
  show "is_blank (CHR 0x09)" "\<not> is_digit newline" by (simp_all add: is_blank_def is_digit_def newline_def)
  have "is_digit (hd (decimal n))" using decimal_value [of n] by (cases "decimal n") auto
  then show "\<not> is_blank (hd (decimal n))" by simp
qed

lemma counter_line_whole:
  assumes "n < 2 ^ 64" and "newline \<notin> set name" and "length name \<le> 200"
  shows "whole_line (counter_line name n)"
proof -
  have "n < 10 ^ Suc 19" by (rule less_le_trans [OF assms(1)]) simp
  then have "length (decimal n) \<le> 20" using length_decimal [of n 19] by simp
  moreover have "newline \<notin> set (decimal n)" using decimal_value [of n] by (auto simp: list_all_iff)
  moreover have "newline \<noteq> CHR 0x09" by (simp add: newline_def)
  ultimately show ?thesis
    using assms(2,3) by (simp add: whole_line_def counter_line_def butlast_append)
qed

lemma scan_counter: "n < 2 ^ 64 \<Longrightarrow> scan_field name (counter_line name n) = Some (of_nat n)"
  using scan_decimal [of n "[CHR 0x09]" "[newline]"] by (simp add: scan_field_def counter_line_def)

lemma context_switches_status:
  assumes "list_all other_line before" and "list_all other_line between" and "list_all other_line after"
    and "v < 2 ^ 64" and "i < 2 ^ 64"
  shows "context_switches (Some (status_text before v between i after, True)) = Some (of_nat v, of_nat i)"
proof -
  let ?v = "counter_line ''voluntary_ctxt_switches:'' v" and ?i = "counter_line ''nonvoluntary_ctxt_switches:'' i"
  have "whole_line ?v" "whole_line ?i"
    using assms(4,5) by (auto intro!: counter_line_whole simp: newline_def)
  moreover have "scan_field ''voluntary_ctxt_switches:'' ?i = None"
    by (simp add: scan_field_def counter_line_def)
  moreover note scan_counter [OF assms(4), of "''voluntary_ctxt_switches:''"]
    scan_counter [OF assms(5), of "''nonvoluntary_ctxt_switches:''"]
  moreover have "read_switches (concat after) (x, y) = (x, y)" for x y
    using read_others [OF assms(3), of "[]"] by (simp add: read_switches.simps)
  ultimately have "read_switches (status_text before v between i after) (None, None) = (Some (of_nat v), Some (of_nat i))"
    by (simp add: status_text_def read_others [OF assms(1)] read_others [OF assms(2)] read_whole)
  then show ?thesis by (simp add: context_switches_def)
qed

section \<open>Sleeping\<close>

definition nanoseconds :: "timespec \<Rightarrow> int" where
  "nanoseconds t = fst t * 1000000000 + snd t"

lemma sleep_duration_exact:
  "nanoseconds (sleep_duration ms) = uint ms * 1000000"
  "0 \<le> snd (sleep_duration ms)" "snd (sleep_duration ms) < 1000000000"
proof -
  have "uint ms = uint (ms div 1000) * 1000 + uint (ms mod 1000)"
    by (simp add: uint_div uint_mod)
  then show "nanoseconds (sleep_duration ms) = uint ms * 1000000"
    by (simp add: nanoseconds_def sleep_duration_def)
  have "uint (ms mod 1000) < 1000" by (simp add: uint_mod)
  then show "0 \<le> snd (sleep_duration ms)" "snd (sleep_duration ms) < 1000000000"
    by (simp_all add: sleep_duration_def)
qed

text \<open>
  What a request took, by the answer of the kernel: all of it, or what was not left when a signal came. A
  sleep takes the sum over its requests.
\<close>

fun nap_time :: "nap \<times> timespec \<Rightarrow> int" where
  "nap_time (Slept, request) = nanoseconds request"
| "nap_time (Nap_Interrupted left, request) = nanoseconds request - nanoseconds left"
| "nap_time (Nap_Failed, request) = 0"

definition slept :: "nap list \<Rightarrow> timespec list \<Rightarrow> int" where
  "slept naps requests = sum_list (map nap_time (zip naps requests))"

lemma sleep_loop_total: "sleep_loop naps d = Some (requests, 0) \<Longrightarrow> slept naps requests = nanoseconds d"
  by (induction naps d arbitrary: requests rule: sleep_loop.induct) (auto simp: slept_def)

lemma sleep_ms_total: "sleep_ms naps ms = Some (requests, 0) \<Longrightarrow> slept naps requests = uint ms * 1000000"
  using sleep_loop_total [of naps "sleep_duration ms"] by (simp add: sleep_ms_def sleep_duration_exact)

text \<open>Signals never make a sleep fail, and each makes it ask for what is left.\<close>

lemma sleep_loop_interrupted:
  "sleep_loop (map Nap_Interrupted lefts @ Slept # later) d = Some (d # lefts, 0)"
  by (induction lefts arbitrary: d) simp_all

lemma sleep_ms_interrupted:
  "sleep_ms (map Nap_Interrupted lefts @ Slept # later) ms = Some (sleep_duration ms # lefts, 0)"
  by (simp add: sleep_ms_def sleep_loop_interrupted)

section \<open>Properties\<close>

text \<open>A sample that returns 0 has slept the whole time between its readings, if it was to sleep.\<close>

definition whole_sleep :: "nap list \<Rightarrow> u64 \<Rightarrow> bool" where
  "whole_sleep naps ms \<longleftrightarrow> (\<exists>requests. sleep_ms naps ms = Some (requests, 0) \<and> slept naps requests = uint ms * 1000000)"

lemma sleep_ms_status: "sleep_ms naps ms = Some (requests, st) \<Longrightarrow> st = 0 \<or> st = -1"
proof -
  have "sleep_loop naps d = Some (requests, st) \<Longrightarrow> st = 0 \<or> st = -1" for d
    by (induction naps d arbitrary: requests rule: sleep_loop.induct) auto
  then show "sleep_ms naps ms = Some (requests, st) \<Longrightarrow> st = 0 \<or> st = -1" by (simp add: sleep_ms_def)
qed

lemma sample_switches_lines:
  assumes "sample_switches env ms line = Some (lines, st)"
  shows "(st = 0 \<and> length lines = 1 \<and> whole_sleep (se_naps env) ms) \<or> (st = -1 \<and> lines = [])"
proof (cases "st = 0")
  case True
  with assms obtain requests st' where naps: "sleep_ms (se_naps env) ms = Some (requests, st')" "0 \<le> st'"
    and "length lines = 1"
    by (auto simp: sample_switches_def split: option.splits prod.splits if_splits)
  with sleep_ms_status [OF naps(1)] sleep_ms_total [of "se_naps env" ms requests] True show ?thesis
    by (auto simp: whole_sleep_def)
next
  case False
  with assms show ?thesis
    by (auto simp: sample_switches_def split: option.splits prod.splits if_splits)
qed

lemma sample_lines:
  "benchmark_resource_sample backend scope connections env ms = Some (lines, st) \<Longrightarrow>
     (st = 0 \<and> length lines = (if ms = 0 then 1 else 2) \<and> (ms \<noteq> 0 \<longrightarrow> whole_sleep (se_naps env) ms)) \<or>
     (st = -1 \<and> length lines \<le> 1)"
  by (auto simp: benchmark_resource_sample_def Let_def split: option.splits prod.splits if_splits
      dest!: sample_switches_lines)

text \<open>The counters of a process at the two readings, with whatever else its files say.\<close>

record proc_text =
  pt_statm :: "nat \<times> nat \<times> string"
  pt_lines :: "string list \<times> string list \<times> string list"
  pt_voluntary :: nat
  pt_involuntary :: nat

definition statm_of :: "proc_text \<Rightarrow> proc_file" where
  "statm_of t = (case pt_statm t of (program, resident, others) \<Rightarrow> Some (statm_text program resident others, True))"

definition status_of :: "proc_text \<Rightarrow> proc_file" where
  "status_of t = (case pt_lines t of (before, between, after) \<Rightarrow>
     Some (status_text before (pt_voluntary t) between (pt_involuntary t) after, True))"

definition proc_ok :: "proc_text \<Rightarrow> bool" where
  "proc_ok t \<longleftrightarrow> fst (pt_statm t) < 2 ^ 64 \<and> fst (snd (pt_statm t)) < 2 ^ 64 \<and>
     pt_voluntary t < 2 ^ 64 \<and> pt_involuntary t < 2 ^ 64 \<and>
     list_all other_line (fst (pt_lines t)) \<and> list_all other_line (fst (snd (pt_lines t))) \<and>
     list_all other_line (snd (snd (pt_lines t)))"

abbreviation resident_pages :: "proc_text \<Rightarrow> nat" where
  "resident_pages t \<equiv> fst (snd (pt_statm t))"

lemma resident_statm_of:
  "proc_ok t \<Longrightarrow> 0 < page \<Longrightarrow>
     resident_bytes (statm_of t) (int page) = Some (of_nat (resident_pages t * page))"
  using resident_statm [of "fst (pt_statm t)" "resident_pages t" "int page"]
  by (auto simp: statm_of_def proc_ok_def split: prod.split)

lemma context_switches_status_of:
  "proc_ok t \<Longrightarrow> context_switches (status_of t) = Some (of_nat (pt_voluntary t), of_nat (pt_involuntary t))"
  by (auto simp: status_of_def proc_ok_def context_switches_status split: prod.split)

definition sampled_env :: "nat \<Rightarrow> nap list \<Rightarrow> proc_text \<Rightarrow> proc_text \<Rightarrow> proc_text \<Rightarrow> proc_text \<Rightarrow> sample_env" where
  "sampled_env page naps client server client' server' =
     \<lparr>se_client_statm = statm_of client, se_server_statm = statm_of server, se_page_size = int page,
      se_client_before = status_of client, se_server_before = status_of server, se_naps = naps,
      se_client_after = status_of client', se_server_after = status_of server'\<rparr>"

text \<open>C40: A sample of files as the kernel writes them, with any other lines in any places, prints exactly
  the resident bytes of both processes, their sum and the server's share of a connection, then, however
  often and whenever signals interrupt its sleep, the differences of the four counters. Each interrupted
  request is repeated with the time that was left, so that the times of all requests, by the answers of the
  kernel, add up to the time asked for. Whatever the files say and the kernel answers, a sample that returns
  0 has printed its two lines and slept the whole time; one that returns -1 has not printed both.\<close>

theorem resource_sample_exact:
  assumes "proc_ok client" and "proc_ok server" and "proc_ok client'" and "proc_ok server'"
    and "0 < page" and "resident_pages client * page + resident_pages server * page < 2 ^ 64"
    and "pt_voluntary client \<le> pt_voluntary client'" and "pt_involuntary client \<le> pt_involuntary client'"
    and "pt_voluntary server \<le> pt_voluntary server'" and "pt_involuntary server \<le> pt_involuntary server'"
    and "0 < n" and "n < 2 ^ 64" and "ms \<noteq> 0" and "naps = map Nap_Interrupted lefts @ Slept # later"
  shows "benchmark_resource_sample backend scope (of_nat n) (sampled_env page naps client server client' server') ms =
      Some ([Rss_Line backend scope (of_nat n) ms (of_nat (resident_pages client * page))
               (of_nat (resident_pages server * page))
               (of_nat (resident_pages client * page + resident_pages server * page))
               (of_nat (resident_pages server * page div n)),
             Switches_Line backend (scope @ ''-scheduler'') (of_nat n) ms
               (of_nat (pt_voluntary client' - pt_voluntary client))
               (of_nat (pt_involuntary client' - pt_involuntary client))
               (of_nat (pt_voluntary server' - pt_voluntary server))
               (of_nat (pt_involuntary server' - pt_involuntary server))], 0) \<and>
    sleep_ms naps ms = Some (sleep_duration ms # lefts, 0) \<and>
    slept naps (sleep_duration ms # lefts) = uint ms * 1000000 \<and>
    (case benchmark_resource_sample backend scope connections env ms of
       None \<Rightarrow> True
     | Some (lines, st) \<Rightarrow>
         (st = 0 \<and> length lines = 2 \<and>
            (\<exists>requests. sleep_ms (se_naps env) ms = Some (requests, 0) \<and>
               slept (se_naps env) requests = uint ms * 1000000)) \<or>
         (st = -1 \<and> length lines \<le> 1))"
proof (intro conjI)
  have sleep: "sleep_ms naps ms = Some (sleep_duration ms # lefts, 0)"
    unfolding assms(14) by (rule sleep_ms_interrupted)
  then show "sleep_ms naps ms = Some (sleep_duration ms # lefts, 0)" .
  from sleep_ms_total [OF sleep] show "slept naps (sleep_duration ms # lefts) = uint ms * 1000000" .
  have n: "(of_nat n :: u64) \<noteq> 0" using u64_of_nat_zero [OF assms(12)] assms(11) by simp
  have "resident_pages server * page < 2 ^ 64" using assms(6) by simp
  then have share: "(of_nat (resident_pages server * page) :: u64) div of_nat n =
      of_nat (resident_pages server * page div n)"
    using assms(12) le_less_trans [OF div_le_dividend, of "resident_pages server * page" "2 ^ 64" n]
    by (simp add: word_unat_eq_iff unat_div unat_of_nat del: of_nat_mult)
  have minus: "(of_nat b :: u64) - of_nat a = of_nat (b - a)" if "a \<le> b" for a b using that by (simp add: of_nat_diff)
  show "benchmark_resource_sample backend scope (of_nat n) (sampled_env page naps client server client' server') ms =
      Some ([Rss_Line backend scope (of_nat n) ms (of_nat (resident_pages client * page))
               (of_nat (resident_pages server * page))
               (of_nat (resident_pages client * page + resident_pages server * page))
               (of_nat (resident_pages server * page div n)),
             Switches_Line backend (scope @ ''-scheduler'') (of_nat n) ms
               (of_nat (pt_voluntary client' - pt_voluntary client))
               (of_nat (pt_involuntary client' - pt_involuntary client))
               (of_nat (pt_voluntary server' - pt_voluntary server))
               (of_nat (pt_involuntary server' - pt_involuntary server))], 0)"
    using assms(1-5,7-10,13) sleep n
    by (simp add: benchmark_resource_sample_def sample_switches_def sampled_env_def resident_statm_of
        context_switches_status_of Let_def share minus of_nat_add del: of_nat_mult of_nat_diff)
  show "case benchmark_resource_sample backend scope connections env ms of
       None \<Rightarrow> True
     | Some (lines, st) \<Rightarrow>
         (st = 0 \<and> length lines = 2 \<and>
            (\<exists>requests. sleep_ms (se_naps env) ms = Some (requests, 0) \<and>
               slept (se_naps env) requests = uint ms * 1000000)) \<or>
         (st = -1 \<and> length lines \<le> 1)"
    using sample_lines [of backend scope connections env ms] assms(13)
    by (auto simp: whole_sleep_def split: option.split prod.split)
qed

definition tiny_proc :: "nat \<Rightarrow> nat \<Rightarrow> nat \<Rightarrow> proc_text" where
  "tiny_proc resident v i = \<lparr>pt_statm = (900, resident, ''57 1''), pt_lines = ([''Name: peer'' @ [newline]], [], []),
     pt_voluntary = v, pt_involuntary = i\<rparr>"

lemma tiny_proc_ok: "resident < 100 \<Longrightarrow> v < 100 \<Longrightarrow> i < 100 \<Longrightarrow> proc_ok (tiny_proc resident v i)"
  by (simp add: proc_ok_def tiny_proc_def other_line_def whole_line_def scan_field_def newline_def)

theorem resource_sample_exact_witness:
  "benchmark_resource_sample ''libwayland'' ''idle'' 4
     (sampled_env 4096 [Nap_Interrupted (1, 0), Slept] (tiny_proc 10 3 1) (tiny_proc 20 5 0) (tiny_proc 10 7 1)
        (tiny_proc 20 6 2)) 1500 =
     Some ([Rss_Line ''libwayland'' ''idle'' 4 1500 40960 81920 122880 20480,
            Switches_Line ''libwayland'' ''idle-scheduler'' 4 1500 4 0 1 2], 0) \<and>
   slept [Nap_Interrupted (1, 0), Slept] [(1, 500000000), (1, 0)] = 1500000000"
  using resource_sample_exact [OF tiny_proc_ok [of 10 3 1] tiny_proc_ok [of 20 5 0] tiny_proc_ok [of 10 7 1]
      tiny_proc_ok [of 20 6 2], of 4096 4 1500 "[Nap_Interrupted (1, 0), Slept]" "[(1, 0)]" "[]"
      "''libwayland''" "''idle''"]
  by (simp add: tiny_proc_def sleep_duration_def)

end
