(* ===== verification/Bench_Interleaving.thy ===== *)
theory Bench_Interleaving
  imports Bench_Server Wayland_Client
begin

text \<open>
  Many clients of one benchmark server (\<open>benchmark_server_multi\<close> of \<open>src/bench/libwayland-server.c\<close>): what
  they send arrives in any order, and the server treats each of them as a server of its own would. A
  single-client server knows its client as pointer 0; client \<open>i\<close> of \<open>n\<close> and its resources are placed at the
  pointers congruent to \<open>i\<close>.
\<close>

section \<open>Placing clients side by side\<close>

definition place :: "nat \<Rightarrow> nat \<Rightarrow> resource \<Rightarrow> resource" where
  "place n i r = r * n + i"

fun relabel_request :: "nat \<Rightarrow> nat \<Rightarrow> bench_request \<Rightarrow> bench_request" where
  "relabel_request n i (BR_Bind c version rid allocated) = BR_Bind (place n i c) version rid allocated"
| "relabel_request n i (BR_Ping r sequence) = BR_Ping (place n i r) sequence"
| "relabel_request n i (BR_Ping_Fd r sequence fd) = BR_Ping_Fd (place n i r) sequence fd"
| "relabel_request n i (BR_Client_Destroyed c) = BR_Client_Destroyed (place n i c)"

definition relabel :: "nat \<Rightarrow> nat \<times> bench_request input \<Rightarrow> bench_request input" where
  "relabel n x = (case x of (i, req, new) \<Rightarrow> (relabel_request n i req, map_option (place n i) new))"

text \<open>What client \<open>i\<close> sent, out of everything that arrived.\<close>

definition part_of :: "nat \<Rightarrow> (nat \<times> 'a) list \<Rightarrow> 'a list" where
  "part_of i xs = map snd (filter (\<lambda>x. fst x = i) xs)"

lemma part_of_simps [simp]:
  "part_of i [] = []"
  "part_of i (xs @ [(j, x)]) = (if j = i then part_of i xs @ [x] else part_of i xs)"
  by (simp_all add: part_of_def)

lemma place_inj [simp]:
  assumes "i < n" and "j < n"
  shows "place n i r = place n j s \<longleftrightarrow> i = j \<and> r = s"
proof
  have parts: "place n k x mod n = k" "place n k x div n = x" if "k < n" for k x
    using that by (simp_all add: place_def)
  assume "place n i r = place n j s"
  with parts [OF assms(1)] parts [OF assms(2)] show "i = j \<and> r = s" by metis
qed simp

lemma place_mod [simp]: "i < n \<Longrightarrow> place n i r mod n = i"
  by (simp add: place_def)

text \<open>Events carry the resource they are sent to.\<close>

fun relabel_event :: "nat \<Rightarrow> nat \<Rightarrow> bench_event \<Rightarrow> bench_event" where
  "relabel_event n i (BE_Pong r sequence) = BE_Pong (place n i r) sequence"
| "relabel_event n i (BE_Pong_Fd r sequence fd) = BE_Pong_Fd (place n i r) sequence fd"
| "relabel_event n i BE_Freed = BE_Freed"

fun to_client :: "nat \<Rightarrow> nat \<Rightarrow> bench_event \<Rightarrow> bool" where
  "to_client n i (BE_Pong r sequence) = (r mod n = i)"
| "to_client n i (BE_Pong_Fd r sequence fd) = (r mod n = i)"
| "to_client n i BE_Freed = False"

lemma events_to_client:
  "i < n \<Longrightarrow> list_all (\<lambda>e. e \<noteq> BE_Freed) es \<Longrightarrow> filter (to_client n j) (map (relabel_event n i) es) =
     (if j = i then map (relabel_event n i) es else [])"
proof (induction es)
  case (Cons e es)
  then show ?case by (cases e) auto
qed simp

lemma sent_destroys [simp]: "sent (map Destroy rs) = []"
  by (induction rs) auto

lemma place_cases:
  assumes "0 < (n :: nat)"
  obtains i r where "i < n" "x = place n i r"
proof -
  have "x mod n < n" "x = place n (x mod n) (x div n)" using assms by (simp_all add: place_def)
  then show thesis by (rule that)
qed

section \<open>The product of the sessions\<close>

type_synonym bench_ss = "(bench_server, bench_request, bench_event) session"

definition product :: "nat \<Rightarrow> (nat \<Rightarrow> bench_ss) \<Rightarrow> bench_ss \<Rightarrow> bool" where
  "product n ss M \<longleftrightarrow>
     (\<forall>i<n. \<forall>r. ss_live M (place n i r) = ss_live (ss i) r \<and>
        bs_user_data (ss_state M) (place n i r) = map_option (place n i) (bs_user_data (ss_state (ss i)) r) \<and>
        bs_connections (ss_state M) (place n i r) = bs_connections (ss_state (ss i)) r) \<and>
     (\<forall>i<n. filter (to_client n i) (sent (ss_calls M)) = map (relabel_event n i) (sent (ss_calls (ss i)))) \<and>
     bs_expected_clients (ss_state M) = n \<and>
     bs_destroyed_clients (ss_state M) = (\<Sum>i<n. bs_destroyed_clients (ss_state (ss i))) \<and>
     bs_received (ss_state M) = (\<Sum>i<n. bs_received (ss_state (ss i))) \<and>
     bs_valid (ss_state M) = (\<forall>i<n. bs_valid (ss_state (ss i))) \<and>
     terminated M = (bs_destroyed_clients (ss_state M) = n) \<and> bench_inv (ss_state M) (ss_live M) \<and>
     (\<forall>i<n. bs_expected_clients (ss_state (ss i)) = 1 \<and> bs_destroyed_clients (ss_state (ss i)) \<le> 1 \<and>
        terminated (ss i) = (bs_destroyed_clients (ss_state (ss i)) = 1) \<and>
        bench_inv (ss_state (ss i)) (ss_live (ss i)) \<and> clients_of (ss_live (ss i)) \<subseteq> {0} \<and>
        (bs_destroyed_clients (ss_state (ss i)) = 1 \<longrightarrow> clients_of (ss_live (ss i)) = {}))"

lemma product_start: "0 < n \<Longrightarrow> product n (\<lambda>i. bench_start 1) (bench_start n)"
proof -
  assume "0 < n"
  moreover have "place n i r < n \<longleftrightarrow> r = 0" if "i < n" for i r
    using that by (cases r) (auto simp: place_def)
  ultimately show ?thesis
    by (auto simp: product_def bench_start_def start_session_def bench_server_init_def terminated_def bench_inv_def
        clients_of_def)
qed

text \<open>One session changes.\<close>

lemma sum_change:
  fixes f :: "'a \<Rightarrow> 'b :: ab_group_add"
  assumes "i < (n :: nat)"
  shows "(\<Sum>j<n. f ((g(i := x)) j)) = (\<Sum>j<n. f (g j)) + (f x - f (g i))"
proof -
  have "(\<Sum>j<n. f ((g(i := x)) j)) = f x + (\<Sum>j \<in> {..<n} - {i}. f (g j))"
    using assms by (subst sum.remove [of "{..<n}" i]) (auto intro!: sum.cong)
  moreover have "(\<Sum>j<n. f (g j)) = f (g i) + (\<Sum>j \<in> {..<n} - {i}. f (g j))"
    using assms by (subst sum.remove [of "{..<n}" i]) auto
  ultimately show ?thesis by simp
qed

lemma sum_change_nat:
  fixes f :: "'a \<Rightarrow> nat"
  assumes "i < (n :: nat)"
  shows "(\<Sum>j<n. f ((g(i := x)) j)) + f (g i) = (\<Sum>j<n. f (g j)) + f x"
proof -
  have "(\<Sum>j<n. f ((g(i := x)) j)) = f x + (\<Sum>j \<in> {..<n} - {i}. f (g j))"
    using assms by (subst sum.remove [of "{..<n}" i]) (auto intro!: sum.cong)
  moreover have "(\<Sum>j<n. f (g j)) = f (g i) + (\<Sum>j \<in> {..<n} - {i}. f (g j))"
    using assms by (subst sum.remove [of "{..<n}" i]) auto
  ultimately show ?thesis by simp
qed

text \<open>A session that is over takes nothing more.\<close>

lemma over_not_deliverable:
  assumes "bench_inv s live" and "clients_of live = {}"
  shows "\<not> deliverable bench_args i live"
proof -
  have none: "live c \<noteq> Some ''wl_client''" for c using assms(2) by (auto simp: clients_of_def)
  with assms(1) have "bs_connections s c = None" for c by (simp add: bench_inv_def)
  with assms(1) have "live r \<noteq> Some bench_interface" for r
    by (auto simp: bench_inv_def connected_def split: option.splits)
  with none show ?thesis by (cases "fst i") (auto simp: deliverable_def)
qed

lemma deliverable_relabel:
  assumes "\<And>r. live' (place n i r) = live r"
  shows "deliverable bench_args (relabel n (i, x)) live' = deliverable bench_args x live"
proof -
  obtain req new where x: "x = (req, new)" by fastforce
  show ?thesis
    unfolding x by (cases req; cases new) (simp_all add: relabel_def deliverable_def assms)
qed

text \<open>Sessions go on, whatever arrives.\<close>

lemma deliver_exists:
  assumes "bench_inv (ss_state ss) (ss_live ss)"
  shows "\<exists>ss'. deliver (bench_handle opts) bench_args bench_uses x ss = Some ss' \<and>
    bench_inv (ss_state ss') (ss_live ss') \<and> clients_of (ss_live ss') \<subseteq> clients_of (ss_live ss)"
proof (cases "deliverable bench_args x (ss_live ss) \<and> \<not> terminated ss")
  case True
  obtain s' calls where h: "bench_handle opts (fst x) (snd x) (ss_state ss) = (s', calls)" by fastforce
  have "exist (bench_args (fst x)) (ss_live ss)" "\<forall>r. snd x = Some r \<longrightarrow> ss_live ss r = None"
    using True by (auto simp: deliverable_def exist_def)
  from bench_guarded.handle_guarded [OF TrueI assms this h] obtain live' where
    e: "exec_calls bench_uses calls (ss_live ss) = Some live'" "bench_inv s' live'" by blast
  have "\<not> list_ex (creates ''wl_client'') calls" using bench_creates [of opts "fst x" "snd x" "ss_state ss"] h by simp
  with True h e clients_shrink [OF e(1)] show ?thesis by (simp add: deliver_def clients_of_def)
next
  case False
  with assms show ?thesis by (auto simp: deliver_def)
qed

text \<open>What a delivered request has to do on both sides.\<close>

lemma product_change:
  assumes "product n ss M" and "i < n"
    and inv: "bench_inv (ss_state s1) (ss_live s1)" "bench_inv (ss_state M1) (ss_live M1)"
    and clients: "clients_of (ss_live s1) \<subseteq> clients_of (ss_live (ss i))"
    and parts: "\<And>j r. j < n \<Longrightarrow> ss_live M1 (place n j r) = ss_live ((ss(i := s1)) j) r"
      "\<And>j r. j < n \<Longrightarrow> bs_user_data (ss_state M1) (place n j r) =
         map_option (place n j) (bs_user_data (ss_state ((ss(i := s1)) j)) r)"
      "\<And>j r. j < n \<Longrightarrow> bs_connections (ss_state M1) (place n j r) = bs_connections (ss_state ((ss(i := s1)) j)) r"
    and calls: "ss_calls s1 = ss_calls (ss i) @ c" "ss_calls M1 = ss_calls M @ cM"
      "sent cM = map (relabel_event n i) (sent c)" "list_all (\<lambda>e. e \<noteq> BE_Freed) (sent c)"
    and expected: "bs_expected_clients (ss_state M1) = bs_expected_clients (ss_state M)"
      "bs_expected_clients (ss_state s1) = bs_expected_clients (ss_state (ss i))"
    and destroyed: "bs_destroyed_clients (ss_state M1) = bs_destroyed_clients (ss_state M) + d"
      "bs_destroyed_clients (ss_state s1) = bs_destroyed_clients (ss_state (ss i)) + d"
    and received: "bs_received (ss_state M1) = bs_received (ss_state M) + e"
      "bs_received (ss_state s1) = bs_received (ss_state (ss i)) + e"
    and valid: "bs_valid (ss_state M1) = (bs_valid (ss_state M) \<and> v)"
      "bs_valid (ss_state s1) = (bs_valid (ss_state (ss i)) \<and> v)"
    and over: "terminated s1 = (bs_destroyed_clients (ss_state s1) = 1)"
      "terminated M1 = (bs_destroyed_clients (ss_state M1) = n)" "bs_destroyed_clients (ss_state s1) \<le> 1"
      "bs_destroyed_clients (ss_state s1) = 1 \<Longrightarrow> clients_of (ss_live s1) = {}"
  shows "product n (ss(i := s1)) M1"
proof -
  note P = assms(1) [unfolded product_def]
  have "bs_destroyed_clients (ss_state M1) = (\<Sum>j<n. bs_destroyed_clients (ss_state ((ss(i := s1)) j)))"
    using P sum_change_nat [OF assms(2), of "\<lambda>s. bs_destroyed_clients (ss_state s)" ss s1] destroyed by simp
  moreover have "bs_received (ss_state M1) = (\<Sum>j<n. bs_received (ss_state ((ss(i := s1)) j)))"
    using P sum_change [OF assms(2), of "\<lambda>s. bs_received (ss_state s)" ss s1] received by simp
  moreover have "bs_valid (ss_state M1) = (\<forall>j<n. bs_valid (ss_state ((ss(i := s1)) j)))"
    using P valid assms(2) by auto
  moreover have "\<forall>j<n. bs_expected_clients (ss_state ((ss(i := s1)) j)) = 1 \<and>
      bs_destroyed_clients (ss_state ((ss(i := s1)) j)) \<le> 1 \<and>
      terminated ((ss(i := s1)) j) = (bs_destroyed_clients (ss_state ((ss(i := s1)) j)) = 1) \<and>
      bench_inv (ss_state ((ss(i := s1)) j)) (ss_live ((ss(i := s1)) j)) \<and>
      clients_of (ss_live ((ss(i := s1)) j)) \<subseteq> {0} \<and>
      (bs_destroyed_clients (ss_state ((ss(i := s1)) j)) = 1 \<longrightarrow> clients_of (ss_live ((ss(i := s1)) j)) = {})"
  proof (intro allI impI)
    fix j assume "j < n"
    show "bs_expected_clients (ss_state ((ss(i := s1)) j)) = 1 \<and>
      bs_destroyed_clients (ss_state ((ss(i := s1)) j)) \<le> 1 \<and>
      terminated ((ss(i := s1)) j) = (bs_destroyed_clients (ss_state ((ss(i := s1)) j)) = 1) \<and>
      bench_inv (ss_state ((ss(i := s1)) j)) (ss_live ((ss(i := s1)) j)) \<and>
      clients_of (ss_live ((ss(i := s1)) j)) \<subseteq> {0} \<and>
      (bs_destroyed_clients (ss_state ((ss(i := s1)) j)) = 1 \<longrightarrow> clients_of (ss_live ((ss(i := s1)) j)) = {})"
    proof (cases "j = i")
      case True
      have "clients_of (ss_live s1) \<subseteq> {0}" using clients P assms(2) by blast
      with True P assms(2) inv(1) expected(2) over show ?thesis by simp
    next
      case False
      with P \<open>j < n\<close> show ?thesis by simp
    qed
  qed
  moreover have "\<forall>j<n. filter (to_client n j) (sent (ss_calls M1)) =
      map (relabel_event n j) (sent (ss_calls ((ss(i := s1)) j)))"
    using P assms(2) calls by (auto simp: events_to_client)
  ultimately show ?thesis unfolding product_def using parts inv(2) expected(1) P over(2) by simp
qed

text \<open>A delivered request: the new session is what the handler makes of it.\<close>

lemma deliver_delivered:
  assumes "deliver (bench_handle opts) bench_args bench_uses (req, new) ss = Some ss'"
    and "deliverable bench_args (req, new) (ss_live ss)" and "\<not> terminated ss"
  shows "ss_state ss' = fst (bench_handle opts req new (ss_state ss))"
    and "ss_calls ss' = ss_calls ss @ snd (bench_handle opts req new (ss_state ss))"
    and "exec_calls bench_uses (snd (bench_handle opts req new (ss_state ss))) (ss_live ss) = Some (ss_live ss')"
    and "terminated ss' = list_ex is_terminate (snd (bench_handle opts req new (ss_state ss)))"
  using assms by (auto simp: deliver_def terminated_def split: prod.splits option.splits)

definition joint_step :: "benchmark_options \<Rightarrow> nat \<Rightarrow> (nat \<Rightarrow> bench_ss) \<Rightarrow> bench_ss \<Rightarrow> nat \<Rightarrow> bench_request \<Rightarrow>
    resource option \<Rightarrow> bench_ss \<Rightarrow> bench_ss \<Rightarrow> bool" where
  "joint_step opts n ss M i req new s1 M1 \<longleftrightarrow>
     product n ss M \<and> i < n \<and> deliver (bench_handle opts) bench_args bench_uses (req, new) (ss i) = Some s1 \<and>
     deliver (bench_handle opts) bench_args bench_uses (relabel n (i, req, new)) M = Some M1 \<and>
     deliverable bench_args (req, new) (ss_live (ss i)) \<and> \<not> terminated (ss i)"

lemma joint_step_open:
  assumes "joint_step opts n ss M i req new s1 M1"
  shows "bs_destroyed_clients (ss_state (ss i)) = 0" and "bs_destroyed_clients (ss_state M) < n"
    and "\<not> terminated M" and "deliverable bench_args (relabel n (i, req, new)) (ss_live M)"
proof -
  from assms have P: "product n ss M" and i: "i < n" and can: "deliverable bench_args (req, new) (ss_live (ss i))"
    and running: "\<not> terminated (ss i)"
    by (simp_all add: joint_step_def)
  note P = P [unfolded product_def]
  show open_i: "bs_destroyed_clients (ss_state (ss i)) = 0"
    using P i running by (metis One_nat_def le_SucE le_zero_eq)
  have "(\<Sum>j<n. bs_destroyed_clients (ss_state (ss j))) < (\<Sum>j<n. 1)"
    using P i open_i by (intro sum_strict_mono_ex1) auto
  then show "bs_destroyed_clients (ss_state M) < n" using P by simp
  then show "\<not> terminated M" using P by simp
  show "deliverable bench_args (relabel n (i, req, new)) (ss_live M)"
    using can P i by (subst deliverable_relabel [of _ n i "ss_live (ss i)"]) auto
qed

lemma joint_step_states:
  assumes "joint_step opts n ss M i req new s1 M1"
  shows "ss_state s1 = fst (bench_handle opts req new (ss_state (ss i)))"
    and "exec_calls bench_uses (snd (bench_handle opts req new (ss_state (ss i)))) (ss_live (ss i)) = Some (ss_live s1)"
    and "terminated s1 = list_ex is_terminate (snd (bench_handle opts req new (ss_state (ss i))))"
    and "ss_state M1 = fst (bench_handle opts (relabel_request n i req) (map_option (place n i) new) (ss_state M))"
    and "exec_calls bench_uses (snd (bench_handle opts (relabel_request n i req) (map_option (place n i) new)
      (ss_state M))) (ss_live M) = Some (ss_live M1)"
    and "terminated M1 = list_ex is_terminate
      (snd (bench_handle opts (relabel_request n i req) (map_option (place n i) new) (ss_state M)))"
    and "bench_inv (ss_state s1) (ss_live s1)" and "bench_inv (ss_state M1) (ss_live M1)"
    and "clients_of (ss_live s1) \<subseteq> clients_of (ss_live (ss i))"
    and "ss_calls s1 = ss_calls (ss i) @ snd (bench_handle opts req new (ss_state (ss i)))"
    and "ss_calls M1 = ss_calls M @
      snd (bench_handle opts (relabel_request n i req) (map_option (place n i) new) (ss_state M))"
proof -
  have d: "deliver (bench_handle opts) bench_args bench_uses (req, new) (ss i) = Some s1"
    "deliverable bench_args (req, new) (ss_live (ss i))" "\<not> terminated (ss i)"
    "deliver (bench_handle opts) bench_args bench_uses
       (relabel_request n i req, map_option (place n i) new) M = Some M1"
    "deliverable bench_args (relabel_request n i req, map_option (place n i) new) (ss_live M)" "\<not> terminated M"
    and P: "product n ss M" "i < n"
    using assms joint_step_open [OF assms] by (simp_all add: joint_step_def relabel_def)
  show "ss_state s1 = fst (bench_handle opts req new (ss_state (ss i)))"
    "exec_calls bench_uses (snd (bench_handle opts req new (ss_state (ss i)))) (ss_live (ss i)) = Some (ss_live s1)"
    "terminated s1 = list_ex is_terminate (snd (bench_handle opts req new (ss_state (ss i))))"
    "ss_calls s1 = ss_calls (ss i) @ snd (bench_handle opts req new (ss_state (ss i)))"
    using deliver_delivered [OF d(1-3)] by simp_all
  show "ss_state M1 = fst (bench_handle opts (relabel_request n i req) (map_option (place n i) new) (ss_state M))"
    "exec_calls bench_uses (snd (bench_handle opts (relabel_request n i req) (map_option (place n i) new)
      (ss_state M))) (ss_live M) = Some (ss_live M1)"
    "terminated M1 = list_ex is_terminate
      (snd (bench_handle opts (relabel_request n i req) (map_option (place n i) new) (ss_state M)))"
    "ss_calls M1 = ss_calls M @
      snd (bench_handle opts (relabel_request n i req) (map_option (place n i) new) (ss_state M))"
    using deliver_delivered [OF d(4-6)] by simp_all
  have "bench_inv (ss_state (ss i)) (ss_live (ss i))" "bench_inv (ss_state M) (ss_live M)"
    using P by (simp_all add: product_def)
  with deliver_exists [of "ss i" opts "(req, new)"]
    deliver_exists [of M opts "(relabel_request n i req, map_option (place n i) new)"]
  show "bench_inv (ss_state s1) (ss_live s1)" "bench_inv (ss_state M1) (ss_live M1)"
    "clients_of (ss_live s1) \<subseteq> clients_of (ss_live (ss i))"
    using d(1,4) by auto
qed

section \<open>One request\<close>

text \<open>What a ping does depends on the connection only.\<close>

definition pinged :: "benchmark_options \<Rightarrow> bench_connection \<Rightarrow> bench_connection" where
  "pinged opts conn =
     (let k = conn\<lparr>bc_received := bc_received conn + 1\<rparr>
      in if \<not> opt_latency opts \<and> bc_received k = bc_next_ack k \<and> bc_next_ack k \<noteq> bc_final_ack k
         then k\<lparr>bc_next_ack := bc_final_ack k\<rparr> else k)"

definition ping_answered :: "benchmark_options \<Rightarrow> bench_connection \<Rightarrow> bool" where
  "ping_answered opts conn \<longleftrightarrow> opt_latency opts \<or> bc_received conn + 1 = bc_next_ack conn"

lemma bench_ping_effect:
  assumes "bs_user_data s r = Some c" and "bs_connections s c = Some conn"
  shows "bench_ping opts r sequence s =
    (s\<lparr>bs_received := bs_received s + 1, bs_valid := (bs_valid s \<and> \<not> bc_received conn + 1 > bc_final_ack conn),
       bs_connections := (bs_connections s)(c \<mapsto> pinged opts conn)\<rparr>,
     if ping_answered opts conn then [Send (BE_Pong r sequence)] else [])"
  using assms by (simp add: bench_ping_def Let_def pinged_def ping_answered_def)

lemma joint_ping:
  assumes "joint_step opts n ss M i (BR_Ping r sequence) new s1 M1"
  shows "product n (ss(i := s1)) M1"
proof -
  note S = joint_step_states [OF assms, simplified]
  have P: "product n ss M" and i: "i < n" and "ss_live (ss i) r = Some bench_interface"
    using assms by (simp_all add: joint_step_def deliverable_def)
  moreover have inv: "bench_inv (ss_state (ss i)) (ss_live (ss i))" using P i by (simp add: product_def)
  ultimately have "connected (ss_state (ss i)) r" by (auto simp: bench_inv_def)
  then obtain c conn where c: "bs_user_data (ss_state (ss i)) r = Some c" "bs_connections (ss_state (ss i)) c = Some conn"
    by (auto simp: connected_def split: option.splits)
  then have cM: "bs_user_data (ss_state M) (place n i r) = Some (place n i c)"
    "bs_connections (ss_state M) (place n i c) = Some conn"
    using P i by (simp_all add: product_def)
  note E = bench_ping_effect [OF c, of opts sequence] and EM = bench_ping_effect [OF cM, of opts sequence]
  have live: "ss_live s1 = ss_live (ss i)" "ss_live M1 = ss_live M"
    using S(2,5) by (simp_all add: E EM split: if_splits)
  note P' = P [unfolded product_def] and O = joint_step_open [OF assms]
  show ?thesis
  proof (rule product_change [OF P i S(7,8,9) _ _ _ S(10,11), where d = 0 and e = 1 and v = "\<not> bc_received conn + 1 > bc_final_ack conn"])
    fix j x assume j: "j < n"
    show "ss_live M1 (place n j x) = ss_live ((ss(i := s1)) j) x" using P' j by (simp add: live)
    show "bs_user_data (ss_state M1) (place n j x) = map_option (place n j) (bs_user_data (ss_state ((ss(i := s1)) j)) x)"
      using P' j by (simp add: S(1,4) E EM)
    show "bs_connections (ss_state M1) (place n j x) = bs_connections (ss_state ((ss(i := s1)) j)) x"
      using P' i j by (simp add: S(1,4) E EM)
  qed (use O in \<open>simp_all add: S(1,3,4,6) E EM\<close>)
qed

lemma joint_ping_fd:
  assumes "joint_step opts n ss M i (BR_Ping_Fd r sequence fd) new s1 M1"
  shows "product n (ss(i := s1)) M1"
proof -
  note S = joint_step_states [OF assms, simplified]
  have P: "product n ss M" and i: "i < n" using assms by (simp_all add: joint_step_def)
  have live: "ss_live s1 = ss_live (ss i)" "ss_live M1 = ss_live M"
    using S(2,5) by (simp_all add: bench_ping_fd_def split: if_splits)
  note P' = P [unfolded product_def] and O = joint_step_open [OF assms]
  show ?thesis
  proof (rule product_change [OF P i S(7,8,9) _ _ _ S(10,11), where d = 0 and e = 0 and v = True])
    fix j x assume "j < n"
    with P' show "ss_live M1 (place n j x) = ss_live ((ss(i := s1)) j) x"
      "bs_user_data (ss_state M1) (place n j x) = map_option (place n j) (bs_user_data (ss_state ((ss(i := s1)) j)) x)"
      "bs_connections (ss_state M1) (place n j x) = bs_connections (ss_state ((ss(i := s1)) j)) x"
      by (simp_all add: live S(1,4) bench_ping_fd_def)
  qed (use O in \<open>simp_all add: S(1,3,4,6) bench_ping_fd_def\<close>)
qed

text \<open>A binding fails without memory; otherwise the client has a connection, the old one or a new one.\<close>

definition bound :: "benchmark_options \<Rightarrow> bench_connection option \<Rightarrow> bench_connection" where
  "bound opts conn = (case conn of
     None \<Rightarrow> \<lparr>bc_received = 0, bc_next_ack = opt_warmup opts, bc_final_ack = opt_warmup opts + opt_messages opts\<rparr>
   | Some k \<Rightarrow> k)"

lemma bench_bind_effect:
  "fst (bench_bind opts c version rid allocated new s) =
     (case new of None \<Rightarrow> s
      | Some r \<Rightarrow>
          if bs_connections s c = None \<and> \<not> allocated then s
          else s\<lparr>bs_connections := (bs_connections s)(c \<mapsto> bound opts (bs_connections s c)),
                 bs_user_data := (bs_user_data s)(r \<mapsto> c), bs_resources := r # bs_resources s\<rparr>)"
  "\<not> list_ex is_terminate (snd (bench_bind opts c version rid allocated new s)) \<and>
     sent (snd (bench_bind opts c version rid allocated new s)) = []"
  "exec_calls bench_uses (snd (bench_bind opts c version rid allocated new s)) live = Some live' \<Longrightarrow>
     live' = (case new of None \<Rightarrow> live
      | Some r \<Rightarrow> live(r \<mapsto> if bs_connections s c = None \<and> \<not> allocated then ''unimplemented'' else bench_interface))"
  by (cases "bs_connections s c"; cases allocated; cases new; auto simp: bench_bind_def bound_def Let_def)+

lemma joint_bind:
  assumes "joint_step opts n ss M i (BR_Bind c version rid allocated) new s1 M1"
  shows "product n (ss(i := s1)) M1"
proof -
  note S = joint_step_states [OF assms, unfolded bench_handle.simps relabel_request.simps]
  have P: "product n ss M" and i: "i < n" using assms by (simp_all add: joint_step_def)
  note P' = P [unfolded product_def] and O = joint_step_open [OF assms]
  have conn: "bs_connections (ss_state M) (place n i c) = bs_connections (ss_state (ss i)) c" using P' i by simp
  note L = bench_bind_effect(3) [OF S(2)] and LM = bench_bind_effect(3) [OF S(5)]
  note E = bench_bind_effect(1)
  show ?thesis
  proof (rule product_change [OF P i S(7,8,9) _ _ _ S(10,11), where d = 0 and e = 0 and v = True])
    fix j x assume j: "j < n"
    have old: "ss_live M (place n j x) = ss_live (ss j) x"
      "bs_user_data (ss_state M) (place n j x) = map_option (place n j) (bs_user_data (ss_state (ss j)) x)"
      "bs_connections (ss_state M) (place n j x) = bs_connections (ss_state (ss j)) x"
      using P' j by simp_all
    show "ss_live M1 (place n j x) = ss_live ((ss(i := s1)) j) x"
      using i j by (cases new) (auto simp: L LM conn old)
    show "bs_user_data (ss_state M1) (place n j x) = map_option (place n j) (bs_user_data (ss_state ((ss(i := s1)) j)) x)"
      using i j by (cases new) (auto simp: S(1,4) E conn old)
    show "bs_connections (ss_state M1) (place n j x) = bs_connections (ss_state ((ss(i := s1)) j)) x"
      using i j by (cases new) (auto simp: S(1,4) E conn old)
  qed (use O(1,2) in \<open>simp_all add: S(1,3,4,6) E bench_bind_effect(2) conn split: option.splits if_splits\<close>)
qed

text \<open>A client goes.\<close>

lemma bench_gone_effect:
  assumes "bench_inv s live" and "live c = Some ''wl_client''"
    and "exec_calls bench_uses (snd (bench_client_gone c s)) live = Some live'"
  shows "live' = (\<lambda>r. if r = c \<or> bs_connections s c \<noteq> None \<and> live r = Some bench_interface \<and> bs_user_data s r = Some c
    then None else live r)"
proof (cases "bs_connections s c")
  case None
  with assms(3) show ?thesis by (auto simp: bench_client_gone_def fun_eq_iff assms(2))
next
  case (Some conn)
  have "r \<in> set (owned s c) \<longleftrightarrow> live r = Some bench_interface \<and> bs_user_data s r = Some c" for r
    using assms(1) by (auto simp: owned_def bench_inv_def)
  moreover have "exec_calls bench_uses (snd (bench_client_gone c s)) live =
      Some ((\<lambda>r. if r \<in> set (owned s c) then None else live r)(c := None))"
    using bench_destroys [OF assms(1,2)]
    by (simp add: bench_client_gone_def bench_client_destroy_def Let_def Some)
  with assms(3) have "live' = (\<lambda>r. if r \<in> set (owned s c) then None else live r)(c := None)" by simp
  ultimately show ?thesis by (simp add: Some fun_eq_iff)
qed

lemma joint_gone:
  assumes "joint_step opts n ss M i (BR_Client_Destroyed c) new s1 M1"
  shows "product n (ss(i := s1)) M1"
proof -
  note S = joint_step_states [OF assms, unfolded bench_handle.simps relabel_request.simps]
  have P: "product n ss M" and i: "i < n" and c: "ss_live (ss i) c = Some ''wl_client''"
    using assms by (simp_all add: joint_step_def deliverable_def)
  note P' = P [unfolded product_def] and O = joint_step_open [OF assms]
  have cM: "ss_live M (place n i c) = Some ''wl_client''" using P' i c by simp
  have conn: "bs_connections (ss_state M) (place n i c) = bs_connections (ss_state (ss i)) c" using P' i by simp
  have inv: "bench_inv (ss_state (ss i)) (ss_live (ss i))" "bench_inv (ss_state M) (ss_live M)" using P' i by simp_all
  note L = bench_gone_effect [OF inv(1) c S(2)] and LM = bench_gone_effect [OF inv(2) cM S(5)]
  have none: "clients_of (ss_live s1) = {}"
  proof -
    have "clients_of (ss_live (ss i)) \<subseteq> {0}" using P' i by simp
    moreover have "c \<in> clients_of (ss_live (ss i))" using c by (simp add: clients_of_def)
    ultimately have "clients_of (ss_live s1) \<subseteq> {c}" using S(9) by blast
    moreover have "ss_live s1 c = None" by (simp add: L)
    ultimately show ?thesis by (auto simp: clients_of_def)
  qed
  have expected: "bs_expected_clients (ss_state (ss i)) = 1" "bs_expected_clients (ss_state M) = n"
    using P' i by simp_all
  let ?d = "case bs_connections (ss_state (ss i)) c of None \<Rightarrow> 0 | Some k \<Rightarrow> 1"
    and ?v = "case bs_connections (ss_state (ss i)) c of None \<Rightarrow> True | Some k \<Rightarrow> bc_received k = bc_final_ack k"
  note gone = bench_client_gone_def bench_client_destroy_def Let_def
  show ?thesis
  proof (rule product_change [OF P i S(7,8,9) _ _ _ S(10,11), where d = ?d and e = 0 and v = ?v])
    fix j x assume j: "j < n"
    have old: "ss_live M (place n j x) = ss_live (ss j) x"
      "bs_user_data (ss_state M) (place n j x) = map_option (place n j) (bs_user_data (ss_state (ss j)) x)"
      "bs_connections (ss_state M) (place n j x) = bs_connections (ss_state (ss j)) x"
      using P' j by simp_all
    show "ss_live M1 (place n j x) = ss_live ((ss(i := s1)) j) x"
      using i j by (auto simp: L LM conn old)
    show "bs_user_data (ss_state M1) (place n j x) = map_option (place n j) (bs_user_data (ss_state ((ss(i := s1)) j)) x)"
      using i j by (cases "bs_connections (ss_state (ss i)) c") (auto simp: S(1,4) gone conn old)
    show "bs_connections (ss_state M1) (place n j x) = bs_connections (ss_state ((ss(i := s1)) j)) x"
      using i j by (cases "bs_connections (ss_state (ss i)) c") (auto simp: S(1,4) gone conn old)
  qed (use O(1,2) none expected in \<open>simp_all add: S(1,3,4,6) gone conn split: option.split\<close>)
qed

section \<open>Any order\<close>

lemma joint_step_product:
  "joint_step opts n ss M i req new s1 M1 \<Longrightarrow> product n (ss(i := s1)) M1"
  by (cases req) (simp_all add: joint_ping joint_ping_fd joint_bind joint_gone)

lemma product_deliver:
  assumes P: "product n ss M" and i: "i < n"
  shows "\<exists>s1 M1. deliver (bench_handle opts) bench_args bench_uses x (ss i) = Some s1 \<and>
    deliver (bench_handle opts) bench_args bench_uses (relabel n (i, x)) M = Some M1 \<and> product n (ss(i := s1)) M1"
proof -
  obtain req new where x: "x = (req, new)" by fastforce
  note P' = P [unfolded product_def]
  have inv: "bench_inv (ss_state (ss i)) (ss_live (ss i))" "bench_inv (ss_state M) (ss_live M)" using P' i by simp_all
  obtain s1 where s1: "deliver (bench_handle opts) bench_args bench_uses x (ss i) = Some s1"
    using deliver_exists [OF inv(1)] by blast
  obtain M1 where M1: "deliver (bench_handle opts) bench_args bench_uses (relabel n (i, x)) M = Some M1"
    using deliver_exists [OF inv(2)] by blast
  have "product n (ss(i := s1)) M1"
  proof (cases "deliverable bench_args x (ss_live (ss i)) \<and> \<not> terminated (ss i)")
    case True
    with P i s1 M1 show ?thesis by (intro joint_step_product [of opts n ss M i req new]) (simp add: joint_step_def x)
  next
    case False
    have "terminated (ss i) \<Longrightarrow> clients_of (ss_live (ss i)) = {}" using P' i by blast
    then have "\<not> deliverable bench_args x (ss_live (ss i))"
      using False over_not_deliverable [OF inv(1)] by blast
    moreover have "ss_live M (place n i r) = ss_live (ss i) r" for r using P' i by blast
    then have "deliverable bench_args (relabel n (i, x)) (ss_live M) = deliverable bench_args x (ss_live (ss i))"
      by (rule deliverable_relabel)
    ultimately have "s1 = ss i" "M1 = M" using s1 M1 by (auto simp: deliver_def)
    with P show ?thesis by simp
  qed
  with s1 M1 show ?thesis by blast
qed

lemma product_session:
  assumes "0 < n"
  shows "list_all (\<lambda>x. fst x < n) xs \<Longrightarrow> \<exists>M. bench_session opts n (map (relabel n) xs) = Some M \<and>
    product n (\<lambda>i. the (bench_session opts 1 (part_of i xs))) M"
proof (induction xs rule: rev_induct)
  case Nil
  show ?case using product_start [OF assms] by (simp add: bench_session_def)
next
  case (snoc ix xs)
  obtain i x where ix: "ix = (i, x)" by (cases ix) blast
  with snoc obtain M where M: "bench_session opts n (map (relabel n) xs) = Some M"
    "product n (\<lambda>i. the (bench_session opts 1 (part_of i xs))) M" and i: "i < n" by auto
  from product_deliver [OF M(2) i, of opts x] obtain s1 M1 where
    s1: "deliver (bench_handle opts) bench_args bench_uses x (the (bench_session opts 1 (part_of i xs))) = Some s1"
    and M1: "deliver (bench_handle opts) bench_args bench_uses (relabel n (i, x)) M = Some M1"
    and P: "product n ((\<lambda>i. the (bench_session opts 1 (part_of i xs)))(i := s1)) M1" by blast
  obtain s where s: "bench_session opts 1 (part_of i xs) = Some s" using bench_session_exists by blast
  have "(\<lambda>i. the (bench_session opts 1 (part_of i xs)))(i := s1) =
      (\<lambda>j. the (bench_session opts 1 (part_of j (xs @ [ix]))))"
    using s s1 by (auto simp: ix bench_session_snoc)
  with P M M1 show ?case by (simp add: ix bench_session_snoc)
qed

text \<open>When all clients' servers succeed, so does the one server, without bounds on the number of requests.\<close>

lemma interleaving_success:
  assumes "0 < n" and "list_all (\<lambda>x. fst x < n) xs"
    and "\<forall>i<n. exits_with EXIT_SUCCESS (benchmark_server env opts (part_of i xs))"
  shows "exits_with EXIT_SUCCESS (benchmark_server_multi env opts n (map (relabel n) xs))"
proof -
  let ?ss = "\<lambda>i. the (bench_session opts 1 (part_of i xs))"
  from product_session [OF assms(1,2)] obtain M where M: "bench_session opts n (map (relabel n) xs) = Some M"
    "product n ?ss M" by blast
  note P = M(2) [unfolded product_def]
  have one: "env_ok env (length bench_globals) \<and> terminated (?ss i) \<and> bench_status opts 1 (ss_state (?ss i))"
    if i: "i < n" for i
  proof -
    obtain s where s: "bench_session opts 1 (part_of i xs) = Some s" using bench_session_exists by blast
    from assms(3) i have "exits_with EXIT_SUCCESS (benchmark_server env opts (part_of i xs))" by blast
    then show ?thesis
      unfolding benchmark_server_def benchmark_server_multi_def s server_program_success option.sel .
  qed
  have "terminated M" using P one by simp
  moreover have "bs_received (ss_state M) = (\<Sum>i<n. opt_warmup opts + opt_messages opts)"
    using P one by (simp add: bench_status_def)
  then have "bench_status opts n (ss_state M)" using P one by (simp add: bench_status_def mult.commute)
  ultimately show ?thesis
    using one [OF assms(1)] M(1) by (simp add: benchmark_server_multi_def server_program_success)
qed

section \<open>Properties\<close>

text \<open>C36: In whatever order the requests of \<open>n\<close> clients arrive, the server with \<open>n\<close> clients does for each of
  them what a server of its own would do: it sends the client the same events, the display terminates
  exactly when all of theirs would, and it exits with success exactly when every one of them would.\<close>

theorem bench_server_interleaves:
  assumes "plain_options opts" and "0 < n" and "list_all (\<lambda>x. fst x < n) xs" and "length xs < 2 ^ 64"
  shows "\<exists>M. bench_session opts n (map (relabel n) xs) = Some M \<and>
    (\<forall>i<n. \<exists>ss. bench_session opts 1 (part_of i xs) = Some ss \<and>
       filter (to_client n i) (sent (ss_calls M)) = map (relabel_event n i) (sent (ss_calls ss))) \<and>
    (terminated M \<longleftrightarrow> (\<forall>i<n. terminated (the (bench_session opts 1 (part_of i xs))))) \<and>
    (exits_with EXIT_SUCCESS (benchmark_server_multi env opts n (map (relabel n) xs)) \<longleftrightarrow>
       (\<forall>i<n. exits_with EXIT_SUCCESS (benchmark_server env opts (part_of i xs))))"
proof -
  let ?ss = "\<lambda>i. the (bench_session opts 1 (part_of i xs))"
  from product_session [OF assms(2,3)] obtain M where M: "bench_session opts n (map (relabel n) xs) = Some M"
    "product n ?ss M" by blast
  note P = M(2) [unfolded product_def]
  have single: "bench_session opts 1 (part_of i xs) = Some (?ss i)" for i
    using bench_session_exists [of opts 1 "part_of i xs"] by auto
  have "length (part_of i xs) \<le> length xs" for i by (simp add: part_of_def)
  then have small: "length (part_of i xs) < 2 ^ 64" for i using assms(4) by (rule le_less_trans)
  have over: "terminated M \<longleftrightarrow> (\<forall>i<n. terminated (?ss i))"
  proof
    assume "\<forall>i<n. terminated (?ss i)"
    then show "terminated M" using P by simp
  next
    assume "terminated M"
    then have all: "(\<Sum>i<n. bs_destroyed_clients (ss_state (?ss i))) = (\<Sum>i<n. 1)" using P by simp
    show "\<forall>i<n. terminated (?ss i)"
    proof (rule ccontr)
      assume "\<not> (\<forall>i<n. terminated (?ss i))"
      then obtain i where i: "i < n" "\<not> terminated (?ss i)" by blast
      have bound: "\<forall>j<n. bs_destroyed_clients (ss_state (?ss j)) \<le> 1" using P by blast
      moreover have "bs_destroyed_clients (ss_state (?ss i)) \<noteq> 1" using P i by blast
      ultimately have "bs_destroyed_clients (ss_state (?ss i)) < 1" using i(1) le_neq_implies_less by blast
      with bound i(1) have "(\<Sum>i<n. bs_destroyed_clients (ss_state (?ss i))) < (\<Sum>i<n. 1)"
        by (intro sum_strict_mono_ex1) auto
      with all show False by simp
    qed
  qed
  have multi: "exits_with EXIT_SUCCESS (benchmark_server_multi env opts n (map (relabel n) xs)) \<longleftrightarrow>
      env_ok env (length bench_globals) \<and> terminated M \<and> bs_valid (ss_state M)"
    using bench_status_valid [OF M(1) assms(1,2)] assms(4)
    by (auto simp: benchmark_server_multi_def server_program_success M(1))
  have one: "exits_with EXIT_SUCCESS (benchmark_server env opts (part_of i xs)) \<longleftrightarrow>
      env_ok env (length bench_globals) \<and> terminated (?ss i) \<and> bs_valid (ss_state (?ss i))" for i
  proof -
    obtain s where s: "bench_session opts 1 (part_of i xs) = Some s" using single by blast
    then have "bench_status opts 1 (ss_state s) = bs_valid (ss_state s)" if "terminated s"
      using bench_status_valid [OF s assms(1) zero_less_one small that] by simp
    then show ?thesis
      unfolding benchmark_server_def benchmark_server_multi_def s server_program_success option.sel by blast
  qed
  have "exits_with EXIT_SUCCESS (benchmark_server_multi env opts n (map (relabel n) xs)) \<longleftrightarrow>
       (\<forall>i<n. exits_with EXIT_SUCCESS (benchmark_server env opts (part_of i xs)))"
    unfolding multi one over using P assms(2) by blast
  moreover have "\<forall>i<n. \<exists>ss. bench_session opts 1 (part_of i xs) = Some ss \<and>
      filter (to_client n i) (sent (ss_calls M)) = map (relabel_event n i) (sent (ss_calls ss))"
    using single P by blast
  ultimately show ?thesis using M(1) over by blast
qed

text \<open>Two clients whose requests alternate.\<close>

definition alternating :: "(nat \<times> bench_request input) list" where
  "alternating = concat (map (\<lambda>x. [(0, x), (1, x)]) tiny_requests)"

theorem bench_server_interleaves_witness:
  "exits_with EXIT_SUCCESS (benchmark_server_multi demo_env tiny_options 2 (map (relabel 2) alternating))"
proof -
  have "part_of i alternating = tiny_requests" if "i < 2" for i
    using that by (auto simp: part_of_def alternating_def tiny_requests_def less_2_cases_iff)
  moreover have "plain_options tiny_options" "list_all (\<lambda>x. fst x < 2) alternating" "length alternating < 2 ^ 64"
    by (simp_all add: plain_options_def tiny_options_def default_options_def last_ping_def alternating_def
        tiny_requests_def)
  moreover have "exits_with EXIT_SUCCESS (benchmark_server demo_env tiny_options tiny_requests)"
    by (simp add: benchmark_server_def benchmark_server_multi_def server_program_success demo_env_def env_ok_def
        bench_session_def tiny_requests_def tiny_options_def default_options_def bench_start_def
        start_session_def bench_server_init_def deliver_def deliverable_def bench_handler_defs terminated_def
        owned_def bench_interface_def bench_status_def)
  ultimately show ?thesis
    using bench_server_interleaves [of tiny_options 2 alternating demo_env] by auto
qed

end
