(* ===== verification/Bench_Main.thy ===== *)
theory Bench_Main
  imports Bench_Client Bench_Resource Bench_Interleaving Raw_Peer
begin

text \<open>
  The main function of \<open>src/bench/libwayland-client.c\<close>: it reads its arguments, leaves the modes \<open>client-tx\<close>
  and \<open>client-rx\<close> to theory \<open>Raw_Peer\<close>, and otherwise forks the benchmark server, connects all clients, samples
  the processes when it is to be idle, runs the rounds or the two phases over all connections, prints, cleans
  up and waits for the server. Then it is put together with the server of theory \<open>Bench_Server\<close>, to which the
  requests of the clients arrive in any order.
\<close>

section \<open>The main function\<close>

text \<open>The lines that are printed to the standard output, as the values they show.\<close>

datatype main_line =
    ML_Sample sample_line
  | ML_Raw bench_mode u64 u32 u64
  | ML_Latency u64 u64 u64 string u64 u64 u64 u64
  | ML_Throughput u64 u32 u64 u32 u64

text \<open>
  What the system answers. \<open>mw_server\<close> is the exit status of the child once the clients are gone, \<open>None\<close> while
  it does not end; \<open>mw_mean\<close> is the mean of the samples as \<open>printf\<close> rounds it; connection \<open>k\<close> has the peer
  \<open>mw_peers k\<close> and the answers \<open>mw_flushes k\<close> to its flushes.
\<close>

record 'p main_world =
  mw_endian :: endian
  mw_raw :: raw_env
  mw_library :: peer_library
  mw_child_cuts :: "cut list"
  mw_client_cuts :: "cut list"
  mw_calloc :: bool
  mw_socketpair :: "nat \<Rightarrow> bool"
  mw_fork :: bool
  mw_waitpid :: bool
  mw_peers :: "nat \<Rightarrow> 'p"
  mw_flushes :: "nat \<Rightarrow> nat \<Rightarrow> flush_answer list"
  mw_idle :: sample_env
  mw_active :: sample_env
  mw_mean :: "u64 list \<Rightarrow> string"
  mw_server :: "'p bench_cl list \<Rightarrow> int option"

text \<open>The exit status, the lines printed and the clients as they are left.\<close>

datatype 'c main_exit = MX_Crashed | MX_Stuck | MX_Exit int "main_line list" "'c list"

text \<open>Going on after a loop over the connections, a sample and a reading of the clock.\<close>

definition main_continue ::
    "'c runs \<Rightarrow> main_line list \<Rightarrow> ('c list \<Rightarrow> 'c main_exit) \<Rightarrow> 'c main_exit" where
  "main_continue r out go =
     (case r of
        All_Crashed \<Rightarrow> MX_Crashed
      | All_Stuck \<Rightarrow> MX_Stuck
      | All_Ran ok cs \<Rightarrow> if ok then go cs else MX_Exit EXIT_FAILURE out cs)"

definition main_sample :: "bool \<Rightarrow> (sample_line list \<times> int) option \<Rightarrow> main_line list \<Rightarrow> 'c list \<Rightarrow>
    (main_line list \<Rightarrow> 'c main_exit) \<Rightarrow> 'c main_exit" where
  "main_sample idle sample out cs go =
     (if \<not> idle then go out
      else case sample of
             None \<Rightarrow> MX_Stuck
           | Some (lines, st) \<Rightarrow>
               if st < 0 then MX_Exit EXIT_FAILURE (out @ map ML_Sample lines) cs
               else go (out @ map ML_Sample lines))"

definition main_clock ::
    "bench_os \<Rightarrow> nat \<Rightarrow> main_line list \<Rightarrow> 'c list \<Rightarrow> (u64 \<Rightarrow> 'c main_exit) \<Rightarrow> 'c main_exit" where
  "main_clock os k out cs go =
     (case raw_clock_ns (bo_clock os k) of None \<Rightarrow> MX_Exit EXIT_FAILURE out cs | Some time \<Rightarrow> go time)"

definition main_cleanup :: "'p bench_cstep" where
  "main_cleanup = attempt [destroy_objects, destroy_proxy None bc_registry, plain Disconnect]"

definition main_finish :: "'p main_world \<Rightarrow> main_line list \<Rightarrow> 'p bench_cl list \<Rightarrow> 'p bench_cl main_exit" where
  "main_finish world out cs =
     main_continue (each main_cleanup cs) out (\<lambda>cs.
       if \<not> mw_waitpid world then MX_Exit EXIT_FAILURE out cs
       else case mw_server world cs of
              None \<Rightarrow> MX_Stuck
            | Some status \<Rightarrow> MX_Exit (if status \<noteq> 0 then EXIT_FAILURE else EXIT_SUCCESS) out cs)"

definition main_connect :: "bench_os \<Rightarrow> 'p bench_env \<Rightarrow> benchmark_options \<Rightarrow> 'p bench_cstep" where
  "main_connect os env opts c =
     (if \<not> ce_display env then Ran False c else attempt (connect_client os env opts) c)"

definition main_clients :: "'p main_world \<Rightarrow> nat \<Rightarrow> 'p bench_cl list" where
  "main_clients world n =
     map (\<lambda>k. start_client (bench_client_init (mw_flushes world k)) (mw_peers world k)) [0..<n]"

definition latency_line :: "u64 \<Rightarrow> u64 \<Rightarrow> string \<Rightarrow> u64 list \<Rightarrow> main_line option" where
  "latency_line connections messages mean samples =
     map_option (\<lambda>r. ML_Latency connections messages (messages * connections) mean
         (res_p50_ns r) (res_p95_ns r) (res_p99_ns r) (res_max_ns r))
       (latency_result 0 samples messages no_result)"

definition main_latency :: "nat \<Rightarrow> bench_os \<Rightarrow> 'p bench_env \<Rightarrow> 'p main_world \<Rightarrow> bench_run \<Rightarrow> main_line list \<Rightarrow>
    'p bench_cl list \<Rightarrow> 'p bench_cl main_exit" where
  "main_latency fuel os env world run out cs =
     (case run_latency fuel os env (run_options run) cs of
        None \<Rightarrow> MX_Exit EXIT_FAILURE out cs
      | Some (r, samples) \<Rightarrow>
          main_continue r out (\<lambda>cs.
            case latency_line (run_connections run) (opt_messages (run_options run)) (mw_mean world samples) samples of
              None \<Rightarrow> MX_Crashed
            | Some line \<Rightarrow> main_finish world (out @ [line]) cs))"

definition main_phases :: "nat \<Rightarrow> bench_os \<Rightarrow> 'p bench_env \<Rightarrow> 'p main_world \<Rightarrow> bench_run \<Rightarrow> main_line list \<Rightarrow>
    'p bench_cl list \<Rightarrow> 'p bench_cl main_exit" where
  "main_phases fuel os env world run out cs =
     (let opts = run_options run; connections = run_connections run; idle = (run_mode run = Idle) in
      main_continue (send_phase fuel os env (opt_warmup opts) (opt_batch opts) 1 cs) out (\<lambda>cs.
      main_sample idle (benchmark_resource_sample ''libwayland'' ''active'' connections (mw_active world) 0) out cs
        (\<lambda>out.
      main_clock os 0 out cs (\<lambda>start.
      main_continue (send_phase fuel os env (opt_messages opts) (opt_batch opts) 2 cs) out (\<lambda>cs.
      main_clock os 1 out cs (\<lambda>now.
      main_finish world
        (if idle then out
         else out @ [ML_Throughput connections (opt_objects opts) (opt_messages opts * connections)
                       (opt_batch opts) (now - start)]) cs))))))"

definition main_run :: "nat \<Rightarrow> bench_os \<Rightarrow> 'p bench_env \<Rightarrow> 'p main_world \<Rightarrow> bench_run \<Rightarrow> 'p bench_cl main_exit" where
  "main_run fuel os env world run =
     (let n = unat (run_connections run) in
      if \<not> mw_calloc world \<or> \<not> list_all (mw_socketpair world) [0..<n] \<or> \<not> mw_fork world
      then MX_Exit EXIT_FAILURE [] []
      else main_continue (each (main_connect os env (run_options run)) (main_clients world n)) [] (\<lambda>cs.
           main_sample (run_mode run = Idle)
             (benchmark_resource_sample ''libwayland'' ''idle'' (run_connections run) (mw_idle world)
                (run_idle_ms run)) [] cs (\<lambda>out.
           if opt_latency (run_options run) then main_latency fuel os env world run out cs
           else main_phases fuel os env world run out cs)))"

definition main_raw :: "bench_mode \<Rightarrow> peer_exit \<Rightarrow> 'c main_exit" where
  "main_raw mode r =
     (case r of
        PX_Crashed \<Rightarrow> MX_Crashed
      | PX_Waiting \<Rightarrow> MX_Stuck
      | PX_Exit status None \<Rightarrow> MX_Exit status [] []
      | PX_Exit status (Some (messages, batch, elapsed)) \<Rightarrow> MX_Exit status [ML_Raw mode messages batch elapsed] [])"

definition libwayland_main ::
    "nat \<Rightarrow> bench_os \<Rightarrow> 'p bench_env \<Rightarrow> 'p main_world \<Rightarrow> string list \<Rightarrow> 'p bench_cl main_exit" where
  "libwayland_main fuel os env world argv =
     (case bench_arguments argv of
        None \<Rightarrow> MX_Exit EXIT_FAILURE [] []
      | Some run \<Rightarrow>
          if run_mode run = Client_Tx
          then main_raw Client_Tx (transmit_benchmark (mw_endian world) (mw_raw world) (mw_library world)
                 (mw_child_cuts world) (mw_client_cuts world) (run_options run))
          else if run_mode run = Client_Rx
          then main_raw Client_Rx (receive_benchmark (mw_endian world) (mw_raw world) (mw_library world)
                 (mw_child_cuts world) (mw_client_cuts world) (run_options run))
          else main_run fuel os env world run)"

section \<open>With the server\<close>

text \<open>
  Everything a client has sent when it is gone; the server's exit status when the clients' requests arrive in
  the order \<open>schedule\<close> makes of them. A server that crashes is killed by a signal, which is no success.
\<close>

definition sent_requests :: "bench_request input list bench_cl \<Rightarrow> bench_request input list" where
  "sent_requests c = cl_peer c @ concat (map bench_translate (cl_pending c)) @ [(BR_Client_Destroyed 0, None)]"

definition interleaving :: "(nat \<times> 'a) list \<Rightarrow> 'a list list \<Rightarrow> bool" where
  "interleaving xs parts \<longleftrightarrow>
     list_all (\<lambda>x. fst x < length parts) xs \<and> (\<forall>i<length parts. part_of i xs = parts ! i)"

definition server_status :: "(bench_request input list list \<Rightarrow> (nat \<times> bench_request input) list) \<Rightarrow>
    benchmark_options \<Rightarrow> bench_request input list bench_cl list \<Rightarrow> int option" where
  "server_status schedule opts cs =
     (case benchmark_server_multi demo_env opts (length cs)
             (map (relabel (length cs)) (schedule (map sent_requests cs))) of
        Exited code calls \<Rightarrow> Some code
      | Running \<Rightarrow> None
      | Crashed \<Rightarrow> Some 139)"

text \<open>What the system must answer for the program to succeed.\<close>

definition willing_world :: "bench_os \<Rightarrow> bench_request input list main_world \<Rightarrow> nat \<Rightarrow> bool" where
  "willing_world os world n \<longleftrightarrow>
     mw_calloc world \<and> (\<forall>k<n. mw_socketpair world k) \<and> mw_fork world \<and> mw_waitpid world \<and>
     (\<forall>k<n. mw_peers world k = []) \<and> (\<forall>k<n. \<forall>i. flush_blocking (mw_flushes world k i) = Some 0) \<and>
     (\<forall>i. raw_clock_ns (bo_clock os i) \<noteq> None) \<and> bo_malloc os"

text \<open>The lines of the three modes.\<close>

definition expected_lines :: "bench_run \<Rightarrow> sample_line list \<Rightarrow> main_line list \<Rightarrow> bool" where
  "expected_lines run samples out \<longleftrightarrow>
     (let opts = run_options run; n = run_connections run in
      case run_mode run of
        Idle \<Rightarrow> out = map ML_Sample samples
      | Latency \<Rightarrow> (\<exists>mean p50 p95 p99 longest. out =
          [ML_Latency n (opt_messages opts) (opt_messages opts * n) mean p50 p95 p99 longest])
      | mode \<Rightarrow> (\<exists>elapsed. out =
          [ML_Throughput n (opt_objects opts) (opt_messages opts * n) (opt_batch opts) elapsed]))"

lemma main_finish_run:
  assumes "list_all (bench_going opts k (last_ping opts) a q 0) cs" and "plain_options opts" and "cs \<noteq> []"
    and "mw_waitpid world" and "mw_server world = server_status schedule opts"
    and "\<And>parts. interleaving (schedule parts) parts"
  shows "\<exists>cs'. main_finish world out cs = MX_Exit EXIT_SUCCESS out cs' \<and> length cs' = length cs \<and>
    list_all (\<lambda>c. cl_live c = Map.empty) cs'"
proof -
  have "\<forall>c. bench_going opts k (last_ping opts) a q 0 c \<longrightarrow> (\<exists>c'. main_cleanup c = Ran True c' \<and>
      (cl_live c' = Map.empty \<and> exits_with EXIT_SUCCESS (benchmark_server demo_env opts (sent_requests c'))))"
  proof (intro allI impI)
    fix c assume going: "bench_going opts k (last_ping opts) a q 0 c"
    then have c: "bench_linked opts k (last_ping opts) [] c" "bc_object_count (cl_state c) = of_nat k"
      unfolding bench_going_def by auto
    from cleanup_run [OF c disjI2 [OF refl]] obtain c' where c':
      "main_cleanup c = Ran True c'" "cl_live c' = Map.empty" "cl_peer c' = cl_peer c"
      "concat (map bench_translate (cl_pending c')) = concat (map bench_translate (cl_pending c))"
      unfolding main_cleanup_def by blast
    have "linked_session opts k (last_ping opts) [] (cl_peer c) (concat (map bench_translate (cl_pending c)))" "1 \<le> k"
      using c(1) by (simp_all add: bench_linked_def)
    from bench_server_finishes [OF this(1) assms(2) this(2)] c'
    show "\<exists>c'. main_cleanup c = Ran True c' \<and>
        (cl_live c' = Map.empty \<and> exits_with EXIT_SUCCESS (benchmark_server demo_env opts (sent_requests c')))"
      by (intro exI [of _ c']) (simp add: sent_requests_def)
  qed
  from each_run [OF this assms(1)] obtain cs' where cs': "each main_cleanup cs = All_Ran True cs'" "length cs' = length cs"
    "list_all (\<lambda>c. cl_live c = Map.empty \<and>
       exits_with EXIT_SUCCESS (benchmark_server demo_env opts (sent_requests c))) cs'" by blast
  let ?xs = "schedule (map sent_requests cs')"
  have "interleaving ?xs (map sent_requests cs')" by (rule assms(6))
  then have xs: "list_all (\<lambda>x. fst x < length cs') ?xs" "\<forall>i<length cs'. part_of i ?xs = sent_requests (cs' ! i)"
    by (simp_all add: interleaving_def)
  have "\<forall>i<length cs'. exits_with EXIT_SUCCESS (benchmark_server demo_env opts (part_of i ?xs))"
    using cs'(3) xs(2) by (simp add: list_all_length)
  from interleaving_success [OF _ xs(1) this] assms(3) cs'(2)
  have "exits_with EXIT_SUCCESS (benchmark_server_multi demo_env opts (length cs') (map (relabel (length cs')) ?xs))"
    by auto
  then have "mw_server world cs' = Some EXIT_SUCCESS"
    by (auto simp: assms(5) server_status_def exits_with_def)
  with cs' assms(4) show ?thesis
    by (intro exI [of _ cs']) (auto simp: main_finish_def main_continue_def EXIT_SUCCESS_def list_all_iff)
qed

lemma main_connect_run:
  assumes "plain_options opts" and "unat (opt_objects opts) \<in> {1..64}" and "willing_world os world n"
  shows "\<exists>cs. each (main_connect os (bench_link opts) opts) (main_clients world n) = All_Ran True cs \<and>
    length cs = n \<and> list_all (bench_going opts (unat (opt_objects opts)) 0 0 q 0) cs"
proof -
  let ?P = "\<lambda>c :: bench_request input list bench_cl. \<exists>flushes. (\<forall>i. flush_blocking (flushes i) = Some 0) \<and> c = start_client (bench_client_init flushes) []"
  have "\<forall>c. ?P c \<longrightarrow> (\<exists>c'. main_connect os (bench_link opts) opts c = Ran True c' \<and>
      bench_going opts (unat (opt_objects opts)) 0 0 q 0 c')"
  proof (intro allI impI)
    fix c assume "?P c"
    then obtain flushes where f: "\<forall>i. flush_blocking (flushes i) = Some 0"
      and c: "c = start_client (bench_client_init flushes) []" by blast
    have "ce_display (bench_link opts)" by (simp add: bench_link_def)
    with connect_client_run [OF assms(1) f assms(2), of os q] show "\<exists>c'. main_connect os (bench_link opts) opts c = Ran True c' \<and>
      bench_going opts (unat (opt_objects opts)) 0 0 q 0 c'"
      by (auto simp: main_connect_def c)
  qed
  moreover have "list_all ?P (main_clients world n)"
  proof -
    have "?P (start_client (bench_client_init (mw_flushes world k)) (mw_peers world k))" if "k < n" for k
      using assms(3) that by (intro exI [of _ "mw_flushes world k"]) (simp add: willing_world_def)
    then show ?thesis by (simp add: main_clients_def list_all_iff)
  qed
  ultimately show ?thesis using each_run [of ?P "main_connect os (bench_link opts) opts" _ "main_clients world n"]
    by (simp add: main_clients_def)
qed

lemma main_phases_run:
  assumes "list_all (bench_going (run_options run) k 0 0 1 0) cs" and "plain_options (run_options run)"
    and "\<not> opt_latency (run_options run)" and "0 < unat (opt_batch (run_options run))" and "cs \<noteq> []"
    and "willing_world os world n" and "mw_server world = server_status schedule (run_options run)"
    and "\<And>parts. interleaving (schedule parts) parts"
    and "run_mode run = Idle \<Longrightarrow>
      benchmark_resource_sample ''libwayland'' ''active'' (run_connections run) (mw_active world) 0 = Some (active, 0)"
  shows "\<exists>cs' elapsed. main_phases (Suc fuel) os (bench_link (run_options run)) world run out cs =
      MX_Exit EXIT_SUCCESS
        (if run_mode run = Idle then out @ map ML_Sample active
         else out @ [ML_Throughput (run_connections run) (opt_objects (run_options run))
                (opt_messages (run_options run) * run_connections run) (opt_batch (run_options run)) elapsed]) cs' \<and>
    length cs' = length cs \<and> list_all (\<lambda>c. cl_live c = Map.empty) cs'"
proof -
  let ?opts = "run_options run"
  let ?w = "unat (opt_warmup ?opts)" and ?n = "unat (opt_messages ?opts)"
  have first: "0 + ?w \<le> last_ping ?opts" "0 < answered ?opts 0 ?w"
    using phases_answered(1) [OF assms(2,3)] by (simp_all add: last_ping_def)
  have second: "?w + ?n \<le> last_ping ?opts" "0 < answered ?opts ?w ?n"
    using phases_answered(2) [OF assms(2,3)] by (simp_all add: last_ping_def)
  from send_phase_going [OF assms(1,2) first(1) assms(4) first(2), of fuel os 2] obtain cs1 where c1:
    "send_phase (Suc fuel) os (bench_link ?opts) (opt_warmup ?opts) (opt_batch ?opts) 1 cs = All_Ran True cs1"
    "length cs1 = length cs" "list_all (bench_going ?opts k ?w 1 2 0) cs1" by auto
  from send_phase_going [OF c1(3) assms(2) second(1) assms(4) second(2), of fuel os 0] obtain cs2 where c2:
    "send_phase (Suc fuel) os (bench_link ?opts) (opt_messages ?opts) (opt_batch ?opts) 2 cs1 = All_Ran True cs2"
    "length cs2 = length cs1" "list_all (bench_going ?opts k (last_ping ?opts) 2 0 0) cs2"
    by (auto simp: last_ping_def)
  from assms(6) obtain t0 t1 where clock: "raw_clock_ns (bo_clock os 0) = Some t0" "raw_clock_ns (bo_clock os 1) = Some t1"
    unfolding willing_world_def by blast
  have "cs2 \<noteq> []" "mw_waitpid world" using assms(5,6) c1(2) c2(2) by (auto simp: willing_world_def)
  note finish = main_finish_run [OF c2(3) assms(2) this assms(7,8)]
  let ?lines = "if run_mode run = Idle then out @ map ML_Sample active
    else out @ [ML_Throughput (run_connections run) (opt_objects ?opts)
           (opt_messages ?opts * run_connections run) (opt_batch ?opts) (t1 - t0)]"
  from finish [of ?lines] obtain cs3 where
    c3: "main_finish world ?lines cs2 = MX_Exit EXIT_SUCCESS ?lines cs3" "length cs3 = length cs2"
    "list_all (\<lambda>c. cl_live c = Map.empty) cs3" by blast
  have "main_phases (Suc fuel) os (bench_link ?opts) world run out cs = main_finish world ?lines cs2"
    using clock assms(9)
    by (simp add: main_phases_def main_continue_def main_sample_def main_clock_def c1(1) c2(1) Let_def)
  with c3 c1(2) c2(2) show ?thesis by (intro exI [of _ cs3] exI [of _ "t1 - t0"]) simp
qed

lemma main_latency_run:
  assumes "list_all (bench_going (run_options run) k 0 0 1 0) cs" and "plain_options (run_options run)"
    and "opt_latency (run_options run)" and "unat (opt_messages (run_options run)) < 2 ^ 57" and "cs \<noteq> []"
    and "willing_world os world n" and "mw_server world = server_status schedule (run_options run)"
    and "\<And>parts. interleaving (schedule parts) parts"
  shows "\<exists>cs' line. main_latency (Suc fuel) os (bench_link (run_options run)) world run out cs =
      MX_Exit EXIT_SUCCESS (out @ [line]) cs' \<and>
    (\<exists>mean p50 p95 p99 longest. line = ML_Latency (run_connections run) (opt_messages (run_options run))
       (opt_messages (run_options run) * run_connections run) mean p50 p95 p99 longest) \<and>
    length cs' = length cs \<and> list_all (\<lambda>c. cl_live c = Map.empty) cs'"
proof -
  let ?opts = "run_options run"
  have "list_all (bench_rounds ?opts k 0) cs" using assms(1) by (simp add: bench_rounds_def [abs_def])
  moreover have "bo_malloc os" "\<And>i. raw_clock_ns (bo_clock os i) \<noteq> None"
    using assms(6) by (auto simp: willing_world_def)
  moreover have "unat (opt_messages ?opts) < 2 ^ 61" using assms(4) by simp
  ultimately obtain cs1 samples where run:
    "run_latency (Suc fuel) os (bench_link ?opts) ?opts cs = Some (All_Ran True cs1, sort samples)"
    "length cs1 = length cs" "list_all (bench_rounds ?opts k (last_ping ?opts)) cs1"
    "length samples = unat (opt_messages ?opts)"
    using run_latency_going [OF _ assms(2,3), of k cs os fuel] by blast
  have "0 < unat (opt_messages ?opts)" using assms(2) by (simp add: plain_options_def)
  from latency_result_total [OF run(4) this assms(4)] obtain r where
    "latency_result 0 (sort samples) (opt_messages ?opts) no_result = Some r" by blast
  then obtain line where line:
    "latency_line (run_connections run) (opt_messages ?opts) (mw_mean world (sort samples)) (sort samples) = Some line"
    "line = ML_Latency (run_connections run) (opt_messages ?opts) (opt_messages ?opts * run_connections run)
       (mw_mean world (sort samples)) (res_p50_ns r) (res_p95_ns r) (res_p99_ns r) (res_max_ns r)"
    by (simp add: latency_line_def)
  have "cs1 \<noteq> []" "mw_waitpid world" using assms(5,6) run(2) by (auto simp: willing_world_def)
  from main_finish_run [OF run(3) [unfolded bench_rounds_def [abs_def]] assms(2) this assms(7,8), of "out @ [line]"]
  obtain cs2 where "main_finish world (out @ [line]) cs1 = MX_Exit EXIT_SUCCESS (out @ [line]) cs2"
    "length cs2 = length cs1" "list_all (\<lambda>c. cl_live c = Map.empty) cs2" by blast
  with run(1,2) line show ?thesis
    by (intro exI [of _ cs2] exI [of _ line]) (auto simp: main_latency_def main_continue_def)
qed

section \<open>Properties\<close>

text \<open>C37: For all arguments that the program accepts with the modes \<open>round-trip\<close>, \<open>latency\<close> and \<open>idle\<close>, any number of
  connections and objects, and in whatever order the requests of the connections reach the one server, the
  benchmark of the clients and the server comes to an end with success when the system does what it is asked
  for: every client has destroyed its objects and disconnected, the server has counted what each of them was
  to send, and the line of the mode is printed with the total of the messages.\<close>

theorem libwayland_main_succeeds:
  assumes "bench_arguments argv = Some run" and "run_mode run \<in> {Round_Trip, Latency, Idle}"
    and "last_ping (run_options run) < 2 ^ 64"
    and "run_mode run = Latency \<Longrightarrow> unat (opt_messages (run_options run)) < 2 ^ 57"
    and "willing_world os world (unat (run_connections run))"
    and "mw_server world = server_status schedule (run_options run)"
    and "\<And>parts. interleaving (schedule parts) parts"
    and "run_mode run = Idle \<Longrightarrow>
      benchmark_resource_sample ''libwayland'' ''idle'' (run_connections run) (mw_idle world) (run_idle_ms run) =
        Some (idle, 0)"
    and "run_mode run = Idle \<Longrightarrow>
      benchmark_resource_sample ''libwayland'' ''active'' (run_connections run) (mw_active world) 0 = Some (active, 0)"
  shows "\<exists>out cs. libwayland_main (Suc fuel) os (bench_link (run_options run)) world argv = MX_Exit EXIT_SUCCESS out cs \<and>
    length cs = unat (run_connections run) \<and> list_all (\<lambda>c. cl_live c = Map.empty) cs \<and>
    expected_lines run (idle @ active) out"
proof -
  let ?opts = "run_options run" and ?env = "bench_link (run_options run)" and ?n = "unat (run_connections run)"
  have ok: "bench_run_ok run" "opt_latency ?opts = (run_mode run = Latency)"
    using assms(1) by (auto simp: bench_arguments_def Let_def bind_eq_Some_conv split: if_splits)
  have plain: "plain_options ?opts" and batch: "0 < unat (opt_batch ?opts)" and n: "0 < ?n"
    using ok(1) assms(3) by (auto simp: bench_run_ok_def Let_def plain_options_def unat_gt_0)
  have objects: "unat (opt_objects ?opts) \<in> {1..64}"
    using ok(1) by (auto simp: bench_run_ok_def Let_def max_objects_def word_less_nat_alt Suc_le_eq unat_gt_0)
  from main_connect_run [OF plain objects assms(5), of 1] obtain cs where
    cs: "each (main_connect os ?env ?opts) (main_clients world ?n) = All_Ran True cs" "length cs = ?n"
    "list_all (bench_going ?opts (unat (opt_objects ?opts)) 0 0 1 0) cs" by blast
  have some: "cs \<noteq> []" using cs(2) n by auto
  have "list_all (mw_socketpair world) [0..<?n]" "mw_calloc world" "mw_fork world"
    using assms(5) by (auto simp: willing_world_def list_all_iff)
  then have main: "libwayland_main (Suc fuel) os ?env world argv =
      (if opt_latency ?opts then main_latency (Suc fuel) os ?env world run [] cs
       else main_phases (Suc fuel) os ?env world run
         (if run_mode run = Idle then map ML_Sample idle else []) cs)"
    using assms(1,2,8) ok(2) cs(1)
    by (auto simp: libwayland_main_def main_run_def main_continue_def main_sample_def Let_def)
  show ?thesis
  proof (cases "opt_latency ?opts")
    case True
    from main_latency_run [OF cs(3) plain True _ some assms(5-7), of fuel "[]"] assms(4) ok(2) True obtain cs' line where
      l: "main_latency (Suc fuel) os ?env world run [] cs = MX_Exit EXIT_SUCCESS ([] @ [line]) cs'"
      "\<exists>mean p50 p95 p99 longest. line = ML_Latency (run_connections run) (opt_messages ?opts)
         (opt_messages ?opts * run_connections run) mean p50 p95 p99 longest"
      "length cs' = length cs" "list_all (\<lambda>c. cl_live c = Map.empty) cs'" by blast
    have "expected_lines run (idle @ active) [line]"
      using l(2) True ok(2) by (simp add: expected_lines_def Let_def)
    with l main True cs(2) show ?thesis by simp
  next
    case False
    let ?out = "if run_mode run = Idle then map ML_Sample idle else []"
    from main_phases_run [OF cs(3) plain False batch some assms(5-7) assms(9), of fuel ?out] obtain cs' elapsed where
      p: "main_phases (Suc fuel) os ?env world run ?out cs = MX_Exit EXIT_SUCCESS
        (if run_mode run = Idle then ?out @ map ML_Sample active
         else ?out @ [ML_Throughput (run_connections run) (opt_objects ?opts) (opt_messages ?opts * run_connections run)
                (opt_batch ?opts) elapsed]) cs'"
      "length cs' = length cs" "list_all (\<lambda>c. cl_live c = Map.empty) cs'" by blast
    have "expected_lines run (idle @ active) (if run_mode run = Idle then ?out @ map ML_Sample active
         else ?out @ [ML_Throughput (run_connections run) (opt_objects ?opts) (opt_messages ?opts * run_connections run)
                (opt_batch ?opts) elapsed])"
      using assms(2) False ok(2) by (auto simp: expected_lines_def Let_def)
    with p main False cs(2) show ?thesis by simp
  qed
qed

text \<open>The requests of one client after another are one of the orders.\<close>

definition one_by_one :: "'a list list \<Rightarrow> (nat \<times> 'a) list" where
  "one_by_one parts = concat (map (\<lambda>(i, p). map (Pair i) p) (enumerate 0 parts))"

lemma one_by_one_interleaving: "interleaving (one_by_one parts) parts"
proof -
  have snoc: "one_by_one (parts @ [p]) = one_by_one parts @ map (Pair (length parts)) p" for parts and p :: "'a list"
    by (simp add: one_by_one_def enumerate_append_eq enumerate_simps)
  have append: "part_of i (xs @ ys) = part_of i xs @ part_of i ys" for i and xs ys :: "(nat \<times> 'a) list"
    by (simp add: part_of_def)
  have same: "part_of i (map (Pair j) p) = (if i = j then p else [])" for i j and p :: "'a list"
    by (simp add: part_of_def filter_map comp_def)
  have tags: "list_all (\<lambda>x. fst x < length parts) (one_by_one parts)"
    by (induction parts rule: rev_induct) (simp add: one_by_one_def, auto simp: snoc list_all_iff less_Suc_eq)
  have "part_of i (one_by_one parts) = (if i < length parts then parts ! i else [])" for i
    by (induction parts rule: rev_induct) (simp add: one_by_one_def, auto simp: snoc append same nth_append less_Suc_eq)
  with tags show ?thesis by (simp add: interleaving_def)
qed

definition tiny_world :: "benchmark_options \<Rightarrow> bench_request input list main_world" where
  "tiny_world opts = \<lparr>mw_endian = Little, mw_raw = tiny_raw_env, mw_library = tiny_library, mw_child_cuts = [],
     mw_client_cuts = [], mw_calloc = True, mw_socketpair = (\<lambda>k. True), mw_fork = True, mw_waitpid = True,
     mw_peers = (\<lambda>k. []), mw_flushes = (\<lambda>k i. [Flush_Again True, Flushed]),
     mw_idle = sampled_env 1 [] (tiny_proc 1 1 1) (tiny_proc 1 1 1) (tiny_proc 1 1 1) (tiny_proc 1 1 1),
     mw_active = sampled_env 1 [] (tiny_proc 1 1 1) (tiny_proc 1 1 1) (tiny_proc 1 1 1) (tiny_proc 1 1 1),
     mw_mean = (\<lambda>samples. ''0''), mw_server = server_status one_by_one opts\<rparr>"

definition tiny_run :: bench_run where
  "tiny_run = \<lparr>run_options = \<lparr>opt_warmup = 1, opt_messages = 3, opt_batch = 2, opt_objects = 1, opt_latency = False\<rparr>,
     run_connections = 2, run_mode = Round_Trip, run_idle_ms = 1000\<rparr>"

theorem libwayland_main_succeeds_witness:
  "\<exists>elapsed c1 c2. libwayland_main 1 tiny_os (bench_link (run_options tiny_run)) (tiny_world (run_options tiny_run))
      [''bench'', ''3'', ''2'', ''1'', ''2''] = MX_Exit EXIT_SUCCESS [ML_Throughput 2 1 6 2 elapsed] [c1, c2]"
proof -
  have args: "bench_arguments [''bench'', ''3'', ''2'', ''1'', ''2''] = Some tiny_run"
    by (simp add: bench_arguments_def argument_def parse_u32_def parse_count_def strtoull_def sign_of_def
        is_blank_def is_digit_def digits_value_def digit_value_def Let_def bench_run_ok_def max_objects_def
        max_connections_def tiny_run_def default_options_def)
  have "willing_world tiny_os (tiny_world (run_options tiny_run)) (unat (run_connections tiny_run))"
    by (simp add: willing_world_def tiny_world_def tiny_os_def raw_clock_ns_def)
  moreover have "mw_server (tiny_world (run_options tiny_run)) = server_status one_by_one (run_options tiny_run)"
    by (simp add: tiny_world_def)
  moreover have "run_mode tiny_run = Round_Trip" "last_ping (run_options tiny_run) < 2 ^ 64"
    "unat (run_connections tiny_run) = 2" "run_connections tiny_run = 2"
    "opt_messages (run_options tiny_run) = 3" "opt_batch (run_options tiny_run) = 2"
    "opt_objects (run_options tiny_run) = 1"
    by (simp_all add: tiny_run_def last_ping_def)
  ultimately show ?thesis
    using libwayland_main_succeeds [OF args, of tiny_os "tiny_world (run_options tiny_run)" one_by_one
        "[]" "[]" 0, OF _ _ _ _ _ one_by_one_interleaving]
    by (auto simp: expected_lines_def Let_def length_Suc_conv numeral_2_eq_2)
qed

end
