(* ===== verification/Bench_Safety.thy ===== *)
theory Bench_Safety
  imports Bench_Main Client_Safety
begin

text \<open>
  The types of the benchmark client's state (\<open>struct client_state\<close> of \<open>src/bench/libwayland-client.c\<close>) hold against
  any server: the cursor stays inside the array, the pointers in it are NULL or distinct objects that exist,
  and the ones that are used are set. The main function of the program is therefore safe whatever the
  servers send and in whatever way the processes end.
\<close>

section \<open>Steps that keep a property\<close>

locale steady_listeners =
  fixes Q :: "('st, 'req, 'p) client \<Rightarrow> bool"
    and listeners :: "'ev cl_event \<Rightarrow> ('st, 'req, 'p) cstep list"
  assumes listener_keeps: "Q c \<Longrightarrow> fine Q (attempt (listeners e) c)"
    and transport: "Q c \<Longrightarrow> Q (c\<lparr>cl_pending := [], cl_calls := calls, cl_peer := peer\<rparr>)"
begin

lemma deliver_keeps: "Q c \<Longrightarrow> fine Q (deliver_events targets listeners es c)"
proof (induction es arbitrary: c)
  case (Cons e es)
  with listener_keeps [of c e] show ?case by (cases "attempt (listeners e) c") auto
qed simp

lemma await_keeps: "Q c \<Longrightarrow> fine Q (await q env targets listeners c)"
proof -
  assume Q: "Q c"
  obtain evs ok p' where peer: "ce_peer env (cl_pending c @ [q]) (cl_peer c) = (evs, ok, p')"
    by (cases "ce_peer env (cl_pending c @ [q]) (cl_peer c)")
  from deliver_keeps [OF transport [OF Q]] show ?thesis
    by (simp add: await_def peer split: run.split) (metis fine.simps(1,3))
qed

lemma dispatch_until_keeps: "Q c \<Longrightarrow> fine Q (dispatch_until fuel P (dispatch env targets listeners) c)"
proof (induction fuel arbitrary: c)
  case 0
  then show ?case by (simp add: dispatch_until.simps)
next
  case (Suc fuel)
  from await_keeps [OF Suc.prems, of Flush env targets] Suc show ?case
    by (cases "await Flush env targets listeners c")
       (auto simp: dispatch_def dispatch_until.simps [of "Suc fuel"] split: bool.split)
qed

end

text \<open>The same for lists of steps and loops over the connections.\<close>

lemma attempt_keeps:
  "\<forall>p \<in> set ps. \<forall>c. Q c \<longrightarrow> fine Q (p c) \<Longrightarrow> Q c \<Longrightarrow> fine Q (attempt ps c)"
proof (induction ps arbitrary: c)
  case (Cons p ps)
  then have "fine Q (p c)" by simp
  with Cons show ?case by (cases "p c") (auto split: bool.split)
qed simp

fun all_fine :: "('c \<Rightarrow> bool) \<Rightarrow> 'c runs \<Rightarrow> bool" where
  "all_fine Q All_Crashed = False"
| "all_fine Q All_Stuck = True"
| "all_fine Q (All_Ran ok cs) = list_all Q cs"

lemma each_keeps: "(\<And>c. Q c \<Longrightarrow> fine Q (step c)) \<Longrightarrow> list_all Q cs \<Longrightarrow> all_fine Q (each step cs)"
proof (induction cs)
  case (Cons c cs)
  then have "fine Q (step c)" "all_fine Q (each step cs)" by simp_all
  with Cons.prems(2) show ?case by (cases "step c"; cases "each step cs") (auto split: bool.split)
qed simp

lemma then_all_keeps:
  "all_fine Q r \<Longrightarrow> (\<And>cs. list_all Q cs \<Longrightarrow> all_fine Q (f cs)) \<Longrightarrow> all_fine Q (then_all r f)"
  by (cases r) (auto simp: then_all_def split: bool.split)

section \<open>Well-formed clients\<close>

text \<open>
  The array has 64 elements; every element is NULL or an object that exists, no two are the same and none is
  the registry; \<open>benchmark\<close> is the first element. The first \<open>n\<close> elements are set, \<open>m\<close> is the number of objects,
  and the cursor is one of them.
\<close>

definition objects_ok :: "'p bench_cl \<Rightarrow> bool" where
  "objects_ok c \<longleftrightarrow>
     (let s = cl_state c; xs = bc_benchmarks s in
        length xs = 64 \<and> bc_benchmark s = xs ! 0 \<and>
        (\<exists>g. bc_registry s = Some g \<and> cl_live c g \<noteq> None \<and> g < cl_next c) \<and>
        (\<forall>i<64. \<forall>p. xs ! i = Some p \<longrightarrow> cl_live c p \<noteq> None \<and> p < cl_next c \<and> bc_registry s \<noteq> Some p) \<and>
        (\<forall>i<64. \<forall>j<64. \<forall>p. xs ! i = Some p \<and> xs ! j = Some p \<longrightarrow> i = j))"

definition well_typed :: "'p bench_env \<Rightarrow> nat \<Rightarrow> nat \<Rightarrow> 'p bench_cl \<Rightarrow> bool" where
  "well_typed env n m c \<longleftrightarrow>
     (\<forall>k. ce_created env k) \<and> objects_ok c \<and> n \<le> 64 \<and> m \<le> 64 \<and>
     (\<forall>i<n. bc_benchmarks (cl_state c) ! i \<noteq> None) \<and> bc_object_count (cl_state c) = of_nat m \<and>
     unat (bc_object_cursor (cl_state c)) < max 1 m"

lemma objects_ok_live:
  "objects_ok c \<Longrightarrow> i < 64 \<Longrightarrow> bc_benchmarks (cl_state c) ! i = Some p \<Longrightarrow>
     cl_live c p \<noteq> None \<and> p < cl_next c \<and> bc_registry (cl_state c) \<noteq> Some p"
  unfolding objects_ok_def Let_def by blast

lemma objects_ok_distinct:
  "objects_ok c \<Longrightarrow> i < 64 \<Longrightarrow> j < 64 \<Longrightarrow> bc_benchmarks (cl_state c) ! i = Some p \<Longrightarrow>
     bc_benchmarks (cl_state c) ! j = Some p \<Longrightarrow> i = j"
  unfolding objects_ok_def Let_def by blast

lemma objects_ok_cong:
  "bc_benchmarks (cl_state c') = bc_benchmarks (cl_state c) \<Longrightarrow> bc_benchmark (cl_state c') = bc_benchmark (cl_state c) \<Longrightarrow>
   bc_registry (cl_state c') = bc_registry (cl_state c) \<Longrightarrow> cl_live c' = cl_live c \<Longrightarrow> cl_next c' = cl_next c \<Longrightarrow>
     objects_ok c' = objects_ok c"
  by (simp add: objects_ok_def Let_def)

text \<open>The fields the assertion looks at.\<close>

lemma well_typed_cong:
  "bc_benchmarks (cl_state c') = bc_benchmarks (cl_state c) \<Longrightarrow> bc_benchmark (cl_state c') = bc_benchmark (cl_state c) \<Longrightarrow>
   bc_registry (cl_state c') = bc_registry (cl_state c) \<Longrightarrow> cl_live c' = cl_live c \<Longrightarrow> cl_next c' = cl_next c \<Longrightarrow>
   bc_object_count (cl_state c') = bc_object_count (cl_state c) \<Longrightarrow>
   bc_object_cursor (cl_state c') = bc_object_cursor (cl_state c) \<Longrightarrow>
     well_typed env n m c' = well_typed env n m c"
  by (simp add: well_typed_def objects_ok_cong [of c' c])

text \<open>A new object is put into the array.\<close>

lemma objects_ok_bind:
  assumes "objects_ok c" and "i < 64"
    and "cl_next c' = Suc (cl_next c)" "cl_live c' = (cl_live c)(cl_next c \<mapsto> interface)" "cl_state c' = s'"
    and "bc_benchmarks s' = (bc_benchmarks (cl_state c))[i := Some (cl_next c)]"
    and "bc_registry s' = bc_registry (cl_state c)" and "bc_benchmark s' = bc_benchmarks s' ! 0"
  shows "objects_ok c'"
proof -
  let ?xs = "bc_benchmarks (cl_state c)" and ?n = "cl_next c"
  have len: "length ?xs = 64" using assms(1) by (simp add: objects_ok_def Let_def)
  have new: "?xs[i := Some ?n] ! j = (if j = i then Some ?n else ?xs ! j)" if "j < 64" for j
    using that len by (simp add: nth_list_update)
  have old: "cl_live c p \<noteq> None \<and> p < ?n \<and> bc_registry (cl_state c) \<noteq> Some p" if "j < 64" "?xs ! j = Some p" for j p
    using objects_ok_live [OF assms(1) that] .
  obtain g where g: "bc_registry (cl_state c) = Some g" "cl_live c g \<noteq> None" "g < ?n"
    using assms(1) by (auto simp: objects_ok_def Let_def)
  then have "\<exists>g. bc_registry s' = Some g \<and> ((cl_live c)(?n \<mapsto> interface)) g \<noteq> None \<and> g < Suc ?n"
    using assms(7) by (intro exI [of _ g]) simp
  moreover have "\<forall>j<64. \<forall>p. ?xs[i := Some ?n] ! j = Some p \<longrightarrow>
      ((cl_live c)(?n \<mapsto> interface)) p \<noteq> None \<and> p < Suc ?n \<and> bc_registry s' \<noteq> Some p"
  proof (intro allI impI)
    fix j p assume j: "j < 64" and p: "?xs[i := Some ?n] ! j = Some p"
    show "((cl_live c)(?n \<mapsto> interface)) p \<noteq> None \<and> p < Suc ?n \<and> bc_registry s' \<noteq> Some p"
      using old [OF j, of p] p [unfolded new [OF j]] g(1,3) assms(7) by (cases "j = i") auto
  qed
  moreover have "\<forall>j<64. \<forall>k<64. \<forall>p. ?xs[i := Some ?n] ! j = Some p \<and> ?xs[i := Some ?n] ! k = Some p \<longrightarrow> j = k"
  proof (intro allI impI)
    fix j k :: nat and p
    assume jk: "j < 64" "k < 64" and p: "?xs[i := Some ?n] ! j = Some p \<and> ?xs[i := Some ?n] ! k = Some p"
    from p [unfolded new [OF jk(1)] new [OF jk(2)]] show "j = k"
      using objects_ok_distinct [OF assms(1) jk, of p] old [OF jk(1), of p] old [OF jk(2), of p]
      by (cases "j = i"; cases "k = i") auto
  qed
  ultimately show ?thesis
    using len assms(6,8) by (simp add: objects_ok_def assms(3-5) Let_def)
qed

section \<open>The operations keep it\<close>

lemma handle_global_keeps:
  assumes "well_typed env n m c"
  shows "fine (well_typed env n m) (attempt (handle_global env name interface version) c)"
proof (cases "interface = bench_interface")
  case True
  let ?p = "cl_next c"
  define c' where "c' = log_call (Bind name bench_interface (capped version 1) ?p)
    (c\<lparr>cl_next := Suc ?p, cl_live := (cl_live c)(?p \<mapsto> bench_interface), cl_state := (cl_state c)\<lparr>bc_global := name,
         bc_version := capped version 1, bc_benchmark := Some ?p,
         bc_benchmarks := (bc_benchmarks (cl_state c))[0 := Some ?p]\<rparr>\<rparr>)"
  have run: "attempt (handle_global env name interface version) c = Ran True c'"
    using assms True
    by (simp add: handle_global_def client_step_defs bind_global_def obtain_proxy_def well_typed_def c'_def log_call_def Let_def)
  have ok: "objects_ok c" using assms by (simp add: well_typed_def)
  then have len: "length (bc_benchmarks (cl_state c)) = 64" by (simp add: objects_ok_def Let_def)
  have "objects_ok c'"
    by (rule objects_ok_bind [OF ok, of 0 c' bench_interface "cl_state c'"]) (simp_all add: c'_def log_call_def len)
  with assms len have "well_typed env n m c'"
    by (auto simp: well_typed_def c'_def log_call_def nth_list_update)
  with run show ?thesis by simp
next
  case False
  with assms show ?thesis by (simp add: handle_global_def)
qed

lemma bench_listener_keeps:
  assumes "well_typed env n m c"
  shows "fine (well_typed env n m) (attempt (bench_listeners os env e) c)"
proof (cases "(os, env, e)" rule: bench_listeners.cases)
  case (1 os env name interface version)
  with assms show ?thesis by (simp add: handle_global_keeps)
next
  case (2 os env p sequence)
  with assms show ?thesis
    by (simp add: when_state_def handle_pong_def assign_def)
       (subst well_typed_cong [of _ c], simp_all)
next
  case (3 os env p sequence descriptor)
  with assms show ?thesis
    by (simp add: when_state_def handle_pong_fd_def assign_def close_fd_def log_call_def Let_def)
       (subst well_typed_cong [of _ c], simp_all)
qed

interpretation bench_steady: steady_listeners "well_typed env n m" "bench_listeners os env" for env n m os
proof unfold_locales
  show "well_typed env n m c \<Longrightarrow> fine (well_typed env n m) (attempt (bench_listeners os env e) c)" for c e
    by (rule bench_listener_keeps)
  show "well_typed env n m c \<Longrightarrow> well_typed env n m (c\<lparr>cl_pending := [], cl_calls := calls, cl_peer := peer\<rparr>)"
    for c calls peer
    by (subst well_typed_cong [of _ c]) simp_all
qed

lemma flush_step_keeps: "well_typed env n m c \<Longrightarrow> fine (well_typed env n m) (flush_step c)"
  by (simp add: flush_step_def log_call_def Let_def split: option.split)
     (subst well_typed_cong [of _ c], simp_all)

text \<open>Connected clients.\<close>

definition connected_client :: "'p bench_env \<Rightarrow> nat \<Rightarrow> 'p bench_cl \<Rightarrow> bool" where
  "connected_client env n c \<longleftrightarrow> 0 < n \<and> well_typed env n n c"

lemma object_usable:
  assumes "well_typed env n m c" and "i < n"
  shows "usable c [bc_benchmarks (cl_state c) ! i]"
proof -
  have "i < 64" using assms by (simp add: well_typed_def)
  moreover from assms obtain p where "bc_benchmarks (cl_state c) ! i = Some p" "objects_ok c"
    by (auto simp: well_typed_def)
  ultimately show ?thesis using objects_ok_live [of c i p] by (simp add: usable_def)
qed

lemma send_ping_keeps:
  assumes "connected_client env n c"
  shows "fine (connected_client env n) (attempt (send_ping ack) c)"
proof -
  let ?cursor = "bc_object_cursor (cl_state c)"
  have n: "0 < n" "n \<le> 64" "unat ?cursor < n" and W: "well_typed env n n c"
    and total: "bc_object_count (cl_state c) = of_nat n"
    using assms by (auto simp: connected_client_def well_typed_def)
  define next' where "next' = (if ?cursor + 1 = of_nat n then 0 else ?cursor + 1)"
  have "unat next' < n"
  proof (cases "?cursor + 1 = of_nat n")
    case False
    have "unat (?cursor + 1) = Suc (unat ?cursor)"
      using n by (subst unat_add_lem [THEN iffD1]) simp_all
    moreover have "unat (of_nat n :: u32) = n" using n by (simp add: unat_of_nat)
    ultimately show ?thesis using False n(3) by (auto simp: next'_def word_unat_eq_iff)
  qed (use n in \<open>simp add: next'_def\<close>)
  moreover obtain p where p: "bc_benchmarks (cl_state c) ! unat ?cursor = Some p"
    using object_usable [OF W n(3)] by (auto simp: usable_def split: option.splits)
  define c' where "c' = log_call (Request (BC_Ping ack) [p]) c\<lparr>cl_state := (cl_state c)\<lparr>bc_object_cursor := next'\<rparr>\<rparr>"
  have "attempt (send_ping ack) c = Ran True c'"
    using object_usable [OF W n(3)] total p
    by (auto simp: send_ping_def request_def request_of_def assign_def when_state_def log_call_def c'_def next'_def)
  moreover have "objects_ok c' = objects_ok c" by (rule objects_ok_cong) (simp_all add: c'_def log_call_def)
  ultimately show ?thesis
    using W n by (simp add: connected_client_def well_typed_def) (simp add: c'_def log_call_def)
qed

lemma send_chunk_keeps: "connected_client env n c \<Longrightarrow> fine (connected_client env n) (send_chunk ack chunk c)"
proof (induction chunk arbitrary: c)
  case (Suc chunk)
  have eq: "send_chunk ack (Suc chunk) c =
      (case attempt (send_ping ack) c of Ran True c' \<Rightarrow> send_chunk ack chunk c' | r \<Rightarrow> r)"
    by (cases "attempt (send_ping ack) c") (auto simp: send_chunk_def attempt_append split: bool.split)
  from send_ping_keeps [OF Suc.prems, of ack] Suc.IH show ?case
    unfolding eq by (cases "attempt (send_ping ack) c") (auto split: bool.split)
qed (simp add: send_chunk_def)

lemma connected_flush: "connected_client env n c \<Longrightarrow> fine (connected_client env n) (flush_step c)"
  using flush_step_keeps [of env n n c] by (cases "flush_step c") (auto simp: connected_client_def)

lemma connected_wait: "connected_client env n c \<Longrightarrow> fine (connected_client env n) (wait_for_ack fuel os env ack c)"
  using bench_steady.dispatch_until_keeps [of env n n c fuel "\<lambda>s. bc_ack s = ack" env bench_targets os]
  by (cases "wait_for_ack fuel os env ack c") (auto simp: connected_client_def wait_for_ack_def)

lemma send_batches_keeps:
  "list_all (connected_client env n) cs \<Longrightarrow> all_fine (connected_client env n) (send_batches ack left batch cs)"
proof (induction ack left batch cs rule: send_batches.induct)
  case (1 ack left batch cs)
  define chunk where "chunk = (if left < batch then left else batch)"
  show ?case
  proof (cases "left = 0 \<or> batch = 0")
    case True
    with "1.prems" show ?thesis by (auto simp: send_batches.simps)
  next
    case False
    have "all_fine (connected_client env n) (then_all (each (send_chunk ack chunk) cs) (\<lambda>cs.
        then_all (each flush_step cs) (\<lambda>cs. send_batches ack (left - chunk) batch cs)))"
      by (intro then_all_keeps each_keeps send_chunk_keeps connected_flush "1.prems" "1.IH")
         (use False in \<open>simp_all add: chunk_def\<close>)
    with False show ?thesis by (subst send_batches.simps) (simp add: chunk_def [symmetric] Let_def)
  qed
qed

lemma send_phase_keeps:
  "list_all (connected_client env n) cs \<Longrightarrow>
     all_fine (connected_client env n) (send_phase fuel os env phase_count batch ack cs)"
  unfolding send_phase_def by (intro then_all_keeps send_batches_keeps each_keeps connected_wait)

lemma connected_latency_ping:
  assumes "connected_client env n c"
  shows "fine (connected_client env n) (request (BC_Ping ack) (\<lambda>s. [bc_benchmark s]) c)"
proof -
  from assms have "usable c [bc_benchmarks (cl_state c) ! 0]"
    by (intro object_usable [of env n n]) (auto simp: connected_client_def)
  moreover have "bc_benchmark (cl_state c) = bc_benchmarks (cl_state c) ! 0"
    using assms by (simp add: connected_client_def well_typed_def objects_ok_def Let_def)
  ultimately show ?thesis
    using assms well_typed_cong [of "log_call q c" c env n n for q]
    by (simp add: request_def request_of_def connected_client_def log_call_def)
qed

lemma latency_round_keeps:
  "list_all (connected_client env n) cs \<Longrightarrow> all_fine (connected_client env n) (latency_round fuel os env ack cs)"
  unfolding latency_round_def
  by (intro then_all_keeps each_keeps connected_latency_ping connected_flush connected_wait)

lemma warm_rounds_keeps:
  "list_all (connected_client env n) cs \<Longrightarrow> all_fine (connected_client env n) (warm_rounds fuel os env qs cs)"
  by (induction qs arbitrary: cs) (simp_all add: then_all_keeps latency_round_keeps)

lemma timed_rounds_keeps:
  "list_all (connected_client env n) cs \<Longrightarrow> length samples + length qs \<le> room \<Longrightarrow>
     timed_rounds fuel os env room k qs samples cs = Some (r, samples') \<Longrightarrow>
     all_fine (connected_client env n) r \<and> (\<forall>cs'. r = All_Ran True cs' \<longrightarrow> length samples' = length samples + length qs)"
proof (induction qs arbitrary: k samples cs)
  case (Cons q qs)
  note round = latency_round_keeps [OF Cons.prems(1), of fuel os q]
  from Cons.prems(3) obtain start where start: "raw_clock_ns (bo_clock os k) = Some start"
    by (auto split: option.splits)
  show ?case
  proof (cases "\<exists>cs1. latency_round fuel os env q cs = All_Ran True cs1")
    case True
    then obtain cs1 where cs1: "latency_round fuel os env q cs = All_Ran True cs1" ..
    with Cons.prems(3) start obtain now where now: "raw_clock_ns (bo_clock os (Suc k)) = Some now"
      by (auto split: option.splits)
    have "\<not> room \<le> length samples" using Cons.prems(2) by simp
    with Cons.prems(3) start now cs1
    have "timed_rounds fuel os env room (Suc (Suc k)) qs (samples @ [now - start]) cs1 = Some (r, samples')" by simp
    moreover have "list_all (connected_client env n) cs1" using round cs1 by simp
    ultimately show ?thesis using Cons.IH [of cs1 "samples @ [now - start]" "Suc (Suc k)"] Cons.prems(2) by simp
  next
    case False
    then have "r = latency_round fuel os env q cs"
      using Cons.prems(3) start by (cases "latency_round fuel os env q cs") (auto split: bool.splits)
    with round False show ?thesis by simp
  qed
qed auto

lemma run_latency_keeps:
  assumes "list_all (connected_client env n) cs" and "unat (opt_messages opts) < 2 ^ 57"
    and "run_latency fuel os env opts cs = Some (r, samples)"
  shows "all_fine (connected_client env n) r \<and>
    (\<forall>cs'. r = All_Ran True cs' \<longrightarrow> length samples = unat (opt_messages opts) \<and> sorted samples)"
proof -
  have room: "unat (opt_messages opts * 8) div 8 = unat (opt_messages opts)"
    using assms(2) by (subst unat_mult_lem [THEN iffD1]) simp_all
  note warm = warm_rounds_keeps [OF assms(1), of fuel os "map (\<lambda>i. of_nat i + 1) [0..<unat (opt_warmup opts)]"]
  show ?thesis
  proof (cases "bo_malloc os")
    case False
    with assms(1,3) show ?thesis by (auto simp: run_latency_def)
  next
    case True
    show ?thesis
    proof (cases "\<exists>cs1. warm_rounds fuel os env (map (\<lambda>i. of_nat i + 1) [0..<unat (opt_warmup opts)]) cs = All_Ran True cs1")
      case True
      then obtain cs1 where cs1:
        "warm_rounds fuel os env (map (\<lambda>i. of_nat i + 1) [0..<unat (opt_warmup opts)]) cs = All_Ran True cs1" ..
      with assms(3) \<open>bo_malloc os\<close> obtain xs where
        xs: "timed_rounds fuel os env (unat (opt_messages opts)) 0
          (map (\<lambda>i. ucast (opt_warmup opts + of_nat i + 1)) [0..<unat (opt_messages opts)]) [] cs1 = Some (r, xs)"
        "samples = sort xs"
        by (auto simp: run_latency_def room)
      have "list_all (connected_client env n) cs1" using warm cs1 by simp
      from timed_rounds_keeps [OF this _ xs(1)] xs(2) show ?thesis by simp
    next
      case False
      define w where "w = warm_rounds fuel os env (map (\<lambda>i. of_nat i + 1) [0..<unat (opt_warmup opts)]) cs"
      have "r = w"
        using assms(3) \<open>bo_malloc os\<close> False unfolding run_latency_def w_def [symmetric]
        by (cases w) (auto split: bool.splits)
      with warm False show ?thesis unfolding w_def [symmetric] by simp
    qed
  qed
qed

section \<open>Connecting\<close>

text \<open>No crash, and \<open>Q\<close> when all steps succeed.\<close>

fun succeeds_in :: "(('st, 'req, 'p) client \<Rightarrow> bool) \<Rightarrow> ('st, 'req, 'p) run \<Rightarrow> bool" where
  "succeeds_in Q Client_Crashed = False"
| "succeeds_in Q Client_Stuck = True"
| "succeeds_in Q (Ran ok c) = (ok \<longrightarrow> Q c)"

lemma fine_succeeds: "fine Q r \<Longrightarrow> succeeds_in Q r"
  by (cases r) auto

lemma succeeds_append:
  "succeeds_in P (attempt ps c) \<Longrightarrow> (\<And>c. P c \<Longrightarrow> succeeds_in Q (attempt qs c)) \<Longrightarrow> succeeds_in Q (attempt (ps @ qs) c)"
  by (cases "attempt ps c") (auto simp: attempt_append split: bool.split)

lemma succeeds_Cons:
  "succeeds_in P (p c) \<Longrightarrow> (\<And>c. P c \<Longrightarrow> succeeds_in Q (attempt qs c)) \<Longrightarrow> succeeds_in Q (attempt (p # qs) c)"
  using succeeds_append [of P "[p]" c Q qs] by (cases "p c") (auto split: bool.splits)

lemma bind_object_types:
  assumes "well_typed env i n c" and "0 < i" and "i < 64"
  shows "succeeds_in (well_typed env (Suc i) n) (bind_object env i c)"
proof -
  let ?p = "cl_next c"
  let ?q = "Bind (bc_global (cl_state c)) bench_interface (bc_version (cl_state c)) ?p :: bench_call cl_call"
  define c' where "c' = log_call ?q (c\<lparr>cl_next := Suc ?p, cl_live := (cl_live c)(?p \<mapsto> bench_interface),
    cl_state := (cl_state c)\<lparr>bc_benchmarks := (bc_benchmarks (cl_state c))[i := Some ?p]\<rparr>\<rparr>)"
  have run: "bind_object env i c = Ran True c'"
    using assms(1)
    by (simp add: bind_object_def bind_global_def obtain_proxy_def well_typed_def c'_def log_call_def Let_def)
  have ok: "objects_ok c" using assms(1) by (simp add: well_typed_def)
  then have len: "length (bc_benchmarks (cl_state c)) = 64" "bc_benchmark (cl_state c) = bc_benchmarks (cl_state c) ! 0"
    by (simp_all add: objects_ok_def Let_def)
  have "objects_ok c'"
    by (rule objects_ok_bind [OF ok assms(3), of c' bench_interface "cl_state c'"])
       (use assms(2) len in \<open>simp_all add: c'_def log_call_def\<close>)
  with assms len have "well_typed env (Suc i) n c'"
    by (auto simp: well_typed_def c'_def log_call_def nth_list_update less_Suc_eq)
  with run show ?thesis by simp
qed

lemma bind_objects_types:
  assumes "0 < i" and "i + j \<le> 64"
  shows "well_typed env i n c \<Longrightarrow> succeeds_in (well_typed env (i + j) n) (attempt (map (bind_object env) [i..<i + j]) c)"
  using assms
proof (induction j arbitrary: i c)
  case (Suc j)
  have eq: "[i..<i + Suc j] = i # [Suc i..<Suc i + j]" by (subst upt_conv_Cons) simp_all
  have "succeeds_in (well_typed env (Suc i) n) (bind_object env i c)"
    by (rule bind_object_types) (use Suc.prems in simp_all)
  then show ?case
    unfolding eq list.map
    by (rule succeeds_Cons) (use Suc.IH [of "Suc i"] Suc.prems in simp)
qed simp

lemma listen_object_types:
  assumes "well_typed env n m c" and "i < n"
  shows "succeeds_in (well_typed env n m) (attempt (listen_object i) c)"
proof -
  from object_usable [OF assms] obtain p where p: "bc_benchmarks (cl_state c) ! i = Some p" "cl_live c p \<noteq> None"
    by (auto simp: usable_def split: option.splits)
  define c' where "c' = log_call (Listen p) c\<lparr>cl_state := (cl_state c)\<lparr>bc_listening := p # bc_listening (cl_state c)\<rparr>\<rparr>"
  have "attempt (listen_object i) c = Ran True c'"
    using p by (simp add: listen_object_def client_step_defs c'_def)
  moreover have "well_typed env n m c' = well_typed env n m c"
    by (rule well_typed_cong) (simp_all add: c'_def log_call_def)
  ultimately show ?thesis using assms(1) by simp
qed

lemma listen_objects_types:
  "well_typed env n m c \<Longrightarrow> j \<le> n \<Longrightarrow>
     succeeds_in (well_typed env n m) (attempt (concat (map listen_object [0..<j])) c)"
proof (induction j)
  case (Suc j)
  then have "succeeds_in (well_typed env n m) (attempt (concat (map listen_object [0..<j])) c)" by simp
  from succeeds_append [OF this listen_object_types [where i = j]] Suc.prems(2) show ?case by simp
qed simp

lemma connect_start_types:
  fixes env :: "'p bench_env"
  assumes "\<forall>k. ce_created env k" and "0 < unat (opt_objects opts)" and "unat (opt_objects opts) \<le> 64"
  shows "succeeds_in (well_typed env 1 (unat (opt_objects opts)))
    (attempt (connect_start os env opts) (start_client (bench_client_init flushes) p))"
proof -
  define c1 :: "'p bench_cl" where "c1 = log_call (Listen 0) (log_call (Get_Registry 0) ((start_client (bench_client_init flushes) p)
    \<lparr>cl_next := Suc 0, cl_live := [0 \<mapsto> ''wl_registry''],
     cl_state := (bench_client_init flushes)\<lparr>bc_registry := Some 0\<rparr>\<rparr>))"
  have "attempt [get_registry env (\<lambda>p s. s\<lparr>bc_registry := p\<rparr>), add_listener bc_registry]
      (start_client (bench_client_init flushes) p) = Ran True c1"
    using assms(1) by (simp add: client_step_defs start_client_def c1_def Let_def)
  moreover have "well_typed env 0 0 c1"
    using assms(1)
    by (simp add: well_typed_def objects_ok_def c1_def log_call_def start_client_def bench_client_init_def
        max_objects_def Let_def)
  ultimately have "succeeds_in (well_typed env 0 0)
      (attempt [get_registry env (\<lambda>p s. s\<lparr>bc_registry := p\<rparr>), add_listener bc_registry]
        (start_client (bench_client_init flushes) p))" by simp
  moreover have "succeeds_in (well_typed env 1 (unat (opt_objects opts)))
      (attempt [trip env bench_targets (bench_listeners os env), require_set bc_benchmark,
        assign (\<lambda>s. s\<lparr>bc_object_count := opt_objects opts\<rparr>)] c)" if "well_typed env 0 0 c" for c
  proof (rule succeeds_Cons)
    show "succeeds_in (well_typed env 0 0) (trip env bench_targets (bench_listeners os env) c)"
      unfolding trip_def by (rule fine_succeeds, rule bench_steady.await_keeps [OF that])
    fix c assume c: "well_typed env 0 0 c"
    then have first: "bc_benchmark (cl_state c) = bc_benchmarks (cl_state c) ! 0" and ok: "objects_ok c"
      by (simp_all add: well_typed_def objects_ok_def Let_def)
    let ?c = "c\<lparr>cl_state := (cl_state c)\<lparr>bc_object_count := opt_objects opts\<rparr>\<rparr>"
    have "objects_ok ?c" by (subst objects_ok_cong [of _ c]) (simp_all add: ok)
    then show "succeeds_in (well_typed env 1 (unat (opt_objects opts)))
        (attempt [require_set bc_benchmark, assign (\<lambda>s. s\<lparr>bc_object_count := opt_objects opts\<rparr>)] c)"
      using c assms(2,3) first
      by (cases "bc_benchmarks (cl_state c) ! 0") (simp_all add: require_set_def require_def assign_def well_typed_def)
  qed
  ultimately have "succeeds_in (well_typed env 1 (unat (opt_objects opts)))
      (attempt ([get_registry env (\<lambda>p s. s\<lparr>bc_registry := p\<rparr>), add_listener bc_registry] @
        [trip env bench_targets (bench_listeners os env), require_set bc_benchmark,
         assign (\<lambda>s. s\<lparr>bc_object_count := opt_objects opts\<rparr>)]) (start_client (bench_client_init flushes) p))"
    by (rule succeeds_append)
  then show ?thesis by (simp add: connect_start_def)
qed

lemma main_connect_types:
  assumes "\<forall>k. ce_created env k" and "0 < unat (opt_objects opts)" and "unat (opt_objects opts) \<le> 64"
  shows "succeeds_in (connected_client env (unat (opt_objects opts)))
    (main_connect os env opts (start_client (bench_client_init flushes) p))"
proof (cases "ce_display env")
  case True
  let ?n = "unat (opt_objects opts)"
  have "1 + (?n - 1) = ?n" using assms(2) by simp
  have "succeeds_in (well_typed env ?n ?n) (attempt (connect_client os env opts) (start_client (bench_client_init flushes) p))"
  proof -
    have eq: "connect_client os env opts = connect_start os env opts @
        (map (bind_object env) [1..<1 + (?n - 1)] @ (concat (map listen_object [0..<?n]) @ [flush_step]))"
      unfolding \<open>1 + (?n - 1) = ?n\<close> by (simp add: connect_client_def connect_start_def)
    show ?thesis
      unfolding eq
    proof (rule succeeds_append [OF connect_start_types [OF assms]], rule succeeds_append)
      fix c assume "well_typed env 1 ?n c"
      then show "succeeds_in (well_typed env (1 + (?n - 1)) ?n) (attempt (map (bind_object env) [1..<1 + (?n - 1)]) c)"
        by (rule bind_objects_types [rotated -1]) (use assms(2,3) in simp_all)
    next
      fix c assume "well_typed env (1 + (?n - 1)) ?n c"
      then have c: "well_typed env ?n ?n c" by (simp only: \<open>1 + (?n - 1) = ?n\<close>)
      show "succeeds_in (well_typed env ?n ?n) (attempt (concat (map listen_object [0..<?n]) @ [flush_step]) c)"
      proof (rule succeeds_append [OF listen_objects_types [OF c order_refl]])
        fix c assume "well_typed env ?n ?n c"
        from flush_step_keeps [OF this] show "succeeds_in (well_typed env ?n ?n) (attempt [flush_step] c)"
          by (cases "flush_step c") (auto split: bool.split)
      qed
    qed
  qed
  then show ?thesis
    using True assms(2) by (cases "attempt (connect_client os env opts) (start_client (bench_client_init flushes) p)")
      (auto simp: main_connect_def connected_client_def)
qed (simp add: main_connect_def)

section \<open>The main function\<close>

text \<open>The loop over the connections, when a failing step ends it.\<close>

fun all_succeed :: "('c \<Rightarrow> bool) \<Rightarrow> 'c runs \<Rightarrow> bool" where
  "all_succeed Q All_Crashed = False"
| "all_succeed Q All_Stuck = True"
| "all_succeed Q (All_Ran ok cs) = (ok \<longrightarrow> list_all Q cs)"

lemma all_fine_succeed: "all_fine Q r \<Longrightarrow> all_succeed Q r"
  by (cases r) auto

lemma each_succeeds:
  "\<forall>c. P c \<longrightarrow> succeeds_in Q (step c) \<Longrightarrow> list_all P cs \<Longrightarrow> all_succeed Q (each step cs)"
proof (induction cs)
  case (Cons c cs)
  then have "succeeds_in Q (step c)" "all_succeed Q (each step cs)" by simp_all
  then show ?case by (cases "step c"; cases "each step cs") (auto split: bool.split)
qed simp

text \<open>The objects that are left to destroy: distinct, and none of them the registry.\<close>

definition left_to_destroy :: "nat \<Rightarrow> 'p bench_cl \<Rightarrow> bool" where
  "left_to_destroy j c \<longleftrightarrow>
     (\<exists>g. bc_registry (cl_state c) = Some g \<and> cl_live c g \<noteq> None) \<and>
     (\<forall>i<j. \<exists>p. bc_benchmarks (cl_state c) ! i = Some p \<and> cl_live c p \<noteq> None \<and> bc_registry (cl_state c) \<noteq> Some p \<and>
        (\<forall>l<i. bc_benchmarks (cl_state c) ! l \<noteq> Some p))"

lemma connected_left:
  assumes "connected_client env n c"
  shows "left_to_destroy n c"
proof -
  have W: "objects_ok c" "n \<le> 64" "\<forall>i<n. bc_benchmarks (cl_state c) ! i \<noteq> None"
    using assms by (simp_all add: connected_client_def well_typed_def)
  have "\<exists>p. bc_benchmarks (cl_state c) ! i = Some p \<and> cl_live c p \<noteq> None \<and> bc_registry (cl_state c) \<noteq> Some p \<and>
      (\<forall>l<i. bc_benchmarks (cl_state c) ! l \<noteq> Some p)" if i: "i < n" for i
  proof -
    from W(3) i obtain p where p: "bc_benchmarks (cl_state c) ! i = Some p" by blast
    have "\<forall>l<i. bc_benchmarks (cl_state c) ! l \<noteq> Some p"
    proof (intro allI impI notI)
      fix l assume "l < i" "bc_benchmarks (cl_state c) ! l = Some p"
      with objects_ok_distinct [OF W(1), of l i p] i W(2) p show False by simp
    qed
    with objects_ok_live [OF W(1) _ p] i W(2) p show ?thesis by auto
  qed
  moreover have "\<exists>g. bc_registry (cl_state c) = Some g \<and> cl_live c g \<noteq> None"
    using W(1) by (auto simp: objects_ok_def Let_def)
  ultimately show ?thesis unfolding left_to_destroy_def by blast
qed

lemma destroy_all:
  "left_to_destroy j c \<Longrightarrow>
     \<exists>c'. attempt (concat (map destroy_object (rev [0..<j]))) c = Ran True c' \<and> left_to_destroy 0 c'"
proof (induction j arbitrary: c)
  case (Suc j)
  from Suc.prems obtain p where p: "bc_benchmarks (cl_state c) ! j = Some p" "cl_live c p \<noteq> None"
    "bc_registry (cl_state c) \<noteq> Some p" "\<forall>l<j. bc_benchmarks (cl_state c) ! l \<noteq> Some p"
    unfolding left_to_destroy_def by (meson lessI)
  define c1 where "c1 = log_call (Destroy_Proxy None p) (c\<lparr>cl_live := (cl_live c)(p := None),
    cl_state := (cl_state c)\<lparr>bc_object_count := of_nat j\<rparr>\<rparr>)"
  have same: "bc_benchmarks (cl_state c1) = bc_benchmarks (cl_state c)" "bc_registry (cl_state c1) = bc_registry (cl_state c)"
    "cl_live c1 = (cl_live c)(p := None)"
    by (simp_all add: c1_def log_call_def)
  have "left_to_destroy j c1"
    unfolding left_to_destroy_def same
  proof (intro conjI allI impI)
    show "\<exists>g. bc_registry (cl_state c) = Some g \<and> ((cl_live c)(p := None)) g \<noteq> None"
      using Suc.prems p(3) unfolding left_to_destroy_def by (metis fun_upd_other)
    fix i assume i: "i < j"
    then have "i < Suc j" by simp
    with Suc.prems obtain q where q: "bc_benchmarks (cl_state c) ! i = Some q" "cl_live c q \<noteq> None"
      "bc_registry (cl_state c) \<noteq> Some q" "\<forall>l<i. bc_benchmarks (cl_state c) ! l \<noteq> Some q"
      unfolding left_to_destroy_def by blast
    moreover have "q \<noteq> p" using p(4) q(1) i by blast
    ultimately show "\<exists>q. bc_benchmarks (cl_state c) ! i = Some q \<and> ((cl_live c)(p := None)) q \<noteq> None \<and>
        bc_registry (cl_state c) \<noteq> Some q \<and> (\<forall>l<i. bc_benchmarks (cl_state c) ! l \<noteq> Some q)"
      by simp
  qed
  from Suc.IH [OF this] obtain c2 where
    c2: "attempt (concat (map destroy_object (rev [0..<j]))) c1 = Ran True c2" "left_to_destroy 0 c2" by blast
  have "attempt (destroy_object j) c = Ran True c1"
    using p by (simp add: destroy_object_def assign_def destroy_proxy_def c1_def log_call_def)
  from attempt_append_True [OF this] c2 show ?case by (intro exI [of _ c2]) simp
qed simp

lemma main_cleanup_types:
  assumes "connected_client env n c"
  shows "succeeds_in (\<lambda>c. True) (main_cleanup c)"
proof -
  have n: "unat (bc_object_count (cl_state c)) = n"
    using assms by (simp add: connected_client_def well_typed_def unat_of_nat)
  from destroy_all [OF connected_left [OF assms]] obtain c1 where
    "attempt (concat (map destroy_object (rev [0..<n]))) c = Ran True c1" "left_to_destroy 0 c1" by blast
  then show ?thesis
    by (auto simp: main_cleanup_def destroy_objects_def n left_to_destroy_def destroy_proxy_def plain_def)
qed

text \<open>An end of the main function that is no crash, and no success unless the server has ended with 0.\<close>

definition safe_exit :: "'p main_world \<Rightarrow> 'p bench_cl main_exit \<Rightarrow> bool" where
  "safe_exit world r \<longleftrightarrow>
     r \<noteq> MX_Crashed \<and>
     (\<forall>out cs. r = MX_Exit EXIT_SUCCESS out cs \<longrightarrow> mw_waitpid world \<and> mw_server world cs = Some 0)"

lemma safe_failure: "safe_exit world MX_Stuck" "safe_exit world (MX_Exit EXIT_FAILURE out cs)"
  by (simp_all add: safe_exit_def EXIT_FAILURE_def EXIT_SUCCESS_def)

lemma main_continue_safe:
  "all_succeed Q r \<Longrightarrow> (\<And>cs. list_all Q cs \<Longrightarrow> safe_exit world (go cs)) \<Longrightarrow> safe_exit world (main_continue r out go)"
  by (cases r) (simp_all add: main_continue_def safe_failure)

lemma main_sample_safe:
  "(\<And>out. safe_exit world (go out)) \<Longrightarrow> safe_exit world (main_sample idle sample out cs go)"
  by (simp add: main_sample_def safe_failure split: option.split)

lemma main_clock_safe:
  "(\<And>time. safe_exit world (go time)) \<Longrightarrow> safe_exit world (main_clock os k out cs go)"
  by (simp add: main_clock_def safe_failure split: option.split)

lemma main_finish_safe:
  assumes "list_all (connected_client env n) cs"
  shows "safe_exit world (main_finish world out cs)"
  unfolding main_finish_def
proof (rule main_continue_safe)
  have "\<forall>c. connected_client env n c \<longrightarrow> succeeds_in (\<lambda>c. True) (main_cleanup c)"
    using main_cleanup_types by blast
  from each_succeeds [OF this assms] show "all_succeed (\<lambda>c. True) (each main_cleanup cs)" .
qed (auto simp: safe_exit_def EXIT_FAILURE_def EXIT_SUCCESS_def split: option.split)

lemma main_phases_safe:
  assumes "list_all (connected_client env n) cs"
  shows "safe_exit world (main_phases fuel os env world run out cs)"
  unfolding main_phases_def Let_def
proof (rule main_continue_safe [OF all_fine_succeed [OF send_phase_keeps [OF assms]]], rule main_sample_safe,
    rule main_clock_safe)
  fix cs out start
  assume "list_all (connected_client env n) cs"
  note phase = all_fine_succeed [OF send_phase_keeps [OF this]]
  show "safe_exit world
      (main_continue (send_phase fuel os env (opt_messages (run_options run)) (opt_batch (run_options run)) 2 cs) out
        (\<lambda>cs. main_clock os 1 out cs (\<lambda>now. main_finish world
           (if run_mode run = Idle then out
            else out @ [ML_Throughput (run_connections run) (opt_objects (run_options run))
                   (opt_messages (run_options run) * run_connections run) (opt_batch (run_options run)) (now - start)])
           cs)))"
    by (rule main_continue_safe [OF phase], rule main_clock_safe, rule main_finish_safe)
qed

lemma main_latency_safe:
  assumes "list_all (connected_client env n) cs" and "0 < unat (opt_messages (run_options run))"
    and "unat (opt_messages (run_options run)) < 2 ^ 57"
  shows "safe_exit world (main_latency fuel os env world run out cs)"
proof (cases "run_latency fuel os env (run_options run) cs")
  case None
  then show ?thesis by (simp add: main_latency_def safe_failure)
next
  case (Some result)
  then obtain r samples where run: "run_latency fuel os env (run_options run) cs = Some (r, samples)"
    by (cases result) simp
  note keeps = run_latency_keeps [OF assms(1,3) run]
  show ?thesis
  proof (cases "\<exists>cs'. r = All_Ran True cs'")
    case True
    then obtain cs' where r: "r = All_Ran True cs'" ..
    with keeps have samples: "length samples = unat (opt_messages (run_options run))" "sort samples = samples"
      and cs': "list_all (connected_client env n) cs'"
      by (simp_all add: sorted_sort_id)
    from latency_result_total [OF samples(1) assms(2,3), of 0 no_result] obtain res where
      "latency_result 0 samples (opt_messages (run_options run)) no_result = Some res"
      unfolding samples(2) by blast
    with run r main_finish_safe [OF cs'] show ?thesis
      by (simp add: main_latency_def main_continue_def latency_line_def)
  next
    case False
    with keeps run show ?thesis
      by (cases r) (simp_all add: main_latency_def main_continue_def safe_failure)
  qed
qed

lemma main_run_safe:
  assumes "\<forall>k. ce_created env k" and "bench_run_ok run"
    and "opt_latency (run_options run) \<Longrightarrow> unat (opt_messages (run_options run)) < 2 ^ 57"
  shows "safe_exit world (main_run fuel os env world run)"
proof -
  have n: "0 < unat (opt_objects (run_options run))" "unat (opt_objects (run_options run)) \<le> 64"
    "0 < unat (opt_messages (run_options run))"
    using assms(2) by (auto simp: bench_run_ok_def Let_def max_objects_def word_le_nat_alt word_less_nat_alt unat_gt_0)
  have start: "\<forall>c. (\<exists>flushes p. c = start_client (bench_client_init flushes) p) \<longrightarrow>
      succeeds_in (connected_client env (unat (opt_objects (run_options run)))) (main_connect os env (run_options run) c)"
    using main_connect_types [OF assms(1) n(1,2)] by blast
  have "list_all (\<lambda>c. \<exists>flushes p. c = start_client (bench_client_init flushes) p)
      (main_clients world (unat (run_connections run)))"
    by (auto simp: main_clients_def list_all_iff)
  note connect = each_succeeds [OF start this]
  have "safe_exit world (main_continue
      (each (main_connect os env (run_options run)) (main_clients world (unat (run_connections run)))) []
      (\<lambda>cs. main_sample (run_mode run = Idle)
        (benchmark_resource_sample ''libwayland'' ''idle'' (run_connections run) (mw_idle world) (run_idle_ms run)) [] cs
        (\<lambda>out. if opt_latency (run_options run) then main_latency fuel os env world run out cs
               else main_phases fuel os env world run out cs)))"
    by (rule main_continue_safe [OF connect], rule main_sample_safe)
       (auto intro: main_latency_safe main_phases_safe n(3) assms(3))
  then show ?thesis by (simp add: main_run_def Let_def safe_failure)
qed

lemma peer_then_safe: "(\<And>c. rest c \<noteq> PX_Crashed) \<Longrightarrow> peer_then steps c rest \<noteq> PX_Crashed"
  by (auto simp: peer_then_def split: option.split)

lemma peer_clock_safe: "(\<And>time. rest time \<noteq> PX_Crashed) \<Longrightarrow> peer_clock env k rest \<noteq> PX_Crashed"
  by (simp add: peer_clock_def split: option.split)

lemma peer_report_safe: "peer_report env child report c \<noteq> PX_Crashed"
  by (simp add: peer_report_def split: option.split)

lemma peer_main_safe: "pl_registry lib \<Longrightarrow> (\<And>c. rest c \<noteq> PX_Crashed) \<Longrightarrow> peer_main env lib cs rest \<noteq> PX_Crashed"
  by (simp add: peer_main_def)

lemma raw_benchmark_safe:
  assumes "pl_registry lib"
  shows "transmit_benchmark en env lib child_cuts client_cuts options \<noteq> PX_Crashed"
    and "receive_benchmark en env lib child_cuts client_cuts options \<noteq> PX_Crashed"
  unfolding transmit_benchmark_def client_transmit_main_def receive_benchmark_def client_receive_main_def
  by (intro peer_main_safe [OF assms] peer_then_safe peer_clock_safe peer_report_safe)
     (simp add: peer_main_safe [OF assms] peer_then_safe peer_clock_safe peer_report_safe)

section \<open>Property\<close>

text \<open>C38: For all arguments, whatever the library, the compositors and the processes answer and however long they take,
  the program does not go wrong: it follows no null or dangling pointer, stays inside its arrays, and reads no
  sample that is not there, as long as objects can be created (and, in the latency mode, the number of
  messages is below \<open>2 ^ 57\<close>). When it reports success for a benchmark of clients and server, the server has
  ended with 0.\<close>

theorem libwayland_main_safe:
  assumes "\<forall>k. ce_created env k" and "pl_registry (mw_library world)"
    and "\<And>run. bench_arguments argv = Some run \<Longrightarrow> run_mode run = Latency \<Longrightarrow>
      unat (opt_messages (run_options run)) < 2 ^ 57"
  shows "libwayland_main fuel os env world argv \<noteq> MX_Crashed \<and>
    (\<forall>run out cs. bench_arguments argv = Some run \<longrightarrow> run_mode run \<notin> {Client_Tx, Client_Rx} \<longrightarrow>
       libwayland_main fuel os env world argv = MX_Exit EXIT_SUCCESS out cs \<longrightarrow>
         mw_waitpid world \<and> mw_server world cs = Some 0)"
proof (cases "bench_arguments argv")
  case None
  then show ?thesis by (simp add: libwayland_main_def)
next
  case (Some run)
  then have ok: "bench_run_ok run" "opt_latency (run_options run) = (run_mode run = Latency)"
    by (auto simp: bench_arguments_def Let_def bind_eq_Some_conv split: if_splits)
  have "safe_exit world (main_run fuel os env world run)"
    using main_run_safe [OF assms(1) ok(1)] assms(3) [OF Some] ok(2) by blast
  then show ?thesis
    using Some raw_benchmark_safe [OF assms(2)]
    by (auto simp: libwayland_main_def main_raw_def safe_exit_def split: peer_exit.split option.split)
qed

theorem libwayland_main_safe_witness:
  "libwayland_main 1 tiny_os (bench_link (run_options tiny_run)) (tiny_world (run_options tiny_run)) [''bench'', ''1'']
     \<noteq> MX_Crashed"
proof -
  have "run_mode run \<noteq> Latency" if "bench_arguments [''bench'', ''1''] = Some run" for run
    using that by (auto simp: bench_arguments_def argument_def Let_def bind_eq_Some_conv split: if_splits)
  moreover have "\<forall>k. ce_created (bench_link (run_options tiny_run)) k"
    by (simp add: bench_link_def)
  moreover have "pl_registry (mw_library (tiny_world (run_options tiny_run)))"
    by (simp add: tiny_world_def tiny_library_def)
  ultimately show ?thesis
    using libwayland_main_safe [of "bench_link (run_options tiny_run)" "tiny_world (run_options tiny_run)"
        "[''bench'', ''1'']" 1 tiny_os] by blast
qed

end
