(* ===== verification/Spec2Isabelle.thy ===== *)
theory Spec2Isabelle
  imports Prelude Wire Completion Reactor Pool Stream Ancillary Libwayland
    Touch_Server Pointer_Server Keyboard_Server Output_Server Subsurface_Server Shell_Server
    Xdg_Server Dmabuf_Server Viewport_Server Shm_Server Data_Device_Server
    Wayland_Client Client_Safety Touch_Client Pointer_Client Keyboard_Client Output_Client
    Shell_Client Subsurface_Client Xdg_Client Dmabuf_Client Viewport_Client Shm_Client Data_Device_Client
    Byte_Io Bench_Options Bench_Stats Bench_Server Raw_Benchmark Bench_Client Raw_Peer Bench_Resource
    Bench_Interleaving Bench_Main Bench_Safety
begin

text \<open>
  Verification development of wayring, a Wayland implementation over io_uring.

  The repository has two halves. \<open>src/src/*.zig\<close> is the library: a wire codec, a framer for the byte stream of
  a connection, a queue of received descriptors, pools shared by all connections of a reactor, and client
  and server endpoints over io_uring. \<open>src/bench/*.c\<close> are the C programs it is tested and measured against,
  written with libwayland: for each protocol a client and a server that play one scenario and check each
  other, and the benchmarks. The development models the storage and codec layers of the first half, and all
  programs of the second.

  \<^bold>\<open>The library layers.\<close> \<open>Prelude\<close> has the integer types (\<open>u8\<close> to \<open>u64\<close>, \<open>usize\<close>), the errors, intrusive chains
  through index tables and the locales \<open>slot_allocator\<close> and \<open>lease_pool\<close>, the contract of a table whose slots are
  taken and given back. The theories below it follow the files of \<open>src/src\<close>:

  \<^item> \<open>Wire\<close> (\<open>wire.zig\<close>): headers, messages and the argument cursor. Both codecs are exact inverses, and every
    string, array, integer and object argument that is encoded is read back.
  \<^item> \<open>Completion\<close> and \<open>Reactor\<close> (\<open>completion.zig\<close>, \<open>reactor.zig\<close>): the token in \<open>user_data\<close> and the directory that routes a
    completion to its connection. A token of a slot that was given back never reaches the slot's next owner
    until the generation has gone round.
  \<^item> \<open>Pool\<close> (\<open>pool.zig\<close>): blocks and descriptor entries under leases with generations. No two leases are for one
    block, and a lease that was released or used is refused.
  \<^item> \<open>Stream\<close> (\<open>stream.zig\<close>): the framer with its three kinds of scratch space. However the stream is cut into
    buffers the messages are those of the whole stream; a framer of the shared pool never lacks space.
  \<^item> \<open>Ancillary\<close> (\<open>ancillary.zig\<close>): \<open>SCM_RIGHTS\<close> control data and the FIFO of received descriptors. Every
    descriptor the kernel gives is owned by one party or closed, on the error paths too.

  \<^bold>\<open>Servers.\<close> \<open>Libwayland\<close> is the server side of the library: a handler is a function from a request and the state
  (the struct of globals of the C file as a record) to the new state and the calls it makes. \<open>deliver\<close> runs
  a handler for the requests of a client that follow the protocol, a session is a list of them, and
  \<open>server_program\<close> is the main function of an interop server with all its early returns. \<open>Touch_Server\<close>,
  \<open>Pointer_Server\<close>, \<open>Keyboard_Server\<close>, \<open>Output_Server\<close>, \<open>Subsurface_Server\<close>, \<open>Shell_Server\<close>, \<open>Xdg_Server\<close>, \<open>Dmabuf_Server\<close>,
  \<open>Viewport_Server\<close>, \<open>Shm_Server\<close> and \<open>Data_Device_Server\<close> model the file of the same name, one definition for each
  C function. Each is an interpretation of \<open>safe_server\<close> (no handler ever uses a resource that is gone), or of
  \<open>guarded_server\<close> where this needs clients that avoid the requests the theorem names; and for each it is
  shown which sessions end with success.

  \<^bold>\<open>Clients.\<close> \<open>Wayland_Client\<close> is the client side: a program is the list of its statements, with the calls of the
  library, \<open>goto cleanup\<close> on a failure, and round trips during which the listeners run. \<open>Client_Safety\<close> is a program
  logic for the null and dangling pointers of such programs, with the locale \<open>safe_listeners\<close> for programs whose
  listeners keep its assertion. The \<open>*_Client\<close> theories show for each client that it does not crash whatever a
  peer sends, that its cleanup leaves no object (or which it leaves), and that it and the modelled server, run
  against each other, both end with success. Three clients need a peer that avoids certain events, which the
  theorems name and show to crash them: the pointer client those of versions after 8, which its listener
  has no functions for and the library aborts on, the shared-memory client frame events (one with another time is fatal), the
  data-device client a drop or enter without an offer. A library that cannot create an object is
  outside these theorems: the clients do not test for all of them.

  \<^bold>\<open>Benchmarks.\<close> \<open>Byte_Io\<close> has the loops around \<open>read\<close> and \<open>write\<close> over a kernel that cuts, interrupts and fails
  (locales \<open>byte_reader\<close> and \<open>byte_writer\<close>, interpreted on the loops of both programs). \<open>Bench_Options\<close> has the arguments,
  \<open>Bench_Stats\<close> the percentiles. \<open>Raw_Benchmark\<close> is \<open>raw.c\<close>. \<open>Bench_Server\<close> is \<open>libwayland-server.c\<close>; \<open>Bench_Interleaving\<close> shows
  that with several clients, whose requests come in any order, it does to each what it does to that client
  alone. \<open>libwayland-client.c\<close> is in \<open>Bench_Client\<close> (connecting, both phases, latency rounds), \<open>Raw_Peer\<close> (the modes
  \<open>client-tx\<close> and \<open>client-rx\<close> and their child processes, down to the bytes on the socket), and \<open>Bench_Main\<close> (the
  main function). \<open>Bench_Resource\<close> is \<open>resource.c\<close>. The theorem of \<open>Bench_Main\<close> composes arguments, clients, the
  server, interleaving, sampling and statistics: the program succeeds and prints the right totals. \<open>Bench_Safety\<close>
  has the type invariant of \<open>struct client_state\<close>, which holds against any server.

  \<^bold>\<open>Integers, time and fuel.\<close> Integers of fixed width are words in the library layers and the benchmarks, so that
  sums and products wrap where the code's do; sums of \<open>usize\<close> that the source checks are checked. The \<open>int\<close> counters
  of requests in the interop servers are unbounded: in C they would overflow, which is undefined, after \<open>2 ^ 31\<close>
  requests of one client. Bounds such as \<open>2 ^ 57\<close> messages in theorems are where the code's own arithmetic stops
  being right. Loops
  that wait for somebody else (a dispatch until a condition holds, a read) have fuel or a list of answers: running
  out means that the program is still waiting, which is a result of its own (\<open>Client_Stuck\<close>, \<open>Running\<close>, \<open>MX_Stuck\<close>,
  \<open>None\<close>). The theorems that say a program ends therefore exclude it: one unit of fuel is enough for every
  wait of the benchmark clients, since each is answered at the first dispatch, and a list of answers has to
  supply as many transfers as there are bytes.

  \<^bold>\<open>What is assumed.\<close> libwayland, the kernel and the C library are arguments of the definitions: which objects
  can be created, how long a flush blocks, what the clock says, how transfers are cut, what \<open>/proc\<close> contains.
  The theorems about success name the answers they need. Protocol errors are what libwayland makes of them: a
  request whose handler is missing, or whose arguments are no objects, is never delivered.

  \<^bold>\<open>Not modelled.\<close> The io_uring backend (\<open>io_uring.zig\<close>, \<open>unix_socket.zig\<close>) is a layer over the kernel's ring; the
  endpoints (\<open>server.zig\<close>, \<open>client.zig\<close>, \<open>connection.zig\<close>, \<open>tx.zig\<close>, \<open>statechart.zig\<close>) and the object tables and dispatch
  (\<open>objects.zig\<close>, \<open>dispatch.zig\<close>, \<open>metadata.zig\<close>, \<open>shm.zig\<close>) are generic over protocol types that \<open>codegen.zig\<close> generates
  during the build and that the repository does not contain. Floating point (the printed rates and the mean
  of the samples) is an argument, text printed to the standard error is left out, and the order of events
  between two processes is what the sockets enforce. Memory that is freed at the end of a program is not
  tracked.
\<close>

end
